(* ===== verification/Prelude.thy ===== *)
theory Prelude
  imports Main "HOL-Library.Word" "HOL-Library.Product_Lexorder" "HOL-Library.List_Lexorder"
    "HOL-Library.Char_ord"
begin

text \<open>
  What every component of the development shares: the integer types of the Rust sources with
  their checked, saturating and wrapping operations, the fixed vocabulary of list updates
  (\<open>retain\<close>, \<open>iter_mut().find\<close>), and the contract of a state machine that consumes events and
  emits outputs, with the facts about whole runs that follow from facts about one step.

  Unsigned integers that are only counted or compared (u8, u16, u64, usize) are \<open>nat\<close>; signed
  integers, and the u32 pixel extents that are added to them, are \<open>int\<close>. A width is never
  implicit: each operation that can leave it names the Rust operation it stands for.
\<close>

section \<open>Machine integers\<close>

type_synonym uuid = "128 word"
type_synonym i16 = int
type_synonym i32 = int
type_synonym extent = int
type_synonym u8 = nat
type_synonym u16 = nat
type_synonym u32 = nat
type_synonym u64 = nat
type_synonym usize = nat

abbreviation i32_min :: int where "i32_min \<equiv> - 2147483648"
abbreviation i32_max :: int where "i32_max \<equiv> 2147483647"
abbreviation u32_max :: int where "u32_max \<equiv> 4294967295"
abbreviation u64_max :: nat where "u64_max \<equiv> 18446744073709551615"

definition in_i32 :: "int \<Rightarrow> bool" where
  "in_i32 v \<longleftrightarrow> i32_min \<le> v \<and> v \<le> i32_max"

definition in_u32 :: "int \<Rightarrow> bool" where
  "in_u32 v \<longleftrightarrow> 0 \<le> v \<and> v \<le> u32_max"

text \<open>\<open>Ord::clamp\<close>, for a range that is not empty (Rust panics on an empty one).\<close>

definition clamp :: "'a::linorder \<Rightarrow> 'a \<Rightarrow> 'a \<Rightarrow> 'a" where
  "clamp lo hi v = (if v < lo then lo else if hi < v then hi else v)"

definition sat_i32 :: "int \<Rightarrow> i32" where
  "sat_i32 v = clamp i32_min i32_max v"

text \<open>Two's complement wrap-around, the release-mode meaning of i32 arithmetic and of \<open>as i32\<close>.\<close>

definition wrap_i32 :: "int \<Rightarrow> i32" where
  "wrap_i32 v = (v + 2147483648) mod 4294967296 - 2147483648"

definition checked_i32 :: "int \<Rightarrow> i32 option" where
  "checked_i32 v = (if in_i32 v then Some v else None)"

definition checked_u64 :: "nat \<Rightarrow> u64 option" where
  "checked_u64 v = (if v \<le> u64_max then Some v else None)"

definition checked_inc :: "u64 \<Rightarrow> u64 option" where
  "checked_inc v = checked_u64 (Suc v)"

named_theorems int_bounds \<open>ranges and cases of the checked, saturating and wrapping operations\<close>

lemma clamp_bounds [int_bounds]: "lo \<le> hi \<Longrightarrow> lo \<le> clamp lo hi v \<and> clamp lo hi v \<le> hi"
  by (auto simp: clamp_def)

lemma clamp_id: "lo \<le> v \<Longrightarrow> v \<le> hi \<Longrightarrow> clamp lo hi v = v"
  by (auto simp: clamp_def)

lemma clamp_mono: "lo \<le> hi \<Longrightarrow> v \<le> w \<Longrightarrow> clamp lo hi v \<le> clamp lo hi w"
  by (auto simp: clamp_def)

lemma sat_i32_range [int_bounds, simp]: "in_i32 (sat_i32 v)"
  by (simp add: in_i32_def sat_i32_def clamp_def)

lemma sat_i32_id [simp]: "in_i32 v \<Longrightarrow> sat_i32 v = v"
  by (simp add: in_i32_def sat_i32_def clamp_id)

lemma sat_i32_mono: "v \<le> w \<Longrightarrow> sat_i32 v \<le> sat_i32 w"
  by (simp add: sat_i32_def clamp_mono)

lemma wrap_i32_range [int_bounds, simp]: "in_i32 (wrap_i32 v)"
proof -
  have "0 \<le> (v + 2147483648) mod 4294967296" "(v + 2147483648) mod 4294967296 < 4294967296"
    by (auto intro: pos_mod_bound pos_mod_sign)
  then show ?thesis unfolding in_i32_def wrap_i32_def by linarith
qed

lemma wrap_i32_id [simp]: "in_i32 v \<Longrightarrow> wrap_i32 v = v"
  by (simp add: in_i32_def wrap_i32_def)

lemma checked_i32_Some [simp]: "checked_i32 v = Some w \<longleftrightarrow> in_i32 v \<and> w = v"
  by (auto simp: checked_i32_def)

lemma checked_i32_None [simp]: "checked_i32 v = None \<longleftrightarrow> \<not> in_i32 v"
  by (auto simp: checked_i32_def)

lemma checked_inc_Some [simp]: "checked_inc v = Some w \<longleftrightarrow> v < u64_max \<and> w = Suc v"
  by (auto simp: checked_inc_def checked_u64_def)

lemma checked_inc_eq: "checked_inc v = (if v < u64_max then Some (Suc v) else None)"
  by (simp add: checked_inc_def checked_u64_def)

lemma checked_inc_None [simp]: "checked_inc v = None \<longleftrightarrow> u64_max \<le> v"
  by (auto simp: checked_inc_def checked_u64_def)

section \<open>Lists\<close>

text \<open>\<open>iter_mut().find(p)\<close> followed by a write through the reference: the first match changes.\<close>

fun update_first :: "('a \<Rightarrow> bool) \<Rightarrow> ('a \<Rightarrow> 'a) \<Rightarrow> 'a list \<Rightarrow> 'a list" where
  "update_first p f [] = []"
| "update_first p f (x # xs) = (if p x then f x # xs else x # update_first p f xs)"

lemma length_update_first [simp]: "length (update_first p f xs) = length xs"
  by (induction xs) auto

lemma map_update_first: "(\<And>x. g (f x) = g x) \<Longrightarrow> map g (update_first p f xs) = map g xs"
  by (induction xs) auto

lemma update_first_find_None: "find p xs = None \<Longrightarrow> update_first p f xs = xs"
  by (induction xs) (auto split: if_splits)

lemma find_update_first_other:
  "(\<And>x. p x \<Longrightarrow> \<not> q x) \<Longrightarrow> (\<And>x. p x \<Longrightarrow> \<not> q (f x)) \<Longrightarrow>
    find q (update_first p f xs) = find q xs"
  by (induction xs) auto

lemma find_append: "find p (xs @ ys) = (case find p xs of None \<Rightarrow> find p ys | Some x \<Rightarrow> Some x)"
  by (induction xs) auto

lemma find_SomeD: "find p xs = Some x \<Longrightarrow> x \<in> set xs \<and> p x"
  by (induction xs) (auto split: if_splits)

lemma find_None_iff_all: "find p xs = None \<longleftrightarrow> (\<forall>x\<in>set xs. \<not> p x)"
  by (induction xs) auto

lemma find_filter: "find p (filter q xs) = find (\<lambda>x. q x \<and> p x) xs"
  by (induction xs) auto

lemma find_filter_kept: "(\<And>x. p x \<Longrightarrow> q x) \<Longrightarrow> find p (filter q xs) = find p xs"
  by (induction xs) auto

lemma find_filter_gone: "(\<And>x. p x \<Longrightarrow> \<not> q x) \<Longrightarrow> find p (filter q xs) = None"
  by (induction xs) auto

lemma find_unique:
  assumes "x \<in> set xs" "p x" "\<And>y. y \<in> set xs \<Longrightarrow> p y \<Longrightarrow> y = x"
  shows "find p xs = Some x"
proof (cases "find p xs")
  case None
  then show ?thesis using assms(1,2) by (simp add: find_None_iff_all)
next
  case (Some y)
  then show ?thesis using assms(3) [of y] by (simp add: find_SomeD)
qed

text \<open>\<open>HashSet::insert\<close>-driven \<open>retain\<close>: keep the first element of every key.\<close>

fun retain_first :: "('a \<Rightarrow> 'k) \<Rightarrow> 'k set \<Rightarrow> 'a list \<Rightarrow> 'a list" where
  "retain_first key seen [] = []"
| "retain_first key seen (x # xs) =
     (if key x \<in> seen then retain_first key seen xs
      else x # retain_first key (insert (key x) seen) xs)"

lemma set_retain_first: "key ` set (retain_first key seen xs) = key ` set xs - seen"
  by (induction xs arbitrary: seen) auto

lemma distinct_retain_first: "distinct (map key (retain_first key seen xs))"
  by (induction xs arbitrary: seen) (auto simp: set_retain_first)

lemma retain_first_id:
  "distinct (map key xs) \<Longrightarrow> \<forall>x\<in>set xs. key x \<notin> seen \<Longrightarrow> retain_first key seen xs = xs"
proof (induction xs arbitrary: seen)
  case Nil
  then show ?case by simp
next
  case (Cons x xs)
  have "\<forall>y\<in>set xs. key y \<notin> insert (key x) seen"
    using Cons.prems by (simp add: image_iff) metis
  then have "retain_first key (insert (key x) seen) xs = xs"
    using Cons.IH Cons.prems(1) by simp
  then show ?case using Cons.prems(2) by simp
qed

text \<open>\<open>iter().position(p)\<close>, and \<open>VecDeque::remove(i)\<close> without its result.\<close>

fun find_index :: "('a \<Rightarrow> bool) \<Rightarrow> 'a list \<Rightarrow> nat option" where
  "find_index p [] = None"
| "find_index p (x # xs) = (if p x then Some 0 else map_option Suc (find_index p xs))"

definition remove_nth :: "nat \<Rightarrow> 'a list \<Rightarrow> 'a list" where
  "remove_nth i xs = take i xs @ drop (Suc i) xs"

lemma remove_nth_simps [simp]:
  "remove_nth i [] = []"
  "remove_nth 0 (x # xs) = xs"
  "remove_nth (Suc i) (x # xs) = x # remove_nth i xs"
  by (simp_all add: remove_nth_def)

lemma find_index_SomeD: "find_index p xs = Some i \<Longrightarrow> i < length xs \<and> p (xs ! i)"
  by (induction xs arbitrary: i) (auto split: if_splits)

lemma find_index_None: "find_index p xs = None \<longleftrightarrow> (\<forall>x\<in>set xs. \<not> p x)"
  by (induction xs) auto

lemma length_remove_nth: "i < length xs \<Longrightarrow> length (remove_nth i xs) = length xs - 1"
  by (simp add: remove_nth_def)

lemma set_remove_nth: "set (remove_nth i xs) \<subseteq> set xs"
  using set_take_subset set_drop_subset by (fastforce simp: remove_nth_def)

lemma filter_remove_nth:
  "i < length xs \<Longrightarrow> \<not> q (xs ! i) \<Longrightarrow> filter q (remove_nth i xs) = filter q xs"
  by (induction xs arbitrary: i) (auto simp: less_Suc_eq_0_disj)

section \<open>Streams of increasing positions\<close>

text \<open>
  A sender or receiver that counts within an epoch is at a position (epoch, next sequence
  number). \<open>advances c ps d\<close> says that it moved from \<open>c\<close> to \<open>d\<close> while using the numbers \<open>ps\<close>,
  in order and each at most once; the order is lexicographic.
\<close>

type_synonym position = "u64 \<times> u64"

fun advances :: "position \<Rightarrow> position list \<Rightarrow> position \<Rightarrow> bool" where
  "advances c [] d \<longleftrightarrow> c \<le> d"
| "advances c ((e, n) # ps) d \<longleftrightarrow> c \<le> (e, n) \<and> advances (e, Suc n) ps d"

lemma advances_weaken: "advances c ps d \<Longrightarrow> b \<le> c \<Longrightarrow> advances b ps d"
  by (cases ps) (auto intro: order_trans)

lemma advances_append: "advances c ps d \<Longrightarrow> advances d qs e \<Longrightarrow> advances c (ps @ qs) e"
  by (induction c ps d rule: advances.induct) (auto intro: advances_weaken)

lemma position_Suc_le: "(e, Suc n) \<le> q \<Longrightarrow> (e, n) < (q :: position)"
  by (cases q) auto

lemma position_low: "(e, n) < ((e, Suc n) :: position)"
  by simp

lemma advances_le: "advances c ps d \<Longrightarrow> c \<le> d"
proof (induction c ps d rule: advances.induct)
  case (2 c e n ps d)
  then have "c \<le> (e, n)" "(e, Suc n) \<le> d" by auto
  then show ?case using position_low [of e n] by (meson order_less_imp_le order_trans)
qed simp

lemma advances_above: "advances c ps d \<Longrightarrow> p \<in> set ps \<Longrightarrow> c \<le> p \<and> p < d"
proof (induction c ps d rule: advances.induct)
  case (1 c d)
  then show ?case by simp
next
  case (2 c e n ps d)
  have c: "c \<le> (e, n)" and rest: "advances (e, Suc n) ps d" using "2.prems" by auto
  show ?case
  proof (cases "p = (e, n)")
    case True
    then show ?thesis using c position_Suc_le [OF advances_le [OF rest]] by simp
  next
    case False
    then have "(e, Suc n) \<le> p \<and> p < d" using "2.IH" rest "2.prems"(2) by simp
    then show ?thesis using c position_low [of e n] by (meson order_less_imp_le order_trans)
  qed
qed

lemma advances_sorted: "advances c ps d \<Longrightarrow> sorted_wrt (<) ps"
proof (induction c ps d rule: advances.induct)
  case (1 c d)
  then show ?case by simp
next
  case (2 c e n ps d)
  then have "\<forall>p\<in>set ps. (e, n) < p"
    using advances_above [of "(e, Suc n)" ps d] position_Suc_le by auto
  then show ?case using 2 by simp
qed

section \<open>State machines that consume events and emit outputs\<close>

fun run :: "('s \<Rightarrow> 'e \<Rightarrow> 'o list \<times> 's) \<Rightarrow> 's \<Rightarrow> 'e list \<Rightarrow> 'o list \<times> 's" where
  "run step s [] = ([], s)"
| "run step s (e # es) =
     (let (os, s1) = step s e; (os', s2) = run step s1 es in (os @ os', s2))"

lemma run_append:
  "run step s (es @ fs) =
    (let (os, s1) = run step s es; (os', s2) = run step s1 fs in (os @ os', s2))"
  by (induction es arbitrary: s) (auto simp: Let_def split: prod.splits)

text \<open>
  The contract of a machine: an invariant that every admissible event keeps. What is proved
  here once (the invariant holds along every run) each component obtains by interpretation.
\<close>

locale machine =
  fixes step :: "'s \<Rightarrow> 'e \<Rightarrow> 'o list \<times> 's"
    and inv :: "'s \<Rightarrow> bool"
    and ok :: "'e \<Rightarrow> bool"
  assumes step_inv: "inv s \<Longrightarrow> ok e \<Longrightarrow> inv (snd (step s e))"
begin

lemma run_inv:
  assumes "inv s" and "\<forall>e\<in>set es. ok e"
  shows "inv (snd (run step s es))"
  using assms
proof (induction es arbitrary: s)
  case Nil
  then show ?case by simp
next
  case (Cons e es)
  obtain os s1 where s1: "step s e = (os, s1)" by fastforce
  obtain os' s2 where s2: "run step s1 es = (os', s2)" by fastforce
  have "inv s1" using Cons.prems step_inv [of s e] s1 by simp
  then have "inv s2" using Cons.IH [of s1] Cons.prems s2 by simp
  then show ?case using s1 s2 by simp
qed

end

text \<open>
  A machine whose steps also keep a relation between the state before, the outputs and the
  state after. If the relation composes, it holds between the ends of every run.
\<close>

locale emitting_machine = machine step inv ok
  for step :: "'s \<Rightarrow> 'e \<Rightarrow> 'o list \<times> 's" and inv ok +
  fixes rel :: "'s \<Rightarrow> 'o list \<Rightarrow> 's \<Rightarrow> bool"
  assumes rel_nil: "rel s [] s"
    and rel_comp: "rel s os s1 \<Longrightarrow> rel s1 os' s2 \<Longrightarrow> rel s (os @ os') s2"
    and rel_step: "inv s \<Longrightarrow> ok e \<Longrightarrow> rel s (fst (step s e)) (snd (step s e))"
begin

lemma run_rel:
  assumes "inv s" and "\<forall>e\<in>set es. ok e"
  shows "rel s (fst (run step s es)) (snd (run step s es))"
  using assms
proof (induction es arbitrary: s)
  case Nil
  then show ?case by (simp add: rel_nil)
next
  case (Cons e es)
  obtain os s1 where s1: "step s e = (os, s1)" by fastforce
  obtain os' s2 where s2: "run step s1 es = (os', s2)" by fastforce
  have "rel s os s1" using Cons.prems rel_step [of s e] s1 by simp
  moreover have "inv s1" using Cons.prems step_inv [of s e] s1 by simp
  then have "rel s1 os' s2" using Cons.IH [of s1] Cons.prems s2 by simp
  ultimately show ?case using s1 s2 by (simp add: rel_comp)
qed

end

end
