(* ===== verification/Common.thy ===== *)
theory Common
  imports Prelude
begin

text \<open>
  The vocabulary every layer uses: screen edges and rectangles (\<open>rshare-common\<close>), key and
  button states, monotonic capture stamps (\<open>rshare-core/src/perf.rs\<close>), and the runtime states
  the daemon publishes (\<open>rshare-core/src/runtime.rs\<close>).
\<close>

section \<open>Directions and screens\<close>

datatype direction = Left | Right | Top | Bottom

fun opposite :: "direction \<Rightarrow> direction" where
  "opposite Left = Right"
| "opposite Right = Left"
| "opposite Top = Bottom"
| "opposite Bottom = Top"

lemma opposite_opposite [simp]: "opposite (opposite d) = d"
  by (cases d) auto

lemma opposite_neq [simp]: "opposite d \<noteq> d" "d \<noteq> opposite d"
  by (cases d; simp)+

record screen_info =
  si_x :: i32
  si_y :: i32
  si_width :: extent
  si_height :: extent

definition screen_primary :: screen_info where
  "screen_primary = \<lparr>si_x = 0, si_y = 0, si_width = 1920, si_height = 1080\<rparr>"

definition right_edge :: "screen_info \<Rightarrow> i32" where
  "right_edge s = wrap_i32 (si_x s + wrap_i32 (si_width s))"

definition bottom_edge :: "screen_info \<Rightarrow> i32" where
  "bottom_edge s = wrap_i32 (si_y s + wrap_i32 (si_height s))"

definition screen_contains :: "screen_info \<Rightarrow> i32 \<Rightarrow> i32 \<Rightarrow> bool" where
  "screen_contains s x y \<longleftrightarrow>
     si_x s \<le> x \<and> x < wrap_i32 (si_x s + wrap_i32 (si_width s)) \<and>
     si_y s \<le> y \<and> y < wrap_i32 (si_y s + wrap_i32 (si_height s))"

section \<open>Keys, buttons and stamps\<close>

datatype key_state = KeyPressed | KeyReleased
datatype button_state = BtnPressed | BtnReleased

record monotonic_stamp =
  ms_domain :: u64
  ms_value_us :: u64

datatype monotonic_time_error =
    ClockDomainMismatch u64 u64
  | ClockRegression u64 u64

definition checked_duration_since ::
  "monotonic_stamp \<Rightarrow> monotonic_stamp \<Rightarrow> monotonic_time_error + u64" where
  "checked_duration_since later earlier =
     (if ms_domain later \<noteq> ms_domain earlier
      then Inl (ClockDomainMismatch (ms_domain earlier) (ms_domain later))
      else if ms_value_us later < ms_value_us earlier
      then Inl (ClockRegression (ms_value_us earlier) (ms_value_us later))
      else Inr (ms_value_us later - ms_value_us earlier))"

section \<open>Runtime states\<close>

datatype suspend_reason = TargetUnavailable | BackendDegradedReason | Manual | ServiceRestart

datatype control_session_state =
    LocalReady
  | TransitioningToRemote uuid direction
  | RemoteActive uuid direction
  | ReturningLocal uuid
  | Suspended suspend_reason

datatype backend_failure_reason =
  InitializationFailed | RuntimeError | PermissionDenied | VersionMismatch | Unavailable

datatype backend_health = Healthy | Degraded backend_failure_reason

fun aggregate_health :: "backend_health \<Rightarrow> backend_health \<Rightarrow> backend_health" where
  "aggregate_health Healthy Healthy = Healthy"
| "aggregate_health (Degraded r) _ = Degraded r"
| "aggregate_health _ (Degraded r) = Degraded r"

lemma aggregate_health_Healthy [simp]:
  "aggregate_health c i = Healthy \<longleftrightarrow> c = Healthy \<and> i = Healthy"
  by (cases c; cases i) auto

end
