(* ===== verification/Maps.thy ===== *)
theory Maps
  imports Prelude
begin

text \<open>
  The two keyed containers the code uses. A \<open>HashMap\<close> is an association list with distinct
  keys whose order carries no meaning; a \<open>BTreeMap\<close> is one whose keys ascend, so that
  iterating it visits the keys in order, which the release batches of the pressed-state ledger
  rely on. Both meet the contract \<open>key_map\<close>; clients use the facts proved there.
\<close>

type_synonym ('k, 'v) hash_map = "('k \<times> 'v) list"
type_synonym ('k, 'v) btree_map = "('k \<times> 'v) list"

section \<open>The contract\<close>

locale key_map =
  fixes get :: "'m \<Rightarrow> 'k \<Rightarrow> 'v option"
    and put :: "'k \<Rightarrow> 'v \<Rightarrow> 'm \<Rightarrow> 'm"
    and del :: "'k \<Rightarrow> 'm \<Rightarrow> 'm"
    and entries :: "'m \<Rightarrow> ('k \<times> 'v) list"
    and wf :: "'m \<Rightarrow> bool"
  assumes get_put: "wf m \<Longrightarrow> get (put k v m) j = (if j = k then Some v else get m j)"
    and get_del: "wf m \<Longrightarrow> get (del k m) j = (if j = k then None else get m j)"
    and wf_put: "wf m \<Longrightarrow> wf (put k v m)"
    and wf_del: "wf m \<Longrightarrow> wf (del k m)"
    and get_entries: "wf m \<Longrightarrow> get m k = Some v \<longleftrightarrow> (k, v) \<in> set (entries m)"
    and distinct_entries: "wf m \<Longrightarrow> distinct (map fst (entries m))"
begin

lemma entry_iff_get: "wf m \<Longrightarrow> e \<in> set (entries m) \<longleftrightarrow> get m (fst e) = Some (snd e)"
  by (cases e) (simp add: get_entries)

lemma dom_get: "wf m \<Longrightarrow> dom (get m) = set (map fst (entries m))"
  by (force simp: get_entries dom_def)

lemma length_entries: "wf m \<Longrightarrow> length (entries m) = card (dom (get m))"
  using distinct_card [OF distinct_entries] by (simp add: dom_get)

lemma entries_empty:
  assumes "wf m"
  shows "entries m = [] \<longleftrightarrow> (\<forall>k. get m k = None)"
proof -
  have "entries m = [] \<longleftrightarrow> dom (get m) = {}" using assms by (simp add: dom_get)
  then show ?thesis by (auto simp: dom_def)
qed

lemma length_put:
  assumes "wf m"
  shows "length (entries (put k v m)) =
    (if get m k = None then Suc (length (entries m)) else length (entries m))"
proof -
  have fin: "finite (dom (get m))" using assms by (simp add: dom_get)
  have "dom (get (put k v m)) = insert k (dom (get m))"
    using assms by (auto simp: get_put dom_def split: if_splits)
  then have "length (entries (put k v m)) = card (insert k (dom (get m)))"
    using assms by (simp add: length_entries wf_put)
  also have "\<dots> = (if k \<in> dom (get m) then card (dom (get m)) else Suc (card (dom (get m))))"
    using fin by (simp add: card_insert_if)
  finally show ?thesis
    using assms by (simp add: length_entries domIff)
qed

lemma length_del:
  assumes "wf m"
  shows "length (entries (del k m)) =
    (if get m k = None then length (entries m) else length (entries m) - 1)"
proof -
  have "dom (get (del k m)) = dom (get m) - {k}"
    using assms by (auto simp: get_del dom_def split: if_splits)
  then have "length (entries (del k m)) = card (dom (get m) - {k})"
    using assms by (simp add: length_entries wf_del)
  then show ?thesis
    using assms by (simp add: length_entries card_Diff_singleton_if domIff)
qed

lemma set_entries_del:
  assumes "wf m"
  shows "set (entries (del k m)) = {e \<in> set (entries m). fst e \<noteq> k}"
  using assms by (auto simp: entry_iff_get wf_del get_del split: if_splits)

end

section \<open>HashMap\<close>

definition hm_wf :: "('k, 'v) hash_map \<Rightarrow> bool" where
  "hm_wf m \<longleftrightarrow> distinct (map fst m)"

definition hm_get :: "('k, 'v) hash_map \<Rightarrow> 'k \<Rightarrow> 'v option" where
  "hm_get m k = map_of m k"

definition hm_del :: "'k \<Rightarrow> ('k, 'v) hash_map \<Rightarrow> ('k, 'v) hash_map" where
  "hm_del k m = filter (\<lambda>e. fst e \<noteq> k) m"

definition hm_put :: "'k \<Rightarrow> 'v \<Rightarrow> ('k, 'v) hash_map \<Rightarrow> ('k, 'v) hash_map" where
  "hm_put k v m = (k, v) # hm_del k m"

definition hm_retain :: "('k \<Rightarrow> 'v \<Rightarrow> bool) \<Rightarrow> ('k, 'v) hash_map \<Rightarrow> ('k, 'v) hash_map" where
  "hm_retain p m = filter (\<lambda>e. p (fst e) (snd e)) m"

lemma map_of_filter_key: "map_of (filter (\<lambda>e. fst e \<noteq> k) m) j = (if j = k then None else map_of m j)"
  by (induction m) auto

lemma distinct_map_filter_fst: "distinct (map fst m) \<Longrightarrow> distinct (map fst (filter p m))"
  by (induction m) auto

lemma hm_wf_Nil [simp]: "hm_wf []"
  by (simp add: hm_wf_def)

lemma hm_get_Nil [simp]: "hm_get [] k = None"
  by (simp add: hm_get_def)

interpretation hm: key_map hm_get hm_put hm_del "\<lambda>m. m" hm_wf
  by unfold_locales
    (auto simp: hm_get_def hm_put_def hm_del_def hm_wf_def map_of_filter_key
      distinct_map_filter_fst)

lemma hm_wf_retain: "hm_wf m \<Longrightarrow> hm_wf (hm_retain p m)"
  by (simp add: hm_wf_def hm_retain_def distinct_map_filter_fst)

lemma hm_get_retain:
  "hm_wf m \<Longrightarrow> hm_get (hm_retain p m) k =
    (case hm_get m k of None \<Rightarrow> None | Some v \<Rightarrow> if p k v then Some v else None)"
  by (induction m)
    (auto simp: hm_wf_def hm_get_def hm_retain_def map_of_eq_None_iff image_iff split: option.splits)

section \<open>BTreeMap\<close>

definition bt_wf :: "('k::linorder, 'v) btree_map \<Rightarrow> bool" where
  "bt_wf m \<longleftrightarrow> sorted_wrt (<) (map fst m)"

definition bt_get :: "('k::linorder, 'v) btree_map \<Rightarrow> 'k \<Rightarrow> 'v option" where
  "bt_get m k = map_of m k"

fun bt_put :: "'k::linorder \<Rightarrow> 'v \<Rightarrow> ('k, 'v) btree_map \<Rightarrow> ('k, 'v) btree_map" where
  "bt_put k v [] = [(k, v)]"
| "bt_put k v ((j, w) # m) =
     (if k < j then (k, v) # (j, w) # m
      else if k = j then (k, v) # m
      else (j, w) # bt_put k v m)"

definition bt_del :: "'k::linorder \<Rightarrow> ('k, 'v) btree_map \<Rightarrow> ('k, 'v) btree_map" where
  "bt_del k m = filter (\<lambda>e. fst e \<noteq> k) m"

lemma set_bt_put_keys: "set (map fst (bt_put k v m)) = insert k (set (map fst m))"
  by (induction k v m rule: bt_put.induct) auto

lemma bt_wf_put: "bt_wf m \<Longrightarrow> bt_wf (bt_put k v m)"
proof (induction k v m rule: bt_put.induct)
  case (2 k v j w m)
  show ?case
  proof (cases "k < j \<or> k = j")
    case True
    with 2 show ?thesis by (auto simp: bt_wf_def)
  next
    case False
    with 2 have "bt_wf (bt_put k v m)" by (simp add: bt_wf_def)
    moreover have "\<forall>x\<in>set (map fst (bt_put k v m)). j < x"
      using 2 False by (simp only: set_bt_put_keys) (auto simp: bt_wf_def)
    ultimately show ?thesis using False by (simp add: bt_wf_def)
  qed
qed (simp add: bt_wf_def)

lemma bt_get_put: "bt_get (bt_put k v m) j = (if j = k then Some v else bt_get m j)"
  by (induction k v m rule: bt_put.induct) (auto simp: bt_get_def)

lemma bt_wf_distinct: "bt_wf m \<Longrightarrow> distinct (map fst m)"
  by (simp add: bt_wf_def strict_sorted_iff)

lemma bt_wf_Nil [simp]: "bt_wf []"
  by (simp add: bt_wf_def)

lemma bt_get_Nil [simp]: "bt_get [] k = None"
  by (simp add: bt_get_def)

interpretation bt: key_map bt_get bt_put bt_del "\<lambda>m. m" bt_wf
proof unfold_locales
  fix m :: "('a, 'b) btree_map" and k j :: 'a and v :: 'b
  assume wf: "bt_wf m"
  show "bt_get (bt_put k v m) j = (if j = k then Some v else bt_get m j)" by (rule bt_get_put)
  show "bt_get (bt_del k m) j = (if j = k then None else bt_get m j)"
    by (simp add: bt_get_def bt_del_def map_of_filter_key)
  show "bt_wf (bt_put k v m)" using wf by (rule bt_wf_put)
  show "bt_wf (bt_del k m)"
    using wf by (induction m) (auto simp: bt_wf_def bt_del_def)
  show "bt_get m k = Some v \<longleftrightarrow> (k, v) \<in> set m"
    using bt_wf_distinct [OF wf] by (simp add: bt_get_def)
  show "distinct (map fst m)" using wf by (rule bt_wf_distinct)
qed

end
