(* ===== verification/Session.thy ===== *)
theory Session
  imports Common
begin

text \<open>
  The capture session (\<open>crates/rshare-core/src/session.rs\<close>): whether input stays local, is
  forwarded to a peer, or is suspended. Each method becomes a function from the machine to its
  result and the machine after it.
\<close>

section \<open>Model\<close>

datatype transition_error = ErrSuspended | ErrNoTarget | ErrInvalidTransition

record capture_session =
  cs_state :: control_session_state

definition session_new :: capture_session where
  "session_new = \<lparr>cs_state = LocalReady\<rparr>"

definition is_remote_active :: "capture_session \<Rightarrow> bool" where
  "is_remote_active s = (case cs_state s of RemoteActive _ _ \<Rightarrow> True | _ \<Rightarrow> False)"

definition is_local_ready :: "capture_session \<Rightarrow> bool" where
  "is_local_ready s = (case cs_state s of LocalReady \<Rightarrow> True | _ \<Rightarrow> False)"

definition is_suspended :: "capture_session \<Rightarrow> bool" where
  "is_suspended s = (case cs_state s of Suspended _ \<Rightarrow> True | _ \<Rightarrow> False)"

definition active_target :: "capture_session \<Rightarrow> uuid option" where
  "active_target s = (case cs_state s of RemoteActive t _ \<Rightarrow> Some t | _ \<Rightarrow> None)"

definition on_edge_hit ::
  "direction \<Rightarrow> uuid option \<Rightarrow> capture_session \<Rightarrow> (transition_error + unit) \<times> capture_session" where
  "on_edge_hit edge target s =
     (if is_suspended s then (Inl ErrSuspended, s)
      else case target of
        None \<Rightarrow> (Inl ErrNoTarget, s)
      | Some remote_id \<Rightarrow>
          (case cs_state s of
             LocalReady \<Rightarrow> (Inr (), s\<lparr>cs_state := RemoteActive remote_id edge\<rparr>)
           | _ \<Rightarrow> (Inl ErrInvalidTransition, s)))"

definition on_return_edge_hit ::
  "direction \<Rightarrow> capture_session \<Rightarrow> (transition_error + unit) \<times> capture_session" where
  "on_return_edge_hit edge s =
     (case cs_state s of
        RemoteActive _ _ \<Rightarrow> (Inr (), s\<lparr>cs_state := LocalReady\<rparr>)
      | _ \<Rightarrow> (Inl ErrInvalidTransition, s))"

definition on_target_disconnect :: "uuid \<Rightarrow> capture_session \<Rightarrow> capture_session" where
  "on_target_disconnect target_id s =
     (case cs_state s of
        RemoteActive target _ \<Rightarrow>
          (if target = target_id then s\<lparr>cs_state := Suspended TargetUnavailable\<rparr> else s)
      | _ \<Rightarrow> s)"

definition on_backend_degraded :: "capture_session \<Rightarrow> capture_session" where
  "on_backend_degraded s = s\<lparr>cs_state := Suspended BackendDegradedReason\<rparr>"

definition session_reset :: "capture_session \<Rightarrow> capture_session" where
  "session_reset s = s\<lparr>cs_state := LocalReady\<rparr>"

section \<open>Steps and reachable states\<close>

inductive session_step :: "capture_session \<Rightarrow> capture_session \<Rightarrow> bool" where
  edge: "on_edge_hit d t s = (r, s') \<Longrightarrow> session_step s s'"
| return_edge: "on_return_edge_hit d s = (r, s') \<Longrightarrow> session_step s s'"
| disconnect: "session_step s (on_target_disconnect t s)"
| degraded: "session_step s (on_backend_degraded s)"
| reset: "session_step s (session_reset s)"

inductive session_reachable :: "capture_session \<Rightarrow> bool" where
  start: "session_reachable session_new"
| step: "session_reachable s \<Longrightarrow> session_step s s' \<Longrightarrow> session_reachable s'"

inductive_cases session_stepE: "session_step s s'"

text \<open>The states a session can be in: of the five the type offers, three, and two reasons.\<close>

fun session_state_ok :: "control_session_state \<Rightarrow> bool" where
  "session_state_ok LocalReady = True"
| "session_state_ok (RemoteActive _ _) = True"
| "session_state_ok (Suspended TargetUnavailable) = True"
| "session_state_ok (Suspended BackendDegradedReason) = True"
| "session_state_ok _ = False"

named_theorems session_defs \<open>the operations and observers of the capture session\<close>

lemmas [session_defs] = on_edge_hit_def on_return_edge_hit_def on_target_disconnect_def
  on_backend_degraded_def session_reset_def is_remote_active_def is_local_ready_def
  is_suspended_def active_target_def session_new_def

lemma session_cases:
  obtains "is_local_ready s" | "is_remote_active s" | "is_suspended s"
  | t d where "cs_state s = TransitioningToRemote t d" | t where "cs_state s = ReturningLocal t"
  by (cases "cs_state s") (auto simp: session_defs)

lemma active_target_Some [simp]:
  "active_target s = Some t \<longleftrightarrow> (\<exists>d. cs_state s = RemoteActive t d)"
  by (auto simp: active_target_def split: control_session_state.splits)

lemma active_target_None [simp]: "active_target s = None \<longleftrightarrow> \<not> is_remote_active s"
  by (auto simp: active_target_def is_remote_active_def split: control_session_state.splits)

lemma is_remote_active_iff: "is_remote_active s \<longleftrightarrow> (\<exists>t d. cs_state s = RemoteActive t d)"
  by (auto simp: is_remote_active_def split: control_session_state.splits)

lemma session_step_ok: "session_step s s' \<Longrightarrow> session_state_ok (cs_state s) \<Longrightarrow> session_state_ok (cs_state s')"
  by (erule session_stepE)
    (auto simp: session_defs split: control_session_state.splits option.splits if_splits)

lemma session_reachable_ok: "session_reachable s \<Longrightarrow> session_state_ok (cs_state s)"
  by (induction rule: session_reachable.induct) (auto simp: session_new_def intro: session_step_ok)

text \<open>
  A session reachable from a new one is ready, forwarding, or suspended because the target
  went away or the backend degraded; the transitional states \<open>TransitioningToRemote\<close> and
  \<open>ReturningLocal\<close> and the other two suspend reasons of the published type never occur.
\<close>

theorem session_reachable_states:
  assumes "session_reachable s"
  shows "is_local_ready s \<or> is_remote_active s \<or>
    cs_state s = Suspended TargetUnavailable \<or> cs_state s = Suspended BackendDegradedReason"
  using session_reachable_ok [OF assms]
  by (cases "cs_state s" rule: session_state_ok.cases) (auto simp: session_defs)

theorem session_reachable_states_witness:
  "session_reachable (session_new\<lparr>cs_state := RemoteActive 7 Right\<rparr>) \<and>
   (is_local_ready (session_new\<lparr>cs_state := RemoteActive 7 Right\<rparr>) \<or>
    is_remote_active (session_new\<lparr>cs_state := RemoteActive 7 Right\<rparr>) \<or>
    cs_state (session_new\<lparr>cs_state := RemoteActive 7 Right\<rparr>) = Suspended TargetUnavailable \<or>
    cs_state (session_new\<lparr>cs_state := RemoteActive 7 Right\<rparr>) = Suspended BackendDegradedReason)"
proof -
  have "on_edge_hit Right (Some 7) session_new =
      (Inr (), session_new\<lparr>cs_state := RemoteActive 7 Right\<rparr>)"
    by (simp add: session_defs)
  then have r: "session_reachable (session_new\<lparr>cs_state := RemoteActive 7 Right\<rparr>)"
    by (rule session_reachable.step [OF session_reachable.start session_step.edge])
  then show ?thesis using session_reachable_states [OF r] by simp
qed

text \<open>
  Forwarding starts in exactly one way: an edge hit with a target while the session is ready.
  Every other outcome of an edge hit is an error that names its cause (suspended before missing
  target before wrong state) and leaves the session as it was.
\<close>

lemma on_edge_hit_spec:
  "on_edge_hit d t s =
    (if is_suspended s then (Inl ErrSuspended, s)
     else if t = None then (Inl ErrNoTarget, s)
     else if is_local_ready s then (Inr (), s\<lparr>cs_state := RemoteActive (the t) d\<rparr>)
     else (Inl ErrInvalidTransition, s))"
  by (cases "cs_state s"; cases t) (auto simp: session_defs)

lemma on_target_disconnect_suspended [simp]:
  "is_suspended s \<Longrightarrow> on_target_disconnect u s = s"
  by (auto simp: session_defs split: control_session_state.splits)

end
