(* ===== verification/Geometry.thy ===== *)
theory Geometry
  imports Common
begin

text \<open>
  The geometry half of \<open>crates/rshare-core/src/layout.rs\<close>: displays, pixel rectangles with a
  signed origin and an unsigned extent, the projection of a cursor position from one rectangle
  onto another, and the virtual-desktop bounds the router detects edges on. The code computes in
  i64 and i128, which cannot overflow on these operands, and narrows with \<open>clamp\<close>; the model
  computes in \<open>int\<close> and narrows with \<open>sat_i32\<close> and \<open>clamp\<close> at the same places.
\<close>

section \<open>Displays and nodes\<close>

record display_node =
  dn_display_id :: string
  dn_x :: i32
  dn_y :: i32
  dn_width :: extent
  dn_height :: extent
  dn_primary :: bool
  dn_scale_percent :: "u32 option"
  dn_dpi_x :: "u32 option"
  dn_dpi_y :: "u32 option"

definition display_primary :: "i32 \<Rightarrow> i32 \<Rightarrow> extent \<Rightarrow> extent \<Rightarrow> display_node" where
  "display_primary x y w h =
     \<lparr>dn_display_id = ''primary'', dn_x = x, dn_y = y, dn_width = w, dn_height = h,
      dn_primary = True, dn_scale_percent = None, dn_dpi_x = None, dn_dpi_y = None\<rparr>"

definition display_secondary ::
  "string \<Rightarrow> i32 \<Rightarrow> i32 \<Rightarrow> extent \<Rightarrow> extent \<Rightarrow> display_node" where
  "display_secondary i x y w h =
     \<lparr>dn_display_id = i, dn_x = x, dn_y = y, dn_width = w, dn_height = h,
      dn_primary = False, dn_scale_percent = None, dn_dpi_x = None, dn_dpi_y = None\<rparr>"

record layout_node =
  ln_device_id :: uuid
  ln_displays :: "display_node list"

definition layout_node_new :: "uuid \<Rightarrow> i32 \<Rightarrow> i32 \<Rightarrow> extent \<Rightarrow> extent \<Rightarrow> layout_node" where
  "layout_node_new device_id x y w h =
     \<lparr>ln_device_id = device_id, ln_displays = [display_primary x y w h]\<rparr>"

definition primary_display :: "layout_node \<Rightarrow> display_node option" where
  "primary_display node = find dn_primary (ln_displays node)"

section \<open>Rectangles\<close>

record pixel_rect =
  pr_x :: i32
  pr_y :: i32
  pr_width :: extent
  pr_height :: extent

definition wf_rect :: "pixel_rect \<Rightarrow> bool" where
  "wf_rect r \<longleftrightarrow> in_i32 (pr_x r) \<and> in_i32 (pr_y r) \<and> in_u32 (pr_width r) \<and> in_u32 (pr_height r)"

definition extent_end :: "i32 \<Rightarrow> extent \<Rightarrow> i32" where
  "extent_end origin ext = (let span = max 0 (ext - 1) in sat_i32 (origin + span))"

definition extent_end_exclusive :: "i32 \<Rightarrow> extent \<Rightarrow> int" where
  "extent_end_exclusive origin ext = origin + ext"

definition last_x :: "pixel_rect \<Rightarrow> i32" where
  "last_x r = extent_end (pr_x r) (pr_width r)"

definition last_y :: "pixel_rect \<Rightarrow> i32" where
  "last_y r = extent_end (pr_y r) (pr_height r)"

definition contains_x :: "pixel_rect \<Rightarrow> i32 \<Rightarrow> bool" where
  "contains_x r x \<longleftrightarrow> pr_x r \<le> x \<and> x \<le> last_x r"

definition contains_y :: "pixel_rect \<Rightarrow> i32 \<Rightarrow> bool" where
  "contains_y r y \<longleftrightarrow> pr_y r \<le> y \<and> y \<le> last_y r"

definition edge_at :: "pixel_rect \<Rightarrow> i32 \<Rightarrow> i32 \<Rightarrow> direction option" where
  "edge_at r x y =
     (if pr_width r = 0 \<or> pr_height r = 0 then None
      else if x = pr_x r \<and> contains_y r y then Some Left
      else if (x = last_x r \<or> x = extent_end_exclusive (pr_x r) (pr_width r)) \<and> contains_y r y
      then Some Right
      else if y = pr_y r \<and> contains_x r x then Some Top
      else if (y = last_y r \<or> y = extent_end_exclusive (pr_y r) (pr_height r)) \<and> contains_x r x
      then Some Bottom
      else None)"

definition project_axis :: "i32 \<Rightarrow> i32 \<Rightarrow> extent \<Rightarrow> i32 \<Rightarrow> extent \<Rightarrow> i32" where
  "project_axis v source_origin source_extent target_origin target_extent =
     (let source_span = max 0 (source_extent - 1);
          target_span = max 0 (target_extent - 1)
      in if source_span = 0 \<or> target_span = 0 then target_origin
         else let offset = clamp 0 source_span (v - source_origin);
                  projected = (offset * target_span + source_span div 2) div source_span
              in sat_i32 (target_origin + projected))"

definition project_to :: "pixel_rect \<Rightarrow> pixel_rect \<Rightarrow> i32 \<Rightarrow> i32 \<Rightarrow> i32 \<times> i32" where
  "project_to source target x y =
     (project_axis x (pr_x source) (pr_width source) (pr_x target) (pr_width target),
      project_axis y (pr_y source) (pr_height source) (pr_y target) (pr_height target))"

section \<open>Unions of rectangles\<close>

text \<open>
  Three loops of the source take the union of the rectangles of a list of displays, starting
  from the first: each is \<open>foldl extend_bounds\<close> over (left, top, right, bottom).
\<close>

type_synonym bounds = "int \<times> int \<times> int \<times> int"

fun extend_bounds :: "bounds \<Rightarrow> bounds \<Rightarrow> bounds" where
  "extend_bounds (l, t, r, b) (l', t', r', b') = (min l l', min t t', max r r', max b b')"

definition bounds_left :: "bounds \<Rightarrow> int" where "bounds_left = fst"
definition bounds_top :: "bounds \<Rightarrow> int" where "bounds_top b = fst (snd b)"
definition bounds_right :: "bounds \<Rightarrow> int" where "bounds_right b = fst (snd (snd b))"
definition bounds_bottom :: "bounds \<Rightarrow> int" where "bounds_bottom b = snd (snd (snd b))"

lemmas bounds_defs = bounds_left_def bounds_top_def bounds_right_def bounds_bottom_def

definition within :: "bounds \<Rightarrow> bounds \<Rightarrow> bool" where
  "within a b \<longleftrightarrow> bounds_left b \<le> bounds_left a \<and> bounds_top b \<le> bounds_top a \<and>
     bounds_right a \<le> bounds_right b \<and> bounds_bottom a \<le> bounds_bottom b"

lemma within_refl [simp]: "within a a"
  by (simp add: within_def)

lemma within_trans: "within a b \<Longrightarrow> within b c \<Longrightarrow> within a c"
  by (auto simp: within_def)

lemma within_extend: "within a (extend_bounds a b)" "within b (extend_bounds a b)"
  by (cases a; cases b; simp add: within_def bounds_defs)+

lemma extend_bounds_left [simp]:
  "bounds_left (extend_bounds a b) = min (bounds_left a) (bounds_left b)"
  by (cases a; cases b) (simp add: bounds_defs)

lemma extend_bounds_right [simp]:
  "bounds_right (extend_bounds a b) = max (bounds_right a) (bounds_right b)"
  by (cases a; cases b) (simp add: bounds_defs)

lemma extend_bounds_top [simp]:
  "bounds_top (extend_bounds a b) = min (bounds_top a) (bounds_top b)"
  by (cases a; cases b) (simp add: bounds_defs)

lemma extend_bounds_bottom [simp]:
  "bounds_bottom (extend_bounds a b) = max (bounds_bottom a) (bounds_bottom b)"
  by (cases a; cases b) (simp add: bounds_defs)

lemma foldl_extend_within:
  "c \<in> insert a (set bs) \<Longrightarrow> within c (foldl extend_bounds a bs)"
proof (induction bs arbitrary: a c)
  case Nil
  then show ?case by simp
next
  case (Cons b bs)
  have up: "within (extend_bounds a b) (foldl extend_bounds (extend_bounds a b) bs)"
    by (rule Cons.IH) simp
  from Cons.prems consider "c = a" | "c = b" | "c \<in> set bs" by auto
  then show ?case
  proof cases
    case 1 then show ?thesis using within_trans [OF within_extend(1) up] by simp
  next
    case 2 then show ?thesis using within_trans [OF within_extend(2) up] by simp
  next
    case 3 then have "c \<in> insert (extend_bounds a b) (set bs)" by simp
    from Cons.IH [OF this] show ?thesis by simp
  qed
qed

lemma foldl_extend_left: "\<exists>c\<in>insert a (set bs). bounds_left (foldl extend_bounds a bs) = bounds_left c"
proof (induction bs arbitrary: a)
  case Nil
  then show ?case by simp
next
  case (Cons b bs)
  from Cons.IH [of "extend_bounds a b"] show ?case
    by (simp del: extend_bounds.simps) (auto simp: min_def split: if_splits)
qed

lemma foldl_extend_right: "\<exists>c\<in>insert a (set bs). bounds_right (foldl extend_bounds a bs) = bounds_right c"
proof (induction bs arbitrary: a)
  case Nil
  then show ?case by simp
next
  case (Cons b bs)
  from Cons.IH [of "extend_bounds a b"] show ?case
    by (simp del: extend_bounds.simps) (auto simp: max_def split: if_splits)
qed

section \<open>Virtual desktop geometry\<close>

record virtual_desktop_geometry =
  vg_bounds :: pixel_rect

definition rect_of_extrema :: "bounds \<Rightarrow> pixel_rect" where
  "rect_of_extrema b =
     \<lparr>pr_x = sat_i32 (bounds_left b), pr_y = sat_i32 (bounds_top b),
      pr_width = clamp 0 u32_max (bounds_right b - bounds_left b),
      pr_height = clamp 0 u32_max (bounds_bottom b - bounds_top b)\<rparr>"

definition geometry_from_layout_node :: "layout_node \<Rightarrow> virtual_desktop_geometry option" where
  "geometry_from_layout_node node =
     (case (case primary_display node of
              Some d \<Rightarrow> Some d
            | None \<Rightarrow> (case ln_displays node of [] \<Rightarrow> None | d # _ \<Rightarrow> Some d)) of
        None \<Rightarrow> None
      | Some anchor \<Rightarrow>
          (let rel = (\<lambda>d. (dn_x d - dn_x anchor, dn_y d - dn_y anchor,
                           dn_x d - dn_x anchor + dn_width d,
                           dn_y d - dn_y anchor + dn_height d))
           in case filter (\<lambda>d. dn_width d > 0 \<and> dn_height d > 0) (ln_displays node) of
                [] \<Rightarrow> None
              | first # rest \<Rightarrow>
                  Some \<lparr>vg_bounds = rect_of_extrema (foldl extend_bounds (rel first) (map rel rest))\<rparr>))"

text \<open>
  The backend's own report of its displays (\<open>LocalDisplayState\<close> in \<open>local_controls.rs\<close>), with
  the fields the conversion reads.
\<close>

record local_display =
  ld_active :: bool
  ld_x :: i32
  ld_y :: i32
  ld_width :: extent
  ld_height :: extent

record local_display_state =
  lds_virtual_x :: i32
  lds_virtual_y :: i32
  lds_layout_width :: extent
  lds_layout_height :: extent
  lds_displays :: "local_display list"

definition geometry_from_local_state :: "local_display_state \<Rightarrow> virtual_desktop_geometry" where
  "geometry_from_local_state s =
     (let box = (\<lambda>d. (ld_x d, ld_y d, ld_x d + ld_width d, ld_y d + ld_height d))
      in \<lparr>vg_bounds =
           (case filter (\<lambda>d. ld_active d \<and> ld_width d > 0 \<and> ld_height d > 0) (lds_displays s) of
              first # rest \<Rightarrow> rect_of_extrema (foldl extend_bounds (box first) (map box rest))
            | [] \<Rightarrow> \<lparr>pr_x = lds_virtual_x s, pr_y = lds_virtual_y s,
                      pr_width = lds_layout_width s, pr_height = lds_layout_height s\<rparr>)\<rparr>)"

section \<open>Facts about one axis\<close>

lemma extent_end_bounds:
  assumes "in_i32 o1"
  shows "o1 \<le> extent_end o1 e" and "in_i32 (extent_end o1 e)"
  using assms by (auto simp: extent_end_def in_i32_def sat_i32_def clamp_def Let_def)

lemma extent_end_exact:
  "in_i32 o1 \<Longrightarrow> 1 \<le> e \<Longrightarrow> o1 + e - 1 \<le> i32_max \<Longrightarrow> extent_end o1 e = o1 + e - 1"
  by (auto simp: extent_end_def in_i32_def sat_i32_def clamp_def Let_def)

lemma last_bounds:
  assumes "wf_rect r"
  shows "pr_x r \<le> last_x r" "pr_y r \<le> last_y r" "in_i32 (last_x r)" "in_i32 (last_y r)"
  using assms by (simp_all add: wf_rect_def last_x_def last_y_def extent_end_bounds)

text \<open>The rounded projection of an offset stays in the target span and is monotone in it.\<close>

lemma project_offset:
  fixes s t k :: int
  assumes "0 < s" "0 \<le> t" "0 \<le> k" "k \<le> s"
  shows "0 \<le> (k * t + s div 2) div s" and "(k * t + s div 2) div s \<le> t"
proof -
  have kt: "0 \<le> k * t" using assms by simp
  then show "0 \<le> (k * t + s div 2) div s"
    using assms by (simp add: pos_imp_zdiv_nonneg_iff)
  have "k * t \<le> s * t" using assms by (simp add: mult_right_mono)
  moreover have "s div 2 < s" using assms(1) by simp
  ultimately have "k * t + s div 2 < (t + 1) * s" by (simp add: algebra_simps)
  then have "(k * t + s div 2) div s \<le> ((t + 1) * s - 1) div s"
    using assms(1) by (intro zdiv_mono1) auto
  also have "(t + 1) * s - 1 = (s - 1) + t * s" by (simp add: algebra_simps)
  also have "((s - 1) + t * s) div s = t"
    using assms(1) by (simp add: div_pos_pos_trivial)
  finally show "(k * t + s div 2) div s \<le> t" .
qed

lemma project_axis_flat:
  "max 0 (se - 1) = 0 \<or> max 0 (te - 1) = 0 \<Longrightarrow> project_axis v so se target_origin te = target_origin"
  by (simp only: project_axis_def Let_def if_True)

lemma project_axis_steep:
  assumes "max 0 (se - 1) = s" "max 0 (te - 1) = t" "s \<noteq> 0" "t \<noteq> 0"
  shows "project_axis v so se target_origin te =
    sat_i32 (target_origin + (clamp 0 s (v - so) * t + s div 2) div s)"
  using assms by (simp only: project_axis_def Let_def simp_thms if_False)

lemma project_axis_bounds:
  assumes "in_i32 target_origin"
  shows "target_origin \<le> project_axis v so se target_origin te"
    and "project_axis v so se target_origin te \<le> extent_end target_origin te"
proof -
  obtain s t where s: "max 0 (se - 1) = s" and t: "max 0 (te - 1) = t" by blast
  have st: "0 \<le> s" "0 \<le> t" using s t by (auto simp: max_def split: if_splits)
  have e: "extent_end target_origin te = sat_i32 (target_origin + t)"
    by (simp only: extent_end_def Let_def t)
  have "target_origin \<le> project_axis v so se target_origin te \<and>
    project_axis v so se target_origin te \<le> extent_end target_origin te"
  proof (cases "s = 0 \<or> t = 0")
    case True
    then have "project_axis v so se target_origin te = target_origin"
      using s t by (intro project_axis_flat) simp
    then show ?thesis using extent_end_bounds(1) [OF assms, of te] by simp
  next
    case False
    obtain p where p: "(clamp 0 s (v - so) * t + s div 2) div s = p" by blast
    have eq: "project_axis v so se target_origin te = sat_i32 (target_origin + p)"
      using project_axis_steep [OF s t, of v so target_origin] False p by simp
    have k: "0 \<le> clamp 0 s (v - so)" "clamp 0 s (v - so) \<le> s"
      using clamp_bounds [OF st(1)] by blast+
    have "0 < s" using False st(1) by simp
    from project_offset [OF this st(2) k] have "0 \<le> p" "p \<le> t" by (simp_all only: p)
    then have "sat_i32 target_origin \<le> sat_i32 (target_origin + p)"
      and "sat_i32 (target_origin + p) \<le> sat_i32 (target_origin + t)"
      by (auto intro!: sat_i32_mono)
    then show ?thesis by (simp only: eq e sat_i32_id [OF assms] simp_thms)
  qed
  then show "target_origin \<le> project_axis v so se target_origin te"
    and "project_axis v so se target_origin te \<le> extent_end target_origin te" by blast+
qed

lemma project_axis_mono:
  assumes "v \<le> w"
  shows "project_axis v so se target_origin te \<le> project_axis w so se target_origin te"
proof -
  obtain s t where s: "max 0 (se - 1) = s" and t: "max 0 (te - 1) = t" by blast
  have st: "0 \<le> s" "0 \<le> t" using s t by (auto simp: max_def split: if_splits)
  show ?thesis
  proof (cases "s = 0 \<or> t = 0")
    case True
    then show ?thesis using s t project_axis_flat [of se te] by simp
  next
    case False
    have "clamp 0 s (v - so) \<le> clamp 0 s (w - so)"
      using assms st by (intro clamp_mono) auto
    then have "clamp 0 s (v - so) * t \<le> clamp 0 s (w - so) * t"
      using st(2) by (rule mult_right_mono)
    then have "(clamp 0 s (v - so) * t + s div 2) div s \<le> (clamp 0 s (w - so) * t + s div 2) div s"
      using False st(1) by (intro zdiv_mono1) auto
    then show ?thesis
      using False project_axis_steep [OF s t] sat_i32_mono by simp
  qed
qed

lemma project_axis_first:
  assumes "in_i32 target_origin"
  shows "project_axis so so se target_origin te = target_origin"
proof -
  obtain s t where s: "max 0 (se - 1) = s" and t: "max 0 (te - 1) = t" by blast
  have st: "0 \<le> s" "0 \<le> t" using s t by (auto simp: max_def split: if_splits)
  show ?thesis
  proof (cases "s = 0 \<or> t = 0")
    case True
    then show ?thesis using s t project_axis_flat [of se te] by simp
  next
    case False
    moreover have "(s div 2) div s = 0" using st(1) by (cases "s = 0") auto
    ultimately show ?thesis
      using assms st(1) project_axis_steep [OF s t, of so so target_origin]
      by (simp add: clamp_def)
  qed
qed

lemma project_axis_last:
  assumes "in_i32 target_origin" "2 \<le> se" "2 \<le> te"
  shows "project_axis (so + se - 1) so se target_origin te = extent_end target_origin te"
proof -
  define s where "s = se - 1"
  define t where "t = te - 1"
  have st: "0 < s" "0 < t" "max 0 (se - 1) = s" "max 0 (te - 1) = t"
    using assms by (auto simp: s_def t_def)
  have k: "clamp 0 s (so + se - 1 - so) = s"
    using st(1) by (simp add: clamp_def s_def)
  have "(s * t + s div 2) div s = t" using st(1) by simp
  then show ?thesis
    using st k project_axis_steep [OF st(3,4), of "so + se - 1" so target_origin]
    by (simp add: extent_end_def Let_def)
qed

section \<open>Edges\<close>

lemma edge_at_Some_wf:
  "edge_at r x y = Some d \<Longrightarrow> pr_width r \<noteq> 0 \<and> pr_height r \<noteq> 0"
  by (auto simp: edge_at_def split: if_splits)

text \<open>A point strictly inside a rectangle is at no edge.\<close>

lemma edge_at_interior:
  assumes "wf_rect r" "pr_x r < x" "x < last_x r" "pr_y r < y" "y < last_y r"
  shows "edge_at r x y = None"
proof -
  have excl: "extent_end o1 e \<le> extent_end_exclusive o1 e"
    if "in_i32 o1" "0 \<le> e" for o1 e
    using that
    by (simp add: extent_end_def extent_end_exclusive_def in_i32_def sat_i32_def clamp_def Let_def
      max_def)
  have "last_x r \<le> extent_end_exclusive (pr_x r) (pr_width r)"
    and "last_y r \<le> extent_end_exclusive (pr_y r) (pr_height r)"
    using assms(1) by (simp_all add: wf_rect_def last_x_def last_y_def in_u32_def excl)
  then show ?thesis
    using assms(2-5) by (simp add: edge_at_def)
qed

end
