(* ===== verification/Layout.thy ===== *)
theory Layout
  imports Geometry Maps
begin

text \<open>
  The layout graph of \<open>crates/rshare-core/src/layout.rs\<close>: devices with their displays in shared
  global coordinates, directed links between device edges, and the operations the daemon
  applies to it (linking, discovery merges, collision repair, display projections, ownership).
  The bounds of a node are computed in i32 with \<open>+\<close> and \<open>as i32\<close>, which wrap in a release
  build; the repair shifts with \<open>saturating_add\<close>. A \<open>HashSet\<close> of device ids is a set.
\<close>

section \<open>Model\<close>

abbreviation default_display_width :: extent where "default_display_width \<equiv> 1920"
abbreviation default_display_height :: extent where "default_display_height \<equiv> 1080"

record layout_link =
  ll_from_device :: uuid
  ll_from_edge :: direction
  ll_to_device :: uuid
  ll_to_edge :: direction

definition link_new :: "uuid \<Rightarrow> direction \<Rightarrow> uuid \<Rightarrow> direction \<Rightarrow> layout_link" where
  "link_new fd fe td te =
     \<lparr>ll_from_device = fd, ll_from_edge = fe, ll_to_device = td, ll_to_edge = te\<rparr>"

definition link_reverse :: "layout_link \<Rightarrow> layout_link" where
  "link_reverse l =
     \<lparr>ll_from_device = ll_to_device l, ll_from_edge = ll_to_edge l,
      ll_to_device = ll_from_device l, ll_to_edge = ll_from_edge l\<rparr>"

record layout_graph =
  lg_version :: u32
  lg_local_device :: uuid
  lg_nodes :: "layout_node list"
  lg_links :: "layout_link list"

definition graph_new :: "uuid \<Rightarrow> layout_graph" where
  "graph_new local_device =
     \<lparr>lg_version = 1, lg_local_device = local_device, lg_nodes = [], lg_links = []\<rparr>"

definition add_node :: "layout_node \<Rightarrow> layout_graph \<Rightarrow> layout_graph" where
  "add_node node g = g\<lparr>lg_nodes := lg_nodes g @ [node]\<rparr>"

definition add_link :: "layout_link \<Rightarrow> layout_graph \<Rightarrow> layout_graph" where
  "add_link l g = g\<lparr>lg_links := lg_links g @ [l]\<rparr>"

definition upsert_link_for_edge :: "layout_link \<Rightarrow> layout_graph \<Rightarrow> layout_graph" where
  "upsert_link_for_edge l g =
     g\<lparr>lg_links := filter (\<lambda>e. \<not> (ll_from_device e = ll_from_device l \<and> ll_from_edge e = ll_from_edge l))
                     (lg_links g) @ [l]\<rparr>"

definition remove_node :: "uuid \<Rightarrow> layout_graph \<Rightarrow> layout_graph" where
  "remove_node device_id g =
     g\<lparr>lg_nodes := filter (\<lambda>n. ln_device_id n \<noteq> device_id) (lg_nodes g),
       lg_links := filter (\<lambda>l. ll_from_device l \<noteq> device_id \<and> ll_to_device l \<noteq> device_id) (lg_links g)\<rparr>"

definition get_node :: "layout_graph \<Rightarrow> uuid \<Rightarrow> layout_node option" where
  "get_node g device_id = find (\<lambda>n. ln_device_id n = device_id) (lg_nodes g)"

definition set_primary_extent :: "extent \<Rightarrow> extent \<Rightarrow> layout_node \<Rightarrow> layout_node" where
  "set_primary_extent w h node =
     (if find dn_primary (ln_displays node) = None
      then node\<lparr>ln_displays := ln_displays node @ [display_primary 0 0 w h]\<rparr>
      else node\<lparr>ln_displays := update_first dn_primary (\<lambda>d. d\<lparr>dn_width := w, dn_height := h\<rparr>)
                                (ln_displays node)\<rparr>)"

definition update_primary_display_geometry ::
  "uuid \<Rightarrow> extent \<Rightarrow> extent \<Rightarrow> layout_graph \<Rightarrow> bool \<times> layout_graph" where
  "update_primary_display_geometry device_id w h g =
     (case get_node g device_id of
        None \<Rightarrow> (False, g)
      | Some node \<Rightarrow>
          (case primary_display node of
             Some d \<Rightarrow>
               if dn_width d \<noteq> w \<or> dn_height d \<noteq> h
               then (True, g\<lparr>lg_nodes := update_first (\<lambda>n. ln_device_id n = device_id)
                                           (set_primary_extent w h) (lg_nodes g)\<rparr>)
               else (False, g)
           | None \<Rightarrow>
               (True, g\<lparr>lg_nodes := update_first (\<lambda>n. ln_device_id n = device_id)
                                       (set_primary_extent w h) (lg_nodes g)\<rparr>)))"

subsection \<open>Bounds\<close>

definition display_box :: "display_node \<Rightarrow> bounds" where
  "display_box d =
     (dn_x d, dn_y d, wrap_i32 (dn_x d + wrap_i32 (dn_width d)),
      wrap_i32 (dn_y d + wrap_i32 (dn_height d)))"

definition node_display_bounds :: "layout_node \<Rightarrow> bounds" where
  "node_display_bounds node =
     (case ln_displays node of
        [] \<Rightarrow> (0, 0, default_display_width, default_display_height)
      | first # rest \<Rightarrow> foldl extend_bounds (display_box first) (map display_box rest))"

definition node_bounds_overlap :: "bounds \<Rightarrow> bounds \<Rightarrow> bool" where
  "node_bounds_overlap a b \<longleftrightarrow>
     bounds_left a < bounds_right b \<and> bounds_right a > bounds_left b \<and>
     bounds_top a < bounds_bottom b \<and> bounds_bottom a > bounds_top b"

definition layout_origin :: "layout_node list \<Rightarrow> i32 \<times> i32" where
  "layout_origin nodes =
     (case foldl (\<lambda>origin b. case origin of
                       Some (min_left, min_top) \<Rightarrow>
                         Some (min min_left (bounds_left b), min min_top (bounds_top b))
                     | None \<Rightarrow> Some (bounds_left b, bounds_top b))
             None (map node_display_bounds nodes) of
        Some p \<Rightarrow> p
      | None \<Rightarrow> (0, 0))"

text \<open>\<open>Iterator::max_by\<close>: of several maximal elements, the last.\<close>

definition max_by_key :: "('a \<Rightarrow> 'k::linorder) \<Rightarrow> 'a list \<Rightarrow> 'a option" where
  "max_by_key key xs =
     foldl (\<lambda>acc x. case acc of None \<Rightarrow> Some x
                     | Some a \<Rightarrow> if key x < key a then Some a else Some x) None xs"

definition rightmost_node :: "layout_graph \<Rightarrow> layout_node option" where
  "rightmost_node g =
     max_by_key (\<lambda>n. (bounds_right (node_display_bounds n), ln_device_id n)) (lg_nodes g)"

lemma display_box_within:
  assumes "d \<in> set (ln_displays node)"
  shows "within (display_box d) (node_display_bounds node)"
proof -
  obtain f r where fr: "ln_displays node = f # r" using assms by (cases "ln_displays node") auto
  then have "display_box d \<in> insert (display_box f) (set (map display_box r))"
    using assms by auto
  from foldl_extend_within [OF this] show ?thesis by (simp add: node_display_bounds_def fr)
qed

lemma display_box_left [simp]: "bounds_left (display_box d) = dn_x d"
  by (simp add: display_box_def bounds_left_def)

lemma display_box_top [simp]: "bounds_top (display_box d) = dn_y d"
  by (simp add: display_box_def bounds_top_def)

lemma node_left_le: "d \<in> set (ln_displays node) \<Longrightarrow> bounds_left (node_display_bounds node) \<le> dn_x d"
  using display_box_within [of d node] by (simp add: within_def)

lemma node_left_attained:
  assumes "ln_displays node \<noteq> []"
  shows "\<exists>d\<in>set (ln_displays node). bounds_left (node_display_bounds node) = dn_x d"
proof -
  obtain f r where fr: "ln_displays node = f # r" using assms by (cases "ln_displays node") auto
  show ?thesis
    using foldl_extend_left [of "display_box f" "map display_box r"]
    by (auto simp: node_display_bounds_def fr display_box_def bounds_left_def)
qed


subsection \<open>Routing, ownership and projections\<close>

definition find_link :: "layout_graph \<Rightarrow> uuid \<Rightarrow> direction \<Rightarrow> layout_link option" where
  "find_link g from_device edge =
     find (\<lambda>l. ll_from_device l = from_device \<and> ll_from_edge l = edge) (lg_links g)"

definition resolve_target ::
  "layout_graph \<Rightarrow> uuid \<Rightarrow> direction \<Rightarrow> uuid set \<Rightarrow> uuid option" where
  "resolve_target g from_device edge connected_peers =
     (if from_device \<noteq> lg_local_device g then None
      else case find_link g from_device edge of
        None \<Rightarrow> None
      | Some l \<Rightarrow> if ll_to_device l \<in> connected_peers then Some (ll_to_device l) else None)"

definition links_for_device :: "layout_graph \<Rightarrow> uuid \<Rightarrow> layout_link list" where
  "links_for_device g device_id =
     filter (\<lambda>l. ll_from_device l = device_id \<or> ll_to_device l = device_id) (lg_links g)"

definition remote_devices :: "layout_graph \<Rightarrow> uuid list" where
  "remote_devices g =
     filter (\<lambda>i. i \<noteq> lg_local_device g) (map ln_device_id (lg_nodes g))"

definition rename_device :: "uuid \<Rightarrow> uuid \<Rightarrow> uuid \<Rightarrow> uuid" where
  "rename_device old new d = (if d = old then new else d)"

definition rename_node :: "uuid \<Rightarrow> uuid \<Rightarrow> layout_node \<Rightarrow> layout_node" where
  "rename_node old new n = n\<lparr>ln_device_id := rename_device old new (ln_device_id n)\<rparr>"

definition rename_link :: "uuid \<Rightarrow> uuid \<Rightarrow> layout_link \<Rightarrow> layout_link" where
  "rename_link old new l =
     l\<lparr>ll_from_device := rename_device old new (ll_from_device l),
       ll_to_device := rename_device old new (ll_to_device l)\<rparr>"

definition ensure_local_node :: "uuid \<Rightarrow> layout_graph \<Rightarrow> layout_graph" where
  "ensure_local_node current_local g =
     (if get_node g current_local = None
      then add_node (layout_node_new current_local 0 0 default_display_width default_display_height) g
      else g)"

definition canonicalize_local_device :: "uuid \<Rightarrow> layout_graph \<Rightarrow> layout_graph" where
  "canonicalize_local_device current_local g =
     (let previous_local = lg_local_device g;
          g1 = (if previous_local \<noteq> current_local
                then g\<lparr>lg_nodes := map (rename_node previous_local current_local) (lg_nodes g),
                       lg_links := map (rename_link previous_local current_local) (lg_links g),
                       lg_local_device := current_local\<rparr>
                else g);
          g2 = g1\<lparr>lg_nodes := retain_first ln_device_id {} (lg_nodes g1)\<rparr>
      in ensure_local_node current_local g2)"

definition rebind_local_device :: "uuid \<Rightarrow> layout_graph \<Rightarrow> layout_graph" where
  "rebind_local_device current_local g =
     ensure_local_node current_local (g\<lparr>lg_local_device := current_local\<rparr>)"

definition add_bidirectional_neighbor_link :: "uuid \<Rightarrow> uuid \<Rightarrow> layout_graph \<Rightarrow> layout_graph" where
  "add_bidirectional_neighbor_link left_device right_device g =
     (let forward = link_new left_device Right right_device Left
      in upsert_link_for_edge (link_reverse forward) (upsert_link_for_edge forward g))"

definition visible_links :: "uuid set \<Rightarrow> layout_graph \<Rightarrow> layout_link list" where
  "visible_links visible g =
     filter (\<lambda>l. ll_from_device l \<in> visible \<and> ll_to_device l \<in> visible) (lg_links g)"

text \<open>
  The compact projection packs the visible nodes from x = 0 in order of their left edge; the
  additions wrap as i32 does.
\<close>

fun pack_nodes :: "i32 \<Rightarrow> layout_node list \<Rightarrow> layout_node list" where
  "pack_nodes cursor_x [] = []"
| "pack_nodes cursor_x (node # nodes) =
     (let b = node_display_bounds node;
          width = max 1 (sat_i32 (bounds_right b - bounds_left b))
      in node\<lparr>ln_displays :=
             map (\<lambda>d. d\<lparr>dn_x := wrap_i32 (wrap_i32 (dn_x d - bounds_left b) + cursor_x)\<rparr>)
               (ln_displays node)\<rparr>
         # pack_nodes (wrap_i32 (cursor_x + width)) nodes)"

definition compact_online_display_projection :: "uuid set \<Rightarrow> layout_graph \<Rightarrow> layout_graph" where
  "compact_online_display_projection online g =
     (let visible = insert (lg_local_device g) online;
          nodes = sort_key (\<lambda>n. (bounds_left (node_display_bounds n), ln_device_id n))
                    (filter (\<lambda>n. ln_device_id n \<in> visible) (lg_nodes g))
      in (graph_new (lg_local_device g))\<lparr>lg_nodes := pack_nodes 0 nodes,
           lg_links := visible_links visible g\<rparr>)"

definition online_display_projection :: "uuid set \<Rightarrow> layout_graph \<Rightarrow> layout_graph" where
  "online_display_projection online g =
     (let visible = insert (lg_local_device g) online;
          nodes = filter (\<lambda>n. ln_device_id n \<in> visible) (lg_nodes g);
          (offset_x, offset_y) = layout_origin nodes
      in (graph_new (lg_local_device g))\<lparr>
           lg_nodes := map (\<lambda>n. n\<lparr>ln_displays :=
               map (\<lambda>d. d\<lparr>dn_x := wrap_i32 (dn_x d - offset_x), dn_y := wrap_i32 (dn_y d - offset_y)\<rparr>)
                 (ln_displays n)\<rparr>) nodes,
           lg_links := visible_links visible g\<rparr>)"

section \<open>The routing invariant: one target per device edge\<close>

definition link_source :: "layout_link \<Rightarrow> uuid \<times> direction" where
  "link_source l = (ll_from_device l, ll_from_edge l)"

definition edge_unique :: "layout_graph \<Rightarrow> bool" where
  "edge_unique g \<longleftrightarrow> distinct (map link_source (lg_links g))"

definition device_ids :: "layout_graph \<Rightarrow> uuid list" where
  "device_ids g = map ln_device_id (lg_nodes g)"

lemma get_node_None: "get_node g d = None \<longleftrightarrow> d \<notin> set (device_ids g)"
  by (auto simp: get_node_def find_None_iff_all device_ids_def)

lemma get_node_Some: "get_node g d = Some n \<Longrightarrow> n \<in> set (lg_nodes g) \<and> ln_device_id n = d"
  unfolding get_node_def by (rule find_SomeD)

lemma distinct_map_filter: "distinct (map f xs) \<Longrightarrow> distinct (map f (filter p xs))"
  by (induction xs) auto

lemma edge_unique_upsert: "edge_unique g \<Longrightarrow> edge_unique (upsert_link_for_edge l g)"
  by (auto simp: edge_unique_def upsert_link_for_edge_def distinct_map_filter link_source_def)

lemma edge_unique_remove: "edge_unique g \<Longrightarrow> edge_unique (remove_node d g)"
  by (simp add: edge_unique_def remove_node_def distinct_map_filter)

lemma edge_unique_neighbor: "edge_unique g \<Longrightarrow> edge_unique (add_bidirectional_neighbor_link a b g)"
  by (simp add: add_bidirectional_neighbor_link_def Let_def edge_unique_upsert)

lemma upsert_nodes [simp]:
  "lg_nodes (upsert_link_for_edge l g) = lg_nodes g"
  "lg_local_device (upsert_link_for_edge l g) = lg_local_device g"
  by (simp_all add: upsert_link_for_edge_def)

lemma neighbor_nodes [simp]:
  "lg_nodes (add_bidirectional_neighbor_link a b g) = lg_nodes g"
  "lg_local_device (add_bidirectional_neighbor_link a b g) = lg_local_device g"
  by (simp_all add: add_bidirectional_neighbor_link_def Let_def)

lemma find_link_upsert:
  "find_link (upsert_link_for_edge l g) d e =
    (if (d, e) = link_source l then Some l else find_link g d e)"
proof (cases "(d, e) = link_source l")
  case True
  then show ?thesis
    by (subst find_link_def)
      (simp add: upsert_link_for_edge_def find_append find_filter_gone link_source_def)
next
  case False
  then show ?thesis
    by (subst find_link_def, subst upsert_link_for_edge_def, simp add: find_append)
      (subst find_filter_kept, auto simp: link_source_def find_link_def split: option.splits)
qed

end
