(* ===== verification/Repair.thy ===== *)
theory Repair
  imports Layout
begin

text \<open>
  Collision repair and discovery merges of the layout graph
  (\<open>crates/rshare-core/src/layout.rs\<close>). The repair visits the devices with the local one first
  and shifts each to the right until it clears those already placed; the shifting loop ends
  because the left edge grows until it clears or saturates, which is proved as the termination
  of \<open>settle\<close>.
\<close>

section \<open>Collision repair\<close>

definition shift_node :: "i32 \<Rightarrow> layout_node \<Rightarrow> layout_node" where
  "shift_node s node =
     node\<lparr>ln_displays := map (\<lambda>d. d\<lparr>dn_x := sat_i32 (dn_x d + s)\<rparr>) (ln_displays node)\<rparr>"

definition required_shifts :: "bounds list \<Rightarrow> bounds \<Rightarrow> int list" where
  "required_shifts placed b =
     map (\<lambda>p. bounds_right p - bounds_left b) (filter (node_bounds_overlap b) placed)"

text \<open>The distance from the top of the i32 range, as a measure for the shifting loop.\<close>

definition room :: "layout_node \<Rightarrow> nat" where
  "room node =
     (let l = bounds_left (node_display_bounds node)
      in if l > i32_max then 1 else 2 * nat (i32_max - l))"

lemma shift_node_left:
  assumes "ln_displays node \<noteq> []"
  shows "bounds_left (node_display_bounds (shift_node s node)) =
    sat_i32 (bounds_left (node_display_bounds node) + s)"
proof -
  let ?n = "shift_node s node" and ?l = "bounds_left (node_display_bounds node)"
  have ne: "ln_displays ?n \<noteq> []" using assms by (simp add: shift_node_def)
  obtain d where d: "d \<in> set (ln_displays node)" "?l = dn_x d"
    using node_left_attained [OF assms] by blast
  obtain e where e: "e \<in> set (ln_displays node)"
      "bounds_left (node_display_bounds ?n) = sat_i32 (dn_x e + s)"
    using node_left_attained [OF ne] by (auto simp: shift_node_def)
  have "sat_i32 (?l + s) \<le> bounds_left (node_display_bounds ?n)"
    using e node_left_le [OF e(1)] by (simp add: sat_i32_mono)
  moreover have "bounds_left (node_display_bounds ?n) \<le> sat_i32 (dn_x d + s)"
    using d(1) by (intro order_trans [OF node_left_le [of "d\<lparr>dn_x := sat_i32 (dn_x d + s)\<rparr>"]])
      (auto simp: shift_node_def)
  ultimately show ?thesis using d(2) by simp
qed

lemma shift_node_empty [simp]: "ln_displays node = [] \<Longrightarrow> shift_node s node = node"
  by (cases node) (simp add: shift_node_def)

lemma room_shift:
  assumes "1 \<le> s"
    and "bounds_left (node_display_bounds (shift_node s node)) \<noteq> bounds_left (node_display_bounds node)"
  shows "room (shift_node s node) < room node"
proof -
  have ne: "ln_displays node \<noteq> []" using assms(2) by auto
  define l where "l = bounds_left (node_display_bounds node)"
  have "bounds_left (node_display_bounds (shift_node s node)) = sat_i32 (l + s)"
    using shift_node_left [OF ne] by (simp add: l_def)
  then show ?thesis
    using assms by (auto simp: room_def l_def [symmetric] sat_i32_def clamp_def Let_def split: if_splits)
qed

function settle :: "bounds list \<Rightarrow> layout_node \<Rightarrow> bool \<Rightarrow> layout_node \<times> bool" where
  "settle placed node changed =
     (case required_shifts placed (node_display_bounds node) of
        [] \<Rightarrow> (node, changed)
      | s # ss \<Rightarrow>
          (let shift = clamp 1 i32_max (foldl max s ss);
               node' = shift_node shift node
           in if bounds_left (node_display_bounds node') = bounds_left (node_display_bounds node)
              then (node', changed)
              else settle placed node' True))"
  by pat_completeness auto
termination
proof (relation "measure (\<lambda>(placed, node, changed). room node)")
  show "wf (measure (\<lambda>(placed, node, changed). room node))" by simp
next
  fix placed :: "bounds list" and node :: layout_node and changed :: bool and s :: int
    and ss :: "int list" and shift node'
  assume "required_shifts placed (node_display_bounds node) = s # ss"
    and shift: "shift = clamp 1 i32_max (foldl max s ss)" and n: "node' = shift_node shift node"
    and ne: "bounds_left (node_display_bounds node') \<noteq> bounds_left (node_display_bounds node)"
  have "1 \<le> shift" using clamp_bounds [of 1 i32_max] shift by auto
  then show "((placed, node', True), placed, node, changed)
      \<in> measure (\<lambda>(placed, node, changed). room node)"
    using room_shift ne n by simp
qed

declare settle.simps [simp del]

fun repair_loop ::
  "nat list \<Rightarrow> bounds list \<Rightarrow> layout_node list \<Rightarrow> bool \<Rightarrow> layout_node list \<times> bool" where
  "repair_loop [] placed nodes changed = (nodes, changed)"
| "repair_loop (i # order) placed nodes changed =
     (let (node, changed') = settle placed (nodes ! i) changed
      in repair_loop order (placed @ [node_display_bounds node]) (nodes[i := node]) changed')"

definition repair_key :: "layout_graph \<Rightarrow> nat \<Rightarrow> bool \<times> int \<times> int \<times> uuid" where
  "repair_key g i =
     (let n = lg_nodes g ! i; b = node_display_bounds n
      in (ln_device_id n \<noteq> lg_local_device g, bounds_left b, bounds_top b, ln_device_id n))"

definition repair_order :: "layout_graph \<Rightarrow> nat list" where
  "repair_order g = sort_key (repair_key g) [0..<length (lg_nodes g)]"

definition repair_overlapping_device_groups :: "layout_graph \<Rightarrow> bool \<times> layout_graph" where
  "repair_overlapping_device_groups g =
     (if length (lg_nodes g) < 2 then (False, g)
      else let (nodes, changed) = repair_loop (repair_order g) [] (lg_nodes g) False
           in (changed, g\<lparr>lg_nodes := nodes\<rparr>))"

section \<open>Discovery merges\<close>

definition merge_peer ::
  "layout_graph \<times> bool \<Rightarrow> uuid \<times> screen_info option \<Rightarrow> layout_graph \<times> bool" where
  "merge_peer gc peer =
     (let (g, changed) = gc; (peer_id, screen) = peer
      in if get_node g peer_id \<noteq> None then (g, changed)
         else
           let (neighbor_id, x, y) =
                 (case rightmost_node g of
                    Some node \<Rightarrow>
                      (ln_device_id node, bounds_right (node_display_bounds node),
                       (case primary_display node of Some d \<Rightarrow> dn_y d | None \<Rightarrow> 0))
                  | None \<Rightarrow> (lg_local_device g, 0, 0));
               (w, h) = (case screen of Some sc \<Rightarrow> (si_width sc, si_height sc)
                         | None \<Rightarrow> (default_display_width, default_display_height))
           in (add_bidirectional_neighbor_link neighbor_id peer_id
                 (add_node (layout_node_new peer_id x y w h) g), True))"

definition merge_discovered_peers_to_right_with_screens ::
  "(uuid \<times> screen_info option) list \<Rightarrow> layout_graph \<Rightarrow> bool \<times> layout_graph" where
  "merge_discovered_peers_to_right_with_screens discovered g =
     (let missing = (get_node g (lg_local_device g) = None);
          g1 = ensure_local_node (lg_local_device g) g;
          peers = sort_key fst (filter (\<lambda>p. fst p \<noteq> lg_local_device g) discovered);
          (g2, changed) = foldl merge_peer (g1, missing) peers;
          (repaired, g3) = repair_overlapping_device_groups g2
      in (changed \<or> repaired, g3))"

definition merge_discovered_peers_to_right :: "uuid list \<Rightarrow> layout_graph \<Rightarrow> bool \<times> layout_graph" where
  "merge_discovered_peers_to_right discovered g =
     merge_discovered_peers_to_right_with_screens (map (\<lambda>d. (d, None)) discovered) g"

section \<open>What one settled node is\<close>

definition node_in_range :: "layout_node \<Rightarrow> bool" where
  "node_in_range n \<longleftrightarrow> (\<forall>d\<in>set (ln_displays n). in_i32 (dn_x d))"

definition stuck :: "layout_node \<Rightarrow> bool" where
  "stuck n \<longleftrightarrow> ln_displays n = [] \<or> bounds_left (node_display_bounds n) = i32_max"

lemma node_bounds_overlap_sym: "node_bounds_overlap a b = node_bounds_overlap b a"
  by (auto simp: node_bounds_overlap_def)

lemma shift_node_id [simp]: "ln_device_id (shift_node k n) = ln_device_id n"
  by (simp add: shift_node_def)

lemma shift_node_in_range [simp]: "node_in_range (shift_node k n)"
  by (simp add: shift_node_def node_in_range_def)

lemma shift_node_0: "node_in_range n \<Longrightarrow> shift_node 0 n = n"
  by (cases n) (simp add: shift_node_def node_in_range_def map_idI)

lemma sat_sat_add: "0 \<le> a \<Longrightarrow> 0 \<le> b \<Longrightarrow> sat_i32 (sat_i32 (x + a) + b) = sat_i32 (x + (a + b))"
  if "in_i32 x" for x a b
  using that by (auto simp: sat_i32_def clamp_def in_i32_def)

lemma shift_node_shift:
  "node_in_range n \<Longrightarrow> 0 \<le> a \<Longrightarrow> 0 \<le> b \<Longrightarrow> shift_node b (shift_node a n) = shift_node (a + b) n"
  by (simp add: shift_node_def node_in_range_def sat_sat_add)

lemma node_left_in_range: "node_in_range n \<Longrightarrow> in_i32 (bounds_left (node_display_bounds n))"
  using node_left_attained [of n]
  by (cases "ln_displays n = []")
    (auto simp: node_in_range_def node_display_bounds_def bounds_left_def in_i32_def)

lemma required_shifts_Nil:
  "required_shifts placed b = [] \<longleftrightarrow> (\<forall>p\<in>set placed. \<not> node_bounds_overlap b p)"
  by (auto simp: required_shifts_def filter_empty_conv)

text \<open>A shift that moves nothing is one of a node that cannot move.\<close>

lemma unmoved_stuck:
  assumes "node_in_range n" "1 \<le> s"
    and "bounds_left (node_display_bounds (shift_node s n)) = bounds_left (node_display_bounds n)"
  shows "stuck (shift_node s n) \<and> shift_node s n = n"
proof (cases "ln_displays n = []")
  case True
  then show ?thesis by (simp add: stuck_def)
next
  case False
  define l where "l = bounds_left (node_display_bounds n)"
  have "sat_i32 (l + s) = l" using assms(3) shift_node_left [OF False] by (simp add: l_def)
  moreover have "in_i32 l" using node_left_in_range [OF assms(1)] by (simp add: l_def)
  ultimately have l: "l = i32_max"
    using assms(2) by (auto simp: sat_i32_def clamp_def in_i32_def split: if_splits)
  have "dn_x d = i32_max" if "d \<in> set (ln_displays n)" for d
    using that node_left_le [OF that] l assms(1)
    by (auto simp: l_def [symmetric] node_in_range_def in_i32_def)
  then have "map (\<lambda>d. d\<lparr>dn_x := sat_i32 (dn_x d + s)\<rparr>) (ln_displays n) = ln_displays n"
    using assms(2) by (intro map_idI) (simp add: sat_i32_def clamp_def)
  then have "shift_node s n = n" by (cases n) (simp add: shift_node_def)
  with l assms(3) show ?thesis by (simp add: stuck_def l_def)
qed

lemma settle_spec:
  assumes "settle placed n c = (n', c')" and "node_in_range n"
  shows "(\<exists>k\<ge>0. n' = shift_node k n) \<and>
    ((\<forall>p\<in>set placed. \<not> node_bounds_overlap (node_display_bounds n') p) \<or> stuck n') \<and>
    (c' \<longleftrightarrow> c \<or> n' \<noteq> n)"
  using assms
proof (induction placed n c arbitrary: n' c' rule: settle.induct)
  case (1 placed n c)
  show ?case
  proof (cases "required_shifts placed (node_display_bounds n)")
    case Nil
    then have "n' = n" "c' = c" using "1.prems"(1) by (simp_all add: settle.simps)
    moreover have "\<exists>k\<ge>0. n = shift_node k n"
      using shift_node_0 [OF "1.prems"(2)] by (intro exI [of _ 0]) simp
    ultimately show ?thesis using Nil by (simp add: required_shifts_Nil)
  next
    case (Cons s ss)
    define k where "k = clamp 1 i32_max (foldl max s ss)"
    have k1: "1 \<le> k" using clamp_bounds [of 1 i32_max] by (simp add: k_def)
    let ?m = "shift_node k n"
    show ?thesis
    proof (cases "bounds_left (node_display_bounds ?m) = bounds_left (node_display_bounds n)")
      case True
      then have "n' = ?m" "c' = c"
        using "1.prems"(1) Cons by (simp_all add: settle.simps [of placed n c] k_def Let_def)
      then show ?thesis using unmoved_stuck [OF "1.prems"(2) k1 True] k1
        by (metis order_trans zero_le_one)
    next
      case False
      then have rec: "settle placed ?m True = (n', c')"
        using "1.prems"(1) Cons by (simp add: settle.simps [of placed n c] k_def Let_def)
      have IH: "(\<exists>j\<ge>0. n' = shift_node j ?m) \<and>
          ((\<forall>p\<in>set placed. \<not> node_bounds_overlap (node_display_bounds n') p) \<or> stuck n') \<and> c'"
        using "1.IH" [OF Cons k_def refl False rec] by simp
      then obtain j where j: "0 \<le> j" "n' = shift_node (k + j) n"
        using shift_node_shift [OF "1.prems"(2)] k1 by auto
      have ne: "ln_displays n \<noteq> []" using False by auto
      have "bounds_left (node_display_bounds ?m) \<le> bounds_left (node_display_bounds n')"
        using j k1 ne by (simp add: shift_node_left sat_i32_mono)
      moreover have "bounds_left (node_display_bounds n) \<le> bounds_left (node_display_bounds ?m)"
        using ne k1 node_left_in_range [OF "1.prems"(2)]
          sat_i32_mono [of "bounds_left (node_display_bounds n)" "bounds_left (node_display_bounds n) + k"]
        by (simp add: shift_node_left)
      ultimately have "n' \<noteq> n" using False by auto
      then show ?thesis using IH j k1 by (auto intro!: exI [of _ "k + j"])
    qed
  qed
qed

section \<open>The whole repair\<close>

definition clears :: "layout_node list \<Rightarrow> nat \<Rightarrow> nat \<Rightarrow> bool" where
  "clears nodes i j \<longleftrightarrow>
     \<not> node_bounds_overlap (node_display_bounds (nodes ! j)) (node_display_bounds (nodes ! i)) \<or>
     stuck (nodes ! j)"

definition shifted_from :: "layout_node list \<Rightarrow> layout_node list \<Rightarrow> nat \<Rightarrow> bool" where
  "shifted_from old new i \<longleftrightarrow> (\<exists>k\<ge>0. new ! i = shift_node k (old ! i))"

lemma repair_loop_spec:
  assumes "repair_loop order placed nodes c = (nodes', c')"
    and "distinct order" "\<forall>i\<in>set order. i < length nodes" "\<forall>n\<in>set nodes. node_in_range n"
  shows "length nodes' = length nodes \<and>
    (\<forall>i. i \<notin> set order \<longrightarrow> nodes' ! i = nodes ! i) \<and>
    (\<forall>i\<in>set order. shifted_from nodes nodes' i) \<and>
    (\<forall>i\<in>set order. \<forall>p\<in>set placed.
       \<not> node_bounds_overlap (node_display_bounds (nodes' ! i)) p \<or> stuck (nodes' ! i)) \<and>
    sorted_wrt (clears nodes') order \<and>
    (c' \<longleftrightarrow> c \<or> nodes' \<noteq> nodes)"
  using assms
proof (induction order arbitrary: placed nodes c)
  case Nil
  then show ?case by simp
next
  case (Cons i order)
  obtain n c1 where st: "settle placed (nodes ! i) c = (n, c1)" by fastforce
  let ?nodes = "nodes[i := n]" and ?placed = "placed @ [node_display_bounds n]"
  have loop: "repair_loop order ?placed ?nodes c1 = (nodes', c')"
    using Cons.prems(1) st by simp
  have i: "i < length nodes" "i \<notin> set order" using Cons.prems by auto
  have ri: "node_in_range (nodes ! i)" using Cons.prems(4) i by simp
  obtain k where k: "0 \<le> k" "n = shift_node k (nodes ! i)" using settle_spec [OF st ri] by auto
  have ranges: "\<forall>m\<in>set ?nodes. node_in_range m"
    using Cons.prems(4) k set_update_subset_insert [of nodes i n] by auto
  have IH: "length nodes' = length nodes"
    "\<And>j. j \<notin> set order \<Longrightarrow> nodes' ! j = ?nodes ! j"
    "\<And>j. j \<in> set order \<Longrightarrow> shifted_from ?nodes nodes' j"
    "\<And>j p. j \<in> set order \<Longrightarrow> p \<in> set ?placed \<Longrightarrow>
       \<not> node_bounds_overlap (node_display_bounds (nodes' ! j)) p \<or> stuck (nodes' ! j)"
    "sorted_wrt (clears nodes') order"
    "c' \<longleftrightarrow> c1 \<or> nodes' \<noteq> ?nodes"
    using Cons.IH [OF loop] Cons.prems(2,3) ranges by auto
  have ni: "nodes' ! i = n" using IH(2) [OF i(2)] i by simp
  have A: "\<forall>j. j \<notin> set (i # order) \<longrightarrow> nodes' ! j = nodes ! j" using IH(2) by auto
  have B: "\<forall>j\<in>set (i # order). shifted_from nodes nodes' j"
  proof
    fix j assume "j \<in> set (i # order)"
    then consider "j = i" | "j \<in> set order" "j \<noteq> i" using i(2) by auto
    then show "shifted_from nodes nodes' j"
    proof cases
      case 1 then show ?thesis using k ni by (auto simp: shifted_from_def)
    next
      case 2 then show ?thesis using IH(3) [of j] by (simp add: shifted_from_def)
    qed
  qed
  have C: "\<forall>j\<in>set (i # order). \<forall>p\<in>set placed.
      \<not> node_bounds_overlap (node_display_bounds (nodes' ! j)) p \<or> stuck (nodes' ! j)"
  proof (intro ballI)
    fix j p assume j: "j \<in> set (i # order)" and p: "p \<in> set placed"
    show "\<not> node_bounds_overlap (node_display_bounds (nodes' ! j)) p \<or> stuck (nodes' ! j)"
    proof (cases "j = i")
      case True
      then show ?thesis using settle_spec [OF st ri] ni p by auto
    next
      case False
      then show ?thesis using IH(4) [of j p] j p by simp
    qed
  qed
  have "clears nodes' i j" if "j \<in> set order" for j
    using IH(4) [OF that, of "node_display_bounds n"] ni by (auto simp: clears_def)
  then have D: "sorted_wrt (clears nodes') (i # order)" using IH(5) by simp
  have E: "c' \<longleftrightarrow> c \<or> nodes' \<noteq> nodes"
  proof -
    have c1: "c1 \<longleftrightarrow> c \<or> n \<noteq> nodes ! i" using settle_spec [OF st ri] by blast
    show ?thesis
    proof (cases "n = nodes ! i")
      case True
      then show ?thesis using IH(6) c1 by simp
    next
      case False
      then have "nodes' \<noteq> nodes" using ni by auto
      then show ?thesis using IH(6) c1 False by simp
    qed
  qed
  show ?case using IH(1) A B C D E by blast
qed

lemma repair_order_set [simp]: "set (repair_order g) = {..<length (lg_nodes g)}"
  by (auto simp: repair_order_def)

lemma repair_order_distinct [simp]: "distinct (repair_order g)"
  by (simp add: repair_order_def)

definition graph_in_range :: "layout_graph \<Rightarrow> bool" where
  "graph_in_range g \<longleftrightarrow> (\<forall>n\<in>set (lg_nodes g). node_in_range n)"

lemma repair_spec:
  assumes "repair_overlapping_device_groups g = (c, g')" and "graph_in_range g"
  shows "length (lg_nodes g') = length (lg_nodes g)"
    and "\<And>i. i < length (lg_nodes g) \<Longrightarrow> shifted_from (lg_nodes g) (lg_nodes g') i"
    and "sorted_wrt (clears (lg_nodes g')) (repair_order g)"
    and "c \<longleftrightarrow> g' \<noteq> g"
    and "lg_links g' = lg_links g" "lg_local_device g' = lg_local_device g"
      "lg_version g' = lg_version g"
proof -
  have "length (lg_nodes g') = length (lg_nodes g) \<and>
    (\<forall>i<length (lg_nodes g). shifted_from (lg_nodes g) (lg_nodes g') i) \<and>
    sorted_wrt (clears (lg_nodes g')) (repair_order g) \<and> (c \<longleftrightarrow> g' \<noteq> g) \<and>
    lg_links g' = lg_links g \<and> lg_local_device g' = lg_local_device g \<and> lg_version g' = lg_version g"
  proof (cases "length (lg_nodes g) < 2")
    case True
    then have "g' = g" "\<not> c" using assms(1) by (simp_all add: repair_overlapping_device_groups_def)
    moreover have "length (repair_order g) < 2" using True by (simp add: repair_order_def)
    then have "sorted_wrt (clears (lg_nodes g)) (repair_order g)"
      by (cases "repair_order g") (auto simp: less_2_cases_iff)
    moreover have "shifted_from (lg_nodes g) (lg_nodes g) i" if "i < length (lg_nodes g)" for i
      using that assms(2) shift_node_0 [of "lg_nodes g ! i"]
      by (auto simp: shifted_from_def graph_in_range_def intro!: exI [of _ 0])
    ultimately show ?thesis by simp
  next
    case False
    obtain nodes' where loop: "repair_loop (repair_order g) [] (lg_nodes g) False = (nodes', c)"
      and g': "g' = g\<lparr>lg_nodes := nodes'\<rparr>"
      using assms(1) False
      by (auto simp: repair_overlapping_device_groups_def split: prod.splits)
    have eq: "g' = g \<longleftrightarrow> nodes' = lg_nodes g" using g' by (cases g) auto
    have "\<forall>i\<in>set (repair_order g). i < length (lg_nodes g)" by simp
    from repair_loop_spec [OF loop repair_order_distinct this] assms(2)
    have "length nodes' = length (lg_nodes g)"
      "\<forall>i<length (lg_nodes g). shifted_from (lg_nodes g) nodes' i"
      "sorted_wrt (clears nodes') (repair_order g)" "c \<longleftrightarrow> nodes' \<noteq> lg_nodes g"
      by (auto simp: graph_in_range_def)
    then show ?thesis using eq by (simp add: g')
  qed
  then show "length (lg_nodes g') = length (lg_nodes g)"
    and "\<And>i. i < length (lg_nodes g) \<Longrightarrow> shifted_from (lg_nodes g) (lg_nodes g') i"
    and "sorted_wrt (clears (lg_nodes g')) (repair_order g)"
    and "c \<longleftrightarrow> g' \<noteq> g"
    and "lg_links g' = lg_links g" "lg_local_device g' = lg_local_device g"
      "lg_version g' = lg_version g"
    by blast+
qed

lemma sorted_wrt_pair:
  "sorted_wrt P xs \<Longrightarrow> distinct xs \<Longrightarrow> x \<in> set xs \<Longrightarrow> y \<in> set xs \<Longrightarrow> x \<noteq> y \<Longrightarrow> P x y \<or> P y x"
  by (induction xs) auto

section \<open>A worked example\<close>

text \<open>Two linked devices whose groups overlap, and what the repair makes of them.\<close>

definition overlapping_pair :: layout_graph where
  "overlapping_pair =
     \<lparr>lg_version = 1, lg_local_device = 1,
      lg_nodes = [layout_node_new 1 0 0 1920 1080, layout_node_new 2 100 0 1280 720],
      lg_links = [link_new 1 Right 2 Left, link_new 2 Left 1 Right]\<rparr>"

definition separated_pair :: layout_graph where
  "separated_pair = overlapping_pair\<lparr>lg_nodes :=
      [layout_node_new 1 0 0 1920 1080, layout_node_new 2 1920 0 1280 720]\<rparr>"

lemma repair_pair: "repair_overlapping_device_groups overlapping_pair = (True, separated_pair)"
  by code_simp

lemma overlapping_pair_in_range: "graph_in_range overlapping_pair"
  by (simp add: graph_in_range_def overlapping_pair_def node_in_range_def layout_node_new_def
    display_primary_def in_i32_def)

lemma separated_pair_not_stuck: "\<forall>n\<in>set (lg_nodes separated_pair). \<not> stuck n"
  by code_simp

section \<open>What a repair guarantees\<close>

text \<open>
  C1. After a repair no two devices overlap, unless one of them cannot be moved: it has no
  displays (the code gives it a default rectangle at the origin) or its left edge has reached
  the top of the i32 range. This needs only that the coordinates are i32 values.
\<close>

theorem repair_separates:
  assumes "repair_overlapping_device_groups g = (c, g')" and "graph_in_range g"
    and "i < length (lg_nodes g')" "j < length (lg_nodes g')" "i \<noteq> j"
    and "\<not> stuck (lg_nodes g' ! i)" "\<not> stuck (lg_nodes g' ! j)"
  shows "\<not> node_bounds_overlap (node_display_bounds (lg_nodes g' ! i))
      (node_display_bounds (lg_nodes g' ! j))"
proof -
  have "i \<in> set (repair_order g)" "j \<in> set (repair_order g)"
    using assms(3,4) repair_spec(1) [OF assms(1,2)] by simp_all
  then have "clears (lg_nodes g') i j \<or> clears (lg_nodes g') j i"
    using sorted_wrt_pair [OF repair_spec(3) [OF assms(1,2)]] assms(5) by simp
  then show ?thesis using assms(6,7) node_bounds_overlap_sym by (auto simp: clears_def)
qed

theorem repair_separates_witness:
  "\<not> node_bounds_overlap (node_display_bounds (lg_nodes separated_pair ! 0))
      (node_display_bounds (lg_nodes separated_pair ! 1))"
proof -
  have "\<not> stuck (lg_nodes separated_pair ! 0)" "\<not> stuck (lg_nodes separated_pair ! 1)"
    using separated_pair_not_stuck by (simp_all add: separated_pair_def)
  then show ?thesis
    using repair_separates [OF repair_pair overlapping_pair_in_range, of 0 1]
    by (simp add: separated_pair_def)
qed

lemma sort_key_first:
  assumes "xs \<noteq> []"
  shows "\<forall>y\<in>set xs. key (hd (sort_key key xs)) \<le> key y"
proof -
  obtain z zs where z: "sort_key key xs = z # zs"
    using assms by (metis list.exhaust set_empty set_sort)
  have "sorted (map key (z # zs))" using sorted_sort_key [of key xs] z by simp
  then have "\<forall>y\<in>set (z # zs). key z \<le> key y" by auto
  then show ?thesis using z by (metis list.sel(1) set_sort)
qed

lemma settle_nothing_placed: "settle [] n c = (n, c)"
  by (simp add: settle.simps required_shifts_def)

lemma repair_local_first:
  assumes "l < length (lg_nodes g)" "ln_device_id (lg_nodes g ! l) = lg_local_device g"
    and "\<forall>i<length (lg_nodes g). ln_device_id (lg_nodes g ! i) = lg_local_device g \<longrightarrow> i = l"
  shows "hd (repair_order g) = l"
proof -
  let ?h = "hd (repair_order g)"
  have ne: "[0..<length (lg_nodes g)] \<noteq> []" using assms(1) by fastforce
  have h: "?h \<in> set (repair_order g)"
    using ne by (intro hd_in_set) (metis repair_order_def set_empty set_sort)
  have "repair_key g ?h \<le> repair_key g l"
    using sort_key_first [OF ne, of "repair_key g"] assms(1) by (simp add: repair_order_def)
  then have "ln_device_id (lg_nodes g ! ?h) = lg_local_device g"
    using assms(2) by (auto simp: repair_key_def Let_def less_eq_prod_def)
  then show ?thesis using assms(3) h by simp
qed

text \<open>
  C2. The local device is the anchor of the layout: where its node is unique, a repair leaves it
  exactly where it was, and every other device keeps its identity and moves right by one common
  (saturating) shift, so the displays of one device keep their relative order.
\<close>

theorem repair_keeps_anchor:
  assumes "repair_overlapping_device_groups g = (c, g')" and "graph_in_range g"
    and "l < length (lg_nodes g)" "ln_device_id (lg_nodes g ! l) = lg_local_device g"
    and "\<forall>i<length (lg_nodes g). ln_device_id (lg_nodes g ! i) = lg_local_device g \<longrightarrow> i = l"
  shows "lg_nodes g' ! l = lg_nodes g ! l \<and>
    (\<forall>i<length (lg_nodes g). \<exists>k\<ge>0. lg_nodes g' ! i = shift_node k (lg_nodes g ! i))"
proof -
  have "lg_nodes g' ! l = lg_nodes g ! l"
  proof (cases "length (lg_nodes g) < 2")
    case True
    then show ?thesis using assms(1) by (simp add: repair_overlapping_device_groups_def)
  next
    case False
    then have "repair_order g \<noteq> []"
      by (metis assms(3) empty_iff lessThan_iff list.set(1) repair_order_set)
    then obtain rest where ord: "repair_order g = l # rest"
      using repair_local_first [OF assms(3-5)] by (metis list.collapse)
    obtain nodes' where loop: "repair_loop (repair_order g) [] (lg_nodes g) False = (nodes', c)"
      and g': "g' = g\<lparr>lg_nodes := nodes'\<rparr>"
      using assms(1) False
      by (auto simp: repair_overlapping_device_groups_def split: prod.splits)
    let ?b = "[node_display_bounds (lg_nodes g ! l)]"
    have rest: "repair_loop rest ?b (lg_nodes g) False = (nodes', c)"
      using loop ord by (simp add: settle_nothing_placed)
    have "distinct rest" "l \<notin> set rest" "\<forall>i\<in>set rest. i < length (lg_nodes g)"
      using repair_order_distinct [of g] repair_order_set [of g] ord by auto
    then have "nodes' ! l = lg_nodes g ! l"
      using repair_loop_spec [OF rest] assms(2) by (simp add: graph_in_range_def)
    then show ?thesis by (simp add: g')
  qed
  then show ?thesis
    using repair_spec(2) [OF assms(1,2)] by (auto simp: shifted_from_def)
qed

theorem repair_keeps_anchor_witness:
  "lg_nodes separated_pair ! 0 = lg_nodes overlapping_pair ! 0 \<and>
   (\<exists>k\<ge>0. lg_nodes separated_pair ! 1 = shift_node k (lg_nodes overlapping_pair ! 1))"
  using repair_keeps_anchor [OF repair_pair overlapping_pair_in_range, of 0]
  by (simp add: overlapping_pair_def less_Suc_eq layout_node_new_def)

definition separated :: "layout_graph \<Rightarrow> bool" where
  "separated g \<longleftrightarrow> (\<forall>i<length (lg_nodes g). \<forall>j<length (lg_nodes g). i \<noteq> j \<longrightarrow>
     \<not> node_bounds_overlap (node_display_bounds (lg_nodes g ! i)) (node_display_bounds (lg_nodes g ! j)))"

lemma repair_loop_separated:
  assumes "separated g" "distinct order" "\<forall>i\<in>set order. i < length (lg_nodes g)"
    and "\<forall>p\<in>set placed. \<exists>j<length (lg_nodes g). j \<notin> set order \<and>
      p = node_display_bounds (lg_nodes g ! j)"
  shows "repair_loop order placed (lg_nodes g) c = (lg_nodes g, c)"
  using assms(2-)
proof (induction order arbitrary: placed)
  case Nil
  then show ?case by simp
next
  case (Cons i order)
  have "\<forall>p\<in>set placed. \<not> node_bounds_overlap (node_display_bounds (lg_nodes g ! i)) p"
    using assms(1) Cons.prems by (fastforce simp: separated_def)
  then have "required_shifts placed (node_display_bounds (lg_nodes g ! i)) = []"
    by (simp add: required_shifts_Nil)
  then have st: "settle placed (lg_nodes g ! i) c = (lg_nodes g ! i, c)"
    by (simp add: settle.simps)
  have "\<forall>p\<in>set (placed @ [node_display_bounds (lg_nodes g ! i)]).
      \<exists>j<length (lg_nodes g). j \<notin> set order \<and> p = node_display_bounds (lg_nodes g ! j)"
    using Cons.prems by auto
  then show ?case using Cons st by simp
qed

lemma repair_separated_id: "separated g \<Longrightarrow> repair_overlapping_device_groups g = (False, g)"
  using repair_loop_separated [of g "repair_order g" "[]" False]
  by (simp add: repair_overlapping_device_groups_def)

text \<open>
  Repairing twice is repairing once: where no device is stuck after the first repair, the
  second finds no collision and reports that nothing changed.
\<close>

theorem repair_idempotent:
  assumes "repair_overlapping_device_groups g = (c, g')" and "graph_in_range g"
    and "\<forall>n\<in>set (lg_nodes g'). \<not> stuck n"
  shows "repair_overlapping_device_groups g' = (False, g')"
proof (rule repair_separated_id)
  show "separated g'"
    unfolding separated_def using repair_separates [OF assms(1,2)] assms(3) by simp
qed

theorem repair_idempotent_witness:
  "repair_overlapping_device_groups overlapping_pair = (True, separated_pair) \<and>
   repair_overlapping_device_groups separated_pair = (False, separated_pair)"
  using repair_idempotent [OF repair_pair overlapping_pair_in_range separated_pair_not_stuck]
    repair_pair by simp

section \<open>The whole merge\<close>

text \<open>What a merge of discovered peers maintains.\<close>

definition graph_wf :: "layout_graph \<Rightarrow> bool" where
  "graph_wf g \<longleftrightarrow> distinct (device_ids g) \<and> edge_unique g"

lemma device_ids_add_node [simp]: "device_ids (add_node n g) = device_ids g @ [ln_device_id n]"
  by (simp add: device_ids_def add_node_def)

lemma device_ids_neighbor [simp]:
  "device_ids (add_bidirectional_neighbor_link a b g) = device_ids g"
  by (simp add: device_ids_def)

lemma edge_unique_add_node [simp]: "edge_unique (add_node n g) = edge_unique g"
  by (simp add: edge_unique_def add_node_def)

lemma layout_node_new_id [simp]: "ln_device_id (layout_node_new d x y w h) = d"
  by (simp add: layout_node_new_def)

lemma add_node_local [simp]: "lg_local_device (add_node n g) = lg_local_device g"
  by (simp add: add_node_def)

lemma merge_peer_spec:
  assumes "merge_peer (g, c) (p, screen) = (g', c')" and "graph_wf g"
  shows "graph_wf g' \<and> lg_local_device g' = lg_local_device g \<and>
    set (device_ids g') = insert p (set (device_ids g)) \<and>
    (\<exists>new. lg_nodes g' = lg_nodes g @ new) \<and>
    (p \<in> set (device_ids g) \<longrightarrow> g' = g \<and> c' = c) \<and> (p \<notin> set (device_ids g) \<longrightarrow> c')"
proof (cases "get_node g p")
  case None
  then have "p \<notin> set (device_ids g)" by (simp add: get_node_None)
  moreover obtain n x y w h where
    "g' = add_bidirectional_neighbor_link n p (add_node (layout_node_new p x y w h) g)" "c'"
    using assms(1) None by (auto simp: merge_peer_def Let_def split: prod.splits)
  ultimately show ?thesis
    using assms(2) by (auto simp: graph_wf_def edge_unique_neighbor add_node_def device_ids_def
      edge_unique_add_node [unfolded add_node_def])
next
  case (Some n)
  then have "p \<in> set (device_ids g)" using get_node_None [of g p] by simp
  moreover have "g' = g" "c' = c" using assms(1) Some by (simp_all add: merge_peer_def)
  ultimately show ?thesis using assms(2) by auto
qed

lemma merge_peers_spec:
  assumes "foldl merge_peer (g, c) peers = (g', c')" and "graph_wf g"
  shows "graph_wf g' \<and> lg_local_device g' = lg_local_device g \<and>
    set (device_ids g') = fst ` set peers \<union> set (device_ids g) \<and>
    (\<exists>new. lg_nodes g' = lg_nodes g @ new) \<and>
    (fst ` set peers \<subseteq> set (device_ids g) \<longrightarrow> g' = g \<and> c' = c)"
  using assms
proof (induction peers arbitrary: g c)
  case Nil
  then show ?case by simp
next
  case (Cons q peers)
  obtain p screen where q: "q = (p, screen)" by fastforce
  obtain g1 c1 where s1: "merge_peer (g, c) (p, screen) = (g1, c1)" by fastforce
  note A = merge_peer_spec [OF s1 Cons.prems(2)]
  have "foldl merge_peer (g1, c1) peers = (g', c')" using Cons.prems(1) q s1 by simp
  from Cons.IH [OF this] A
  have B: "graph_wf g' \<and> lg_local_device g' = lg_local_device g1 \<and>
    set (device_ids g') = fst ` set peers \<union> set (device_ids g1) \<and>
    (\<exists>new. lg_nodes g' = lg_nodes g1 @ new) \<and>
    (fst ` set peers \<subseteq> set (device_ids g1) \<longrightarrow> g' = g1 \<and> c' = c1)" by blast
  have "\<exists>new. lg_nodes g' = lg_nodes g @ new" using A B by (metis append.assoc)
  moreover have "fst ` set (q # peers) \<subseteq> set (device_ids g) \<longrightarrow> g' = g \<and> c' = c"
    using A B q by auto
  ultimately show ?case using A B q by auto
qed

lemma repair_device_ids:
  assumes "repair_overlapping_device_groups g = (c, g')" and "graph_in_range g"
  shows "device_ids g' = device_ids g"
proof (rule nth_equalityI)
  show "length (device_ids g') = length (device_ids g)"
    using repair_spec(1) [OF assms] by (simp add: device_ids_def)
  fix i assume "i < length (device_ids g')"
  then show "device_ids g' ! i = device_ids g ! i"
    using repair_spec(1,2) [OF assms] by (fastforce simp: device_ids_def shifted_from_def)
qed

lemma node_right_in_range: "in_i32 (bounds_right (node_display_bounds n))"
proof (cases "ln_displays n")
  case Nil
  then show ?thesis by (simp add: node_display_bounds_def bounds_right_def in_i32_def)
next
  case (Cons d ds)
  have box: "in_i32 (bounds_right (display_box e))" for e
    by (simp add: display_box_def bounds_right_def)
  show ?thesis
    using foldl_extend_right [of "display_box d" "map display_box ds"] box
    by (auto simp: node_display_bounds_def Cons)
qed

lemma layout_node_new_in_range [simp]: "node_in_range (layout_node_new d x y w h) = in_i32 x"
  by (simp add: node_in_range_def layout_node_new_def display_primary_def)

lemma merge_peer_in_range:
  assumes "graph_in_range g" and "merge_peer (g, c) (p, screen) = (g', c')"
  shows "graph_in_range g'"
  using assms node_right_in_range
  by (auto simp: merge_peer_def Let_def graph_in_range_def add_node_def in_i32_def
    split: prod.splits option.splits if_splits)

lemma merge_peers_in_range:
  "graph_in_range g \<Longrightarrow> graph_in_range (fst (foldl merge_peer (g, c) peers))"
proof (induction peers arbitrary: g c)
  case Nil
  then show ?case by simp
next
  case (Cons q peers)
  obtain g1 c1 where s1: "merge_peer (g, c) q = (g1, c1)" by fastforce
  then have "graph_in_range g1" using merge_peer_in_range Cons.prems by (cases q) blast
  then show ?case using Cons.IH s1 by simp
qed

lemma ensure_local_in_range: "graph_in_range g \<Longrightarrow> graph_in_range (ensure_local_node d g)"
  by (auto simp: ensure_local_node_def graph_in_range_def add_node_def in_i32_def)

lemma ensure_local_node_spec:
  assumes "graph_wf g"
  shows "graph_wf (ensure_local_node d g) \<and>
    lg_local_device (ensure_local_node d g) = lg_local_device g \<and>
    set (device_ids (ensure_local_node d g)) = insert d (set (device_ids g))"
proof (cases "get_node g d")
  case None
  then show ?thesis
    using assms by (auto simp: ensure_local_node_def graph_wf_def get_node_None)
next
  case (Some n)
  then have "d \<in> set (device_ids g)" using get_node_None [of g d] by simp
  then show ?thesis using assms Some by (auto simp: ensure_local_node_def)
qed

text \<open>
  C3. A discovery merge keeps the graph well formed (one node per device, one target per device
  edge), adds exactly the local device and the discovered peers, never drops or renames a node,
  and leaves the devices disjoint: any two of its nodes that still overlap include one that
  cannot be moved.
\<close>

theorem merge_discovered_spec:
  assumes "merge_discovered_peers_to_right_with_screens peers g = (c, g')"
    and "graph_wf g" "graph_in_range g"
  shows "graph_wf g' \<and>
    set (device_ids g') = insert (lg_local_device g) (set (device_ids g) \<union> fst ` set peers) \<and>
    (\<exists>new. device_ids g' = device_ids g @ new) \<and>
    (\<forall>i<length (lg_nodes g'). \<forall>j<length (lg_nodes g').
       i \<noteq> j \<and> \<not> stuck (lg_nodes g' ! i) \<and> \<not> stuck (lg_nodes g' ! j) \<longrightarrow>
       \<not> node_bounds_overlap (node_display_bounds (lg_nodes g' ! i))
           (node_display_bounds (lg_nodes g' ! j)))"
proof -
  define g1 where "g1 = ensure_local_node (lg_local_device g) g"
  define qs where "qs = sort_key fst (filter (\<lambda>p. fst p \<noteq> lg_local_device g) peers)"
  obtain g2 c2 where m: "foldl merge_peer (g1, get_node g (lg_local_device g) = None) qs = (g2, c2)"
    by fastforce
  obtain c3 where r: "repair_overlapping_device_groups g2 = (c3, g')"
    using assms(1) m
    by (auto simp: merge_discovered_peers_to_right_with_screens_def g1_def qs_def Let_def
      split: prod.splits)
  have w1: "graph_wf g1" "graph_in_range g1"
    "set (device_ids g1) = insert (lg_local_device g) (set (device_ids g))"
    using ensure_local_node_spec [OF assms(2)] ensure_local_in_range [OF assms(3)]
    by (simp_all add: g1_def)
  have app1: "\<exists>new. device_ids g1 = device_ids g @ new"
    by (cases "get_node g (lg_local_device g)") (auto simp: g1_def ensure_local_node_def)
  have w2: "graph_wf g2" "set (device_ids g2) = fst ` set qs \<union> set (device_ids g1)"
    using merge_peers_spec [OF m w1(1)] by blast+
  have app2: "\<exists>new. device_ids g2 = device_ids g1 @ new"
    using merge_peers_spec [OF m w1(1)] by (auto simp: device_ids_def)
  have r2: "graph_in_range g2" using merge_peers_in_range [OF w1(2)] m by (metis fst_conv)
  note ids = repair_device_ids [OF r r2]
  have "graph_wf g'"
    using w2(1) ids repair_spec(5) [OF r r2] by (simp add: graph_wf_def edge_unique_def)
  moreover have "set (device_ids g') =
      insert (lg_local_device g) (set (device_ids g) \<union> fst ` set peers)"
    using ids w2(2) w1(3) by (auto simp: qs_def)
  moreover have "\<exists>new. device_ids g' = device_ids g @ new"
    using ids app1 app2 by (metis append.assoc)
  ultimately show ?thesis using repair_separates [OF r r2] by blast
qed

theorem merge_discovered_spec_witness:
  "\<exists>g'. merge_discovered_peers_to_right_with_screens [(3, None), (1, None)] overlapping_pair = (True, g') \<and>
     graph_wf g' \<and> set (device_ids g') = {1, 2, 3}"
proof -
  obtain c g' where g': "merge_discovered_peers_to_right_with_screens [(3, None), (1, None)]
      overlapping_pair = (c, g')" by fastforce
  moreover have "fst (merge_discovered_peers_to_right_with_screens [(3, None), (1, None)]
      overlapping_pair)" by code_simp
  moreover have "graph_wf overlapping_pair"
    by (simp add: graph_wf_def device_ids_def edge_unique_def overlapping_pair_def link_new_def
      link_source_def layout_node_new_def)
  ultimately show ?thesis
    using merge_discovered_spec [OF g' _ overlapping_pair_in_range]
    by (auto simp: overlapping_pair_def device_ids_def layout_node_new_def)
qed

end
