(* ===== verification/Routes.thy ===== *)
theory Routes
  imports Layout
begin

text \<open>
  The route cache of \<open>crates/rshare-core/src/layout.rs\<close>: for each of the four edges of the local
  desktop, the peer to enter, the edge and display to enter it by. The code keeps an array of
  four options indexed by \<open>direction_index\<close>; the model keeps the list.
\<close>

section \<open>Model\<close>

record route_target =
  rt_device_id :: uuid
  rt_entry_edge :: direction
  rt_display_id :: string
  rt_display :: pixel_rect

record route_cache =
  rc_generation :: u64
  rc_routes :: "route_target option list"

fun direction_index :: "direction \<Rightarrow> nat" where
  "direction_index Left = 0"
| "direction_index Right = 1"
| "direction_index Top = 2"
| "direction_index Bottom = 3"

definition route_cache_empty :: "u64 \<Rightarrow> route_cache" where
  "route_cache_empty generation = \<lparr>rc_generation = generation, rc_routes = replicate 4 None\<rparr>"

definition node_local_display_rect :: "layout_node \<Rightarrow> display_node \<Rightarrow> pixel_rect" where
  "node_local_display_rect node d =
     (let anchor = (case primary_display node of Some a \<Rightarrow> a | None \<Rightarrow> d)
      in \<lparr>pr_x = sat_i32 (dn_x d - dn_x anchor), pr_y = sat_i32 (dn_y d - dn_y anchor),
          pr_width = dn_width d, pr_height = dn_height d\<rparr>)"

definition link_route :: "layout_graph \<Rightarrow> uuid set \<Rightarrow> layout_link \<Rightarrow> route_target option" where
  "link_route g connected l =
     (if ll_to_device l \<notin> connected then None
      else case get_node g (ll_to_device l) of
        None \<Rightarrow> None
      | Some node \<Rightarrow>
          (case primary_display node of
             None \<Rightarrow> None
           | Some d \<Rightarrow>
               Some \<lparr>rt_device_id = ll_to_device l, rt_entry_edge = ll_to_edge l,
                     rt_display_id = dn_display_id d, rt_display = node_local_display_rect node d\<rparr>))"

fun build_routes ::
  "layout_graph \<Rightarrow> uuid set \<Rightarrow> layout_link list \<Rightarrow> route_target option list \<Rightarrow> route_target option list" where
  "build_routes g connected [] routes = routes"
| "build_routes g connected (l # links) routes =
     (let i = direction_index (ll_from_edge l)
      in if routes ! i \<noteq> None then build_routes g connected links routes
         else case link_route g connected l of
                None \<Rightarrow> build_routes g connected links routes
              | Some r \<Rightarrow> build_routes g connected links (routes[i := Some r]))"

definition route_cache_build :: "layout_graph \<Rightarrow> uuid \<Rightarrow> uuid set \<Rightarrow> u64 \<Rightarrow> route_cache" where
  "route_cache_build g local_id connected generation =
     \<lparr>rc_generation = generation,
      rc_routes = build_routes g connected (filter (\<lambda>l. ll_from_device l = local_id) (lg_links g))
                    (rc_routes (route_cache_empty generation))\<rparr>"

definition route :: "route_cache \<Rightarrow> direction \<Rightarrow> route_target option" where
  "route c d = rc_routes c ! direction_index d"

section \<open>What a route is\<close>

lemma direction_index_less [simp]: "direction_index d < 4"
  by (cases d) auto

lemma direction_index_inj [simp]: "direction_index a = direction_index b \<longleftrightarrow> a = b"
  by (cases a; cases b) auto

fun first_route :: "layout_graph \<Rightarrow> uuid set \<Rightarrow> direction \<Rightarrow> layout_link list \<Rightarrow> route_target option" where
  "first_route g connected d [] = None"
| "first_route g connected d (l # links) =
     (if ll_from_edge l = d
      then (case link_route g connected l of Some r \<Rightarrow> Some r | None \<Rightarrow> first_route g connected d links)
      else first_route g connected d links)"

lemma build_routes_length [simp]: "length (build_routes g c links routes) = length routes"
  by (induction links arbitrary: routes) (auto simp: Let_def split: option.splits)

lemma build_routes_nth:
  "length routes = 4 \<Longrightarrow>
    build_routes g c links routes ! direction_index d =
      (case routes ! direction_index d of Some r \<Rightarrow> Some r | None \<Rightarrow> first_route g c d links)"
  by (induction links arbitrary: routes)
    (auto simp: Let_def nth_list_update split: option.splits)

lemma route_build:
  "route (route_cache_build g local_id connected gen) d =
    first_route g connected d (filter (\<lambda>l. ll_from_device l = local_id) (lg_links g))"
proof -
  have "replicate 4 None ! direction_index d = (None :: route_target option)"
    by (cases d) (auto simp: numeral_eq_Suc)
  then show ?thesis
    by (simp add: route_def route_cache_build_def route_cache_empty_def build_routes_nth)
qed

lemma route_empty [simp]: "route (route_cache_empty gen) d = None"
  by (cases d) (auto simp: route_def route_cache_empty_def numeral_eq_Suc)

lemma first_route_Some:
  "first_route g c d links = Some r \<Longrightarrow>
    \<exists>l\<in>set links. ll_from_edge l = d \<and> link_route g c l = Some r"
  by (induction links) (auto split: if_splits option.splits)

lemma first_route_None:
  "first_route g c d links = None \<longleftrightarrow>
    (\<forall>l\<in>set links. ll_from_edge l = d \<longrightarrow> link_route g c l = None)"
  by (induction links) (auto split: option.splits)

lemma link_route_Some:
  "link_route g c l = Some r \<Longrightarrow>
    rt_device_id r = ll_to_device l \<and> rt_entry_edge r = ll_to_edge l \<and> ll_to_device l \<in> c \<and>
    (\<exists>n d. get_node g (ll_to_device l) = Some n \<and> primary_display n = Some d \<and>
       rt_display_id r = dn_display_id d \<and> rt_display r = node_local_display_rect n d)"
  by (auto simp: link_route_def split: if_splits option.splits)

text \<open>A primary display is its own anchor, so a peer is entered at the origin of its desktop.\<close>

lemma node_local_display_rect_primary:
  "primary_display n = Some d \<Longrightarrow>
    node_local_display_rect n d =
      \<lparr>pr_x = 0, pr_y = 0, pr_width = dn_width d, pr_height = dn_height d\<rparr>"
  by (simp add: node_local_display_rect_def in_i32_def)

lemma route_display:
  assumes "route (route_cache_build g local_id connected gen) d = Some r"
  shows "pr_x (rt_display r) = 0" "pr_y (rt_display r) = 0" "rt_device_id r \<in> connected"
  using first_route_Some [OF assms [unfolded route_build]] link_route_Some
  by (fastforce simp: node_local_display_rect_primary)+

definition linkable :: "layout_graph \<Rightarrow> bool" where
  "linkable g \<longleftrightarrow> (\<forall>l\<in>set (lg_links g). \<exists>n d. get_node g (ll_to_device l) = Some n \<and> primary_display n = Some d)"

lemma distinct_map_eq: "distinct (map f xs) \<Longrightarrow> x \<in> set xs \<Longrightarrow> y \<in> set xs \<Longrightarrow> f x = f y \<Longrightarrow> x = y"
  by (meson distinct_map inj_onD)


definition linked_pair :: layout_graph where
  "linked_pair =
     \<lparr>lg_version = 1, lg_local_device = 1,
      lg_nodes = [layout_node_new 1 0 0 1920 1080, layout_node_new 2 1920 0 1280 720],
      lg_links = [link_new 1 Right 2 Left, link_new 2 Left 1 Right]\<rparr>"


end
