(* ===== verification/InputProtocol.thy ===== *)
theory InputProtocol
  imports Common Maps
begin

text \<open>
  The input protocol (\<open>crates/rshare-core/src/input.rs\<close>, with the button types of
  \<open>protocol/mod.rs\<close>): session epochs, realtime and reliable frames, the receiver's ownership
  gate with its replay windows, and the ledger of held keys and buttons from which the sender
  builds its release batches. A \<open>BTreeMap\<close> is a key-sorted association list; the ledger's random
  identity is an argument.
\<close>

section \<open>Frames\<close>

abbreviation input_protocol_version :: u16 where "input_protocol_version \<equiv> 1"

type_synonym session_epoch = u64

datatype session_epoch_error = EpochExhausted

definition epoch_next :: "session_epoch \<Rightarrow> session_epoch_error + session_epoch" where
  "epoch_next e = (case checked_inc e of None \<Rightarrow> Inl EpochExhausted | Some n \<Rightarrow> Inr n)"

definition epoch_advance ::
  "session_epoch \<Rightarrow> (session_epoch_error + session_epoch) \<times> session_epoch" where
  "epoch_advance e = (case epoch_next e of Inl err \<Rightarrow> (Inl err, e) | Inr n \<Rightarrow> (Inr n, n))"

datatype mouse_button = MbLeft | MbMiddle | MbRight | MbBack | MbForward | MbOther u8

fun button_to_code :: "mouse_button \<Rightarrow> u8" where
  "button_to_code MbLeft = 1"
| "button_to_code MbMiddle = 2"
| "button_to_code MbRight = 3"
| "button_to_code MbBack = 4"
| "button_to_code MbForward = 5"
| "button_to_code (MbOther n) = n"

definition button_from_code :: "u8 \<Rightarrow> mouse_button" where
  "button_from_code code =
     (if code = 1 then MbLeft else if code = 2 then MbMiddle else if code = 3 then MbRight
      else if code = 4 then MbBack else if code = 5 then MbForward else MbOther code)"

datatype gamepad_button =
    GpSouth | GpEast | GpWest | GpNorth | GpLeftBumper | GpRightBumper | GpLeftTrigger
  | GpRightTrigger | GpSelect | GpStart | GpGuide | GpLeftStick | GpRightStick
  | GpDPadUp | GpDPadDown | GpDPadLeft | GpDPadRight | GpOther u16

record gamepad_device_info =
  gi_gamepad_id :: u8
  gi_name :: string
  gi_vendor_id :: "u16 option"
  gi_product_id :: "u16 option"

datatype realtime_input_payload =
    RelativeMouse i32 i32
  | AbsoluteAnchor i32 i32
  | GamepadAxesPayload u8 i16 i16 i16 i16 u16 u16
  | CursorVisual i32 i32 bool

record realtime_input_frame =
  rf_protocol_version :: u16
  rf_session_epoch :: session_epoch
  rf_sequence :: u64
  rf_captured_at :: monotonic_stamp
  rf_payload :: realtime_input_payload

datatype release_all_reason =
  SessionEnded | OwnershipTransfer | SuspendedReason | BackendFailure | TimeoutReason

datatype reliable_input_event =
    EnterEvent string i32 i32
  | LeaveEvent
  | ReleaseAllEvent release_all_reason
  | KeyEvent u32 key_state
  | TextCommitEvent string
  | MouseButtonEvent mouse_button button_state i32 i32 u64
  | WheelEvent i32 i32
  | GamepadConnectedEvent gamepad_device_info
  | GamepadDisconnectedEvent u8
  | GamepadButtonEvent u8 gamepad_button bool

record reliable_input_frame =
  lf_protocol_version :: u16
  lf_session_epoch :: session_epoch
  lf_sequence :: u64
  lf_captured_at :: monotonic_stamp
  lf_event :: reliable_input_event

section \<open>The ownership gate\<close>

record authenticated_input_owner =
  ao_peer_id :: uuid
  ao_control_connection_id :: uuid

datatype accept_realtime_result =
  RtAccepted | RtAcceptedWithGap u64 | RtOutOfOrder | RtWrongOwnerOrEpoch

datatype accept_reliable_result =
  RlAccepted | RlAcceptedWithGap u64 | RlOutOfOrder | RlWrongOwnerOrEpoch

datatype transfer_error = EpochNotIncreasing session_epoch session_epoch

record input_ownership_gate =
  og_owner :: authenticated_input_owner
  og_epoch :: session_epoch
  og_last_realtime_sequence :: "u64 option"
  og_last_reliable_sequence :: "u64 option"

definition gate_new :: "authenticated_input_owner \<Rightarrow> session_epoch \<Rightarrow> input_ownership_gate" where
  "gate_new owner epoch =
     \<lparr>og_owner = owner, og_epoch = epoch, og_last_realtime_sequence = None,
      og_last_reliable_sequence = None\<rparr>"

definition gate_transfer ::
  "authenticated_input_owner \<Rightarrow> session_epoch \<Rightarrow> input_ownership_gate
     \<Rightarrow> (transfer_error + unit) \<times> input_ownership_gate" where
  "gate_transfer owner epoch g =
     (if epoch \<le> og_epoch g then (Inl (EpochNotIncreasing (og_epoch g) epoch), g)
      else (Inr (), g\<lparr>og_owner := owner, og_epoch := epoch, og_last_realtime_sequence := None,
                      og_last_reliable_sequence := None\<rparr>))"

datatype sequence_acceptance = SeqAccepted | SeqAcceptedWithGap u64 | SeqOutOfOrder

fun accept_sequence :: "u64 option \<Rightarrow> u64 \<Rightarrow> sequence_acceptance \<times> u64 option" where
  "accept_sequence None sequence = (SeqAccepted, Some sequence)"
| "accept_sequence (Some previous) sequence =
     (if sequence \<le> previous then (SeqOutOfOrder, Some previous)
      else let gap = sequence - previous - 1
           in (if gap = 0 then SeqAccepted else SeqAcceptedWithGap gap, Some sequence))"

definition is_current ::
  "input_ownership_gate \<Rightarrow> authenticated_input_owner \<Rightarrow> session_epoch \<Rightarrow> bool" where
  "is_current g owner epoch \<longleftrightarrow> og_owner g = owner \<and> og_epoch g = epoch"

definition accept_realtime ::
  "authenticated_input_owner \<Rightarrow> session_epoch \<Rightarrow> u64 \<Rightarrow> input_ownership_gate
     \<Rightarrow> accept_realtime_result \<times> input_ownership_gate" where
  "accept_realtime owner epoch sequence g =
     (if \<not> is_current g owner epoch then (RtWrongOwnerOrEpoch, g)
      else let (a, l) = accept_sequence (og_last_realtime_sequence g) sequence;
               g' = g\<lparr>og_last_realtime_sequence := l\<rparr>
           in (case a of SeqAccepted \<Rightarrow> (RtAccepted, g')
               | SeqAcceptedWithGap gap \<Rightarrow> (RtAcceptedWithGap gap, g')
               | SeqOutOfOrder \<Rightarrow> (RtOutOfOrder, g')))"

definition accept_reliable ::
  "authenticated_input_owner \<Rightarrow> session_epoch \<Rightarrow> u64 \<Rightarrow> input_ownership_gate
     \<Rightarrow> accept_reliable_result \<times> input_ownership_gate" where
  "accept_reliable owner epoch sequence g =
     (if \<not> is_current g owner epoch then (RlWrongOwnerOrEpoch, g)
      else let (a, l) = accept_sequence (og_last_reliable_sequence g) sequence;
               g' = g\<lparr>og_last_reliable_sequence := l\<rparr>
           in (case a of SeqAccepted \<Rightarrow> (RlAccepted, g')
               | SeqAcceptedWithGap gap \<Rightarrow> (RlAcceptedWithGap gap, g')
               | SeqOutOfOrder \<Rightarrow> (RlOutOfOrder, g')))"

section \<open>The pressed-state ledger\<close>

datatype ledger_error = GenerationExhausted | BatchTokenExhausted

type_synonym mouse_button_key = "u8 \<times> u8"

definition mouse_button_key :: "mouse_button \<Rightarrow> mouse_button_key" where
  "mouse_button_key b = (button_to_code b, case b of MbOther _ \<Rightarrow> 1 | _ \<Rightarrow> 0)"

record held_mouse_button =
  hb_button :: mouse_button
  hb_x :: i32
  hb_y :: i32
  hb_realtime_anchor_sequence :: u64
  hb_generation :: u64

record pending_release_batch =
  pb_ledger_id :: uuid
  pb_token :: u64
  pb_reason :: release_all_reason
  pb_events :: "reliable_input_event list"
  pb_key_generations :: "(u32 \<times> u64) list"
  pb_mouse_generations :: "(mouse_button_key \<times> u64) list"

record pressed_state_ledger =
  pl_ledger_id :: uuid
  pl_next_generation :: u64
  pl_next_batch_token :: u64
  pl_keys :: "(u32, u64) btree_map"
  pl_mouse_buttons :: "(mouse_button_key, held_mouse_button) btree_map"

definition ledger_new :: "uuid \<Rightarrow> pressed_state_ledger" where
  "ledger_new fresh_id =
     \<lparr>pl_ledger_id = fresh_id, pl_next_generation = 1, pl_next_batch_token = 1,
      pl_keys = [], pl_mouse_buttons = []\<rparr>"

definition take_generation :: "pressed_state_ledger \<Rightarrow> (ledger_error + u64) \<times> pressed_state_ledger" where
  "take_generation l =
     (case checked_inc (pl_next_generation l) of
        None \<Rightarrow> (Inl GenerationExhausted, l)
      | Some n \<Rightarrow> (Inr (pl_next_generation l), l\<lparr>pl_next_generation := n\<rparr>))"

definition take_batch_token :: "pressed_state_ledger \<Rightarrow> (ledger_error + u64) \<times> pressed_state_ledger" where
  "take_batch_token l =
     (case checked_inc (pl_next_batch_token l) of
        None \<Rightarrow> (Inl BatchTokenExhausted, l)
      | Some n \<Rightarrow> (Inr (pl_next_batch_token l), l\<lparr>pl_next_batch_token := n\<rparr>))"

definition record_key ::
  "u32 \<Rightarrow> key_state \<Rightarrow> pressed_state_ledger \<Rightarrow> (ledger_error + bool) \<times> pressed_state_ledger" where
  "record_key keycode st l =
     (case st of
        KeyPressed \<Rightarrow>
          (if bt_get (pl_keys l) keycode \<noteq> None then (Inr False, l)
           else case take_generation l of
             (Inl e, l') \<Rightarrow> (Inl e, l')
           | (Inr generation, l') \<Rightarrow>
               (Inr True, l'\<lparr>pl_keys := bt_put keycode generation (pl_keys l')\<rparr>))
      | KeyReleased \<Rightarrow>
          (Inr (bt_get (pl_keys l) keycode \<noteq> None), l\<lparr>pl_keys := bt_del keycode (pl_keys l)\<rparr>))"

definition record_mouse_button ::
  "mouse_button \<Rightarrow> button_state \<Rightarrow> i32 \<Rightarrow> i32 \<Rightarrow> u64 \<Rightarrow> pressed_state_ledger
     \<Rightarrow> (ledger_error + bool) \<times> pressed_state_ledger" where
  "record_mouse_button button st x y anchor l =
     (let key = mouse_button_key button
      in case st of
        BtnPressed \<Rightarrow>
          (if bt_get (pl_mouse_buttons l) key \<noteq> None then (Inr False, l)
           else case take_generation l of
             (Inl e, l') \<Rightarrow> (Inl e, l')
           | (Inr generation, l') \<Rightarrow>
               (Inr True, l'\<lparr>pl_mouse_buttons := bt_put key
                   \<lparr>hb_button = button, hb_x = x, hb_y = y, hb_realtime_anchor_sequence = anchor,
                    hb_generation = generation\<rparr> (pl_mouse_buttons l')\<rparr>))
      | BtnReleased \<Rightarrow>
          (Inr (bt_get (pl_mouse_buttons l) key \<noteq> None),
           l\<lparr>pl_mouse_buttons := bt_del key (pl_mouse_buttons l)\<rparr>))"

definition key_release :: "u32 \<times> u64 \<Rightarrow> reliable_input_event" where
  "key_release e = KeyEvent (fst e) KeyReleased"

definition button_release :: "mouse_button_key \<times> held_mouse_button \<Rightarrow> reliable_input_event" where
  "button_release e =
     (let h = snd e in MouseButtonEvent (hb_button h) BtnReleased (hb_x h) (hb_y h)
                         (hb_realtime_anchor_sequence h))"

definition release_all_events ::
  "release_all_reason \<Rightarrow> pressed_state_ledger
     \<Rightarrow> (ledger_error + pending_release_batch) \<times> pressed_state_ledger" where
  "release_all_events reason l =
     (case take_batch_token l of
        (Inl e, l') \<Rightarrow> (Inl e, l')
      | (Inr token, l') \<Rightarrow>
          (Inr \<lparr>pb_ledger_id = pl_ledger_id l', pb_token = token, pb_reason = reason,
                pb_events = map key_release (pl_keys l') @ map button_release (pl_mouse_buttons l'),
                pb_key_generations = pl_keys l',
                pb_mouse_generations = map (\<lambda>e. (fst e, hb_generation (snd e))) (pl_mouse_buttons l')\<rparr>,
           l'))"

text \<open>One entry of a confirmation: the control is cleared if it is held with the same generation.\<close>

definition confirm_held ::
  "('v \<Rightarrow> u64) \<Rightarrow> usize \<times> ('k::linorder, 'v) btree_map \<Rightarrow> 'k \<times> u64 \<Rightarrow> usize \<times> ('k, 'v) btree_map" where
  "confirm_held generation_of cm entry =
     (let (cleared, m) = cm; (key, generation) = entry
      in case bt_get m key of
           Some held \<Rightarrow> if generation_of held = generation then (Suc cleared, bt_del key m) else (cleared, m)
         | None \<Rightarrow> (cleared, m))"

definition confirm_release_all ::
  "pending_release_batch \<Rightarrow> pressed_state_ledger \<Rightarrow> usize \<times> pressed_state_ledger" where
  "confirm_release_all batch l =
     (if pb_ledger_id batch \<noteq> pl_ledger_id l then (0, l)
      else let (cleared, keys) = foldl (confirm_held id) (0, pl_keys l) (pb_key_generations batch);
               (cleared, buttons) = foldl (confirm_held hb_generation) (cleared, pl_mouse_buttons l)
                                      (pb_mouse_generations batch)
           in (cleared, l\<lparr>pl_keys := keys, pl_mouse_buttons := buttons\<rparr>))"

definition held_key_count :: "pressed_state_ledger \<Rightarrow> usize" where
  "held_key_count l = length (pl_keys l)"

definition held_mouse_button_count :: "pressed_state_ledger \<Rightarrow> usize" where
  "held_mouse_button_count l = length (pl_mouse_buttons l)"

definition ledger_is_empty :: "pressed_state_ledger \<Rightarrow> bool" where
  "ledger_is_empty l \<longleftrightarrow> pl_keys l = [] \<and> pl_mouse_buttons l = []"

section \<open>Codes\<close>

lemma button_from_to_code: "button_to_code (button_from_code c) = c"
  by (simp add: button_from_code_def)

lemma mouse_button_key_inj [simp]: "mouse_button_key a = mouse_button_key b \<longleftrightarrow> a = b"
  by (cases a; cases b) (auto simp: mouse_button_key_def)

section \<open>What the gate accepts\<close>

datatype gate_event =
    GateTransfer authenticated_input_owner session_epoch
  | GateRealtime authenticated_input_owner session_epoch u64
  | GateReliable authenticated_input_owner session_epoch u64

text \<open>An accepted frame: whether it is reliable, who sent it, and its position.\<close>

type_synonym accepted_frame = "bool \<times> authenticated_input_owner \<times> position"

fun gate_step :: "input_ownership_gate \<Rightarrow> gate_event \<Rightarrow> accepted_frame list \<times> input_ownership_gate" where
  "gate_step g (GateTransfer owner epoch) = ([], snd (gate_transfer owner epoch g))"
| "gate_step g (GateRealtime owner epoch n) =
     (let (r, g') = accept_realtime owner epoch n g
      in (case r of RtOutOfOrder \<Rightarrow> [] | RtWrongOwnerOrEpoch \<Rightarrow> [] | _ \<Rightarrow> [(False, owner, epoch, n)], g'))"
| "gate_step g (GateReliable owner epoch n) =
     (let (r, g') = accept_reliable owner epoch n g
      in (case r of RlOutOfOrder \<Rightarrow> [] | RlWrongOwnerOrEpoch \<Rightarrow> [] | _ \<Rightarrow> [(True, owner, epoch, n)], g'))"

definition gate_cursor :: "bool \<Rightarrow> input_ownership_gate \<Rightarrow> position" where
  "gate_cursor reliable g =
     (og_epoch g,
      case (if reliable then og_last_reliable_sequence g else og_last_realtime_sequence g) of
        None \<Rightarrow> 0 | Some n \<Rightarrow> Suc n)"

definition channel :: "bool \<Rightarrow> accepted_frame list \<Rightarrow> position list" where
  "channel reliable os = map (snd \<circ> snd) (filter (\<lambda>a. fst a = reliable) os)"

lemma channel_simps [simp]:
  "channel b [] = []"
  "channel b ((c, ow, p) # os) = (if c = b then p # channel b os else channel b os)"
  "channel b (os @ os') = channel b os @ channel b os'"
  by (simp_all add: channel_def)

text \<open>Epochs only grow, and within one epoch there is one owner.\<close>

definition acc_owner :: "accepted_frame \<Rightarrow> authenticated_input_owner" where
  "acc_owner a = fst (snd a)"

definition acc_epoch :: "accepted_frame \<Rightarrow> session_epoch" where
  "acc_epoch a = fst (snd (snd a))"

definition one_owner :: "accepted_frame list \<Rightarrow> bool" where
  "one_owner os \<longleftrightarrow> (\<forall>a\<in>set os. \<forall>b\<in>set os. acc_epoch a = acc_epoch b \<longrightarrow> acc_owner a = acc_owner b)"

definition gate_older :: "input_ownership_gate \<Rightarrow> input_ownership_gate \<Rightarrow> bool" where
  "gate_older g g' \<longleftrightarrow>
     og_epoch g \<le> og_epoch g' \<and> (og_epoch g = og_epoch g' \<longrightarrow> og_owner g = og_owner g')"

definition accepted_between :: "input_ownership_gate \<Rightarrow> input_ownership_gate \<Rightarrow> accepted_frame \<Rightarrow> bool" where
  "accepted_between g g' a \<longleftrightarrow>
     og_epoch g \<le> acc_epoch a \<and> acc_epoch a \<le> og_epoch g' \<and>
     (acc_epoch a = og_epoch g \<longrightarrow> acc_owner a = og_owner g) \<and>
     (acc_epoch a = og_epoch g' \<longrightarrow> acc_owner a = og_owner g')"

definition same_owner :: "input_ownership_gate \<Rightarrow> accepted_frame list \<Rightarrow> input_ownership_gate \<Rightarrow> bool" where
  "same_owner g os g' \<longleftrightarrow>
     gate_older g g' \<and> one_owner os \<and> (\<forall>a\<in>set os. accepted_between g g' a)"

lemmas same_owner_defs = same_owner_def gate_older_def one_owner_def accepted_between_def
  acc_owner_def acc_epoch_def

definition gate_rel :: "input_ownership_gate \<Rightarrow> accepted_frame list \<Rightarrow> input_ownership_gate \<Rightarrow> bool" where
  "gate_rel g os g' \<longleftrightarrow>
     (\<forall>b. advances (gate_cursor b g) (channel b os) (gate_cursor b g')) \<and> same_owner g os g'"

lemma accept_sequence_cases:
  "accept_sequence l n = (a, l') \<Longrightarrow>
    a = SeqOutOfOrder \<and> l' = l \<or>
    a \<noteq> SeqOutOfOrder \<and> l' = Some n \<and> (case l of None \<Rightarrow> 0 | Some m \<Rightarrow> Suc m) \<le> n"
  by (cases l) (auto simp: Let_def split: if_splits)

lemma gate_rel_refl [simp]: "gate_rel g [] g"
  by (auto simp: gate_rel_def same_owner_defs)

lemma gate_rel_realtime: "gate_rel g (fst (gate_step g (GateRealtime ow e n))) (snd (gate_step g (GateRealtime ow e n)))"
proof (cases "is_current g ow e")
  case False
  then show ?thesis by (simp add: accept_realtime_def)
next
  case True
  obtain a l' where al: "accept_sequence (og_last_realtime_sequence g) n = (a, l')" by fastforce
  show ?thesis
    using accept_sequence_cases [OF al] True al
    by (cases a)
      (auto simp: accept_realtime_def is_current_def gate_rel_def gate_cursor_def same_owner_defs)
qed

lemma gate_rel_reliable: "gate_rel g (fst (gate_step g (GateReliable ow e n))) (snd (gate_step g (GateReliable ow e n)))"
proof (cases "is_current g ow e")
  case False
  then show ?thesis by (simp add: accept_reliable_def)
next
  case True
  obtain a l' where al: "accept_sequence (og_last_reliable_sequence g) n = (a, l')" by fastforce
  show ?thesis
    using accept_sequence_cases [OF al] True al
    by (cases a)
      (auto simp: accept_reliable_def is_current_def gate_rel_def gate_cursor_def same_owner_defs)
qed

lemma gate_rel_transfer: "gate_rel g (fst (gate_step g (GateTransfer ow e))) (snd (gate_step g (GateTransfer ow e)))"
  by (auto simp: gate_transfer_def gate_rel_def gate_cursor_def same_owner_defs)

lemma gate_older_trans: "gate_older g g1 \<Longrightarrow> gate_older g1 g2 \<Longrightarrow> gate_older g g2"
  by (auto simp: gate_older_def)

lemma accepted_later: "accepted_between g g1 a \<Longrightarrow> gate_older g1 g2 \<Longrightarrow> accepted_between g g2 a"
  by (auto simp: accepted_between_def gate_older_def)

lemma accepted_earlier: "accepted_between g1 g2 a \<Longrightarrow> gate_older g g1 \<Longrightarrow> accepted_between g g2 a"
  by (auto simp: accepted_between_def gate_older_def)

lemma accepted_across:
  "accepted_between g g1 a \<Longrightarrow> accepted_between g1 g2 b \<Longrightarrow> acc_epoch a = acc_epoch b \<Longrightarrow>
    acc_owner a = acc_owner b"
  by (auto simp: accepted_between_def)

lemma same_owner_comp:
  assumes "same_owner g os g1" "same_owner g1 os' g2"
  shows "same_owner g (os @ os') g2"
proof -
  have old: "gate_older g g1" "gate_older g1 g2" and
    left: "\<And>a. a \<in> set os \<Longrightarrow> accepted_between g g1 a" and
    right: "\<And>a. a \<in> set os' \<Longrightarrow> accepted_between g1 g2 a" and
    one: "one_owner os" "one_owner os'"
    using assms by (auto simp: same_owner_def)
  have "accepted_between g g2 a" if "a \<in> set (os @ os')" for a
    using that accepted_later [OF left old(2)] accepted_earlier [OF right old(1)]
    by (metis Un_iff set_append)
  moreover have "acc_owner a = acc_owner b"
    if "a \<in> set (os @ os')" "b \<in> set (os @ os')" "acc_epoch a = acc_epoch b" for a b
  proof -
    have l: "accepted_between g g1 c" if "c \<in> set os" for c using left that by blast
    have r: "accepted_between g1 g2 c" if "c \<in> set os'" for c using right that by blast
    have "a \<in> set os \<or> a \<in> set os'" "b \<in> set os \<or> b \<in> set os'" using that(1,2) by simp_all
    then show ?thesis
      using one that(3) l r accepted_across unfolding one_owner_def by metis
  qed
  ultimately show ?thesis
    using gate_older_trans [OF old] unfolding same_owner_def one_owner_def by blast
qed

interpretation gate: emitting_machine gate_step "\<lambda>_. True" "\<lambda>_. True" gate_rel
proof unfold_locales
  fix g g1 g2 os os'
  assume "gate_rel g os g1" "gate_rel g1 os' g2"
  then show "gate_rel g (os @ os') g2"
    unfolding gate_rel_def channel_simps by (blast intro: advances_append same_owner_comp)
next
  fix g :: input_ownership_gate and e
  show "gate_rel g (fst (gate_step g e)) (snd (gate_step g e))"
    by (cases e) (auto simp only: gate_rel_transfer gate_rel_realtime gate_rel_reliable)
qed simp_all

text \<open>
  C5. The gate admits no replay and one owner per epoch. Over any sequence of transfers and frames,
  the frames accepted on each channel have strictly increasing (epoch, sequence) positions, so
  none is accepted twice, and all frames accepted in one epoch are of one owner.
\<close>

theorem gate_never_replays:
  "sorted_wrt (<) (channel True (fst (run gate_step g es))) \<and>
   sorted_wrt (<) (channel False (fst (run gate_step g es))) \<and>
   same_owner g (fst (run gate_step g es)) (snd (run gate_step g es))"
  using gate.run_rel [where s = g and es = es] advances_sorted unfolding gate_rel_def by blast

section \<open>What the ledger holds\<close>

definition ledger_wf :: "pressed_state_ledger \<Rightarrow> bool" where
  "ledger_wf l \<longleftrightarrow> bt_wf (pl_keys l) \<and> bt_wf (pl_mouse_buttons l) \<and>
     (\<forall>k g. bt_get (pl_keys l) k = Some g \<longrightarrow> g < pl_next_generation l) \<and>
     (\<forall>k h. bt_get (pl_mouse_buttons l) k = Some h \<longrightarrow>
        hb_generation h < pl_next_generation l \<and> k = mouse_button_key (hb_button h))"

lemma ledger_wf_new [simp]: "ledger_wf (ledger_new i)"
  by (simp add: ledger_wf_def ledger_new_def)

lemma take_generation_cases:
  obtains "take_generation l = (Inl GenerationExhausted, l)" "pl_next_generation l \<ge> u64_max"
  | "take_generation l = (Inr (pl_next_generation l),
        l\<lparr>pl_next_generation := Suc (pl_next_generation l)\<rparr>)" "pl_next_generation l < u64_max"
proof (cases "pl_next_generation l < u64_max")
  case False
  then show ?thesis using that(1) by (simp add: take_generation_def checked_inc_eq)
next
  case True
  then show ?thesis using that(2) by (simp add: take_generation_def checked_inc_eq)
qed

lemma ledger_wf_key: "ledger_wf l \<Longrightarrow> ledger_wf (snd (record_key k st l))"
  by (cases rule: take_generation_cases [of l])
    (auto simp: ledger_wf_def record_key_def bt_get_put bt.get_del bt_wf_put bt.wf_del less_Suc_eq
      split: key_state.splits if_splits)

lemma ledger_wf_button: "ledger_wf l \<Longrightarrow> ledger_wf (snd (record_mouse_button b st x y a l))"
  by (cases rule: take_generation_cases [of l])
    (auto simp: ledger_wf_def record_mouse_button_def Let_def bt_get_put bt.get_del bt_wf_put
      bt.wf_del less_Suc_eq split: button_state.splits if_splits)

lemma release_all_events_cases:
  assumes "release_all_events r l = (res, l')"
  obtains "res = Inl BatchTokenExhausted" "l' = l" "pl_next_batch_token l \<ge> u64_max"
  | b where "res = Inr b" "l' = l\<lparr>pl_next_batch_token := Suc (pl_next_batch_token l)\<rparr>"
      "pl_next_batch_token l < u64_max" "pb_ledger_id b = pl_ledger_id l"
      "pb_token b = pl_next_batch_token l" "pb_reason b = r"
      "pb_events b = map key_release (pl_keys l) @ map button_release (pl_mouse_buttons l)"
      "pb_key_generations b = pl_keys l"
      "pb_mouse_generations b = map (\<lambda>e. (fst e, hb_generation (snd e))) (pl_mouse_buttons l)"
proof (cases "pl_next_batch_token l < u64_max")
  case False
  then show ?thesis
    using that(1) assms by (simp add: release_all_events_def take_batch_token_def checked_inc_eq)
next
  case True
  then show ?thesis
    using assms
    by (intro that(2) [of "projr res"])
      (auto simp: release_all_events_def take_batch_token_def checked_inc_eq)
qed

lemma confirm_held_fold:
  assumes "bt_wf m" "foldl (confirm_held f) (n, m) es = (n', m')"
  shows "bt_wf m' \<and> n' + length m' = n + length m \<and>
    (\<forall>k. bt_get m' k =
      (case bt_get m k of None \<Rightarrow> None | Some v \<Rightarrow> if (k, f v) \<in> set es then None else Some v))"
  using assms
proof (induction es arbitrary: n m)
  case Nil
  then show ?case by (auto split: option.splits)
next
  case (Cons e es)
  obtain k g where e: "e = (k, g)" by fastforce
  show ?case
  proof (cases "\<exists>v. bt_get m k = Some v \<and> f v = g")
    case True
    then have s: "confirm_held f (n, m) e = (Suc n, bt_del k m)"
      by (auto simp: confirm_held_def e)
    have wf: "bt_wf (bt_del k m)" using Cons.prems(1) by (rule bt.wf_del)
    have len: "Suc (length (bt_del k m)) = length m"
    proof -
      have "m \<noteq> []" using True by auto
      then show ?thesis using True bt.length_del [OF Cons.prems(1), of k] by (cases m) auto
    qed
    have "foldl (confirm_held f) (Suc n, bt_del k m) es = (n', m')" using Cons.prems(2) s by simp
    from Cons.IH [OF wf this] len True show ?thesis
      by (auto simp: e bt.get_del [OF Cons.prems(1)] split: option.splits)
  next
    case False
    then have s: "confirm_held f (n, m) e = (n, m)"
      by (auto simp: confirm_held_def e split: option.splits)
    have "foldl (confirm_held f) (n, m) es = (n', m')" using Cons.prems(2) s by simp
    from Cons.IH [OF Cons.prems(1) this] False show ?thesis
      by (auto simp: e split: option.splits)
  qed
qed

lemma confirm_release_all_spec:
  assumes "confirm_release_all b l = (n, l')" "ledger_wf l" "pb_ledger_id b = pl_ledger_id l"
  shows "ledger_wf l'"
    and "bt_get (pl_keys l') k = (case bt_get (pl_keys l) k of None \<Rightarrow> None
      | Some g \<Rightarrow> if (k, g) \<in> set (pb_key_generations b) then None else Some g)"
    and "bt_get (pl_mouse_buttons l') j = (case bt_get (pl_mouse_buttons l) j of None \<Rightarrow> None
      | Some h \<Rightarrow> if (j, hb_generation h) \<in> set (pb_mouse_generations b) then None else Some h)"
    and "n + held_key_count l' + held_mouse_button_count l' = held_key_count l + held_mouse_button_count l"
proof -
  obtain n1 ks where k: "foldl (confirm_held id) (0, pl_keys l) (pb_key_generations b) = (n1, ks)"
    by fastforce
  obtain n2 bs where m: "foldl (confirm_held hb_generation) (n1, pl_mouse_buttons l)
      (pb_mouse_generations b) = (n2, bs)" by fastforce
  have n: "n = n2" "l' = l\<lparr>pl_keys := ks, pl_mouse_buttons := bs\<rparr>"
    using assms(1,3) k m by (simp_all add: confirm_release_all_def)
  have wf: "bt_wf (pl_keys l)" "bt_wf (pl_mouse_buttons l)"
    using assms(2) by (simp_all add: ledger_wf_def)
  note K = confirm_held_fold [OF wf(1) k] and M = confirm_held_fold [OF wf(2) m]
  show "bt_get (pl_keys l') k = (case bt_get (pl_keys l) k of None \<Rightarrow> None
      | Some g \<Rightarrow> if (k, g) \<in> set (pb_key_generations b) then None else Some g)"
    using K by (simp add: n cong: option.case_cong)
  show "bt_get (pl_mouse_buttons l') j = (case bt_get (pl_mouse_buttons l) j of None \<Rightarrow> None
      | Some h \<Rightarrow> if (j, hb_generation h) \<in> set (pb_mouse_generations b) then None else Some h)"
    unfolding n by (simp add: M [THEN conjunct2, THEN conjunct2, THEN spec, of j])
  show "n + held_key_count l' + held_mouse_button_count l' = held_key_count l + held_mouse_button_count l"
    using K M by (simp add: n held_key_count_def held_mouse_button_count_def)
  show "ledger_wf l'"
    using K M assms(2) unfolding ledger_wf_def
    by (auto simp: n split: option.splits if_splits)
qed

text \<open>What may happen to the ledger while a batch is on its way: any recording of input.\<close>

datatype ledger_op =
    OpKey u32 key_state
  | OpButton mouse_button button_state i32 i32 u64

fun ledger_apply :: "ledger_op \<Rightarrow> pressed_state_ledger \<Rightarrow> pressed_state_ledger" where
  "ledger_apply (OpKey k st) l = snd (record_key k st l)"
| "ledger_apply (OpButton b st x y a) l = snd (record_mouse_button b st x y a l)"

text \<open>Of the generations below a bound, a later ledger holds only what the earlier one held.\<close>

definition no_older_holds :: "pressed_state_ledger \<Rightarrow> pressed_state_ledger \<Rightarrow> bool" where
  "no_older_holds l0 l \<longleftrightarrow>
     pl_ledger_id l = pl_ledger_id l0 \<and> pl_next_generation l0 \<le> pl_next_generation l \<and>
     (\<forall>k g. bt_get (pl_keys l) k = Some g \<and> g < pl_next_generation l0 \<longrightarrow>
        bt_get (pl_keys l0) k = Some g) \<and>
     (\<forall>k h. bt_get (pl_mouse_buttons l) k = Some h \<and> hb_generation h < pl_next_generation l0 \<longrightarrow>
        bt_get (pl_mouse_buttons l0) k = Some h)"

lemma no_older_holds_apply:
  assumes "no_older_holds l0 l" "ledger_wf l"
  shows "no_older_holds l0 (ledger_apply op l) \<and> ledger_wf (ledger_apply op l)"
proof (cases op)
  case (OpKey k st)
  have wf: "bt_wf (pl_keys l)" using assms(2) by (simp add: ledger_wf_def)
  have "no_older_holds l0 (snd (record_key k st l))"
    using assms(1) by (cases rule: take_generation_cases [of l]; cases st)
      (auto simp: record_key_def no_older_holds_def bt_get_put bt.get_del [OF wf])
  then show ?thesis using ledger_wf_key [OF assms(2)] OpKey by simp
next
  case (OpButton b st x y a)
  have wf: "bt_wf (pl_mouse_buttons l)" using assms(2) by (simp add: ledger_wf_def)
  have "no_older_holds l0 (snd (record_mouse_button b st x y a l))"
    using assms(1) by (cases rule: take_generation_cases [of l]; cases st)
      (auto simp: record_mouse_button_def no_older_holds_def bt_get_put bt.get_del [OF wf] Let_def)
  then show ?thesis using ledger_wf_button [OF assms(2)] OpButton by simp
qed

lemma no_older_holds_fold:
  "no_older_holds l0 l \<Longrightarrow> ledger_wf l \<Longrightarrow>
    no_older_holds l0 (fold ledger_apply ops l) \<and> ledger_wf (fold ledger_apply ops l)"
  by (induction ops arbitrary: l) (simp_all add: no_older_holds_apply)

lemma no_older_holds_refl [simp]: "no_older_holds l l"
  by (simp add: no_older_holds_def)

lemma ledger_wf_fold: "ledger_wf l \<Longrightarrow> ledger_wf (fold ledger_apply ops l)"
  using no_older_holds_fold [of l l] by simp

text \<open>The definitions to evaluate a ledger by, and an example with a held key and a held button.\<close>

lemmas ledger_eval = ledger_new_def record_key_def record_mouse_button_def take_generation_def
  take_batch_token_def checked_inc_eq mouse_button_key_def bt_get_def bt_del_def Let_def
  release_all_events_def

definition example_ledger :: pressed_state_ledger where
  "example_ledger = fold ledger_apply [OpKey 30 KeyPressed, OpButton MbLeft BtnPressed 5 6 0] (ledger_new 9)"

lemma example_ledger_wf: "ledger_wf example_ledger"
  unfolding example_ledger_def by (rule ledger_wf_fold) simp

text \<open>
  C6. Confirming a release batch clears exactly the controls that have been held without
  interruption since the batch was taken: whatever was recorded in between, a control is still
  held afterwards if and only if it was pressed after the snapshot, and the number reported is
  the number cleared.
\<close>

theorem confirm_clears_the_snapshot:
  assumes "ledger_wf l0" "release_all_events reason l0 = (Inr batch, l1)"
    and "confirm_release_all batch (fold ledger_apply ops l1) = (n, l3)"
  shows "(\<forall>k g. bt_get (pl_keys l3) k = Some g \<longleftrightarrow>
      bt_get (pl_keys (fold ledger_apply ops l1)) k = Some g \<and> pl_next_generation l0 \<le> g) \<and>
    (\<forall>k h. bt_get (pl_mouse_buttons l3) k = Some h \<longleftrightarrow>
      bt_get (pl_mouse_buttons (fold ledger_apply ops l1)) k = Some h \<and>
      pl_next_generation l0 \<le> hb_generation h) \<and>
    n + held_key_count l3 + held_mouse_button_count l3 =
      held_key_count (fold ledger_apply ops l1) + held_mouse_button_count (fold ledger_apply ops l1)"
proof -
  let ?l2 = "fold ledger_apply ops l1"
  obtain b where b: "batch = b" "l1 = l0\<lparr>pl_next_batch_token := Suc (pl_next_batch_token l0)\<rparr>"
    "pb_ledger_id b = pl_ledger_id l0" "pb_key_generations b = pl_keys l0"
    "pb_mouse_generations b = map (\<lambda>e. (fst e, hb_generation (snd e))) (pl_mouse_buttons l0)"
    using assms(2) by (rule release_all_events_cases) auto
  have "ledger_wf l1" "no_older_holds l0 l1"
    using assms(1) b(2) by (simp_all add: ledger_wf_def no_older_holds_def)
  then have old: "no_older_holds l0 ?l2" and wf: "ledger_wf ?l2"
    using no_older_holds_fold by blast+
  have id: "pb_ledger_id batch = pl_ledger_id ?l2" using old b by (simp add: no_older_holds_def)
  note C = confirm_release_all_spec [OF assms(3) wf id]
  have wf0: "bt_wf (pl_keys l0)" "bt_wf (pl_mouse_buttons l0)"
    using assms(1) by (simp_all add: ledger_wf_def)
  have key: "(k, g) \<in> set (pb_key_generations batch) \<longleftrightarrow> g < pl_next_generation l0"
    if "bt_get (pl_keys ?l2) k = Some g" for k g
  proof -
    have "(k, g) \<in> set (pb_key_generations batch) \<longleftrightarrow> bt_get (pl_keys l0) k = Some g"
      using b bt.get_entries [OF wf0(1)] by simp
    then show ?thesis using that old assms(1) unfolding no_older_holds_def ledger_wf_def by blast
  qed
  have button: "(k, hb_generation h) \<in> set (pb_mouse_generations batch) \<longleftrightarrow>
      hb_generation h < pl_next_generation l0"
    if "bt_get (pl_mouse_buttons ?l2) k = Some h" for k h
  proof -
    have "(k, hb_generation h) \<in> set (pb_mouse_generations batch) \<longleftrightarrow>
        (\<exists>h0. bt_get (pl_mouse_buttons l0) k = Some h0 \<and> hb_generation h0 = hb_generation h)"
      unfolding b bt.get_entries [OF wf0(2)] set_map image_iff by (cases k) force
    then show ?thesis using that old assms(1) unfolding no_older_holds_def ledger_wf_def by metis
  qed
  have "bt_get (pl_keys l3) k = Some g \<longleftrightarrow>
      bt_get (pl_keys ?l2) k = Some g \<and> pl_next_generation l0 \<le> g" for k g
    using C(2) [of k] key [of k] by (auto split: option.splits if_splits)
  moreover have "bt_get (pl_mouse_buttons l3) k = Some h \<longleftrightarrow>
      bt_get (pl_mouse_buttons ?l2) k = Some h \<and> pl_next_generation l0 \<le> hb_generation h" for k h
    using C(3) [of k] button [of k] by (auto split: option.splits if_splits)
  ultimately show ?thesis using C(4) by blast
qed

text \<open>The key is let go and pressed again before the confirmation; the button is not.\<close>

theorem confirm_clears_the_snapshot_witness:
  "\<exists>batch l1 n l3. release_all_events SessionEnded example_ledger = (Inr batch, l1) \<and>
     confirm_release_all batch (fold ledger_apply [OpKey 30 KeyReleased, OpKey 30 KeyPressed] l1) = (n, l3) \<and>
     bt_get (pl_keys l3) 30 = Some 3 \<and> bt_get (pl_mouse_buttons l3) (mouse_button_key MbLeft) = None"
proof -
  let ?ops = "[OpKey 30 KeyReleased, OpKey 30 KeyPressed]"
  obtain batch l1 where b: "release_all_events SessionEnded example_ledger = (Inr batch, l1)"
    by (simp add: example_ledger_def ledger_eval)
  obtain n l3 where c: "confirm_release_all batch (fold ledger_apply ?ops l1) = (n, l3)" by fastforce
  have "l1 = snd (release_all_events SessionEnded example_ledger)" using b by simp
  then have "bt_get (pl_keys (fold ledger_apply ?ops l1)) 30 = Some 3"
    "pl_next_generation example_ledger = 3"
    "\<forall>h. bt_get (pl_mouse_buttons (fold ledger_apply ?ops l1)) (mouse_button_key MbLeft) = Some h \<longrightarrow>
       hb_generation h = 2"
    by (auto simp: example_ledger_def ledger_eval)
  note before = this
  note T = confirm_clears_the_snapshot [OF example_ledger_wf b c]
  have "bt_get (pl_keys l3) 30 = Some 3"
    using T [THEN conjunct1, rule_format, of 30 3] before(1,2) by simp
  moreover have "bt_get (pl_mouse_buttons l3) (mouse_button_key MbLeft) \<noteq> Some h" for h
    using T [THEN conjunct2, THEN conjunct1, rule_format, of "mouse_button_key MbLeft" h] before(2,3)
    by auto
  ultimately show ?thesis using b c by (metis not_None_eq)
qed

text \<open>
  A release batch releases every held control once and nothing else: its events are one
  release per held key and per held button (at the position and anchor where it was pressed),
  without repetition, and taking it changes nothing but the token counter.
\<close>

theorem release_batch_complete:
  assumes "ledger_wf l" "release_all_events reason l = (Inr batch, l')"
  shows "distinct (pb_events batch) \<and>
    set (pb_events batch) =
      {KeyEvent k KeyReleased | k g. bt_get (pl_keys l) k = Some g} \<union>
      {button_release (k, h) | k h. bt_get (pl_mouse_buttons l) k = Some h} \<and>
    length (pb_events batch) = held_key_count l + held_mouse_button_count l \<and>
    l' = l\<lparr>pl_next_batch_token := Suc (pb_token batch)\<rparr>"
proof -
  obtain b where b: "batch = b" "l' = l\<lparr>pl_next_batch_token := Suc (pl_next_batch_token l)\<rparr>"
    "pb_token b = pl_next_batch_token l"
    "pb_events b = map key_release (pl_keys l) @ map button_release (pl_mouse_buttons l)"
    using assms(2) by (rule release_all_events_cases) auto
  have wf: "bt_wf (pl_keys l)" "bt_wf (pl_mouse_buttons l)"
    using assms(1) by (simp_all add: ledger_wf_def)
  have keys: "set (map key_release (pl_keys l)) = {KeyEvent k KeyReleased | k g. bt_get (pl_keys l) k = Some g}"
    using bt.get_entries [OF wf(1)] by (force simp: key_release_def)
  have buttons: "set (map button_release (pl_mouse_buttons l)) =
      {button_release (k, h) | k h. bt_get (pl_mouse_buttons l) k = Some h}"
    using bt.get_entries [OF wf(2)] by force
  have "inj_on key_release (set (pl_keys l))"
    using bt.get_entries [OF wf(1)] by (auto intro!: inj_onI simp: key_release_def) (metis option.inject)
  then have dk: "distinct (map key_release (pl_keys l))"
    using bt.distinct_entries [OF wf(1)] by (simp add: distinct_map)
  have key_of: "k = mouse_button_key (hb_button h)" if "(k, h) \<in> set (pl_mouse_buttons l)" for k h
    using that assms(1) bt.get_entries [OF wf(2)] unfolding ledger_wf_def by blast
  have "inj_on button_release (set (pl_mouse_buttons l))"
  proof (rule inj_onI)
    fix p q assume pq: "p \<in> set (pl_mouse_buttons l)" "q \<in> set (pl_mouse_buttons l)"
      and eq: "button_release p = button_release q"
    have "fst p = fst q" using key_of [of "fst p" "snd p"] key_of [of "fst q" "snd q"] pq eq
      by (simp add: button_release_def Let_def)
    then show "p = q" using pq bt.entry_iff_get [OF wf(2)] by (metis option.inject prod.expand)
  qed
  then have db: "distinct (map button_release (pl_mouse_buttons l))"
    using bt.distinct_entries [OF wf(2)] by (simp add: distinct_map)
  have "set (map key_release (pl_keys l)) \<inter> set (map button_release (pl_mouse_buttons l)) = {}"
    by (auto simp: key_release_def button_release_def Let_def)
  then have "distinct (pb_events batch)" using dk db b by (simp only: b distinct_append)
  moreover have "set (pb_events batch) =
      {KeyEvent k KeyReleased | k g. bt_get (pl_keys l) k = Some g} \<union>
      {button_release (k, h) | k h. bt_get (pl_mouse_buttons l) k = Some h}"
    using keys buttons b by (simp only: b set_append)
  ultimately show ?thesis using b by (simp add: held_key_count_def held_mouse_button_count_def)
qed

theorem release_batch_complete_witness:
  "\<exists>batch l'. release_all_events SessionEnded example_ledger = (Inr batch, l') \<and>
     length (pb_events batch) = 2 \<and> KeyEvent 30 KeyReleased \<in> set (pb_events batch)"
proof -
  obtain batch l' where b: "release_all_events SessionEnded example_ledger = (Inr batch, l')"
    by (simp add: example_ledger_def ledger_eval)
  have "held_key_count example_ledger + held_mouse_button_count example_ledger = 2"
    "bt_get (pl_keys example_ledger) 30 = Some 1"
    by (simp_all add: example_ledger_def ledger_eval held_key_count_def held_mouse_button_count_def)
  note held = this
  note T = release_batch_complete [OF example_ledger_wf b]
  have "KeyEvent 30 KeyReleased \<in> set (pb_events batch)"
    unfolding T [THEN conjunct2, THEN conjunct1] using held(2) by simp
  moreover have "length (pb_events batch) = 2" using T held(1) by simp
  ultimately show ?thesis using b by simp
qed

end
