(* ===== verification/Router.thy ===== *)
theory Router
  imports Session Routes InputProtocol
begin

text \<open>
  The input router (\<open>crates/rshare-core/src/input_router.rs\<close>): the single owner of the capture
  session on the sending side. It turns captured input and environment changes into commands
  for the outer layers. Each method is a function from the router to the outputs it emits, in
  order, and the router after it; \<open>handle\<close> dispatches.
\<close>

section \<open>Model\<close>

datatype router_input =
    AbsoluteMove i32 i32 monotonic_stamp
  | RelativeMove i32 i32 monotonic_stamp
  | KeyInput u32 key_state monotonic_stamp
  | MouseButtonInput mouse_button button_state i32 i32 monotonic_stamp
  | WheelInput i32 i32 monotonic_stamp
  | TextCommitInput string monotonic_stamp
  | GamepadConnectedInput gamepad_device_info monotonic_stamp
  | GamepadDisconnectedInput u8 monotonic_stamp
  | GamepadButtonInput u8 gamepad_button bool monotonic_stamp
  | GamepadAxesInput u8 i16 i16 i16 i16 u16 u16 monotonic_stamp

fun captured_at :: "router_input \<Rightarrow> monotonic_stamp" where
  "captured_at (AbsoluteMove _ _ c) = c"
| "captured_at (RelativeMove _ _ c) = c"
| "captured_at (KeyInput _ _ c) = c"
| "captured_at (MouseButtonInput _ _ _ _ c) = c"
| "captured_at (WheelInput _ _ c) = c"
| "captured_at (TextCommitInput _ c) = c"
| "captured_at (GamepadConnectedInput _ c) = c"
| "captured_at (GamepadDisconnectedInput _ c) = c"
| "captured_at (GamepadButtonInput _ _ _ c) = c"
| "captured_at (GamepadAxesInput _ _ _ _ _ _ _ c) = c"

datatype router_command =
    CmdInput router_input
  | CmdLayoutChanged layout_graph
  | CmdConnectivityChanged uuid bool
  | CmdQuickReturn
  | CmdSystemSuspended
  | CmdBackendDegraded
  | CmdLeaseExpired
  | CmdShutdown
  | CmdReleaseAllCompleted u64 bool

datatype router_metric = RouteCacheRebuilt u64 | CounterExhausted | PressedStateLedgerFault

datatype router_output =
    SendRealtime uuid realtime_input_frame
  | SendReliable uuid reliable_input_frame
  | EmergencyReleaseAll uuid reliable_input_frame "u64 option"
  | LocalSessionChanged control_session_state
  | SuppressLocalShortcuts bool
  | Metric router_metric

record remote_pointer_state =
  rp_target :: uuid
  rp_display :: pixel_rect
  rp_entry_edge :: direction
  rp_x :: i32
  rp_y :: i32

record emergency_release_status =
  es_ledger_fault :: bool

record input_router =
  ir_local_id :: uuid
  ir_layout :: layout_graph
  ir_connected_peers :: "uuid set"
  ir_epoch :: session_epoch
  ir_realtime_sequence :: u64
  ir_reliable_sequence :: u64
  ir_emergency_max_sequence_consumed :: bool
  ir_latest_anchor_sequence :: u64
  ir_session :: capture_session
  ir_suspended_target :: "uuid option"
  ir_routes :: route_cache
  ir_geometry :: virtual_desktop_geometry
  ir_pressed :: pressed_state_ledger
  ir_pending_release :: "pending_release_batch option"
  ir_last_captured_at :: monotonic_stamp
  ir_last_absolute :: "(i32 \<times> i32) option"
  ir_remote_pointer :: "remote_pointer_state option"

type_synonym handled = "router_output list \<times> input_router"

definition router_new ::
  "uuid \<Rightarrow> layout_graph \<Rightarrow> virtual_desktop_geometry \<Rightarrow> uuid list \<Rightarrow> uuid \<Rightarrow> input_router" where
  "router_new local_id layout geometry peers fresh_ledger_id =
     \<lparr>ir_local_id = local_id, ir_layout = layout, ir_connected_peers = set peers, ir_epoch = 0,
      ir_realtime_sequence = 0, ir_reliable_sequence = 0,
      ir_emergency_max_sequence_consumed = False, ir_latest_anchor_sequence = 0,
      ir_session = session_new, ir_suspended_target = None,
      ir_routes = route_cache_build layout local_id (set peers) 1, ir_geometry = geometry,
      ir_pressed = ledger_new fresh_ledger_id, ir_pending_release = None,
      ir_last_captured_at = \<lparr>ms_domain = 0, ms_value_us = 0\<rparr>, ir_last_absolute = None,
      ir_remote_pointer = None\<rparr>"

definition pending_release_token :: "input_router \<Rightarrow> u64 option" where
  "pending_release_token r = map_option pb_token (ir_pending_release r)"

definition session_state :: "input_router \<Rightarrow> control_session_state" where
  "session_state r = cs_state (ir_session r)"

subsection \<open>Sequence numbers\<close>

definition take_realtime_sequence :: "input_router \<Rightarrow> u64 option \<times> input_router" where
  "take_realtime_sequence r =
     (case checked_inc (ir_realtime_sequence r) of
        None \<Rightarrow> (None, r)
      | Some n \<Rightarrow> (Some (ir_realtime_sequence r), r\<lparr>ir_realtime_sequence := n\<rparr>))"

definition take_reliable_sequence :: "input_router \<Rightarrow> u64 option \<times> input_router" where
  "take_reliable_sequence r =
     (case checked_inc (ir_reliable_sequence r) of
        None \<Rightarrow> (None, r)
      | Some n \<Rightarrow> (Some (ir_reliable_sequence r), r\<lparr>ir_reliable_sequence := n\<rparr>))"

definition take_emergency_reliable_sequence :: "input_router \<Rightarrow> u64 option \<times> input_router" where
  "take_emergency_reliable_sequence r =
     (let sequence = ir_reliable_sequence r
      in if sequence = u64_max
         then (if ir_emergency_max_sequence_consumed r then (None, r)
               else (Some sequence, r\<lparr>ir_emergency_max_sequence_consumed := True\<rparr>))
         else case checked_inc sequence of
           None \<Rightarrow> (None, r)
         | Some n \<Rightarrow> (Some sequence, r\<lparr>ir_reliable_sequence := n\<rparr>))"

subsection \<open>Releases and session ends\<close>

definition reliable_frame ::
  "input_router \<Rightarrow> u64 \<Rightarrow> monotonic_stamp \<Rightarrow> reliable_input_event \<Rightarrow> reliable_input_frame" where
  "reliable_frame r sequence captured event =
     \<lparr>lf_protocol_version = input_protocol_version, lf_session_epoch = ir_epoch r,
      lf_sequence = sequence, lf_captured_at = captured, lf_event = event\<rparr>"

definition realtime_frame ::
  "input_router \<Rightarrow> u64 \<Rightarrow> monotonic_stamp \<Rightarrow> realtime_input_payload \<Rightarrow> realtime_input_frame" where
  "realtime_frame r sequence captured payload =
     \<lparr>rf_protocol_version = input_protocol_version, rf_session_epoch = ir_epoch r,
      rf_sequence = sequence, rf_captured_at = captured, rf_payload = payload\<rparr>"

definition push_emergency_release ::
  "uuid \<Rightarrow> release_all_reason \<Rightarrow> input_router
     \<Rightarrow> emergency_release_status \<times> router_output list \<times> input_router" where
  "push_emergency_release target reason r =
     (case take_emergency_reliable_sequence r of
        (None, r) \<Rightarrow> (\<lparr>es_ledger_fault = False\<rparr>, [Metric CounterExhausted], r)
      | (Some sequence, r) \<Rightarrow>
          (let (release_token, ledger_fault, r) =
                 (case ir_pending_release r of
                    Some batch \<Rightarrow> (Some (pb_token batch), False, r)
                  | None \<Rightarrow>
                      (case release_all_events reason (ir_pressed r) of
                         (Inr batch, l) \<Rightarrow>
                           (Some (pb_token batch), False,
                            r\<lparr>ir_pressed := l, ir_pending_release := Some batch\<rparr>)
                       | (Inl _, l) \<Rightarrow> (None, True, r\<lparr>ir_pressed := l\<rparr>)))
           in (\<lparr>es_ledger_fault = ledger_fault\<rparr>,
               [EmergencyReleaseAll target
                  (reliable_frame r sequence (ir_last_captured_at r) (ReleaseAllEvent reason))
                  release_token], r)))"

definition degrade_session :: "input_router \<Rightarrow> input_router" where
  "degrade_session r = r\<lparr>ir_session := on_backend_degraded (ir_session r)\<rparr>"

definition handle_pressed_ledger_fault :: "uuid \<Rightarrow> input_router \<Rightarrow> handled" where
  "handle_pressed_ledger_fault target r =
     (let r = r\<lparr>ir_remote_pointer := None\<rparr>;
          (_, outputs, r) = push_emergency_release target SuspendedReason r;
          r = degrade_session r
      in (outputs @ [LocalSessionChanged (session_state r), SuppressLocalShortcuts False,
            Metric PressedStateLedgerFault], r))"

definition handle_counter_exhausted :: "uuid \<Rightarrow> input_router \<Rightarrow> handled" where
  "handle_counter_exhausted target r =
     (let r = r\<lparr>ir_remote_pointer := None\<rparr>;
          (_, outputs, r) = push_emergency_release target SuspendedReason r;
          r = degrade_session r
      in (outputs @ [LocalSessionChanged (session_state r), SuppressLocalShortcuts False,
            Metric CounterExhausted], r))"

definition return_to_local :: "release_all_reason \<Rightarrow> input_router \<Rightarrow> handled" where
  "return_to_local reason r =
     (case active_target (ir_session r) of
        None \<Rightarrow> ([], r)
      | Some target \<Rightarrow>
          (let r = r\<lparr>ir_remote_pointer := None\<rparr>
           in case session_state r of
                RemoteActive _ entered_via \<Rightarrow>
                  (let return_edge = opposite entered_via;
                       (release, outputs, r) = push_emergency_release target reason r;
                       r = (if es_ledger_fault release then degrade_session r
                            else r\<lparr>ir_session := snd (on_return_edge_hit return_edge (ir_session r))\<rparr>)
                   in (outputs
                       @ (if \<not> is_remote_active (ir_session r)
                          then [LocalSessionChanged (session_state r), SuppressLocalShortcuts False]
                          else [])
                       @ (if es_ledger_fault release then [Metric PressedStateLedgerFault] else []),
                       r))
              | _ \<Rightarrow> ([], r)))"

definition handle_backend_degraded :: "input_router \<Rightarrow> handled" where
  "handle_backend_degraded r =
     (let active = active_target (ir_session r);
          r = r\<lparr>ir_remote_pointer := None\<rparr>;
          (ledger_fault, outputs, r) =
            (case active of
               Some target \<Rightarrow>
                 (let (release, outputs, r) = push_emergency_release target BackendFailure r
                  in (es_ledger_fault release, outputs, r))
             | None \<Rightarrow> (False, [], r));
          r = (degrade_session r)\<lparr>ir_suspended_target := None\<rparr>
      in (outputs @ [LocalSessionChanged (session_state r), SuppressLocalShortcuts False]
          @ (if ledger_fault then [Metric PressedStateLedgerFault] else []), r))"

definition recover_unavailable_target :: "input_router \<Rightarrow> handled" where
  "recover_unavailable_target r =
     (if (case ir_suspended_target r of None \<Rightarrow> True | Some t \<Rightarrow> t \<notin> ir_connected_peers r)
         \<or> ir_pending_release r \<noteq> None
         \<or> session_state r \<noteq> Suspended TargetUnavailable
      then ([], r)
      else let r = r\<lparr>ir_suspended_target := None, ir_session := session_reset (ir_session r)\<rparr>
           in ([LocalSessionChanged (session_state r)], r))"

definition handle_release_all_completed :: "u64 \<Rightarrow> bool \<Rightarrow> input_router \<Rightarrow> handled" where
  "handle_release_all_completed token success r =
     (if \<not> success then ([], r)
      else case ir_pending_release r of
        None \<Rightarrow> ([], r)
      | Some batch \<Rightarrow>
          (if pb_token batch \<noteq> token then ([], r)
           else recover_unavailable_target
                  (r\<lparr>ir_pending_release := None,
                     ir_pressed := snd (confirm_release_all batch (ir_pressed r))\<rparr>)))"

subsection \<open>Sending\<close>

definition send_realtime ::
  "uuid \<Rightarrow> monotonic_stamp \<Rightarrow> realtime_input_payload \<Rightarrow> input_router \<Rightarrow> handled" where
  "send_realtime target captured payload r =
     (case take_realtime_sequence r of
        (None, r) \<Rightarrow> handle_counter_exhausted target r
      | (Some sequence, r) \<Rightarrow>
          (let r = (case payload of
                      RelativeMouse _ _ \<Rightarrow> r\<lparr>ir_latest_anchor_sequence := sequence\<rparr>
                    | AbsoluteAnchor _ _ \<Rightarrow> r\<lparr>ir_latest_anchor_sequence := sequence\<rparr>
                    | _ \<Rightarrow> r)
           in ([SendRealtime target (realtime_frame r sequence captured payload)], r)))"

definition send_reliable ::
  "uuid \<Rightarrow> monotonic_stamp \<Rightarrow> reliable_input_event \<Rightarrow> input_router \<Rightarrow> handled" where
  "send_reliable target captured event r =
     (case take_reliable_sequence r of
        (None, r) \<Rightarrow> handle_counter_exhausted target r
      | (Some sequence, r) \<Rightarrow>
          ([SendReliable target (reliable_frame r sequence captured event)], r))"

definition send_relative :: "i32 \<Rightarrow> i32 \<Rightarrow> monotonic_stamp \<Rightarrow> input_router \<Rightarrow> handled" where
  "send_relative dx dy captured r =
     (case active_target (ir_session r) of
        None \<Rightarrow> ([], r)
      | Some target \<Rightarrow> send_realtime target captured (RelativeMouse dx dy) r)"

definition tracked_pointer :: "uuid \<Rightarrow> input_router \<Rightarrow> remote_pointer_state option" where
  "tracked_pointer target r =
     (case ir_remote_pointer r of
        Some p \<Rightarrow> if rp_target p = target then Some p else None
      | None \<Rightarrow> None)"

definition crossed_return_edge :: "remote_pointer_state \<Rightarrow> int \<Rightarrow> int \<Rightarrow> bool" where
  "crossed_return_edge p candidate_x candidate_y =
     (case rp_entry_edge p of
        Left \<Rightarrow> candidate_x < pr_x (rp_display p)
      | Right \<Rightarrow> candidate_x > last_x (rp_display p)
      | Top \<Rightarrow> candidate_y < pr_y (rp_display p)
      | Bottom \<Rightarrow> candidate_y > last_y (rp_display p))"

definition handle_relative_move :: "i32 \<Rightarrow> i32 \<Rightarrow> monotonic_stamp \<Rightarrow> input_router \<Rightarrow> handled" where
  "handle_relative_move dx dy captured r =
     (case active_target (ir_session r) of
        None \<Rightarrow> ([], r)
      | Some target \<Rightarrow>
          (case tracked_pointer target r of
             None \<Rightarrow> send_relative dx dy captured r
           | Some p \<Rightarrow>
               (let candidate_x = rp_x p + dx;
                    candidate_y = rp_y p + dy;
                    next_x = sat_i32 (clamp (pr_x (rp_display p)) (last_x (rp_display p)) candidate_x);
                    next_y = sat_i32 (clamp (pr_y (rp_display p)) (last_y (rp_display p)) candidate_y);
                    bounded_dx = sat_i32 (next_x - rp_x p);
                    bounded_dy = sat_i32 (next_y - rp_y p);
                    r = r\<lparr>ir_remote_pointer := Some (p\<lparr>rp_x := next_x, rp_y := next_y\<rparr>)\<rparr>
                in if \<not> crossed_return_edge p candidate_x candidate_y
                   then send_relative dx dy captured r
                   else let (sent, r) = (if bounded_dx \<noteq> 0 \<or> bounded_dy \<noteq> 0
                                         then send_relative bounded_dx bounded_dy captured r
                                         else ([], r));
                            (returned, r) = return_to_local OwnershipTransfer r
                        in (sent @ returned, r))))"

subsection \<open>Entering a peer\<close>

definition entry_point :: "direction \<Rightarrow> pixel_rect \<Rightarrow> i32 \<times> i32 \<Rightarrow> i32 \<times> i32" where
  "entry_point entry_edge display p =
     (case entry_edge of
        Left \<Rightarrow> (pr_x display, snd p)
      | Right \<Rightarrow> (last_x display, snd p)
      | Top \<Rightarrow> (fst p, pr_y display)
      | Bottom \<Rightarrow> (fst p, last_y display))"

definition enter_remote ::
  "direction \<Rightarrow> route_target \<Rightarrow> i32 \<times> i32 \<Rightarrow> monotonic_stamp \<Rightarrow> input_router \<Rightarrow> handled" where
  "enter_remote edge rt point captured r =
     (let target = rt_device_id rt; (target_x, target_y) = point
      in case epoch_advance (ir_epoch r) of
           (Inl _, e) \<Rightarrow>
             (let r = degrade_session (r\<lparr>ir_epoch := e\<rparr>)
              in ([LocalSessionChanged (session_state r), SuppressLocalShortcuts False,
                   Metric CounterExhausted], r))
         | (Inr _, e) \<Rightarrow>
             (let r = r\<lparr>ir_epoch := e, ir_realtime_sequence := 0, ir_reliable_sequence := 0,
                        ir_emergency_max_sequence_consumed := False, ir_latest_anchor_sequence := 0\<rparr>
              in case on_edge_hit edge (Some target) (ir_session r) of
                   (Inl _, s) \<Rightarrow> ([], r\<lparr>ir_session := s\<rparr>)
                 | (Inr _, s) \<Rightarrow>
                     (case take_reliable_sequence (r\<lparr>ir_session := s\<rparr>) of
                        (None, r) \<Rightarrow> handle_counter_exhausted target r
                      | (Some enter_sequence, r) \<Rightarrow>
                          (let enter = reliable_frame r enter_sequence captured
                                 (EnterEvent (rt_display_id rt) target_x target_y)
                           in case take_realtime_sequence r of
                                (None, r) \<Rightarrow> handle_counter_exhausted target r
                              | (Some anchor_sequence, r) \<Rightarrow>
                                  (let r = r\<lparr>ir_latest_anchor_sequence := anchor_sequence,
                                        ir_remote_pointer := Some
                                          \<lparr>rp_target = target, rp_display = rt_display rt,
                                           rp_entry_edge = rt_entry_edge rt, rp_x = target_x,
                                           rp_y = target_y\<rparr>\<rparr>;
                                       anchor = realtime_frame r anchor_sequence captured
                                         (AbsoluteAnchor target_x target_y)
                                   in ([SendReliable target enter, SendRealtime target anchor,
                                        LocalSessionChanged (session_state r),
                                        SuppressLocalShortcuts True], r))))))"

definition handle_absolute_move :: "i32 \<Rightarrow> i32 \<Rightarrow> monotonic_stamp \<Rightarrow> input_router \<Rightarrow> handled" where
  "handle_absolute_move x y captured r =
     (if is_remote_active (ir_session r)
      then let previous = ir_last_absolute r; r = r\<lparr>ir_last_absolute := Some (x, y)\<rparr>
           in case previous of
                None \<Rightarrow> ([], r)
              | Some (px, py) \<Rightarrow> handle_relative_move (sat_i32 (x - px)) (sat_i32 (y - py)) captured r
      else let r = r\<lparr>ir_last_absolute := Some (x, y)\<rparr>
           in if \<not> is_local_ready (ir_session r) then ([], r)
              else if ir_pending_release r \<noteq> None then ([], r)
              else let source = vg_bounds (ir_geometry r)
                   in case edge_at source x y of
                        None \<Rightarrow> ([], r)
                      | Some edge \<Rightarrow>
                          (case route (ir_routes r) edge of
                             None \<Rightarrow> ([], r)
                           | Some rt \<Rightarrow>
                               enter_remote edge rt
                                 (entry_point (rt_entry_edge rt) (rt_display rt)
                                    (project_to source (rt_display rt) x y))
                                 captured r))"

subsection \<open>Layout and connectivity\<close>

definition rebuild_routes :: "input_router \<Rightarrow> handled" where
  "rebuild_routes r =
     (case checked_inc (rc_generation (ir_routes r)) of
        None \<Rightarrow> ([Metric CounterExhausted],
                 r\<lparr>ir_routes := route_cache_empty (rc_generation (ir_routes r))\<rparr>)
      | Some generation \<Rightarrow>
          ([Metric (RouteCacheRebuilt generation)],
           r\<lparr>ir_routes := route_cache_build (ir_layout r) (ir_local_id r) (ir_connected_peers r) generation\<rparr>))"

definition retarget_pointer :: "route_target \<Rightarrow> remote_pointer_state \<Rightarrow> remote_pointer_state" where
  "retarget_pointer rt p =
     (let display = rt_display rt
      in p\<lparr>rp_display := display, rp_entry_edge := rt_entry_edge rt,
           rp_x := clamp (pr_x display) (last_x display) (rp_x p),
           rp_y := clamp (pr_y display) (last_y display) (rp_y p)\<rparr>)"

definition suspend_target :: "uuid \<Rightarrow> input_router \<Rightarrow> input_router" where
  "suspend_target target r =
     r\<lparr>ir_session := on_target_disconnect target (ir_session r), ir_suspended_target := Some target\<rparr>"

definition handle_layout_changed :: "layout_graph \<Rightarrow> input_router \<Rightarrow> handled" where
  "handle_layout_changed layout r =
     (if ir_layout r = layout then ([], r)
      else let active_route = (case session_state r of RemoteActive t d \<Rightarrow> Some (t, d) | _ \<Rightarrow> None);
               r = (case Option.bind (get_node layout (ir_local_id r)) geometry_from_layout_node of
                      Some g \<Rightarrow> r\<lparr>ir_geometry := g\<rparr> | None \<Rightarrow> r);
               (rebuilt, r) = rebuild_routes (r\<lparr>ir_layout := layout\<rparr>)
           in case active_route of
                None \<Rightarrow> (rebuilt, r)
              | Some (target, entered_via) \<Rightarrow>
                  (case Option.bind (route (ir_routes r) entered_via)
                          (\<lambda>rt. if rt_device_id rt = target then Some rt else None) of
                     Some rt \<Rightarrow>
                       (rebuilt, r\<lparr>ir_remote_pointer := map_option (retarget_pointer rt) (ir_remote_pointer r)\<rparr>)
                   | None \<Rightarrow>
                       (let r = r\<lparr>ir_remote_pointer := None\<rparr>;
                            (release, outputs, r) = push_emergency_release target SuspendedReason r;
                            r = suspend_target target r
                        in (outputs @ [LocalSessionChanged (session_state r), SuppressLocalShortcuts False]
                            @ (if es_ledger_fault release then [Metric PressedStateLedgerFault] else rebuilt),
                            r))))"

definition handle_connectivity_changed :: "uuid \<Rightarrow> bool \<Rightarrow> input_router \<Rightarrow> handled" where
  "handle_connectivity_changed peer connected r =
     (if (peer \<in> ir_connected_peers r) = connected then ([], r)
      else let r = r\<lparr>ir_connected_peers :=
                     (if connected then insert peer (ir_connected_peers r)
                      else ir_connected_peers r - {peer})\<rparr>;
               active = active_target (ir_session r);
               (ledger_fault, outputs, r) =
                 (if \<not> connected \<and> active = Some peer
                  then let r = r\<lparr>ir_remote_pointer := None\<rparr>;
                           (release, outputs, r) = push_emergency_release peer SuspendedReason r;
                           r = suspend_target peer r
                       in (es_ledger_fault release,
                           outputs @ [LocalSessionChanged (session_state r), SuppressLocalShortcuts False], r)
                  else (False, [], r));
               (rebuilt, r) = rebuild_routes r;
               outputs = outputs @ (if ledger_fault then [Metric PressedStateLedgerFault] else rebuilt)
           in if connected \<and> ir_suspended_target r = Some peer
              then (if ir_pending_release r \<noteq> None
                    then let (release, again, r) = push_emergency_release peer SuspendedReason r
                         in (outputs @ again
                             @ (if es_ledger_fault release then [Metric PressedStateLedgerFault] else []), r)
                    else let (recovered, r) = recover_unavailable_target r in (outputs @ recovered, r))
              else (outputs, r))"

subsection \<open>Dispatch\<close>

definition with_target :: "(uuid \<Rightarrow> input_router \<Rightarrow> handled) \<Rightarrow> input_router \<Rightarrow> handled" where
  "with_target f r =
     (case active_target (ir_session r) of None \<Rightarrow> ([], r) | Some target \<Rightarrow> f target r)"

definition handle_key :: "u32 \<Rightarrow> key_state \<Rightarrow> monotonic_stamp \<Rightarrow> uuid \<Rightarrow> input_router \<Rightarrow> handled" where
  "handle_key keycode st captured target r =
     (case record_key keycode st (ir_pressed r) of
        (Inl _, l) \<Rightarrow> handle_pressed_ledger_fault target (r\<lparr>ir_pressed := l\<rparr>)
      | (Inr _, l) \<Rightarrow> send_reliable target captured (KeyEvent keycode st) (r\<lparr>ir_pressed := l\<rparr>))"

definition handle_mouse_button ::
  "mouse_button \<Rightarrow> button_state \<Rightarrow> i32 \<Rightarrow> i32 \<Rightarrow> monotonic_stamp \<Rightarrow> uuid \<Rightarrow> input_router \<Rightarrow> handled" where
  "handle_mouse_button button st x y captured target r =
     (let (x, y) = (case tracked_pointer target r of Some p \<Rightarrow> (rp_x p, rp_y p) | None \<Rightarrow> (x, y));
          anchor = ir_latest_anchor_sequence r
      in case record_mouse_button button st x y anchor (ir_pressed r) of
           (Inl _, l) \<Rightarrow> handle_pressed_ledger_fault target (r\<lparr>ir_pressed := l\<rparr>)
         | (Inr _, l) \<Rightarrow>
             send_reliable target captured (MouseButtonEvent button st x y anchor) (r\<lparr>ir_pressed := l\<rparr>))"

fun handle_input :: "router_input \<Rightarrow> input_router \<Rightarrow> handled" where
  "handle_input (AbsoluteMove x y c) r = handle_absolute_move x y c r"
| "handle_input (RelativeMove dx dy c) r = handle_relative_move dx dy c r"
| "handle_input (KeyInput k st c) r = with_target (handle_key k st c) r"
| "handle_input (MouseButtonInput b st x y c) r = with_target (handle_mouse_button b st x y c) r"
| "handle_input (WheelInput dx dy c) r = with_target (\<lambda>t. send_reliable t c (WheelEvent dx dy)) r"
| "handle_input (TextCommitInput txt c) r = with_target (\<lambda>t. send_reliable t c (TextCommitEvent txt)) r"
| "handle_input (GamepadConnectedInput info c) r =
     with_target (\<lambda>t. send_reliable t c (GamepadConnectedEvent info)) r"
| "handle_input (GamepadDisconnectedInput g c) r =
     with_target (\<lambda>t. send_reliable t c (GamepadDisconnectedEvent g)) r"
| "handle_input (GamepadButtonInput g b p c) r =
     with_target (\<lambda>t. send_reliable t c (GamepadButtonEvent g b p)) r"
| "handle_input (GamepadAxesInput g lx ly rx ry lt rt c) r =
     with_target (\<lambda>t. send_realtime t c (GamepadAxesPayload g lx ly rx ry lt rt)) r"

fun handle :: "input_router \<Rightarrow> router_command \<Rightarrow> handled" where
  "handle r (CmdInput i) = handle_input i (r\<lparr>ir_last_captured_at := captured_at i\<rparr>)"
| "handle r (CmdLayoutChanged layout) = handle_layout_changed layout r"
| "handle r (CmdConnectivityChanged peer connected) = handle_connectivity_changed peer connected r"
| "handle r CmdQuickReturn = return_to_local OwnershipTransfer r"
| "handle r CmdSystemSuspended = return_to_local SuspendedReason r"
| "handle r CmdBackendDegraded = handle_backend_degraded r"
| "handle r CmdLeaseExpired = return_to_local TimeoutReason r"
| "handle r CmdShutdown = return_to_local SessionEnded r"
| "handle r (CmdReleaseAllCompleted token success) = handle_release_all_completed token success r"

end
