(* ===== verification/RouterProofs.thy ===== *)
theory RouterProofs
  imports Router
begin

text \<open>
  What the router guarantees. One predicate, \<open>router_ok\<close>, says what holds between commands: how
  the session, the tracked pointer, the pending release and the ledger of held controls fit
  together; one relation, \<open>router_rel\<close>, says how a step moves the two sequence counters and what
  an observer of its outputs learns. Each operation is shown to keep the first and to be in the
  second, and the machine contract of the prelude carries both over every run.
\<close>

declare active_target_Some [simp del] active_target_None [simp del]

section \<open>The invariant\<close>

definition display_ok :: "pixel_rect \<Rightarrow> bool" where
  "display_ok d \<longleftrightarrow> in_i32 (pr_x d) \<and> in_i32 (pr_y d)"

definition pointer_ok :: "remote_pointer_state \<Rightarrow> bool" where
  "pointer_ok p \<longleftrightarrow> display_ok (rp_display p) \<and>
     contains_x (rp_display p) (rp_x p) \<and> contains_y (rp_display p) (rp_y p)"

definition tokens_exhausted :: "pressed_state_ledger \<Rightarrow> bool" where
  "tokens_exhausted l \<longleftrightarrow> u64_max \<le> pl_next_batch_token l"

definition covers :: "pending_release_batch \<Rightarrow> pressed_state_ledger \<Rightarrow> bool" where
  "covers b l \<longleftrightarrow> pb_ledger_id b = pl_ledger_id l \<and> pb_key_generations b = pl_keys l \<and>
     pb_mouse_generations b = map (\<lambda>e. (fst e, hb_generation (snd e))) (pl_mouse_buttons l)"

definition settled :: "pending_release_batch option \<Rightarrow> pressed_state_ledger \<Rightarrow> bool" where
  "settled p l \<longleftrightarrow>
     (case p of Some b \<Rightarrow> covers b l | None \<Rightarrow> ledger_is_empty l \<or> tokens_exhausted l)"

definition routes_ok :: "route_cache \<Rightarrow> bool" where
  "routes_ok c \<longleftrightarrow> (\<forall>d rt. route c d = Some rt \<longrightarrow> display_ok (rt_display rt))"

definition counters_ok :: "input_router \<Rightarrow> bool" where
  "counters_ok r \<longleftrightarrow> ir_reliable_sequence r \<le> u64_max \<and>
     (ir_emergency_max_sequence_consumed r \<longrightarrow> ir_reliable_sequence r = u64_max)"

definition active_ok :: "uuid \<Rightarrow> input_router \<Rightarrow> bool" where
  "active_ok t r \<longleftrightarrow> ir_suspended_target r = None \<and> ir_pending_release r = None \<and>
     \<not> ir_emergency_max_sequence_consumed r \<and> ir_latest_anchor_sequence r < ir_realtime_sequence r \<and>
     (\<exists>p. ir_remote_pointer r = Some p \<and> rp_target p = t \<and> pointer_ok p)"

definition idle_ok :: "input_router \<Rightarrow> bool" where
  "idle_ok r \<longleftrightarrow> ir_remote_pointer r = None \<and> settled (ir_pending_release r) (ir_pressed r)"

definition session_ok :: "input_router \<Rightarrow> bool" where
  "session_ok r \<longleftrightarrow>
     (case session_state r of
        LocalReady \<Rightarrow> ir_suspended_target r = None \<and> idle_ok r
      | RemoteActive t d \<Rightarrow> active_ok t r
      | Suspended TargetUnavailable \<Rightarrow> ir_suspended_target r \<noteq> None \<and> idle_ok r
      | Suspended BackendDegradedReason \<Rightarrow> ir_suspended_target r = None \<and> idle_ok r
      | _ \<Rightarrow> False)"

definition router_ok :: "input_router \<Rightarrow> bool" where
  "router_ok r \<longleftrightarrow> counters_ok r \<and> ledger_wf (ir_pressed r) \<and> routes_ok (ir_routes r) \<and> session_ok r"

lemmas router_ok_defs = router_ok_def counters_ok_def session_ok_def active_ok_def idle_ok_def
  session_state_def

section \<open>What a step does\<close>

fun reliable_position :: "router_output \<Rightarrow> position option" where
  "reliable_position (SendReliable _ f) = Some (lf_session_epoch f, lf_sequence f)"
| "reliable_position (EmergencyReleaseAll _ f _) = Some (lf_session_epoch f, lf_sequence f)"
| "reliable_position _ = None"

fun realtime_position :: "router_output \<Rightarrow> position option" where
  "realtime_position (SendRealtime _ f) = Some (rf_session_epoch f, rf_sequence f)"
| "realtime_position _ = None"

definition reliable_positions :: "router_output list \<Rightarrow> position list" where
  "reliable_positions = List.map_filter reliable_position"

definition realtime_positions :: "router_output list \<Rightarrow> position list" where
  "realtime_positions = List.map_filter realtime_position"

definition reliable_cursor :: "input_router \<Rightarrow> position" where
  "reliable_cursor r =
     (ir_epoch r, if ir_emergency_max_sequence_consumed r then Suc (ir_reliable_sequence r)
                  else ir_reliable_sequence r)"

definition realtime_cursor :: "input_router \<Rightarrow> position" where
  "realtime_cursor r = (ir_epoch r, ir_realtime_sequence r)"

text \<open>What the outer layers believe after seeing an output: the session state, and whether local
  shortcuts are suppressed.\<close>

type_synonym observed = "control_session_state \<times> bool"

fun observe :: "router_output \<Rightarrow> observed \<Rightarrow> observed" where
  "observe (LocalSessionChanged s) v = (s, snd v)"
| "observe (SuppressLocalShortcuts b) v = (fst v, b)"
| "observe _ v = v"

definition router_view :: "input_router \<Rightarrow> observed" where
  "router_view r = (session_state r, is_remote_active (ir_session r))"

definition router_rel :: "input_router \<Rightarrow> router_output list \<Rightarrow> input_router \<Rightarrow> bool" where
  "router_rel r os r' \<longleftrightarrow>
     advances (reliable_cursor r) (reliable_positions os) (reliable_cursor r') \<and>
     advances (realtime_cursor r) (realtime_positions os) (realtime_cursor r') \<and>
     fold observe os (router_view r) = router_view r'"

lemma positions_simps [simp]:
  "reliable_positions [] = []"
  "reliable_positions (x # os) =
     (case reliable_position x of None \<Rightarrow> reliable_positions os | Some p \<Rightarrow> p # reliable_positions os)"
  "realtime_positions [] = []"
  "realtime_positions (x # os) =
     (case realtime_position x of None \<Rightarrow> realtime_positions os | Some p \<Rightarrow> p # realtime_positions os)"
  by (simp_all add: reliable_positions_def realtime_positions_def List.map_filter_simps
    split: option.split)

lemma positions_append [simp]:
  "reliable_positions (os @ os') = reliable_positions os @ reliable_positions os'"
  "realtime_positions (os @ os') = realtime_positions os @ realtime_positions os'"
  by (induction os) (auto split: option.splits)

lemma router_rel_refl [simp]: "router_rel r [] r"
  by (simp add: router_rel_def)

lemma router_rel_comp: "router_rel r os r1 \<Longrightarrow> router_rel r1 os' r2 \<Longrightarrow> router_rel r (os @ os') r2"
  unfolding router_rel_def by (auto intro: advances_append)

text \<open>Metrics carry no position and tell no observer anything.\<close>

fun is_metric :: "router_output \<Rightarrow> bool" where
  "is_metric (Metric _) = True"
| "is_metric _ = False"

lemma metrics_silent [simp]:
  assumes "\<forall>x\<in>set os. is_metric x"
  shows "reliable_positions os = []" "realtime_positions os = []" "fold observe os v = v"
  using assms by (induction os arbitrary: v) (auto elim!: is_metric.elims)

section \<open>Confirmed releases\<close>

lemma covers_confirm:
  assumes "ledger_wf l" "covers b l"
  shows "ledger_is_empty (snd (confirm_release_all b l))" "ledger_wf (snd (confirm_release_all b l))"
proof -
  obtain n l' where c: "confirm_release_all b l = (n, l')" by fastforce
  have id: "pb_ledger_id b = pl_ledger_id l" using assms(2) by (simp add: covers_def)
  note C = confirm_release_all_spec [OF c assms(1) id]
  have wf: "bt_wf (pl_keys l)" "bt_wf (pl_mouse_buttons l)"
    using assms(1) by (simp_all add: ledger_wf_def)
  have k: "(k, g) \<in> set (pb_key_generations b)" if "bt_get (pl_keys l) k = Some g" for k g
    using that assms(2) bt.get_entries [OF wf(1)] by (simp add: covers_def)
  have m: "(k, hb_generation h) \<in> set (pb_mouse_generations b)"
    if "bt_get (pl_mouse_buttons l) k = Some h" for k h
    using that assms(2) unfolding covers_def bt.get_entries [OF wf(2)] by force
  have wf': "bt_wf (pl_keys l')" "bt_wf (pl_mouse_buttons l')"
    using C(1) by (simp_all add: ledger_wf_def)
  have "bt_get (pl_keys l') i = None" for i using C(2) [of i] k by (auto split: option.splits)
  then have "pl_keys l' = []" using bt.entries_empty [OF wf'(1)] by blast
  moreover have "bt_get (pl_mouse_buttons l') j = None" for j
    using C(3) [of j] m by (auto split: option.splits)
  then have "pl_mouse_buttons l' = []" using bt.entries_empty [OF wf'(2)] by blast
  ultimately show "ledger_is_empty (snd (confirm_release_all b l))"
    using c by (simp add: ledger_is_empty_def)
  show "ledger_wf (snd (confirm_release_all b l))" using C(1) c by simp
qed

lemma release_all_settles:
  assumes "release_all_events reason l = (res, l')" "ledger_wf l"
  shows "ledger_wf l' \<and> pl_ledger_id l' = pl_ledger_id l \<and>
    (case res of Inr b \<Rightarrow> covers b l' | Inl _ \<Rightarrow> tokens_exhausted l')"
  using assms(1)
  by (rule release_all_events_cases)
    (use assms(2) in \<open>auto simp: covers_def tokens_exhausted_def ledger_wf_def\<close>)

section \<open>One step\<close>

fun data_target :: "router_output \<Rightarrow> uuid option" where
  "data_target (SendRealtime t _) = Some t"
| "data_target (SendReliable t _) = Some t"
| "data_target _ = None"

definition router_target :: "input_router \<Rightarrow> uuid option" where
  "router_target r = active_target (ir_session r)"

text \<open>A device the router stops forwarding to is told to release everything.\<close>

definition departs :: "input_router \<Rightarrow> router_output list \<Rightarrow> input_router \<Rightarrow> bool" where
  "departs r os r' \<longleftrightarrow>
     (\<forall>t. router_target r = Some t \<and> router_target r' \<noteq> Some t \<longrightarrow>
        (\<exists>f token. EmergencyReleaseAll t f token \<in> set os))"

text \<open>Input goes to the device that is active, releases also to the one that went away.\<close>

definition addressed :: "input_router \<Rightarrow> router_output list \<Rightarrow> input_router \<Rightarrow> bool" where
  "addressed r os r' \<longleftrightarrow>
     (\<forall>x\<in>set os. \<forall>t. data_target x = Some t \<longrightarrow> router_target r = Some t \<or> router_target r' = Some t) \<and>
     (\<forall>t f token. EmergencyReleaseAll t f token \<in> set os \<longrightarrow>
        router_target r = Some t \<or> ir_suspended_target r = Some t)"

definition step_ok :: "input_router \<Rightarrow> router_output list \<Rightarrow> input_router \<Rightarrow> bool" where
  "step_ok r os r' \<longleftrightarrow> router_ok r' \<and> router_rel r os r' \<and> departs r os r' \<and> addressed r os r'"

lemma step_ok_refl [simp]: "step_ok r [] r \<longleftrightarrow> router_ok r"
  by (auto simp: step_ok_def departs_def addressed_def)

lemma step_ok_comp:
  assumes "step_ok r os r1" "step_ok r1 os' r2"
    and "router_target r1 = router_target r \<or> router_target r1 = None"
    and "ir_suspended_target r1 = ir_suspended_target r"
  shows "step_ok r (os @ os') r2"
proof -
  have "departs r (os @ os') r2" using assms unfolding step_ok_def departs_def by fastforce
  moreover have "addressed r (os @ os') r2"
    using assms unfolding step_ok_def addressed_def by fastforce
  ultimately show ?thesis
    using assms(1,2) router_rel_comp unfolding step_ok_def by blast
qed

text \<open>Only the counters, the epoch and the session of the state before matter.\<close>

lemma step_ok_cong:
  assumes "ir_epoch q = ir_epoch r" "ir_reliable_sequence q = ir_reliable_sequence r"
    "ir_realtime_sequence q = ir_realtime_sequence r" "ir_session q = ir_session r"
    "ir_emergency_max_sequence_consumed q = ir_emergency_max_sequence_consumed r"
    "ir_suspended_target q = ir_suspended_target r"
  shows "step_ok q os r' = step_ok r os r'"
  using assms by (simp add: step_ok_def router_rel_def departs_def addressed_def router_target_def
    reliable_cursor_def realtime_cursor_def router_view_def session_state_def)

section \<open>Leaving a device\<close>

definition leaving :: "uuid \<Rightarrow> input_router \<Rightarrow> bool" where
  "leaving t r \<longleftrightarrow> router_target r = Some t \<and> ir_suspended_target r = None \<and>
     ir_pending_release r = None \<and> \<not> ir_emergency_max_sequence_consumed r \<and>
     ir_reliable_sequence r \<le> u64_max \<and> ledger_wf (ir_pressed r) \<and> routes_ok (ir_routes r)"

lemma router_target_Some: "router_target r = Some t \<longleftrightarrow> (\<exists>d. session_state r = RemoteActive t d)"
  by (simp add: router_target_def session_state_def active_target_Some)

lemma router_ok_leaving: "router_ok r \<Longrightarrow> router_target r = Some t \<Longrightarrow> leaving t r"
  by (auto simp: leaving_def router_ok_def counters_ok_def session_ok_def active_ok_def
    router_target_Some)

lemma take_emergency_cases:
  assumes "\<not> ir_emergency_max_sequence_consumed r" "ir_reliable_sequence r \<le> u64_max"
  obtains a b where
    "take_emergency_reliable_sequence r = (Some (ir_reliable_sequence r),
       r\<lparr>ir_reliable_sequence := a, ir_emergency_max_sequence_consumed := b\<rparr>)"
    "a \<le> u64_max" "b \<longrightarrow> a = u64_max" "(if b then Suc a else a) = Suc (ir_reliable_sequence r)"
proof (cases "ir_reliable_sequence r = u64_max")
  case True
  then have "take_emergency_reliable_sequence r = (Some (ir_reliable_sequence r),
      r\<lparr>ir_reliable_sequence := u64_max, ir_emergency_max_sequence_consumed := True\<rparr>)"
    using assms by (cases r) (simp add: take_emergency_reliable_sequence_def)
  with that [where a = u64_max and b = True] True show ?thesis by simp
next
  case False
  then have "take_emergency_reliable_sequence r = (Some (ir_reliable_sequence r),
      r\<lparr>ir_reliable_sequence := Suc (ir_reliable_sequence r), ir_emergency_max_sequence_consumed := False\<rparr>)"
    using assms by (cases r) (simp add: take_emergency_reliable_sequence_def checked_inc_eq Let_def)
  with that [where a = "Suc (ir_reliable_sequence r)" and b = False] False assms(2) show ?thesis by simp
qed

lemma push_leaving:
  assumes "leaving t r" "push_emergency_release u reason r = (st, os, r')"
  obtains f a b l p where
    "os = [EmergencyReleaseAll u f (map_option pb_token p)]"
    "lf_session_epoch f = ir_epoch r" "lf_sequence f = ir_reliable_sequence r"
    "r' = r\<lparr>ir_reliable_sequence := a, ir_emergency_max_sequence_consumed := b,
            ir_pressed := l, ir_pending_release := p\<rparr>"
    "ledger_wf l" "settled p l" "a \<le> u64_max" "b \<longrightarrow> a = u64_max"
    "(if b then Suc a else a) = Suc (ir_reliable_sequence r)"
    "es_ledger_fault st \<longleftrightarrow> p = None"
proof -
  have L: "\<not> ir_emergency_max_sequence_consumed r" "ir_reliable_sequence r \<le> u64_max"
    "ir_pending_release r = None" "ledger_wf (ir_pressed r)"
    using assms(1) by (simp_all add: leaving_def)
  obtain a b where ab: "take_emergency_reliable_sequence r = (Some (ir_reliable_sequence r),
       r\<lparr>ir_reliable_sequence := a, ir_emergency_max_sequence_consumed := b\<rparr>)"
    "a \<le> u64_max" "b \<longrightarrow> a = u64_max" "(if b then Suc a else a) = Suc (ir_reliable_sequence r)"
    using take_emergency_cases [OF L(1,2)] by blast
  obtain res l where rl: "release_all_events reason (ir_pressed r) = (res, l)" by fastforce
  note S = release_all_settles [OF rl L(4)]
  let ?p = "case res of Inr batch \<Rightarrow> Some batch | Inl _ \<Rightarrow> None"
  let ?f = "reliable_frame r (ir_reliable_sequence r) (ir_last_captured_at r) (ReleaseAllEvent reason)"
  have "push_emergency_release u reason r =
      (\<lparr>es_ledger_fault = (?p = None)\<rparr>, [EmergencyReleaseAll u ?f (map_option pb_token ?p)],
       r\<lparr>ir_reliable_sequence := a, ir_emergency_max_sequence_consumed := b,
         ir_pressed := l, ir_pending_release := ?p\<rparr>)"
    using L(3) by (cases res) (simp_all add: push_emergency_release_def ab(1) rl Let_def reliable_frame_def)
  then have eq: "st = \<lparr>es_ledger_fault = (?p = None)\<rparr>"
    "os = [EmergencyReleaseAll u ?f (map_option pb_token ?p)]"
    "r' = r\<lparr>ir_reliable_sequence := a, ir_emergency_max_sequence_consumed := b,
         ir_pressed := l, ir_pending_release := ?p\<rparr>"
    using assms(2) by simp_all
  have "settled ?p l" using S by (cases res) (simp_all add: settled_def)
  then show ?thesis
    using S ab by (intro that [OF eq(2) _ _ eq(3)]) (simp_all add: eq(1) reliable_frame_def)
qed

lemma departure:
  assumes "leaving t r" "push_emergency_release t reason r = (st, os, r1)"
    and same: "ir_reliable_sequence r' = ir_reliable_sequence r1"
      "ir_emergency_max_sequence_consumed r' = ir_emergency_max_sequence_consumed r1"
      "ir_epoch r' = ir_epoch r1" "ir_realtime_sequence r' = ir_realtime_sequence r1"
      "ir_pressed r' = ir_pressed r1" "ir_pending_release r' = ir_pending_release r1"
    and "routes_ok (ir_routes r')" "ir_remote_pointer r' = None"
    and state: "session_state r' = LocalReady \<and> ir_suspended_target r' = None \<or>
      session_state r' = Suspended TargetUnavailable \<and> ir_suspended_target r' \<noteq> None \<or>
      session_state r' = Suspended BackendDegradedReason \<and> ir_suspended_target r' = None"
    and "\<forall>x\<in>set ms. is_metric x"
  shows "step_ok r (os @ LocalSessionChanged (session_state r') # SuppressLocalShortcuts False # ms) r'"
proof -
  obtain f a b l p where P:
    "os = [EmergencyReleaseAll t f (map_option pb_token p)]"
    "lf_session_epoch f = ir_epoch r" "lf_sequence f = ir_reliable_sequence r"
    "r1 = r\<lparr>ir_reliable_sequence := a, ir_emergency_max_sequence_consumed := b,
            ir_pressed := l, ir_pending_release := p\<rparr>"
    "ledger_wf l" "settled p l" "a \<le> u64_max" "b \<longrightarrow> a = u64_max"
    "(if b then Suc a else a) = Suc (ir_reliable_sequence r)"
    using push_leaving [OF assms(1,2)] by metis
  have "\<not> is_remote_active (ir_session r')"
    using state by (auto simp: session_state_def is_remote_active_def)
  moreover have "router_ok r'"
    using assms P by (auto simp: router_ok_def counters_ok_def session_ok_def idle_ok_def)
  moreover have "reliable_cursor r = (ir_epoch r, ir_reliable_sequence r)"
    using assms(1) by (simp add: reliable_cursor_def leaving_def)
  moreover have "reliable_cursor r' = (ir_epoch r, Suc (ir_reliable_sequence r))"
    using same P by (cases b) (simp_all add: reliable_cursor_def)
  moreover have "realtime_cursor r' = realtime_cursor r"
    using same P by (simp add: realtime_cursor_def)
  moreover have "router_target r = Some t" using assms(1) by (simp add: leaving_def)
  moreover have "data_target x = None" "x \<noteq> EmergencyReleaseAll u g k" if "x \<in> set ms" for x u g k
    using that assms(12) by (auto elim!: is_metric.elims)
  ultimately show ?thesis
    using P assms(12) by (auto simp: step_ok_def router_rel_def departs_def addressed_def router_view_def)
qed

lemma leaving_pointer [simp]: "leaving t (r\<lparr>ir_remote_pointer := p\<rparr>) = leaving t r"
  by (simp add: leaving_def router_target_def)

lemma leaving_ledger: "leaving t r \<Longrightarrow> ledger_wf l \<Longrightarrow> leaving t (r\<lparr>ir_pressed := l\<rparr>)"
  by (simp add: leaving_def router_target_def)

lemma step_ok_pointer [simp]: "step_ok (r\<lparr>ir_remote_pointer := p\<rparr>) os r' = step_ok r os r'"
  by (rule step_ok_cong) simp_all

lemma step_ok_ledger [simp]: "step_ok (r\<lparr>ir_pressed := l\<rparr>) os r' = step_ok r os r'"
  by (rule step_ok_cong) simp_all

lemma degrade_session_simps [simp]:
  "session_state (degrade_session r) = Suspended BackendDegradedReason"
  "router_target (degrade_session r) = None"
  "is_remote_active (ir_session (degrade_session r)) = False"
  by (simp_all add: degrade_session_def session_state_def router_target_def on_backend_degraded_def
    is_remote_active_def active_target_def)

lemma degrade_session_same [simp]:
  "ir_reliable_sequence (degrade_session r) = ir_reliable_sequence r"
  "ir_emergency_max_sequence_consumed (degrade_session r) = ir_emergency_max_sequence_consumed r"
  "ir_epoch (degrade_session r) = ir_epoch r"
  "ir_realtime_sequence (degrade_session r) = ir_realtime_sequence r"
  "ir_pressed (degrade_session r) = ir_pressed r"
  "ir_pending_release (degrade_session r) = ir_pending_release r"
  "ir_routes (degrade_session r) = ir_routes r"
  "ir_remote_pointer (degrade_session r) = ir_remote_pointer r"
  "ir_suspended_target (degrade_session r) = ir_suspended_target r"
  by (simp_all add: degrade_session_def)

text \<open>What a push of the release leaves alone.\<close>

lemma push_same:
  assumes "leaving t r" "push_emergency_release u reason r = (st, os, r1)"
  shows "ir_routes r1 = ir_routes r" "ir_remote_pointer r1 = ir_remote_pointer r"
    "ir_suspended_target r1 = None" "ir_session r1 = ir_session r" "ir_epoch r1 = ir_epoch r"
    "ir_realtime_sequence r1 = ir_realtime_sequence r" "ir_layout r1 = ir_layout r"
    "ir_connected_peers r1 = ir_connected_peers r" "ir_local_id r1 = ir_local_id r"
proof -
  obtain a b l p where "r1 = r\<lparr>ir_reliable_sequence := a, ir_emergency_max_sequence_consumed := b,
            ir_pressed := l, ir_pending_release := p\<rparr>"
    using push_leaving [OF assms] by metis
  then show "ir_routes r1 = ir_routes r" "ir_remote_pointer r1 = ir_remote_pointer r"
    "ir_suspended_target r1 = None" "ir_session r1 = ir_session r" "ir_epoch r1 = ir_epoch r"
    "ir_realtime_sequence r1 = ir_realtime_sequence r" "ir_layout r1 = ir_layout r"
    "ir_connected_peers r1 = ir_connected_peers r" "ir_local_id r1 = ir_local_id r"
    using assms(1) by (simp_all add: leaving_def)
qed

lemma leaving_routes: "leaving t r \<Longrightarrow> routes_ok (ir_routes r)"
  by (simp add: leaving_def)

definition ends_forwarding :: "input_router \<Rightarrow> router_output list \<Rightarrow> input_router \<Rightarrow> bool" where
  "ends_forwarding r os r' \<longleftrightarrow> step_ok r os r' \<and> router_target r' = None \<and> ir_suspended_target r' = None"

lemma counter_exhausted_ok:
  assumes "leaving t r" "handle_counter_exhausted t r = (os, r')"
  shows "ends_forwarding r os r'"
proof -
  have L: "leaving t (r\<lparr>ir_remote_pointer := None\<rparr>)" using assms(1) by simp
  obtain st os1 r1 where p: "push_emergency_release t SuspendedReason (r\<lparr>ir_remote_pointer := None\<rparr>) =
      (st, os1, r1)" by (metis prod_cases3)
  note same = push_same [OF L p]
  have "step_ok (r\<lparr>ir_remote_pointer := None\<rparr>) (os1 @ LocalSessionChanged (session_state (degrade_session r1)) #
      SuppressLocalShortcuts False # [Metric CounterExhausted]) (degrade_session r1)"
    by (rule departure [OF L p]) (use same leaving_routes [OF L] in simp_all)
  then show ?thesis
    using assms(2) p same by (auto simp: handle_counter_exhausted_def ends_forwarding_def Let_def)
qed

lemma ledger_fault_ok:
  assumes "leaving t r" "handle_pressed_ledger_fault t r = (os, r')"
  shows "ends_forwarding r os r'"
proof -
  have L: "leaving t (r\<lparr>ir_remote_pointer := None\<rparr>)" using assms(1) by simp
  obtain st os1 r1 where p: "push_emergency_release t SuspendedReason (r\<lparr>ir_remote_pointer := None\<rparr>) =
      (st, os1, r1)" by (metis prod_cases3)
  note same = push_same [OF L p]
  have "step_ok (r\<lparr>ir_remote_pointer := None\<rparr>) (os1 @ LocalSessionChanged (session_state (degrade_session r1)) #
      SuppressLocalShortcuts False # [Metric PressedStateLedgerFault]) (degrade_session r1)"
    by (rule departure [OF L p]) (use same leaving_routes [OF L] in simp_all)
  then show ?thesis
    using assms(2) p same by (auto simp: handle_pressed_ledger_fault_def ends_forwarding_def Let_def)
qed

lemma return_to_local_ok:
  assumes "router_ok r" "return_to_local reason r = (os, r')"
  shows "step_ok r os r'"
proof (cases "router_target r")
  case None
  then show ?thesis using assms by (simp add: return_to_local_def router_target_def)
next
  case (Some t)
  then obtain d where d: "session_state r = RemoteActive t d" using router_target_Some by blast
  have L: "leaving t (r\<lparr>ir_remote_pointer := None\<rparr>)"
    using router_ok_leaving [OF assms(1) Some] by simp
  obtain st os1 r1 where p: "push_emergency_release t reason (r\<lparr>ir_remote_pointer := None\<rparr>) =
      (st, os1, r1)" by (metis prod_cases3)
  note same = push_same [OF L p]
  define r2 where "r2 = (if es_ledger_fault st then degrade_session r1
      else r1\<lparr>ir_session := snd (on_return_edge_hit (opposite d) (ir_session r1))\<rparr>)"
  have state: "session_state r2 = (if es_ledger_fault st then Suspended BackendDegradedReason else LocalReady)"
    using d same by (simp add: r2_def session_state_def degrade_session_def session_defs)
  define ms where "ms = (if es_ledger_fault st then [Metric PressedStateLedgerFault] else [])"
  have "step_ok (r\<lparr>ir_remote_pointer := None\<rparr>) (os1 @ LocalSessionChanged (session_state r2) #
      SuppressLocalShortcuts False # ms) r2"
    by (rule departure [OF L p])
      (use same state leaving_routes [OF L] in \<open>auto simp: r2_def ms_def\<close>)
  moreover have "\<not> is_remote_active (ir_session r2)"
    using state by (auto simp: session_state_def is_remote_active_def split: if_splits)
  moreover have "active_target (ir_session r) = Some t" using Some by (simp add: router_target_def)
  ultimately show ?thesis
    using assms(2) p d
    by (auto simp: return_to_local_def Let_def r2_def [symmetric] ms_def session_state_def)
qed

lemma idle_degrade:
  assumes "router_ok r" "router_target r = None"
  shows "router_ok ((degrade_session r)\<lparr>ir_remote_pointer := None, ir_suspended_target := None\<rparr>)"
  using assms router_target_Some [of r]
  by (cases "session_state r")
    (auto simp: router_ok_def counters_ok_def session_ok_def idle_ok_def session_state_def
      degrade_session_def on_backend_degraded_def split: suspend_reason.splits)

lemma backend_degraded_ok:
  assumes "router_ok r" "handle_backend_degraded r = (os, r')"
  shows "step_ok r os r'"
proof (cases "router_target r")
  case None
  then have a: "active_target (ir_session r) = None" by (simp add: router_target_def)
  have eq: "os = [LocalSessionChanged (session_state r'), SuppressLocalShortcuts False]"
    "r' = (degrade_session r)\<lparr>ir_remote_pointer := None, ir_suspended_target := None\<rparr>"
    using assms(2) a by (auto simp: handle_backend_degraded_def degrade_session_def session_state_def)
  have "router_ok r'" using idle_degrade [OF assms(1) None] eq(2) by simp
  moreover have "router_rel r os r'"
    by (simp add: eq router_rel_def router_view_def reliable_cursor_def realtime_cursor_def
      session_state_def degrade_session_def on_backend_degraded_def is_remote_active_def)
  ultimately show ?thesis using None by (auto simp: step_ok_def departs_def addressed_def eq(1))
next
  case (Some t)
  then have a: "active_target (ir_session r) = Some t" by (simp add: router_target_def)
  have L: "leaving t (r\<lparr>ir_remote_pointer := None\<rparr>)"
    using router_ok_leaving [OF assms(1) Some] by simp
  obtain st os1 r1 where p: "push_emergency_release t BackendFailure (r\<lparr>ir_remote_pointer := None\<rparr>) =
      (st, os1, r1)" by (metis prod_cases3)
  note same = push_same [OF L p]
  define r2 where "r2 = (degrade_session r1)\<lparr>ir_suspended_target := None\<rparr>"
  define ms where "ms = (if es_ledger_fault st then [Metric PressedStateLedgerFault] else [])"
  have state: "session_state r2 = Suspended BackendDegradedReason"
    using degrade_session_simps(1) [of r1] by (simp add: r2_def session_state_def)
  have "step_ok (r\<lparr>ir_remote_pointer := None\<rparr>) (os1 @ LocalSessionChanged (session_state r2) #
      SuppressLocalShortcuts False # ms) r2"
    by (rule departure [OF L p])
      (use same state leaving_routes [OF L] in \<open>auto simp: r2_def ms_def\<close>)
  then show ?thesis
    using assms(2) p a
    by (auto simp: handle_backend_degraded_def Let_def r2_def [symmetric] ms_def)
qed

lemma recover_ok:
  assumes "router_ok r" "recover_unavailable_target r = (os, r')"
  shows "step_ok r os r'"
proof (cases "session_state r = Suspended TargetUnavailable")
  case False
  then show ?thesis using assms by (auto simp: recover_unavailable_target_def)
next
  case True
  then have none: "router_target r = None" by (simp add: router_target_def session_state_def active_target_def)
  show ?thesis
  proof (cases "r' = r \<and> os = []")
    case False
    then have eq: "r' = r\<lparr>ir_suspended_target := None, ir_session := session_reset (ir_session r)\<rparr>"
      "os = [LocalSessionChanged (session_state r')]"
      using assms(2) by (auto simp: recover_unavailable_target_def Let_def split: if_splits)
    have s: "session_state r' = LocalReady" by (simp add: eq session_state_def session_reset_def)
    have "router_ok r'" using assms(1) True s
      by (simp add: eq(1) router_ok_def counters_ok_def session_ok_def idle_ok_def)
    moreover have "router_rel r os r'"
      using True by (simp add: eq router_rel_def router_view_def reliable_cursor_def
        realtime_cursor_def session_state_def is_remote_active_def session_reset_def)
    ultimately show ?thesis
      using none by (simp add: step_ok_def departs_def addressed_def eq(2))
  qed (use assms(1) in simp)
qed

lemma release_completed_ok:
  assumes "router_ok r" "handle_release_all_completed token success r = (os, r')"
  shows "step_ok r os r'"
proof (cases "\<exists>batch. success \<and> ir_pending_release r = Some batch \<and> pb_token batch = token")
  case False
  then have "os = [] \<and> r' = r"
    using assms(2) by (auto simp: handle_release_all_completed_def split: option.splits if_splits)
  then show ?thesis using assms(1) by simp
next
  case True
  then obtain b where b: "ir_pending_release r = Some b" "pb_token b = token" success by blast
  define q where "q = r\<lparr>ir_pending_release := None,
      ir_pressed := snd (confirm_release_all b (ir_pressed r))\<rparr>"
  have cov: "covers b (ir_pressed r)" "router_target r = None"
    using assms(1) b(1) router_target_Some [of r]
    by (auto simp: router_ok_def session_ok_def idle_ok_def settled_def active_ok_def
      split: control_session_state.splits suspend_reason.splits)
  have wf: "ledger_wf (ir_pressed r)" using assms(1) by (simp add: router_ok_def)
  note C = covers_confirm [OF wf cov(1)]
  have "router_ok q"
    using assms(1) C cov(2) router_target_Some [of r]
    by (auto simp: q_def router_ok_def counters_ok_def session_ok_def idle_ok_def settled_def
      session_state_def split: control_session_state.splits suspend_reason.splits)
  moreover have "recover_unavailable_target q = (os, r')"
    using assms(2) b by (simp add: handle_release_all_completed_def q_def)
  ultimately have "step_ok q os r'" by (rule recover_ok)
  moreover have "step_ok q os r' = step_ok r os r'" by (rule step_ok_cong) (simp_all add: q_def)
  ultimately show ?thesis by simp
qed

section \<open>Forwarding\<close>

text \<open>A step while forwarding to \<open>t\<close>: it goes on, or it ends in a degraded session.\<close>

definition forwards :: "uuid \<Rightarrow> input_router \<Rightarrow> router_output list \<Rightarrow> input_router \<Rightarrow> bool" where
  "forwards t r os r' \<longleftrightarrow> step_ok r os r' \<and>
     (router_target r' = Some t \<or> router_target r' = None) \<and> ir_suspended_target r' = None"

lemma ends_forwards: "ends_forwarding r os r' \<Longrightarrow> forwards t r os r'"
  by (simp add: ends_forwarding_def forwards_def)

lemma router_ok_active:
  "router_target r = Some t \<Longrightarrow>
    router_ok r \<longleftrightarrow> counters_ok r \<and> ledger_wf (ir_pressed r) \<and> routes_ok (ir_routes r) \<and> active_ok t r"
  by (auto simp: router_target_Some router_ok_def session_ok_def)

lemma router_ok_ledger:
  assumes "router_ok r" "router_target r = Some t" "ledger_wf l"
  shows "router_ok (r\<lparr>ir_pressed := l\<rparr>)"
proof -
  have "router_target (r\<lparr>ir_pressed := l\<rparr>) = Some t" using assms(2) by (simp add: router_target_def)
  then show ?thesis
    using assms router_ok_active [OF assms(2)]
    by (simp add: router_ok_active counters_ok_def active_ok_def)
qed

lemma send_reliable_ok:
  assumes "router_ok r" "router_target r = Some t" "send_reliable t c e r = (os, r')"
  shows "forwards t r os r'"
proof (cases "ir_reliable_sequence r < u64_max")
  case False
  then have "handle_counter_exhausted t r = (os, r')"
    using assms(3) by (simp add: send_reliable_def take_reliable_sequence_def checked_inc_eq)
  then show ?thesis
    using counter_exhausted_ok router_ok_leaving [OF assms(1,2)] ends_forwards by blast
next
  case True
  then have eq: "r' = r\<lparr>ir_reliable_sequence := Suc (ir_reliable_sequence r)\<rparr>"
    "os = [SendReliable t (reliable_frame r' (ir_reliable_sequence r) c e)]"
    using assms(3) by (auto simp: send_reliable_def take_reliable_sequence_def checked_inc_eq)
  have t': "router_target r' = Some t" using assms(2) by (simp add: eq(1) router_target_def)
  have A: "active_ok t r" "counters_ok r" using assms(1) router_ok_active [OF assms(2)] by blast+
  have "router_ok r'"
    using assms(1) True A router_ok_active [OF assms(2)]
    by (simp add: router_ok_active [OF t']) (simp add: eq(1) counters_ok_def active_ok_def)
  moreover have "router_rel r os r'"
    using A by (simp add: eq(2) router_rel_def reliable_frame_def router_view_def)
      (simp add: eq(1) reliable_cursor_def realtime_cursor_def active_ok_def session_state_def)
  ultimately show ?thesis
    using assms(2) t' A(1)
    by (simp add: forwards_def step_ok_def departs_def addressed_def eq(2))
      (simp add: eq(1) active_ok_def)
qed

lemma send_realtime_ok:
  assumes "router_ok r" "router_target r = Some t" "send_realtime t c pl r = (os, r')"
  shows "forwards t r os r'"
proof (cases "ir_realtime_sequence r < u64_max")
  case False
  then have "handle_counter_exhausted t r = (os, r')"
    using assms(3) by (simp add: send_realtime_def take_realtime_sequence_def checked_inc_eq)
  then show ?thesis
    using counter_exhausted_ok router_ok_leaving [OF assms(1,2)] ends_forwards by blast
next
  case True
  let ?n = "ir_realtime_sequence r"
  obtain a where eq: "r' = r\<lparr>ir_realtime_sequence := Suc ?n, ir_latest_anchor_sequence := a\<rparr>"
      "os = [SendRealtime t (realtime_frame r' ?n c pl)]"
    and a: "a = ?n \<or> a = ir_latest_anchor_sequence r"
  proof -
    define q where "q = r\<lparr>ir_realtime_sequence := Suc ?n\<rparr>"
    have send: "send_realtime t c pl r =
        (let q' = (case pl of RelativeMouse _ _ \<Rightarrow> q\<lparr>ir_latest_anchor_sequence := ?n\<rparr>
             | AbsoluteAnchor _ _ \<Rightarrow> q\<lparr>ir_latest_anchor_sequence := ?n\<rparr> | _ \<Rightarrow> q)
         in ([SendRealtime t (realtime_frame q' ?n c pl)], q'))"
      using True unfolding q_def by (simp add: send_realtime_def take_realtime_sequence_def checked_inc_eq)
    have q: "q = r\<lparr>ir_realtime_sequence := Suc ?n, ir_latest_anchor_sequence := ir_latest_anchor_sequence r\<rparr>"
      by (cases r) (simp add: q_def)
    show ?thesis
    proof (cases "r' = q")
      case True
      then show ?thesis
        using send assms(3) q that [of "ir_latest_anchor_sequence r"] by (cases pl) (auto simp: Let_def)
    next
      case False
      then show ?thesis using send assms(3) q_def that [of ?n] by (cases pl) (auto simp: Let_def)
    qed
  qed
  have t': "router_target r' = Some t" using assms(2) by (simp add: eq(1) router_target_def)
  have A: "active_ok t r" "counters_ok r" using assms(1) router_ok_active [OF assms(2)] by blast+
  have "a < Suc ?n" using a A(1) by (auto simp: active_ok_def)
  then have "router_ok r'"
    using assms(1) True A router_ok_active [OF assms(2)]
    by (simp add: router_ok_active [OF t']) (simp add: eq(1) counters_ok_def active_ok_def)
  moreover have "router_rel r os r'"
    using A by (simp add: eq(2) router_rel_def realtime_frame_def router_view_def)
      (simp add: eq(1) reliable_cursor_def realtime_cursor_def active_ok_def session_state_def)
  ultimately show ?thesis
    using assms(2) t' A(1)
    by (simp add: forwards_def step_ok_def departs_def addressed_def eq(2))
      (simp add: eq(1) active_ok_def)
qed

lemma clamp_in_display:
  assumes "in_i32 o1"
  shows "o1 \<le> sat_i32 (clamp o1 (extent_end o1 e) v)" "sat_i32 (clamp o1 (extent_end o1 e) v) \<le> extent_end o1 e"
proof -
  have le: "o1 \<le> extent_end o1 e" "in_i32 (extent_end o1 e)" using extent_end_bounds [OF assms] by auto
  have "o1 \<le> clamp o1 (extent_end o1 e) v" "clamp o1 (extent_end o1 e) v \<le> extent_end o1 e"
    using clamp_bounds [OF le(1)] by auto
  moreover from this have "in_i32 (clamp o1 (extent_end o1 e) v)"
    using assms le by (auto simp: in_i32_def)
  ultimately show "o1 \<le> sat_i32 (clamp o1 (extent_end o1 e) v)"
    "sat_i32 (clamp o1 (extent_end o1 e) v) \<le> extent_end o1 e" by simp_all
qed

lemma pointer_ok_clamped:
  assumes "display_ok d"
  shows "pointer_ok (p\<lparr>rp_display := d, rp_x := sat_i32 (clamp (pr_x d) (last_x d) x),
    rp_y := sat_i32 (clamp (pr_y d) (last_y d) y)\<rparr>)"
  using assms clamp_in_display
  by (simp add: pointer_ok_def display_ok_def contains_x_def contains_y_def last_x_def last_y_def)

lemma relative_move_ok:
  assumes "router_ok r" "handle_relative_move dx dy c r = (os, r')"
  shows "step_ok r os r'"
proof (cases "router_target r")
  case None
  then show ?thesis using assms by (simp add: handle_relative_move_def router_target_def)
next
  case (Some t)
  then have act: "active_target (ir_session r) = Some t" by (simp add: router_target_def)
  have A: "active_ok t r" using assms(1) router_ok_active [OF Some] by blast
  then obtain p where p: "ir_remote_pointer r = Some p" "rp_target p = t" "pointer_ok p"
    by (auto simp: active_ok_def)
  let ?d = "rp_display p"
  define nx where "nx = sat_i32 (clamp (pr_x ?d) (last_x ?d) (rp_x p + dx))"
  define ny where "ny = sat_i32 (clamp (pr_y ?d) (last_y ?d) (rp_y p + dy))"
  define q where "q = r\<lparr>ir_remote_pointer := Some (p\<lparr>rp_x := nx, rp_y := ny\<rparr>)\<rparr>"
  have "pointer_ok (p\<lparr>rp_x := nx, rp_y := ny\<rparr>)"
    using pointer_ok_clamped [where d = ?d and p = p and x = "rp_x p + dx" and y = "rp_y p + dy"] p(3)
    by (simp add: nx_def ny_def pointer_ok_def)
  note new = this
  have q_act: "router_target q = Some t" using Some by (simp add: q_def router_target_def)
  have q_ok: "router_ok q"
    using assms(1) router_ok_active [OF Some] new p(2)
    by (simp add: router_ok_active [OF q_act]) (simp add: q_def counters_ok_def active_ok_def)
  have send: "forwards t q sent q'" if "send_relative x y c q = (sent, q')" for x y sent q'
    using that send_realtime_ok [OF q_ok q_act] q_act by (simp add: send_relative_def router_target_def)
  have tp: "tracked_pointer t r = Some p" using p by (simp add: tracked_pointer_def)
  show ?thesis
  proof (cases "crossed_return_edge p (rp_x p + dx) (rp_y p + dy)")
    case False
    then have "send_relative dx dy c q = (os, r')"
      using assms(2) act tp
      by (simp add: handle_relative_move_def Let_def q_def nx_def ny_def)
    then show ?thesis using send by (auto simp: forwards_def q_def)
  next
    case True
    define bx where "bx = sat_i32 (nx - rp_x p)"
    define by' where "by' = sat_i32 (ny - rp_y p)"
    obtain sent q1 where s: "(if bx \<noteq> 0 \<or> by' \<noteq> 0 then send_relative bx by' c q else ([], q)) = (sent, q1)"
      by fastforce
    obtain returned q2 where ret: "return_to_local OwnershipTransfer q1 = (returned, q2)" by fastforce
    have "handle_relative_move dx dy c r =
        (let (sent, r) = (if bx \<noteq> 0 \<or> by' \<noteq> 0 then send_relative bx by' c q else ([], q));
             (returned, r) = return_to_local OwnershipTransfer r
         in (sent @ returned, r))"
      using act tp True unfolding bx_def by'_def q_def nx_def ny_def
      by (simp add: handle_relative_move_def Let_def)
    then have eq: "os = sent @ returned" "r' = q2" using assms(2) s ret by simp_all
    have sus: "ir_suspended_target q = None" using A by (simp add: q_def active_ok_def)
    have stay: "forwards t q [] q" using q_ok q_act sus by (simp add: forwards_def)
    have F: "forwards t q sent q1"
    proof (cases "bx \<noteq> 0 \<or> by' \<noteq> 0")
      case True
      then show ?thesis using s send by simp
    next
      case False
      then show ?thesis using s stay by simp
    qed
    have "step_ok q1 returned q2" using return_to_local_ok ret F by (auto simp: forwards_def step_ok_def)
    then have "step_ok q (sent @ returned) q2"
      using step_ok_comp [of q sent q1 returned q2] F q_act sus by (auto simp: forwards_def)
    then show ?thesis by (simp add: eq q_def)
  qed
qed

section \<open>Entering\<close>

lemma entry_point_ok:
  assumes "display_ok d"
  shows "contains_x d (fst (entry_point e d (project_to source d x y)))"
    and "contains_y d (snd (entry_point e d (project_to source d x y)))"
proof -
  have d: "in_i32 (pr_x d)" "in_i32 (pr_y d)" using assms by (simp_all add: display_ok_def)
  note X = project_axis_bounds [OF d(1), of x "pr_x source" "pr_width source" "pr_width d"]
    and Y = project_axis_bounds [OF d(2), of y "pr_y source" "pr_height source" "pr_height d"]
  have "pr_x d \<le> last_x d" "pr_y d \<le> last_y d"
    using extent_end_bounds d by (auto simp: last_x_def last_y_def)
  then show "contains_x d (fst (entry_point e d (project_to source d x y)))"
    and "contains_y d (snd (entry_point e d (project_to source d x y)))"
    using X Y by (cases e; simp add: entry_point_def project_to_def contains_x_def contains_y_def
        last_x_def last_y_def)+
qed

text \<open>An entry that succeeds, written out.\<close>

lemma enter_remote_eq:
  assumes "session_state r = LocalReady" "ir_epoch r < u64_max"
  shows "enter_remote edge rt (x, y) c r =
    (let r' = r\<lparr>ir_epoch := Suc (ir_epoch r), ir_realtime_sequence := 1, ir_reliable_sequence := 1,
           ir_emergency_max_sequence_consumed := False, ir_latest_anchor_sequence := 0,
           ir_session := \<lparr>cs_state = RemoteActive (rt_device_id rt) edge\<rparr>,
           ir_remote_pointer := Some \<lparr>rp_target = rt_device_id rt, rp_display = rt_display rt,
             rp_entry_edge = rt_entry_edge rt, rp_x = x, rp_y = y\<rparr>\<rparr>
     in ([SendReliable (rt_device_id rt) (reliable_frame r' 0 c (EnterEvent (rt_display_id rt) x y)),
          SendRealtime (rt_device_id rt) (realtime_frame r' 0 c (AbsoluteAnchor x y)),
          LocalSessionChanged (RemoteActive (rt_device_id rt) edge), SuppressLocalShortcuts True], r'))"
proof -
  have "epoch_advance (ir_epoch r) = (Inr (Suc (ir_epoch r)), Suc (ir_epoch r))"
    using assms(2) by (simp add: epoch_advance_def epoch_next_def checked_inc_eq)
  moreover have "on_edge_hit edge (Some (rt_device_id rt)) (ir_session r) =
      (Inr (), \<lparr>cs_state = RemoteActive (rt_device_id rt) edge\<rparr>)"
    using assms(1) by (cases "ir_session r") (simp add: on_edge_hit_def is_suspended_def session_state_def)
  ultimately show ?thesis
    by (simp add: enter_remote_def take_reliable_sequence_def take_realtime_sequence_def
      checked_inc_eq reliable_frame_def realtime_frame_def session_state_def Let_def)
qed

lemma enter_remote_exhausted:
  assumes "u64_max \<le> ir_epoch r"
  shows "enter_remote edge rt p c r =
    ([LocalSessionChanged (Suspended BackendDegradedReason), SuppressLocalShortcuts False,
      Metric CounterExhausted], degrade_session r)"
proof -
  have "epoch_advance (ir_epoch r) = (Inl EpochExhausted, ir_epoch r)"
    using assms by (simp add: epoch_advance_def epoch_next_def checked_inc_eq)
  then show ?thesis
    by (cases p) (simp add: enter_remote_def Let_def session_state_def degrade_session_def on_backend_degraded_def)
qed

lemma idle_step_ok:
  assumes "router_ok r" "router_target r = None"
    and "r' = (degrade_session r)\<lparr>ir_remote_pointer := None, ir_suspended_target := None\<rparr>"
    and "os = LocalSessionChanged (Suspended BackendDegradedReason) # SuppressLocalShortcuts False # ms"
    and "\<forall>x\<in>set ms. is_metric x"
  shows "step_ok r os r'"
proof -
  have "router_ok r'" using idle_degrade [OF assms(1,2)] assms(3) by simp
  moreover have "router_rel r os r'"
    using assms(5) by (simp add: assms(3,4) router_rel_def router_view_def reliable_cursor_def
      realtime_cursor_def session_state_def degrade_session_def on_backend_degraded_def is_remote_active_def)
  moreover have "data_target x = None" if "x \<in> set ms" for x
    using that assms(5) by (auto elim!: is_metric.elims)
  moreover have "EmergencyReleaseAll u g k \<notin> set ms" for u g k
    using assms(5) by force
  ultimately show ?thesis
    using assms(2,4) by (auto simp: step_ok_def departs_def addressed_def)
qed

lemma enter_remote_ok:
  assumes "router_ok r" "session_state r = LocalReady" "ir_pending_release r = None"
    and "display_ok (rt_display rt)"
    and "contains_x (rt_display rt) x" "contains_y (rt_display rt) y"
    and "enter_remote edge rt (x, y) c r = (os, r')"
  shows "step_ok r os r'"
proof (cases "ir_epoch r < u64_max")
  case False
  have idle: "ir_remote_pointer r = None" "ir_suspended_target r = None"
    using assms(1,2) by (simp_all add: router_ok_def session_ok_def idle_ok_def)
  have "(degrade_session r)\<lparr>ir_remote_pointer := None, ir_suspended_target := None\<rparr> = degrade_session r"
    using idle by (cases r) (simp add: degrade_session_def)
  moreover have "router_target r = None"
    using assms(2) by (simp add: router_target_def active_target_def session_state_def)
  ultimately show ?thesis
    using assms(1,7) False by (intro idle_step_ok [where ms = "[Metric CounterExhausted]"])
      (simp_all add: enter_remote_exhausted)
next
  case True
  note E = enter_remote_eq [OF assms(2) True, of edge rt x y c]
  have t': "router_target r' = Some (rt_device_id rt)"
    using E assms(7) by (auto simp: Let_def router_target_def active_target_def)
  have "router_ok r'"
    unfolding router_ok_active [OF t']
    using E assms by (auto simp: Let_def counters_ok_def active_ok_def pointer_ok_def router_ok_def
      session_ok_def)
  moreover have "router_rel r os r'"
    using E assms(2,7) by (auto simp: Let_def router_rel_def reliable_frame_def realtime_frame_def
      router_view_def reliable_cursor_def realtime_cursor_def session_state_def is_remote_active_def)
  moreover have "router_target r = None"
    using assms(2) by (simp add: router_target_def active_target_def session_state_def)
  ultimately show ?thesis
    using t' E assms(7) by (auto simp: Let_def step_ok_def departs_def addressed_def)
qed

lemma router_ok_absolute [simp]: "router_ok (r\<lparr>ir_last_absolute := v\<rparr>) = router_ok r"
  by (simp add: router_ok_def counters_ok_def session_ok_def active_ok_def idle_ok_def
    session_state_def cong: control_session_state.case_cong suspend_reason.case_cong)

lemma step_ok_absolute [simp]: "step_ok (r\<lparr>ir_last_absolute := v\<rparr>) os r' = step_ok r os r'"
  by (rule step_ok_cong) simp_all

lemma absolute_move_ok:
  assumes "router_ok r" "handle_absolute_move x y c r = (os, r')"
  shows "step_ok r os r'"
proof -
  let ?q = "r\<lparr>ir_last_absolute := Some (x, y)\<rparr>"
  have "step_ok ?q [] ?q" using assms(1) by (simp only: step_ok_refl router_ok_absolute)
  then have quiet: "step_ok r [] ?q" by (simp only: step_ok_absolute)
  show ?thesis
  proof (cases "is_remote_active (ir_session r)")
    case True
    show ?thesis
    proof (cases "ir_last_absolute r")
      case None
      then show ?thesis using True assms quiet by (simp add: handle_absolute_move_def)
    next
      case (Some p)
      obtain px py where "p = (px, py)" by fastforce
      then have "handle_relative_move (sat_i32 (x - px)) (sat_i32 (y - py)) c ?q = (os, r')"
        using True Some assms(2) by (simp add: handle_absolute_move_def)
      then show ?thesis using relative_move_ok [of ?q] assms(1) by simp
    qed
  next
    case False
    show ?thesis
    proof (cases "\<exists>e rt. is_local_ready (ir_session r) \<and> ir_pending_release r = None \<and>
        edge_at (vg_bounds (ir_geometry r)) x y = Some e \<and> route (ir_routes r) e = Some rt")
      case False
      then have "os = [] \<and> r' = ?q"
        using assms(2) \<open>\<not> is_remote_active (ir_session r)\<close>
        by (auto simp: handle_absolute_move_def Let_def split: if_splits option.splits)
      then show ?thesis using quiet by simp
    next
      case True
      then obtain e rt where e: "is_local_ready (ir_session r)" "ir_pending_release r = None"
        "edge_at (vg_bounds (ir_geometry r)) x y = Some e" "route (ir_routes r) e = Some rt" by blast
      obtain tx ty where txy: "entry_point (rt_entry_edge rt) (rt_display rt)
          (project_to (vg_bounds (ir_geometry r)) (rt_display rt) x y) = (tx, ty)" by fastforce
      have d: "display_ok (rt_display rt)" using assms(1) e(4) by (auto simp: router_ok_def routes_ok_def)
      have "enter_remote e rt (tx, ty) c ?q = (os, r')"
        using assms(2) False e txy by (simp add: handle_absolute_move_def)
      moreover have "session_state ?q = LocalReady"
        using e(1) by (simp add: session_state_def is_local_ready_def split: control_session_state.splits)
      moreover have "router_ok ?q" "ir_pending_release ?q = None" using assms(1) e(2) by simp_all
      moreover have "contains_x (rt_display rt) tx" "contains_y (rt_display rt) ty"
        using entry_point_ok [OF d] txy by (metis fst_conv, metis snd_conv)
      ultimately have "step_ok ?q os r'" using enter_remote_ok d by blast
      then show ?thesis by simp
    qed
  qed
qed

section \<open>Layout and connectivity\<close>

lemma routes_ok_build: "routes_ok (route_cache_build g i peers gen)"
  using route_display by (fastforce simp: routes_ok_def display_ok_def in_i32_def)

lemma rebuild_routes_spec:
  assumes "rebuild_routes r = (os, r')"
  shows "\<exists>c. r' = r\<lparr>ir_routes := c\<rparr> \<and> routes_ok c \<and> (\<forall>x\<in>set os. is_metric x)"
  using assms routes_ok_build
  by (auto simp: rebuild_routes_def routes_ok_def split: option.splits)

text \<open>A step that changes neither the session nor a counter and emits only metrics.\<close>

lemma quiet_step:
  assumes "router_ok r'" "\<forall>x\<in>set os. is_metric x"
    and "ir_session r' = ir_session r" "ir_epoch r' = ir_epoch r"
      "ir_reliable_sequence r' = ir_reliable_sequence r"
      "ir_realtime_sequence r' = ir_realtime_sequence r"
      "ir_emergency_max_sequence_consumed r' = ir_emergency_max_sequence_consumed r"
  shows "step_ok r os r'"
proof -
  have "data_target x = None" if "x \<in> set os" for x
    using that assms(2) by (auto elim!: is_metric.elims)
  moreover have "EmergencyReleaseAll u g k \<notin> set os" for u g k using assms(2) by force
  ultimately show ?thesis
    using assms by (simp add: step_ok_def router_rel_def departs_def addressed_def router_target_def
      router_view_def reliable_cursor_def realtime_cursor_def session_state_def)
qed

lemma router_ok_routes:
  assumes "router_ok r" "routes_ok c"
    and "ir_session r' = ir_session r" "ir_routes r' = c"
      "ir_reliable_sequence r' = ir_reliable_sequence r"
      "ir_realtime_sequence r' = ir_realtime_sequence r"
      "ir_latest_anchor_sequence r' = ir_latest_anchor_sequence r"
      "ir_emergency_max_sequence_consumed r' = ir_emergency_max_sequence_consumed r"
      "ir_pressed r' = ir_pressed r" "ir_pending_release r' = ir_pending_release r"
      "ir_suspended_target r' = ir_suspended_target r" "ir_remote_pointer r' = ir_remote_pointer r"
  shows "router_ok r'"
  using assms by (simp add: router_ok_def counters_ok_def session_ok_def active_ok_def idle_ok_def
    session_state_def cong: control_session_state.case_cong suspend_reason.case_cong)

lemma retarget_pointer_ok:
  assumes "display_ok (rt_display rt)" "pointer_ok p"
  shows "pointer_ok (retarget_pointer rt p)" "rp_target (retarget_pointer rt p) = rp_target p"
proof -
  let ?d = "rt_display rt"
  have "pr_x ?d \<le> last_x ?d" "pr_y ?d \<le> last_y ?d"
    using assms(1) extent_end_bounds by (auto simp: display_ok_def last_x_def last_y_def)
  from this [THEN clamp_bounds] show "pointer_ok (retarget_pointer rt p)"
    using assms(1) by (simp add: pointer_ok_def retarget_pointer_def Let_def contains_x_def contains_y_def)
  show "rp_target (retarget_pointer rt p) = rp_target p" by (simp add: retarget_pointer_def Let_def)
qed

lemma suspend_target_simps:
  assumes "router_target r = Some t"
  shows "session_state (suspend_target t r) = Suspended TargetUnavailable"
    "ir_suspended_target (suspend_target t r) = Some t"
  using assms router_target_Some [of r]
  by (auto simp: suspend_target_def session_state_def on_target_disconnect_def)

lemma suspend_target_same [simp]:
  "ir_reliable_sequence (suspend_target t r) = ir_reliable_sequence r"
  "ir_emergency_max_sequence_consumed (suspend_target t r) = ir_emergency_max_sequence_consumed r"
  "ir_epoch (suspend_target t r) = ir_epoch r"
  "ir_realtime_sequence (suspend_target t r) = ir_realtime_sequence r"
  "ir_pressed (suspend_target t r) = ir_pressed r"
  "ir_pending_release (suspend_target t r) = ir_pending_release r"
  "ir_routes (suspend_target t r) = ir_routes r"
  "ir_remote_pointer (suspend_target t r) = ir_remote_pointer r"
  "ir_connected_peers (suspend_target t r) = ir_connected_peers r"
  by (simp_all add: suspend_target_def)

lemma suspend_departure:
  assumes "leaving t r" "push_emergency_release t reason r = (st, os, r1)" "ir_remote_pointer r = None"
    and "routes_ok c" "\<forall>x\<in>set ms. is_metric x"
    and "r' = (suspend_target t r1)\<lparr>ir_routes := c\<rparr>"
  shows "step_ok r (os @ LocalSessionChanged (session_state (suspend_target t r1)) #
    SuppressLocalShortcuts False # ms) r'"
proof -
  note same = push_same [OF assms(1,2)]
  have "router_target r1 = Some t" using assms(1) same by (simp add: leaving_def router_target_def)
  note S = suspend_target_simps [OF this]
  have "session_state r' = session_state (suspend_target t r1)"
    by (simp add: assms(6) session_state_def)
  moreover from this have "step_ok r (os @ LocalSessionChanged (session_state r') # SuppressLocalShortcuts False # ms) r'"
    using S by (intro departure [OF assms(1,2)]) (simp_all add: assms same)
  ultimately show ?thesis by simp
qed

lemma layout_changed_ok:
  assumes "router_ok r" "handle_layout_changed layout r = (os, r')"
  shows "step_ok r os r'"
proof (cases "ir_layout r = layout")
  case True
  then show ?thesis using assms by (simp add: handle_layout_changed_def)
next
  case False
  define g where "g = (case Option.bind (get_node layout (ir_local_id r)) geometry_from_layout_node of
      Some g \<Rightarrow> r\<lparr>ir_geometry := g\<rparr> | None \<Rightarrow> r)"
  obtain rebuilt q where rb: "rebuild_routes (g\<lparr>ir_layout := layout\<rparr>) = (rebuilt, q)" by fastforce
  obtain c where c: "q = g\<lparr>ir_layout := layout, ir_routes := c\<rparr>" "routes_ok c" "\<forall>x\<in>set rebuilt. is_metric x"
    using rebuild_routes_spec [OF rb] by auto
  have same: "ir_session q = ir_session r" "ir_epoch q = ir_epoch r"
      "ir_reliable_sequence q = ir_reliable_sequence r" "ir_realtime_sequence q = ir_realtime_sequence r"
      "ir_latest_anchor_sequence q = ir_latest_anchor_sequence r"
      "ir_emergency_max_sequence_consumed q = ir_emergency_max_sequence_consumed r"
      "ir_pressed q = ir_pressed r" "ir_pending_release q = ir_pending_release r"
      "ir_suspended_target q = ir_suspended_target r" "ir_remote_pointer q = ir_remote_pointer r"
      "ir_routes q = c"
    by (simp_all add: c(1) g_def split: option.split)
  have q: "router_ok q" using router_ok_routes [OF assms(1) c(2)] same by simp
  have st: "session_state q = session_state r" using same by (simp add: session_state_def)
  have quiet: "step_ok r rebuilt q" using quiet_step [OF q c(3)] same by simp
  show ?thesis
  proof (cases "router_target r")
    case None
    have "\<nexists>t d. session_state r = RemoteActive t d" using None router_target_Some [of r] by auto
    then have "os = rebuilt \<and> r' = q"
      using assms(2) False rb
      by (cases "session_state r") (simp_all add: handle_layout_changed_def g_def [symmetric])
    then show ?thesis using quiet by simp
  next
    case (Some t)
    then obtain d where d: "session_state r = RemoteActive t d" using router_target_Some by blast
    have tq: "router_target q = Some t" using Some same by (simp add: router_target_def)
    show ?thesis
    proof (cases "Option.bind (route (ir_routes q) d) (\<lambda>rt. if rt_device_id rt = t then Some rt else None)")
      case None
      define q0 where "q0 = q\<lparr>ir_remote_pointer := None\<rparr>"
      obtain st1 os1 r1 where p: "push_emergency_release t SuspendedReason q0 = (st1, os1, r1)"
        by (metis prod_cases3)
      have L: "leaving t q0" using router_ok_leaving [OF q tq] by (simp add: q0_def)
      define ms where "ms = (if es_ledger_fault st1 then [Metric PressedStateLedgerFault] else rebuilt)"
      have eq: "os = os1 @ LocalSessionChanged (session_state (suspend_target t r1)) #
          SuppressLocalShortcuts False # ms" "r' = suspend_target t r1"
        using assms(2) False rb d None p
        by (auto simp: handle_layout_changed_def g_def [symmetric] q0_def [symmetric] ms_def Let_def)
      have routes: "r' = (suspend_target t r1)\<lparr>ir_routes := ir_routes r1\<rparr>" "routes_ok (ir_routes r1)"
        using push_same(1) [OF L p] leaving_routes [OF L]
        by (simp_all add: eq(2) suspend_target_def)
      have "step_ok q0 os r'"
        unfolding eq(1)
        by (rule suspend_departure [OF L p _ routes(2) _ routes(1)])
          (use c(3) in \<open>auto simp: q0_def ms_def\<close>)
      moreover have "step_ok q0 os r' = step_ok r os r'"
        by (rule step_ok_cong) (simp_all add: q0_def same)
      ultimately show ?thesis by simp
    next
      case (Some rt)
      then have rt: "route c d = Some rt" using same by (auto simp: Option.bind_eq_Some_conv split: if_splits)
      have eq: "os = rebuilt" "r' = q\<lparr>ir_remote_pointer := map_option (retarget_pointer rt) (ir_remote_pointer q)\<rparr>"
        using assms(2) False rb d Some
        by (auto simp: handle_layout_changed_def g_def [symmetric])
      have t': "router_target r' = Some t" using tq by (simp add: eq(2) router_target_def)
      have "display_ok (rt_display rt)" using rt c(2) by (auto simp: routes_ok_def)
      note P = retarget_pointer_ok [OF this]
      have "router_ok r'"
        using q P router_ok_active [OF tq] unfolding router_ok_active [OF t']
        by (auto simp: eq(2) counters_ok_def active_ok_def)
      then show ?thesis
        by (rule quiet_step) (simp_all add: eq c(3) same)
    qed
  qed
qed

text \<open>Telling a device that came back, once more, to release what is still pending.\<close>

lemma push_pending_ok:
  assumes "router_ok r" "ir_pending_release r = Some b" "ir_suspended_target r = Some peer"
    and "push_emergency_release peer reason r = (st, os, r')"
  shows "step_ok r os r' \<and> \<not> es_ledger_fault st"
proof -
  have C: "counters_ok r" using assms(1) by (simp add: router_ok_def)
  have none: "router_target r = None"
    using assms(1,3) router_target_Some [of r]
    by (auto simp: router_ok_def session_ok_def active_ok_def split: control_session_state.splits)
  show ?thesis
  proof (cases "ir_emergency_max_sequence_consumed r")
    case True
    then have "take_emergency_reliable_sequence r = (None, r)"
      using C by (simp add: take_emergency_reliable_sequence_def counters_ok_def)
    then have "os = [Metric CounterExhausted]" "r' = r" "\<not> es_ledger_fault st"
      using assms(4) by (auto simp: push_emergency_release_def)
    then show ?thesis using quiet_step [of r os r] assms(1) by simp
  next
    case False
    obtain a k where ab: "take_emergency_reliable_sequence r = (Some (ir_reliable_sequence r),
         r\<lparr>ir_reliable_sequence := a, ir_emergency_max_sequence_consumed := k\<rparr>)"
      "a \<le> u64_max" "k \<longrightarrow> a = u64_max" "(if k then Suc a else a) = Suc (ir_reliable_sequence r)"
      using take_emergency_cases False C unfolding counters_ok_def by blast
    have eq: "r' = r\<lparr>ir_reliable_sequence := a, ir_emergency_max_sequence_consumed := k\<rparr>"
      "os = [EmergencyReleaseAll peer (reliable_frame r (ir_reliable_sequence r) (ir_last_captured_at r)
         (ReleaseAllEvent reason)) (Some (pb_token b))]" "\<not> es_ledger_fault st"
      using assms(2,4) by (auto simp: push_emergency_release_def ab(1) reliable_frame_def)
    have "router_ok r'"
      using assms(1) ab none router_target_Some [of r]
      by (auto simp: eq(1) router_ok_def counters_ok_def session_ok_def idle_ok_def session_state_def
        split: control_session_state.splits suspend_reason.splits)
    moreover have "reliable_cursor r' = (ir_epoch r, Suc (ir_reliable_sequence r))"
      using ab(4) by (cases k) (simp_all add: reliable_cursor_def eq(1))
    then have "router_rel r os r'"
      using False by (simp add: router_rel_def eq(2) reliable_frame_def)
        (simp add: eq(1) reliable_cursor_def realtime_cursor_def router_view_def session_state_def)
    ultimately show ?thesis
      using none assms(3) eq(2,3) by (auto simp: step_ok_def departs_def addressed_def)
  qed
qed

lemma connectivity_changed_ok:
  assumes "router_ok r" "handle_connectivity_changed peer connected r = (os, r')"
  shows "step_ok r os r'"
proof (cases "(peer \<in> ir_connected_peers r) = connected")
  case True
  then show ?thesis using assms by (simp add: handle_connectivity_changed_def)
next
  case changed: False
  define q where "q = r\<lparr>ir_connected_peers :=
      (if connected then insert peer (ir_connected_peers r) else ir_connected_peers r - {peer})\<rparr>"
  have q: "router_ok q" using assms(1)
    by (rule router_ok_routes [where c = "ir_routes r"]) (use assms(1) in \<open>simp_all add: q_def router_ok_def\<close>)
  have step_q: "step_ok q os' r'' = step_ok r os' r''" for os' r''
    by (rule step_ok_cong) (simp_all add: q_def)
  have tq: "router_target q = router_target r" by (simp add: q_def router_target_def)
  have target: "active_target (ir_session r) = router_target r" "active_target (ir_session q) = router_target r"
    by (simp_all add: router_target_def q_def)
  show ?thesis
  proof (cases "\<not> connected \<and> router_target r = Some peer")
    case True
    define q0 where "q0 = q\<lparr>ir_remote_pointer := None\<rparr>"
    obtain st os1 r1 where p: "push_emergency_release peer SuspendedReason q0 = (st, os1, r1)"
      by (metis prod_cases3)
    obtain rebuilt r2 where rb: "rebuild_routes (suspend_target peer r1) = (rebuilt, r2)" by fastforce
    obtain c where c: "r2 = (suspend_target peer r1)\<lparr>ir_routes := c\<rparr>" "routes_ok c"
      "\<forall>x\<in>set rebuilt. is_metric x" using rebuild_routes_spec [OF rb] by auto
    have L: "leaving peer q0" using router_ok_leaving [OF q] True tq by (simp add: q0_def)
    define ms where "ms = (if es_ledger_fault st then [Metric PressedStateLedgerFault] else rebuilt)"
    have q0: "r\<lparr>ir_connected_peers := ir_connected_peers r - {peer}, ir_remote_pointer := None\<rparr> = q0"
      using True by (simp add: q0_def q_def)
    have eq: "os = os1 @ LocalSessionChanged (session_state (suspend_target peer r1)) #
        SuppressLocalShortcuts False # ms" "r' = r2"
      using assms(2) changed True p rb target
      by (auto simp: handle_connectivity_changed_def Let_def q0 ms_def)
    have "step_ok q0 os r'"
      unfolding eq by (rule suspend_departure [OF L p _ c(2) _ c(1)])
        (use c(3) in \<open>auto simp: q0_def ms_def\<close>)
    moreover have "step_ok q0 os r' = step_ok r os r'"
      by (rule step_ok_cong) (simp_all add: q0_def q_def)
    ultimately show ?thesis by simp
  next
    case False
    obtain rebuilt r2 where rb: "rebuild_routes q = (rebuilt, r2)" by fastforce
    obtain c where c: "r2 = q\<lparr>ir_routes := c\<rparr>" "routes_ok c" "\<forall>x\<in>set rebuilt. is_metric x"
      using rebuild_routes_spec [OF rb] by auto
    have r2: "router_ok r2" by (rule router_ok_routes [OF q c(2)]) (simp_all add: c(1))
    have s2: "step_ok r rebuilt r2"
      by (rule quiet_step [OF r2 c(3)]) (simp_all add: c(1) q_def)
    have same: "router_target r2 = router_target r" "ir_suspended_target r2 = ir_suspended_target r"
      by (simp_all add: c(1) q_def router_target_def)
    show ?thesis
    proof (cases "connected \<and> ir_suspended_target r2 = Some peer")
      case returned: True
      show ?thesis
      proof (cases "ir_pending_release r2")
        case None
        obtain recs r3 where rs: "recover_unavailable_target r2 = (recs, r3)" by fastforce
        have "os = rebuilt @ recs" "r' = r3"
          using assms(2) changed False returned None rb [unfolded q_def] rs target
          by (auto simp: handle_connectivity_changed_def Let_def)
        then show ?thesis using step_ok_comp [OF s2 recover_ok [OF r2 rs]] same by simp
      next
        case (Some b)
        obtain st again r3 where p: "push_emergency_release peer SuspendedReason r2 = (st, again, r3)"
          by (metis prod_cases3)
        have P: "step_ok r2 again r3" "\<not> es_ledger_fault st"
          using push_pending_ok [OF r2 Some _ p] returned by auto
        have "os = rebuilt @ again" "r' = r3"
          using assms(2) changed False returned Some rb [unfolded q_def] p target P(2)
          by (auto simp: handle_connectivity_changed_def Let_def)
        then show ?thesis using step_ok_comp [OF s2 P(1)] same by simp
      qed
    next
      case stay: False
      have "os = rebuilt" "r' = r2"
        using assms(2) changed False stay rb [unfolded q_def] target
        by (auto simp: handle_connectivity_changed_def Let_def)
      then show ?thesis using s2 by simp
    qed
  qed
qed

section \<open>Every command\<close>

lemma with_target_ok:
  assumes "router_ok r" "with_target f r = (os, r')"
    and "\<And>t. router_target r = Some t \<Longrightarrow> f t r = (os, r') \<Longrightarrow> step_ok r os r'"
  shows "step_ok r os r'"
  using assms by (cases "router_target r") (auto simp: with_target_def router_target_def)

lemma handle_key_ok:
  assumes "router_ok r" "router_target r = Some t" "handle_key k st c t r = (os, r')"
  shows "step_ok r os r'"
proof -
  obtain res l where l: "record_key k st (ir_pressed r) = (res, l)" by fastforce
  have wf: "ledger_wf l" using ledger_wf_key [of "ir_pressed r" k st] assms(1) l by (simp add: router_ok_def)
  have ok: "router_ok (r\<lparr>ir_pressed := l\<rparr>)" "router_target (r\<lparr>ir_pressed := l\<rparr>) = Some t"
    using router_ok_ledger [OF assms(1,2) wf] assms(2) by (simp_all add: router_target_def)
  show ?thesis
  proof (cases res)
    case (Inl e)
    then have "handle_pressed_ledger_fault t (r\<lparr>ir_pressed := l\<rparr>) = (os, r')"
      using assms(3) l by (simp add: handle_key_def)
    then have "step_ok (r\<lparr>ir_pressed := l\<rparr>) os r'"
      using ledger_fault_ok router_ok_leaving [OF ok] unfolding ends_forwarding_def by blast
    then show ?thesis by simp
  next
    case (Inr b)
    then have "send_reliable t c (KeyEvent k st) (r\<lparr>ir_pressed := l\<rparr>) = (os, r')"
      using assms(3) l by (simp add: handle_key_def)
    then have "step_ok (r\<lparr>ir_pressed := l\<rparr>) os r'"
      using send_reliable_ok [OF ok] unfolding forwards_def by blast
    then show ?thesis by simp
  qed
qed

lemma handle_mouse_button_ok:
  assumes "router_ok r" "router_target r = Some t" "handle_mouse_button b st x y c t r = (os, r')"
  shows "step_ok r os r'"
proof -
  define p where "p = (case tracked_pointer t r of Some p \<Rightarrow> (rp_x p, rp_y p) | None \<Rightarrow> (x, y))"
  obtain px py where pxy: "p = (px, py)" by fastforce
  let ?a = "ir_latest_anchor_sequence r"
  obtain res l where l: "record_mouse_button b st px py ?a (ir_pressed r) = (res, l)" by fastforce
  have wf: "ledger_wf l"
    using ledger_wf_button [of "ir_pressed r" b st px py ?a] assms(1) l by (simp add: router_ok_def)
  have ok: "router_ok (r\<lparr>ir_pressed := l\<rparr>)" "router_target (r\<lparr>ir_pressed := l\<rparr>) = Some t"
    using router_ok_ledger [OF assms(1,2) wf] assms(2) by (simp_all add: router_target_def)
  have eq: "handle_mouse_button b st x y c t r =
      (case (res, l) of
         (Inl _, l) \<Rightarrow> handle_pressed_ledger_fault t (r\<lparr>ir_pressed := l\<rparr>)
       | (Inr _, l) \<Rightarrow> send_reliable t c (MouseButtonEvent b st px py ?a) (r\<lparr>ir_pressed := l\<rparr>))"
    using l pxy by (simp add: handle_mouse_button_def p_def Let_def)
  show ?thesis
  proof (cases res)
    case (Inl e)
    then have "handle_pressed_ledger_fault t (r\<lparr>ir_pressed := l\<rparr>) = (os, r')"
      using assms(3) eq by simp
    then have "step_ok (r\<lparr>ir_pressed := l\<rparr>) os r'"
      using ledger_fault_ok router_ok_leaving [OF ok] unfolding ends_forwarding_def by blast
    then show ?thesis by simp
  next
    case (Inr fresh)
    then have "send_reliable t c (MouseButtonEvent b st px py ?a) (r\<lparr>ir_pressed := l\<rparr>) = (os, r')"
      using assms(3) eq by simp
    then have "step_ok (r\<lparr>ir_pressed := l\<rparr>) os r'"
      using send_reliable_ok [OF ok] unfolding forwards_def by blast
    then show ?thesis by simp
  qed
qed

lemma handle_input_ok:
  assumes "router_ok r" "handle_input i r = (os, r')"
  shows "step_ok r os r'"
proof -
  have W: "step_ok r os r'" if "with_target (\<lambda>t. send_reliable t c e) r = (os, r')" for c e
    using with_target_ok [OF assms(1) that] send_reliable_ok [OF assms(1)] unfolding forwards_def by blast
  have X: "step_ok r os r'" if "with_target (\<lambda>t. send_realtime t c e) r = (os, r')" for c e
    using with_target_ok [OF assms(1) that] send_realtime_ok [OF assms(1)] unfolding forwards_def by blast
  have K: "step_ok r os r'" if "with_target (handle_key k st c) r = (os, r')" for k st c
    using with_target_ok [OF assms(1) that] handle_key_ok [OF assms(1)] by blast
  have B: "step_ok r os r'" if "with_target (handle_mouse_button b st x y c) r = (os, r')" for b st x y c
    using with_target_ok [OF assms(1) that] handle_mouse_button_ok [OF assms(1)] by blast
  show ?thesis
  proof (cases i)
    case (AbsoluteMove a b c)
    then show ?thesis using assms(2) by (intro absolute_move_ok [OF assms(1)]) simp
  next
    case (RelativeMove a b c)
    then show ?thesis using assms(2) by (intro relative_move_ok [OF assms(1)]) simp
  next
    case (KeyInput a b c)
    then show ?thesis using assms(2) by (intro K) simp
  next
    case (MouseButtonInput a b c d e)
    then show ?thesis using assms(2) by (intro B) simp
  next
    case (WheelInput a b c)
    then show ?thesis using assms(2) by (intro W) simp
  next
    case (TextCommitInput a b)
    then show ?thesis using assms(2) by (intro W) simp
  next
    case (GamepadConnectedInput a b)
    then show ?thesis using assms(2) by (intro W) simp
  next
    case (GamepadDisconnectedInput a b)
    then show ?thesis using assms(2) by (intro W) simp
  next
    case (GamepadButtonInput a b c d)
    then show ?thesis using assms(2) by (intro W) simp
  next
    case (GamepadAxesInput a b c d e f g h)
    then show ?thesis using assms(2) by (intro X) simp
  qed
qed

lemma router_ok_captured [simp]: "router_ok (r\<lparr>ir_last_captured_at := v\<rparr>) = router_ok r"
  by (simp add: router_ok_def counters_ok_def session_ok_def active_ok_def idle_ok_def
    session_state_def cong: control_session_state.case_cong suspend_reason.case_cong)

lemma step_ok_captured [simp]: "step_ok (r\<lparr>ir_last_captured_at := v\<rparr>) os r' = step_ok r os r'"
  by (rule step_ok_cong) simp_all

lemma handle_ok:
  assumes "router_ok r" "handle r cmd = (os, r')"
  shows "step_ok r os r'"
proof (cases cmd)
  case (CmdInput i)
  then have "step_ok (r\<lparr>ir_last_captured_at := captured_at i\<rparr>) os r'"
    using assms by (intro handle_input_ok) simp_all
  then show ?thesis by simp
qed (use assms layout_changed_ok connectivity_changed_ok return_to_local_ok backend_degraded_ok
      release_completed_ok in auto)

lemma router_new_ok: "router_ok (router_new i g geo peers l)"
  using routes_ok_build
  by (simp add: router_ok_def router_new_def counters_ok_def session_ok_def idle_ok_def settled_def
    session_state_def session_new_def ledger_is_empty_def ledger_new_def)
    (simp add: ledger_new_def [symmetric] ledger_wf_def bt_wf_def)

interpretation router: emitting_machine handle router_ok "\<lambda>_. True" router_rel
proof unfold_locales
  fix r cmd
  assume "router_ok r"
  moreover obtain os r' where "handle r cmd = (os, r')" by fastforce
  ultimately show "router_ok (snd (handle r cmd))" "router_rel r (fst (handle r cmd)) (snd (handle r cmd))"
    using handle_ok by (auto simp: step_ok_def)
qed (auto intro: router_rel_comp)

text \<open>The routers that occur: what a new one becomes under any sequence of commands.\<close>

definition router_reachable :: "input_router \<Rightarrow> bool" where
  "router_reachable r \<longleftrightarrow> (\<exists>i g geo peers l cmds. r = snd (run handle (router_new i g geo peers l) cmds))"

lemma router_reachable_ok: "router_reachable r \<Longrightarrow> router_ok r"
  using router.run_inv router_new_ok by (force simp: router_reachable_def)

lemma router_reachable_step: "router_reachable r \<Longrightarrow> router_reachable (snd (handle r cmd))"
proof -
  assume "router_reachable r"
  then obtain i g geo peers l cmds where "r = snd (run handle (router_new i g geo peers l) cmds)"
    by (auto simp: router_reachable_def)
  then have "snd (handle r cmd) = snd (run handle (router_new i g geo peers l) (cmds @ [cmd]))"
    by (simp add: run_append Let_def split: prod.splits)
  then show ?thesis unfolding router_reachable_def by blast
qed

end
