(* ===== verification/RouterSpec.thy ===== *)
theory RouterSpec
  imports RouterProofs
begin

text \<open>
  The properties of the input router, stated for the routers that occur: those a new router
  becomes under some sequence of commands.
\<close>

section \<open>Entering a peer\<close>

lemma enter_at_edge:
  assumes "session_state r = LocalReady" "ir_pending_release r = None"
    and "edge_at (vg_bounds (ir_geometry r)) x y = Some edge" "route (ir_routes r) edge = Some rt"
    and "ir_epoch r < u64_max" "display_ok (rt_display rt)"
    and "handle r (CmdInput (AbsoluteMove x y c)) = (os, r')"
  shows "\<exists>enter anchor tx ty.
    os = [SendReliable (rt_device_id rt) enter, SendRealtime (rt_device_id rt) anchor,
          LocalSessionChanged (RemoteActive (rt_device_id rt) edge), SuppressLocalShortcuts True] \<and>
    lf_event enter = EnterEvent (rt_display_id rt) tx ty \<and> rf_payload anchor = AbsoluteAnchor tx ty \<and>
    lf_session_epoch enter = Suc (ir_epoch r) \<and> rf_session_epoch anchor = Suc (ir_epoch r) \<and>
    lf_sequence enter = 0 \<and> rf_sequence anchor = 0 \<and>
    contains_x (rt_display rt) tx \<and> contains_y (rt_display rt) ty \<and>
    session_state r' = RemoteActive (rt_device_id rt) edge \<and> ir_epoch r' = Suc (ir_epoch r)"
proof -
  obtain tx ty where txy: "entry_point (rt_entry_edge rt) (rt_display rt)
      (project_to (vg_bounds (ir_geometry r)) (rt_display rt) x y) = (tx, ty)" by fastforce
  let ?q = "r\<lparr>ir_last_captured_at := c, ir_last_absolute := Some (x, y)\<rparr>"
  have "handle r (CmdInput (AbsoluteMove x y c)) = enter_remote edge rt (tx, ty) c ?q"
    using assms(1-4) txy
    by (simp add: handle_absolute_move_def session_state_def is_remote_active_def is_local_ready_def)
  also have "\<dots> = (let r' = ?q\<lparr>ir_epoch := Suc (ir_epoch ?q), ir_realtime_sequence := 1, ir_reliable_sequence := 1,
           ir_emergency_max_sequence_consumed := False, ir_latest_anchor_sequence := 0,
           ir_session := \<lparr>cs_state = RemoteActive (rt_device_id rt) edge\<rparr>,
           ir_remote_pointer := Some \<lparr>rp_target = rt_device_id rt, rp_display = rt_display rt,
             rp_entry_edge = rt_entry_edge rt, rp_x = tx, rp_y = ty\<rparr>\<rparr>
     in ([SendReliable (rt_device_id rt) (reliable_frame r' 0 c (EnterEvent (rt_display_id rt) tx ty)),
          SendRealtime (rt_device_id rt) (realtime_frame r' 0 c (AbsoluteAnchor tx ty)),
          LocalSessionChanged (RemoteActive (rt_device_id rt) edge), SuppressLocalShortcuts True], r'))"
    using assms(1,5) by (intro enter_remote_eq) (simp_all add: session_state_def)
  finally have "handle r (CmdInput (AbsoluteMove x y c)) = \<dots>" .
  moreover have "contains_x (rt_display rt) tx" "contains_y (rt_display rt) ty"
    using entry_point_ok [OF assms(6)] txy by (metis fst_conv, metis snd_conv)
  ultimately show ?thesis
    using assms(7) by (auto simp: Let_def reliable_frame_def realtime_frame_def session_state_def)
qed

section \<open>An example router\<close>

text \<open>Two devices side by side; the pointer of the left one reaches its right edge.\<close>

definition example_stamp :: monotonic_stamp where
  "example_stamp = \<lparr>ms_domain = 1, ms_value_us = 5\<rparr>"

definition example_router :: input_router where
  "example_router = router_new 1 linked_pair
     \<lparr>vg_bounds = \<lparr>pr_x = 0, pr_y = 0, pr_width = 1920, pr_height = 1080\<rparr>\<rparr> [2] 9"

definition example_route :: route_target where
  "example_route = \<lparr>rt_device_id = 2, rt_entry_edge = Left, rt_display_id = ''primary'',
     rt_display = \<lparr>pr_x = 0, pr_y = 0, pr_width = 1280, pr_height = 720\<rparr>\<rparr>"

definition example_active :: input_router where
  "example_active = snd (handle example_router (CmdInput (AbsoluteMove 1919 500 example_stamp)))"

lemma example_routed:
  "edge_at (vg_bounds (ir_geometry example_router)) 1919 500 = Some Right"
  "route (ir_routes example_router) Right = Some example_route"
  unfolding example_router_def by code_simp+

lemma example_ready:
  "session_state example_router = LocalReady" "ir_pending_release example_router = None"
  "ir_epoch example_router < u64_max" "display_ok (rt_display example_route)"
  by (simp_all add: example_router_def router_new_def session_state_def session_new_def
    example_route_def display_ok_def in_i32_def)

lemma example_reachable: "router_reachable example_router" "router_reachable example_active"
proof -
  have "example_router = snd (run handle example_router [])" by simp
  then show r: "router_reachable example_router"
    unfolding router_reachable_def example_router_def by blast
  show "router_reachable example_active"
    unfolding example_active_def by (rule router_reachable_step [OF r])
qed

lemma example_active_state:
  "session_state example_active = RemoteActive 2 Right" "router_target example_active = Some 2"
proof -
  obtain os where h: "handle example_router (CmdInput (AbsoluteMove 1919 500 example_stamp)) = (os, example_active)"
    by (simp add: example_active_def prod_eq_iff)
  show s: "session_state example_active = RemoteActive 2 Right"
    using enter_at_edge [OF example_ready(1,2) example_routed example_ready(3,4) h]
    by (auto simp: example_route_def)
  show "router_target example_active = Some 2" using s router_target_Some by blast
qed

lemma return_to_local_target:
  assumes "router_ok r"
  shows "router_target (snd (return_to_local reason r)) = None"
proof (cases "router_target r")
  case None
  then show ?thesis by (simp add: return_to_local_def router_target_def)
next
  case (Some t)
  then obtain d where d: "session_state r = RemoteActive t d" using router_target_Some by blast
  have L: "leaving t (r\<lparr>ir_remote_pointer := None\<rparr>)" using router_ok_leaving [OF assms Some] by simp
  obtain st os1 r1 where p: "push_emergency_release t reason (r\<lparr>ir_remote_pointer := None\<rparr>) =
      (st, os1, r1)" by (metis prod_cases3)
  have "router_target (if es_ledger_fault st then degrade_session r1
      else r1\<lparr>ir_session := snd (on_return_edge_hit (opposite d) (ir_session r1))\<rparr>) = None"
    using d push_same [OF L p]
    by (simp add: router_target_def session_state_def session_defs degrade_session_def)
  then show ?thesis
    using Some d p by (simp add: return_to_local_def router_target_def session_state_def Let_def)
qed

section \<open>Whole runs\<close>

text \<open>
  C9. Over any sequence of commands the frames a router emits carry strictly increasing
  (epoch, sequence) positions on each channel; in particular no position is used twice, not even
  by the emergency release that may use the last sequence number.
\<close>

theorem router_sequences_increase:
  "sorted_wrt (<) (reliable_positions (fst (run handle (router_new i g geo peers l) cmds))) \<and>
   sorted_wrt (<) (realtime_positions (fst (run handle (router_new i g geo peers l) cmds)))"
proof -
  have "router_rel (router_new i g geo peers l) (fst (run handle (router_new i g geo peers l) cmds))
      (snd (run handle (router_new i g geo peers l) cmds))"
    by (rule router.run_rel) (simp_all add: router_new_ok)
  then show ?thesis using advances_sorted unfolding router_rel_def by blast
qed

text \<open>
  C10. An observer that starts from \<open>LocalReady\<close> with shortcuts enabled and applies the session
  and shortcut outputs of a router in order always knows the router's session state, and local
  shortcuts are suppressed exactly while the router is forwarding.
\<close>

theorem router_outputs_tell_state:
  "fold observe (fst (run handle (router_new i g geo peers l) cmds)) (LocalReady, False) =
    (session_state (snd (run handle (router_new i g geo peers l) cmds)),
     is_remote_active (ir_session (snd (run handle (router_new i g geo peers l) cmds))))"
proof -
  have "router_rel (router_new i g geo peers l) (fst (run handle (router_new i g geo peers l) cmds))
      (snd (run handle (router_new i g geo peers l) cmds))"
    by (rule router.run_rel) (simp_all add: router_new_ok)
  moreover have "router_view (router_new i g geo peers l) = (LocalReady, False)"
    by (simp add: router_view_def router_new_def session_state_def session_new_def is_remote_active_def)
  ultimately show ?thesis by (simp add: router_rel_def router_view_def)
qed

section \<open>What holds between commands\<close>



text \<open>
  C12. Nothing stays held behind: once the router is local again and no release is pending, its
  ledger of held keys and buttons is empty (unless the 64-bit batch counter has run out). While a
  release is pending, confirming it empties the ledger.
\<close>

theorem router_releases_everything:
  assumes "router_reachable r" "\<not> is_remote_active (ir_session r)"
  shows "case ir_pending_release r of
      None \<Rightarrow> held_key_count (ir_pressed r) = 0 \<and> held_mouse_button_count (ir_pressed r) = 0 \<or>
        tokens_exhausted (ir_pressed r)
    | Some batch \<Rightarrow> ledger_is_empty (ir_pressed (snd (handle r (CmdReleaseAllCompleted (pb_token batch) True))))"
proof -
  have ok: "router_ok r" by (rule router_reachable_ok) fact
  then have settled: "settled (ir_pending_release r) (ir_pressed r)"
    using assms(2) by (auto simp: router_ok_def session_ok_def idle_ok_def is_remote_active_def
      session_state_def split: control_session_state.splits suspend_reason.splits)
  show ?thesis
  proof (cases "ir_pending_release r")
    case None
    then show ?thesis using settled
      by (auto simp: settled_def ledger_is_empty_def held_key_count_def held_mouse_button_count_def)
  next
    case (Some b)
    have keep: "ir_pressed (snd (recover_unavailable_target q)) = ir_pressed q" for q
      by (simp add: recover_unavailable_target_def Let_def)
    have "covers b (ir_pressed r)" using Some settled by (simp add: settled_def)
    moreover have "ledger_wf (ir_pressed r)" using ok by (simp add: router_ok_def)
    ultimately show ?thesis
      using Some covers_confirm(1) by (simp add: handle_release_all_completed_def keep)
  qed
qed

theorem router_releases_everything_witness:
  "held_key_count (ir_pressed example_router) = 0"
proof -
  have "\<not> is_remote_active (ir_session example_router)"
    using example_ready(1) by (simp add: session_state_def is_remote_active_def)
  moreover have "\<not> tokens_exhausted (ir_pressed example_router)"
    by (simp add: example_router_def router_new_def ledger_new_def tokens_exhausted_def)
  ultimately show ?thesis
    using router_releases_everything [OF example_reachable(1)] example_ready(2) by simp
qed

section \<open>One command\<close>

text \<open>
  C7. A device is never abandoned with keys held: whenever a command makes the router stop
  forwarding to a device, for whatever reason (return edge, quick return, disconnection, layout
  change, exhausted counter or ledger, degraded backend), the outputs of that command include a
  release-all frame addressed to that device.
\<close>

theorem router_departure_releases:
  assumes "router_reachable r" "handle r cmd = (os, r')"
    and "router_target r = Some t" "router_target r' \<noteq> Some t"
  shows "\<exists>frame token. EmergencyReleaseAll t frame token \<in> set os"
  using handle_ok [OF router_reachable_ok [OF assms(1)] assms(2)] assms(3,4)
  by (simp add: step_ok_def departs_def)

theorem router_departure_releases_witness:
  "\<exists>frame token. EmergencyReleaseAll 2 frame token \<in> set (fst (handle example_active CmdQuickReturn))"
proof -
  obtain os r' where h: "handle example_active CmdQuickReturn = (os, r')" by fastforce
  have "router_target r' \<noteq> Some 2"
    using return_to_local_target [OF router_reachable_ok [OF example_reachable(2)], of OwnershipTransfer] h
    by simp
  then show ?thesis
    using router_departure_releases [OF example_reachable(2) h example_active_state(2)] h by simp
qed

text \<open>
  C8. Captured input goes to nobody but the device that is being controlled: every data frame a
  command emits is addressed to the device active before it or after it, and a release-all frame
  to the device active before it or to the one whose loss suspended the session.
\<close>

theorem router_addresses_active_device:
  assumes "router_reachable r" "handle r cmd = (os, r')"
  shows "(\<forall>x\<in>set os. \<forall>t. data_target x = Some t \<longrightarrow> router_target r = Some t \<or> router_target r' = Some t) \<and>
    (\<forall>t frame token. EmergencyReleaseAll t frame token \<in> set os \<longrightarrow>
       router_target r = Some t \<or> ir_suspended_target r = Some t)"
  using handle_ok [OF router_reachable_ok [OF assms(1)] assms(2)]
  by (simp add: step_ok_def addressed_def)

theorem router_addresses_active_device_witness:
  "\<exists>os r'. handle example_active (CmdInput (WheelInput 0 1 example_stamp)) = (os, r') \<and>
     (\<forall>x\<in>set os. \<forall>t. data_target x = Some t \<longrightarrow> 2 = t \<or> router_target r' = Some t)"
proof -
  obtain os r' where h: "handle example_active (CmdInput (WheelInput 0 1 example_stamp)) = (os, r')"
    by fastforce
  show ?thesis
    using router_addresses_active_device [OF example_reachable(2) h] h
    unfolding example_active_state(2) option.inject by blast
qed



section \<open>Leaving by the entry edge\<close>

lemma push_no_fault:
  assumes "\<not> tokens_exhausted (ir_pressed r)" "push_emergency_release u reason r = (st, os, r1)"
  shows "\<not> es_ledger_fault st"
proof -
  have tok: "pl_next_batch_token (ir_pressed r) < u64_max"
    using assms(1) by (simp add: tokens_exhausted_def)
  obtain n q where q: "take_emergency_reliable_sequence r = (n, q)" by fastforce
  then have "ir_pressed q = ir_pressed r"
    by (auto simp: take_emergency_reliable_sequence_def Let_def split: if_splits option.splits)
  then show ?thesis
    using assms(2) q tok
    by (auto simp: push_emergency_release_def release_all_events_def take_batch_token_def checked_inc_eq
      Let_def split: option.splits)
qed

lemma return_to_local_ready:
  assumes "router_ok r" "router_target r = Some t" "\<not> tokens_exhausted (ir_pressed r)"
  shows "session_state (snd (return_to_local reason r)) = LocalReady"
proof -
  obtain d where d: "session_state r = RemoteActive t d" using assms(2) router_target_Some by blast
  have L: "leaving t (r\<lparr>ir_remote_pointer := None\<rparr>)" using router_ok_leaving [OF assms(1,2)] by simp
  obtain st os1 r1 where p: "push_emergency_release t reason (r\<lparr>ir_remote_pointer := None\<rparr>) =
      (st, os1, r1)" by (metis prod_cases3)
  have "\<not> es_ledger_fault st" by (rule push_no_fault [OF _ p]) (simp add: assms(3))
  moreover have "ir_session r1 = ir_session r" using push_same(4) [OF L p] by simp
  ultimately show ?thesis
    using assms(2) d p
    by (simp add: return_to_local_def router_target_def session_state_def Let_def on_return_edge_hit_def)
qed

lemma send_relative_active:
  assumes "router_target r = Some t" "ir_realtime_sequence r < u64_max"
  shows "send_relative dx dy c r =
    (let r' = r\<lparr>ir_realtime_sequence := Suc (ir_realtime_sequence r),
                ir_latest_anchor_sequence := ir_realtime_sequence r\<rparr>
     in ([SendRealtime t (realtime_frame r' (ir_realtime_sequence r) c (RelativeMouse dx dy))], r'))"
  using assms by (simp add: send_relative_def router_target_def send_realtime_def
    take_realtime_sequence_def checked_inc_eq)

lemma relative_move_eq:
  assumes "router_target r = Some t" "ir_remote_pointer r = Some p" "rp_target p = t"
  shows "handle_relative_move dx dy c r =
    (let nx = sat_i32 (clamp (pr_x (rp_display p)) (last_x (rp_display p)) (rp_x p + dx));
         ny = sat_i32 (clamp (pr_y (rp_display p)) (last_y (rp_display p)) (rp_y p + dy));
         bx = sat_i32 (nx - rp_x p); by' = sat_i32 (ny - rp_y p);
         q = r\<lparr>ir_remote_pointer := Some (p\<lparr>rp_x := nx, rp_y := ny\<rparr>)\<rparr>
     in if \<not> crossed_return_edge p (rp_x p + dx) (rp_y p + dy) then send_relative dx dy c q
        else let (sent, r) = (if bx \<noteq> 0 \<or> by' \<noteq> 0 then send_relative bx by' c q else ([], q));
                 (returned, r) = return_to_local OwnershipTransfer r
             in (sent @ returned, r))"
  using assms by (simp add: handle_relative_move_def router_target_def tracked_pointer_def Let_def)

text \<open>
  C15. While forwarding, a relative move returns the pointer to the local desktop exactly when it
  would take the tracked pointer across the edge by which the target was entered. Any other move
  is forwarded unchanged, as one frame, and leaves the session alone. (The two 64-bit counters
  must not have run out.)
\<close>

theorem router_returns_at_entry_edge:
  assumes "router_reachable r" "session_state r = RemoteActive t d" "ir_remote_pointer r = Some p"
    and "ir_realtime_sequence r < u64_max" "\<not> tokens_exhausted (ir_pressed r)"
    and "handle r (CmdInput (RelativeMove dx dy c)) = (os, r')"
  shows "if crossed_return_edge p (rp_x p + dx) (rp_y p + dy)
    then session_state r' = LocalReady \<and> ir_remote_pointer r' = None
    else session_state r' = RemoteActive t d \<and>
      (\<exists>frame. os = [SendRealtime t frame] \<and> rf_payload frame = RelativeMouse dx dy)"
proof -
  let ?r = "r\<lparr>ir_last_captured_at := c\<rparr>"
  have ok: "router_ok r" by (rule router_reachable_ok) fact
  have tr: "router_target r = Some t" using assms(2) router_target_Some by blast
  then have t: "router_target ?r = Some t" by (simp add: router_target_def)
  have p: "rp_target p = t" "pointer_ok p"
    using ok assms(3) router_ok_active [OF tr] by (auto simp: active_ok_def)
  define nx where "nx = sat_i32 (clamp (pr_x (rp_display p)) (last_x (rp_display p)) (rp_x p + dx))"
  define ny where "ny = sat_i32 (clamp (pr_y (rp_display p)) (last_y (rp_display p)) (rp_y p + dy))"
  define bx where "bx = sat_i32 (nx - rp_x p)"
  define b_y where "b_y = sat_i32 (ny - rp_y p)"
  define q where "q = ?r\<lparr>ir_remote_pointer := Some (p\<lparr>rp_x := nx, rp_y := ny\<rparr>)\<rparr>"
  have move: "handle_relative_move dx dy c ?r = (os, r')" using assms(6) by simp
  note E = relative_move_eq [OF t, of p dx dy c, unfolded Let_def, folded nx_def ny_def, folded bx_def b_y_def, folded q_def]
  have tq: "router_target q = Some t" using t by (simp add: q_def router_target_def)
  have sq: "ir_realtime_sequence q < u64_max" using assms(4) by (simp add: q_def)
  have "pointer_ok (p\<lparr>rp_x := nx, rp_y := ny\<rparr>)"
    using pointer_ok_clamped [where d = "rp_display p" and p = p and x = "rp_x p + dx" and y = "rp_y p + dy"] p(2)
    by (simp add: nx_def ny_def pointer_ok_def)
  then have q_ok: "router_ok q"
    using ok router_ok_active [OF tr] p(1) unfolding router_ok_active [OF tq]
    by (auto simp: q_def counters_ok_def active_ok_def)
  show ?thesis
  proof (cases "crossed_return_edge p (rp_x p + dx) (rp_y p + dy)")
    case False
    then have "send_relative dx dy c q = (os, r')" using move E assms(3) p(1) by simp
    then show ?thesis
      using False assms(2) unfolding send_relative_active [OF tq sq]
      by (auto simp: Let_def realtime_frame_def session_state_def q_def)
  next
    case True
    obtain sent q1 where s: "(if bx \<noteq> 0 \<or> b_y \<noteq> 0 then send_relative bx b_y c q else ([], q)) = (sent, q1)"
      by fastforce
    have q1: "router_ok q1 \<and> router_target q1 = Some t \<and> ir_pressed q1 = ir_pressed r"
    proof (cases "bx \<noteq> 0 \<or> b_y \<noteq> 0")
      case True
      then have s': "send_relative bx b_y c q = (sent, q1)" using s by simp
      then have "send_realtime t c (RelativeMouse bx b_y) q = (sent, q1)"
        using tq by (simp add: send_relative_def router_target_def)
      then have "router_ok q1" using send_realtime_ok [OF q_ok tq] by (auto simp: forwards_def step_ok_def)
      then show ?thesis
        using s' tq unfolding send_relative_active [OF tq sq] by (auto simp: Let_def router_target_def q_def)
    next
      case False
      then show ?thesis using s q_ok tq by (auto simp: q_def)
    qed
    have r': "r' = snd (return_to_local OwnershipTransfer q1)"
      using move E assms(3) p(1) True s by (auto split: prod.splits)
    have "session_state r' = LocalReady"
      unfolding r' using return_to_local_ready [of q1 t] q1 assms(5) by simp
    moreover have "router_ok r'"
      using return_to_local_ok [of q1 OwnershipTransfer] q1 unfolding r' step_ok_def by (metis prod.collapse)
    ultimately show ?thesis using True by (simp add: router_ok_def session_ok_def idle_ok_def)
  qed
qed

lemma example_pointer:
  "ir_remote_pointer example_active = Some \<lparr>rp_target = 2, rp_display = rt_display example_route,
     rp_entry_edge = Left, rp_x = 0, rp_y = 333\<rparr>"
  "ir_realtime_sequence example_active = 1" "\<not> tokens_exhausted (ir_pressed example_active)"
proof -
  let ?q = "example_router\<lparr>ir_last_captured_at := example_stamp, ir_last_absolute := Some (1919, 500)\<rparr>"
  have "example_active = snd (enter_remote Right example_route (0, 333) example_stamp ?q)"
  proof -
    have "entry_point (rt_entry_edge example_route) (rt_display example_route)
        (project_to (vg_bounds (ir_geometry example_router)) (rt_display example_route) 1919 500) = (0, 333)"
      by (simp add: example_router_def router_new_def example_route_def entry_point_def project_to_def
        project_axis_def clamp_def in_i32_def)
    then show ?thesis
      using example_ready(1,2) example_routed
      by (simp add: example_active_def handle_absolute_move_def session_state_def is_remote_active_def
        is_local_ready_def)
  qed
  moreover have q: "session_state ?q = LocalReady" "ir_epoch ?q < u64_max"
    using example_ready by (simp_all add: session_state_def)
  note act = calculation [unfolded enter_remote_eq [OF q] Let_def snd_conv]
  show "ir_remote_pointer example_active = Some \<lparr>rp_target = 2, rp_display = rt_display example_route,
     rp_entry_edge = Left, rp_x = 0, rp_y = 333\<rparr>"
    "ir_realtime_sequence example_active = 1" "\<not> tokens_exhausted (ir_pressed example_active)"
    unfolding act by (simp_all add: example_route_def example_router_def router_new_def
      ledger_new_def tokens_exhausted_def)
qed

theorem router_returns_at_entry_edge_witness:
  "session_state (snd (handle example_active (CmdInput (RelativeMove (-5) 0 example_stamp)))) = LocalReady \<and>
   session_state (snd (handle example_active (CmdInput (RelativeMove 5 0 example_stamp)))) = RemoteActive 2 Right"
proof -
  have seq: "ir_realtime_sequence example_active < u64_max" by (simp add: example_pointer(2))
  note T = router_returns_at_entry_edge [OF example_reachable(2) example_active_state(1) example_pointer(1)
      seq example_pointer(3) surjective_pairing]
  show ?thesis
    using T [of "-5" 0 example_stamp] T [of 5 0 example_stamp]
    by (simp add: crossed_return_edge_def example_route_def)
qed

section \<open>A degraded backend\<close>

lemma degraded_stays:
  assumes "router_ok r" "session_state r = Suspended BackendDegradedReason"
  shows "session_state (snd (handle r cmd)) = Suspended BackendDegradedReason"
proof -
  have st: "cs_state (ir_session r) = Suspended BackendDegradedReason" using assms(2) by (simp add: session_state_def)
  have none: "active_target (ir_session q) = None" if "ir_session q = ir_session r" for q
    using st that by (simp add: active_target_def)
  have sus: "ir_suspended_target r = None" using assms by (simp add: router_ok_def session_ok_def)
  have rebuilt: "ir_session (snd (rebuild_routes q)) = ir_session q"
    "ir_suspended_target (snd (rebuild_routes q)) = ir_suspended_target q" for q
    by (simp_all add: rebuild_routes_def split: option.split)
  show ?thesis
  proof (cases cmd)
    case (CmdInput i)
    then show ?thesis
      using st none [OF refl] by (cases i) (auto simp: session_state_def with_target_def handle_relative_move_def
        handle_absolute_move_def is_remote_active_def is_local_ready_def Let_def)
  next
    case (CmdLayoutChanged layout)
    then show ?thesis
      using st by (auto simp: session_state_def handle_layout_changed_def Let_def rebuilt
        split: prod.splits option.splits)
  next
    case (CmdConnectivityChanged peer connected)
    obtain os q where q: "rebuild_routes (r\<lparr>ir_connected_peers := (if connected
        then insert peer (ir_connected_peers r) else ir_connected_peers r - {peer})\<rparr>) = (os, q)" by fastforce
    have "ir_session q = ir_session r" "ir_suspended_target q = None"
      using rebuilt [of "r\<lparr>ir_connected_peers := (if connected
        then insert peer (ir_connected_peers r) else ir_connected_peers r - {peer})\<rparr>"] q sus by simp_all
    then show ?thesis
      using CmdConnectivityChanged st none [of r] q
      by (simp add: session_state_def handle_connectivity_changed_def Let_def)
  next
    case CmdBackendDegraded
    then show ?thesis
      using none [of r] by (simp add: handle_backend_degraded_def session_state_def degrade_session_def
        on_backend_degraded_def)
  next
    case (CmdReleaseAllCompleted token success)
    then show ?thesis
      using st by (auto simp: handle_release_all_completed_def recover_unavailable_target_def
        session_state_def split: option.split)
  qed (use none [of r] st in \<open>simp_all add: return_to_local_def session_state_def\<close>)
qed

definition sends_nothing :: "router_output list \<Rightarrow> bool" where
  "sends_nothing os \<longleftrightarrow> (\<forall>x\<in>set os. reliable_position x = None \<and> realtime_position x = None)"

interpretation degraded: emitting_machine handle
  "\<lambda>r. router_ok r \<and> session_state r = Suspended BackendDegradedReason" "\<lambda>_. True"
  "\<lambda>r os r'. sends_nothing os"
proof unfold_locales
  fix r cmd
  assume r: "router_ok r \<and> session_state r = Suspended BackendDegradedReason"
  obtain os r' where h: "handle r cmd = (os, r')" by fastforce
  have S: "step_ok r os r'" using handle_ok h r by blast
  have st': "session_state r' = Suspended BackendDegradedReason" using degraded_stays [of r cmd] r h by simp
  show "router_ok (snd (handle r cmd)) \<and>
      session_state (snd (handle r cmd)) = Suspended BackendDegradedReason"
    using S st' h by (simp add: step_ok_def)
  have none: "router_target r = None" "router_target r' = None"
    using r st' by (simp_all add: router_target_def active_target_def session_state_def)
  from r have "router_ok r" "session_state r = Suspended BackendDegradedReason" by blast+
  then have none': "ir_suspended_target r = None" by (simp add: router_ok_def session_ok_def)
  have "reliable_position x = None \<and> realtime_position x = None" if "x \<in> set os" for x
    using S that none none' by (cases x) (fastforce simp: step_ok_def addressed_def)+
  then show "sends_nothing (fst (handle r cmd))" using h by (simp add: sends_nothing_def)
qed (auto simp: sends_nothing_def)

text \<open>
  A degraded backend is final: once the session is suspended for it, no sequence of commands
  makes the router ready or forwarding again, and no frame of any kind is sent.
\<close>

theorem router_degraded_is_final:
  assumes "router_reachable r" "session_state r = Suspended BackendDegradedReason"
  shows "session_state (snd (run handle r cmds)) = Suspended BackendDegradedReason \<and>
    reliable_positions (fst (run handle r cmds)) = [] \<and> realtime_positions (fst (run handle r cmds)) = []"
proof -
  have inv: "router_ok r \<and> session_state r = Suspended BackendDegradedReason"
    using router_reachable_ok assms by blast
  have "sends_nothing (fst (run handle r cmds))"
    using degraded.run_rel [OF inv] by simp
  then have "reliable_positions (fst (run handle r cmds)) = [] \<and> realtime_positions (fst (run handle r cmds)) = []"
    by (induction "fst (run handle r cmds)" arbitrary: r cmds)
      (auto simp: sends_nothing_def reliable_positions_def realtime_positions_def map_filter_def
        filter_empty_conv)
  then show ?thesis using degraded.run_inv [OF inv, of cmds] by simp
qed

theorem router_degraded_is_final_witness:
  "session_state (snd (run handle (snd (handle example_active CmdBackendDegraded)) [CmdQuickReturn])) =
     Suspended BackendDegradedReason"
proof -
  have r: "router_reachable (snd (handle example_active CmdBackendDegraded))"
    by (rule router_reachable_step [OF example_reachable(2)])
  have "session_state (snd (handle example_active CmdBackendDegraded)) = Suspended BackendDegradedReason"
    by (simp add: handle_backend_degraded_def Let_def session_state_def degrade_session_def
      on_backend_degraded_def split: prod.split)
  then show ?thesis using router_degraded_is_final [OF r] by blast
qed

section \<open>How forwarding starts\<close>

lemma stays_local:
  assumes "router_target r = None" "\<And>x y c. cmd \<noteq> CmdInput (AbsoluteMove x y c)"
  shows "router_target (snd (handle r cmd)) = None"
proof -
  have none: "active_target (ir_session r) = None" using assms(1) by (simp add: router_target_def)
  then have inactive: "session_state r \<noteq> RemoteActive t d" for t d
    by (auto simp: active_target_def session_state_def)
  have rebuilt: "ir_session (snd (rebuild_routes q)) = ir_session q" for q
    by (simp add: rebuild_routes_def split: option.split)
  have recovered: "active_target (ir_session (snd (recover_unavailable_target q))) = None"
    if "active_target (ir_session q) = None" for q
    using that by (simp add: recover_unavailable_target_def session_reset_def active_target_def Let_def)
  have pushed: "ir_session (snd (snd (push_emergency_release u reason q))) = ir_session q" for u reason q
    by (auto simp: push_emergency_release_def take_emergency_reliable_sequence_def Let_def
      split: option.splits sum.splits prod.splits)
  show ?thesis
  proof (cases cmd)
    case (CmdInput i)
    then show ?thesis
      using none assms(2)
      by (cases i) (auto simp: router_target_def with_target_def handle_relative_move_def)
  next
    case (CmdLayoutChanged layout)
    let ?g = "case Option.bind (get_node layout (ir_local_id r)) geometry_from_layout_node of
        Some g \<Rightarrow> r\<lparr>ir_geometry := g\<rparr> | None \<Rightarrow> r"
    obtain os q where q: "rebuild_routes (?g\<lparr>ir_layout := layout\<rparr>) = (os, q)" by fastforce
    have "ir_session q = ir_session r"
      using rebuilt [of "?g\<lparr>ir_layout := layout\<rparr>"] q by (simp split: option.split)
    then have "ir_session (snd (handle_layout_changed layout r)) = ir_session r"
      using q by (cases "session_state r") (simp_all add: handle_layout_changed_def inactive)
    then show ?thesis using CmdLayoutChanged none by (simp add: router_target_def)
  next
    case (CmdConnectivityChanged peer connected)
    let ?q = "r\<lparr>ir_connected_peers := (if connected
        then insert peer (ir_connected_peers r) else ir_connected_peers r - {peer})\<rparr>"
    obtain os q where q: "rebuild_routes ?q = (os, q)" by fastforce
    then have "ir_session q = ir_session r" using rebuilt [of ?q] by simp
    then show ?thesis
      using CmdConnectivityChanged none q recovered [of q] pushed [of peer SuspendedReason q]
      by (auto simp: router_target_def handle_connectivity_changed_def Let_def split: prod.split)
  next
    case CmdBackendDegraded
    then show ?thesis
      by (simp add: handle_backend_degraded_def none router_target_def degrade_session_def
        on_backend_degraded_def Let_def) (simp add: active_target_def)
  next
    case (CmdReleaseAllCompleted token success)
    then show ?thesis
      using none recovered by (simp add: handle_release_all_completed_def router_target_def split: option.split)
  qed (use none in \<open>simp_all add: return_to_local_def router_target_def\<close>)
qed

text \<open>
  C14. Forwarding never starts by itself: a command that makes a router forward to a device is a
  pointer move to an edge of the local desktop routed to that device, while the session is ready
  and no release is pending.
\<close>

theorem router_enters_only_at_edge:
  assumes "router_target r = None" "router_target (snd (handle r cmd)) = Some t"
  shows "\<exists>x y c edge rt. cmd = CmdInput (AbsoluteMove x y c) \<and> session_state r = LocalReady \<and>
    ir_pending_release r = None \<and> edge_at (vg_bounds (ir_geometry r)) x y = Some edge \<and>
    route (ir_routes r) edge = Some rt \<and> rt_device_id rt = t"
proof -
  obtain x y c where cmd: "cmd = CmdInput (AbsoluteMove x y c)"
    using stays_local [OF assms(1), of cmd] assms(2) by auto
  let ?q = "r\<lparr>ir_last_captured_at := c, ir_last_absolute := Some (x, y)\<rparr>"
  have none: "\<not> is_remote_active (ir_session r)"
    using assms(1) by (simp add: router_target_def active_target_None)
  have "\<exists>e rt. is_local_ready (ir_session r) \<and> ir_pending_release r = None \<and>
        edge_at (vg_bounds (ir_geometry r)) x y = Some e \<and> route (ir_routes r) e = Some rt"
  proof (rule ccontr)
    assume "\<not> ?thesis"
    then have "snd (handle r cmd) = ?q"
      using none by (auto simp: cmd handle_absolute_move_def Let_def split: option.splits)
    then show False using assms by (simp add: router_target_def)
  qed
  then obtain e rt where e: "is_local_ready (ir_session r)" "ir_pending_release r = None"
    "edge_at (vg_bounds (ir_geometry r)) x y = Some e" "route (ir_routes r) e = Some rt" by blast
  then have ready: "session_state r = LocalReady" "session_state ?q = LocalReady"
    by (auto simp: session_state_def is_local_ready_def split: control_session_state.splits)
  obtain p where "snd (handle r cmd) = snd (enter_remote e rt p c ?q)"
    using none e by (simp add: cmd handle_absolute_move_def)
  moreover obtain px py where "p = (px, py)" by fastforce
  ultimately have "router_target (snd (handle r cmd)) \<in> {None, Some (rt_device_id rt)}"
    using enter_remote_eq [OF ready(2), of e rt px py c] enter_remote_exhausted [of ?q e rt p c]
    by (cases "ir_epoch ?q < u64_max") (auto simp: Let_def router_target_def active_target_def
        degrade_session_def on_backend_degraded_def)
  then show ?thesis using assms(2) cmd e ready(1) by auto
qed

theorem router_enters_only_at_edge_witness:
  "router_target example_router = None \<and>
   (\<exists>x y c edge rt. CmdInput (AbsoluteMove 1919 500 example_stamp) = CmdInput (AbsoluteMove x y c) \<and>
     edge_at (vg_bounds (ir_geometry example_router)) x y = Some edge \<and>
     route (ir_routes example_router) edge = Some rt \<and> rt_device_id rt = 2)"
proof -
  have none: "router_target example_router = None"
    using example_ready(1) by (simp add: router_target_def session_state_def active_target_def)
  have "router_target (snd (handle example_router (CmdInput (AbsoluteMove 1919 500 example_stamp)))) = Some 2"
    using example_active_state(2) by (simp only: example_active_def)
  from router_enters_only_at_edge [OF none this] show ?thesis using none by blast
qed

end
