(* ===== verification/KeyCodes.thy ===== *)
theory KeyCodes
  imports Common
begin

text \<open>
  Key codes (\<open>crates/rshare-input/src/events.rs\<close>): the platform-neutral keys, the wire numbers
  they are sent as, and the tables that normalise what the Linux, macOS and Windows captures
  report. A \<open>match\<close> on literals is a table read with \<open>map_of\<close>, in the order of its arms; a byte
  literal is \<open>kc\<close> of its character.
\<close>

section \<open>Keys and their wire numbers\<close>

datatype (plugins only: code) key_code =
    KcChar u8 | KcEscape | KcEnter | KcTab | KcBackspace | KcDelete | KcInsert | KcHome | KcEnd
  | KcPageUp | KcPageDown | KcUp | KcDown | KcLeft | KcRight | KcShiftLeft | KcShiftRight
  | KcControlLeft | KcControlRight | KcAltLeft | KcAltRight | KcSuperLeft | KcSuperRight | KcF1
  | KcF2 | KcF3 | KcF4 | KcF5 | KcF6 | KcF7 | KcF8 | KcF9 | KcF10 | KcF11 | KcF12 | KcSpace
  | KcCapsLock | KcNumLock | KcKeypad0 | KcKeypad1 | KcKeypad2 | KcKeypad3 | KcKeypad4
  | KcKeypad5 | KcKeypad6 | KcKeypad7 | KcKeypad8 | KcKeypad9 | KcKeypadAdd | KcKeypadSubtract
  | KcKeypadMultiply | KcKeypadDivide | KcKeypadDecimal | KcKeypadEnter | KcRaw u32

definition kc :: "char \<Rightarrow> key_code" where
  "kc c = KcChar (of_char c)"

definition rshare_keypad_enter_raw :: u32 where
  "rshare_keypad_enter_raw = 0xE01C"

definition rshare_iso_102nd_raw :: u32 where
  "rshare_iso_102nd_raw = 0xE2"

definition is_canonical_raw_keycode :: "u32 \<Rightarrow> bool" where
  "is_canonical_raw_keycode raw \<longleftrightarrow>
     raw \<in> set [rshare_keypad_enter_raw, 0x13, 0x2C, 0x91, 0xBA, 0xBB, 0xBC, 0xBD, 0xBE, 0xBF,
                0xC0, 0xDB, 0xDC, 0xDD, 0xDE, rshare_iso_102nd_raw]"

definition default_raw_codes :: "(key_code \<times> u32) list" where
  "default_raw_codes =
    [(KcEscape, 0x1B), (KcEnter, 0x0D), (KcTab, 0x09), (KcBackspace, 0x08), (KcDelete, 0x2E),
     (KcInsert, 0x2D), (KcHome, 0x24), (KcEnd, 0x23), (KcPageUp, 0x21), (KcPageDown, 0x22),
     (KcUp, 0x26), (KcDown, 0x28), (KcLeft, 0x25), (KcRight, 0x27), (KcF1, 0x70), (KcF2, 0x71),
     (KcF3, 0x72), (KcF4, 0x73), (KcF5, 0x74), (KcF6, 0x75), (KcF7, 0x76), (KcF8, 0x77),
     (KcF9, 0x78), (KcF10, 0x79), (KcF11, 0x7A), (KcF12, 0x7B), (KcSpace, 0x20),
     (KcShiftLeft, 0xA0), (KcShiftRight, 0xA1), (KcControlLeft, 0xA2), (KcControlRight, 0xA3),
     (KcAltLeft, 0xA4), (KcAltRight, 0xA5), (KcSuperLeft, 0x5B), (KcSuperRight, 0x5C),
     (KcCapsLock, 0x14), (KcNumLock, 0x90), (KcKeypad0, 0x60), (KcKeypad1, 0x61),
     (KcKeypad2, 0x62), (KcKeypad3, 0x63), (KcKeypad4, 0x64), (KcKeypad5, 0x65),
     (KcKeypad6, 0x66), (KcKeypad7, 0x67), (KcKeypad8, 0x68), (KcKeypad9, 0x69),
     (KcKeypadMultiply, 0x6A), (KcKeypadAdd, 0x6B), (KcKeypadEnter, rshare_keypad_enter_raw),
     (KcKeypadSubtract, 0x6D), (KcKeypadDecimal, 0x6E), (KcKeypadDivide, 0x6F)]"

definition default_raw_code :: "key_code \<Rightarrow> u32" where
  "default_raw_code k = (case map_of default_raw_codes k of Some r \<Rightarrow> r | None \<Rightarrow> 0)"

definition to_raw :: "key_code \<Rightarrow> u32" where
  "to_raw k = (case k of KcChar c \<Rightarrow> c | KcRaw r \<Rightarrow> r | _ \<Rightarrow> default_raw_code k)"

definition is_char_code :: "u32 \<Rightarrow> bool" where
  "is_char_code raw \<longleftrightarrow> 0x30 \<le> raw \<and> raw \<le> 0x39 \<or> 0x41 \<le> raw \<and> raw \<le> 0x5A"

definition wire_keys :: "(u32 \<times> key_code) list" where
  "wire_keys =
    [(0x08, KcBackspace), (0x09, KcTab), (0x0D, KcEnter), (0x1B, KcEscape), (0x2E, KcDelete),
     (0x2D, KcInsert), (0x24, KcHome), (0x23, KcEnd), (0x21, KcPageUp), (0x22, KcPageDown),
     (0x26, KcUp), (0x28, KcDown), (0x25, KcLeft), (0x27, KcRight), (0x70, KcF1), (0x71, KcF2),
     (0x72, KcF3), (0x73, KcF4), (0x74, KcF5), (0x75, KcF6), (0x76, KcF7), (0x77, KcF8),
     (0x78, KcF9), (0x79, KcF10), (0x7A, KcF11), (0x7B, KcF12), (0x20, KcSpace),
     (0xA0, KcShiftLeft), (0xA1, KcShiftRight), (0xA2, KcControlLeft), (0xA3, KcControlRight),
     (0xA4, KcAltLeft), (0xA5, KcAltRight), (0x5B, KcSuperLeft), (0x5C, KcSuperRight),
     (0x14, KcCapsLock), (0x90, KcNumLock), (0x60, KcKeypad0), (0x61, KcKeypad1),
     (0x62, KcKeypad2), (0x63, KcKeypad3), (0x64, KcKeypad4), (0x65, KcKeypad5),
     (0x66, KcKeypad6), (0x67, KcKeypad7), (0x68, KcKeypad8), (0x69, KcKeypad9),
     (0x6A, KcKeypadMultiply), (0x6B, KcKeypadAdd), (rshare_keypad_enter_raw, KcKeypadEnter),
     (0x6D, KcKeypadSubtract), (0x6E, KcKeypadDecimal), (0x6F, KcKeypadDivide)]"

text \<open>The char range is matched first, and every number without an arm stays raw.\<close>

definition from_wire :: "u32 \<Rightarrow> key_code" where
  "from_wire raw =
     (if is_char_code raw then KcChar raw
      else case map_of wire_keys raw of Some k \<Rightarrow> k | None \<Rightarrow> KcRaw raw)"

section \<open>Linux\<close>

definition linux_evdev_keys :: "(u32 \<times> key_code) list" where
  "linux_evdev_keys =
    [(1, KcEscape), (2, kc CHR ''1''), (3, kc CHR ''2''), (4, kc CHR ''3''), (5, kc CHR ''4''),
     (6, kc CHR ''5''), (7, kc CHR ''6''), (8, kc CHR ''7''), (9, kc CHR ''8''),
     (10, kc CHR ''9''), (11, kc CHR ''0''), (12, KcRaw 0xBD), (13, KcRaw 0xBB),
     (14, KcBackspace), (15, KcTab), (16, kc CHR ''Q''), (17, kc CHR ''W''), (18, kc CHR ''E''),
     (19, kc CHR ''R''), (20, kc CHR ''T''), (21, kc CHR ''Y''), (22, kc CHR ''U''),
     (23, kc CHR ''I''), (24, kc CHR ''O''), (25, kc CHR ''P''), (26, KcRaw 0xDB),
     (27, KcRaw 0xDD), (28, KcEnter), (29, KcControlLeft), (30, kc CHR ''A''),
     (31, kc CHR ''S''), (32, kc CHR ''D''), (33, kc CHR ''F''), (34, kc CHR ''G''),
     (35, kc CHR ''H''), (36, kc CHR ''J''), (37, kc CHR ''K''), (38, kc CHR ''L''),
     (39, KcRaw 0xBA), (40, KcRaw 0xDE), (41, KcRaw 0xC0), (42, KcShiftLeft), (43, KcRaw 0xDC),
     (44, kc CHR ''Z''), (45, kc CHR ''X''), (46, kc CHR ''C''), (47, kc CHR ''V''),
     (48, kc CHR ''B''), (49, kc CHR ''N''), (50, kc CHR ''M''), (51, KcRaw 0xBC),
     (52, KcRaw 0xBE), (53, KcRaw 0xBF), (54, KcShiftRight), (55, KcKeypadMultiply),
     (56, KcAltLeft), (57, KcSpace), (58, KcCapsLock), (59, KcF1), (60, KcF2), (61, KcF3),
     (62, KcF4), (63, KcF5), (64, KcF6), (65, KcF7), (66, KcF8), (67, KcF9), (68, KcF10),
     (69, KcNumLock), (70, KcRaw 0x91), (71, KcKeypad7), (72, KcKeypad8), (73, KcKeypad9),
     (74, KcKeypadSubtract), (75, KcKeypad4), (76, KcKeypad5), (77, KcKeypad6),
     (78, KcKeypadAdd), (79, KcKeypad1), (80, KcKeypad2), (81, KcKeypad3), (82, KcKeypad0),
     (83, KcKeypadDecimal), (86, KcRaw rshare_iso_102nd_raw), (87, KcF11), (88, KcF12),
     (96, KcKeypadEnter), (97, KcControlRight), (98, KcKeypadDivide), (99, KcRaw 0x2C),
     (210, KcRaw 0x2C), (100, KcAltRight), (102, KcHome), (103, KcUp), (104, KcPageUp),
     (105, KcLeft), (106, KcRight), (107, KcEnd), (108, KcDown), (109, KcPageDown),
     (110, KcInsert), (111, KcDelete), (119, KcRaw 0x13), (125, KcSuperLeft), (126, KcSuperRight)]"

definition linux_evdev_keycode_to_keycode :: "u32 \<Rightarrow> key_code option" where
  "linux_evdev_keycode_to_keycode keycode = map_of linux_evdev_keys keycode"

definition uinput_keys :: "(key_code \<times> u32) list" where
  "uinput_keys =
    [(kc CHR ''1'', 2), (kc CHR ''2'', 3), (kc CHR ''3'', 4), (kc CHR ''4'', 5),
     (kc CHR ''5'', 6), (kc CHR ''6'', 7), (kc CHR ''7'', 8), (kc CHR ''8'', 9),
     (kc CHR ''9'', 10), (kc CHR ''0'', 11), (kc CHR ''Q'', 16), (kc CHR ''W'', 17),
     (kc CHR ''E'', 18), (kc CHR ''R'', 19), (kc CHR ''T'', 20), (kc CHR ''Y'', 21),
     (kc CHR ''U'', 22), (kc CHR ''I'', 23), (kc CHR ''O'', 24), (kc CHR ''P'', 25),
     (kc CHR ''A'', 30), (kc CHR ''S'', 31), (kc CHR ''D'', 32), (kc CHR ''F'', 33),
     (kc CHR ''G'', 34), (kc CHR ''H'', 35), (kc CHR ''J'', 36), (kc CHR ''K'', 37),
     (kc CHR ''L'', 38), (kc CHR ''Z'', 44), (kc CHR ''X'', 45), (kc CHR ''C'', 46),
     (kc CHR ''V'', 47), (kc CHR ''B'', 48), (kc CHR ''N'', 49), (kc CHR ''M'', 50),
     (KcEscape, 1), (KcBackspace, 14), (KcTab, 15), (KcEnter, 28), (KcSpace, 57),
     (KcCapsLock, 58), (KcNumLock, 69), (KcShiftLeft, 42), (KcShiftRight, 54),
     (KcControlLeft, 29), (KcControlRight, 97), (KcAltLeft, 56), (KcAltRight, 100),
     (KcSuperLeft, 125), (KcSuperRight, 126), (KcF1, 59), (KcF2, 60), (KcF3, 61), (KcF4, 62),
     (KcF5, 63), (KcF6, 64), (KcF7, 65), (KcF8, 66), (KcF9, 67), (KcF10, 68), (KcF11, 87),
     (KcF12, 88), (KcHome, 102), (KcEnd, 107), (KcPageUp, 104), (KcPageDown, 109), (KcUp, 103),
     (KcDown, 108), (KcLeft, 105), (KcRight, 106), (KcInsert, 110), (KcDelete, 111),
     (KcKeypad0, 82), (KcKeypad1, 79), (KcKeypad2, 80), (KcKeypad3, 81), (KcKeypad4, 75),
     (KcKeypad5, 76), (KcKeypad6, 77), (KcKeypad7, 71), (KcKeypad8, 72), (KcKeypad9, 73),
     (KcKeypadAdd, 78), (KcKeypadSubtract, 74), (KcKeypadMultiply, 55), (KcKeypadDivide, 98),
     (KcKeypadDecimal, 83), (KcKeypadEnter, 96), (KcRaw 0xBD, 12), (KcRaw 0xBB, 13),
     (KcRaw 0xDB, 26), (KcRaw 0xDD, 27), (KcRaw 0xBA, 39), (KcRaw 0xDE, 40), (KcRaw 0xC0, 41),
     (KcRaw 0xDC, 43), (KcRaw rshare_iso_102nd_raw, 86), (KcRaw 0xBC, 51), (KcRaw 0xBE, 52),
     (KcRaw 0xBF, 53), (KcRaw 0x91, 70), (KcRaw 0x2C, 99), (KcRaw 0x13, 119)]"

definition keycode_to_linux_evdev_keycode :: "key_code \<Rightarrow> u32 option" where
  "keycode_to_linux_evdev_keycode k = map_of uinput_keys k"

section \<open>macOS\<close>

definition macos_keys :: "(u32 \<times> key_code) list" where
  "macos_keys =
    [(0x00, kc CHR ''A''), (0x01, kc CHR ''S''), (0x02, kc CHR ''D''), (0x03, kc CHR ''F''),
     (0x04, kc CHR ''H''), (0x05, kc CHR ''G''), (0x06, kc CHR ''Z''), (0x07, kc CHR ''X''),
     (0x08, kc CHR ''C''), (0x09, kc CHR ''V''), (0x0A, KcRaw rshare_iso_102nd_raw),
     (0x0B, kc CHR ''B''), (0x0C, kc CHR ''Q''), (0x0D, kc CHR ''W''), (0x0E, kc CHR ''E''),
     (0x0F, kc CHR ''R''), (0x10, kc CHR ''Y''), (0x11, kc CHR ''T''), (0x12, kc CHR ''1''),
     (0x13, kc CHR ''2''), (0x14, kc CHR ''3''), (0x15, kc CHR ''4''), (0x16, kc CHR ''6''),
     (0x17, kc CHR ''5''), (0x19, kc CHR ''9''), (0x1A, kc CHR ''7''), (0x1C, kc CHR ''8''),
     (0x1D, kc CHR ''0''), (0x1F, kc CHR ''O''), (0x20, kc CHR ''U''), (0x22, kc CHR ''I''),
     (0x23, kc CHR ''P''), (0x25, kc CHR ''L''), (0x26, kc CHR ''J''), (0x28, kc CHR ''K''),
     (0x2D, kc CHR ''N''), (0x2E, kc CHR ''M''), (0x18, KcRaw 0xBB), (0x1B, KcRaw 0xBD),
     (0x1E, KcRaw 0xDD), (0x21, KcRaw 0xDB), (0x27, KcRaw 0xDE), (0x29, KcRaw 0xBA),
     (0x2A, KcRaw 0xDC), (0x2B, KcRaw 0xBC), (0x2C, KcRaw 0xBF), (0x2F, KcRaw 0xBE),
     (0x32, KcRaw 0xC0), (0x24, KcEnter), (0x30, KcTab), (0x31, KcSpace), (0x33, KcBackspace),
     (0x35, KcEscape), (0x38, KcShiftLeft), (0x3C, KcShiftRight), (0x3B, KcControlLeft),
     (0x3E, KcControlRight), (0x3A, KcAltLeft), (0x3D, KcAltRight), (0x37, KcSuperLeft),
     (0x36, KcSuperRight), (0x39, KcCapsLock), (0x7A, KcF1), (0x78, KcF2), (0x63, KcF3),
     (0x76, KcF4), (0x60, KcF5), (0x61, KcF6), (0x62, KcF7), (0x64, KcF8), (0x65, KcF9),
     (0x6D, KcF10), (0x67, KcF11), (0x6F, KcF12), (0x7B, KcLeft), (0x7C, KcRight), (0x7E, KcUp),
     (0x7D, KcDown), (0x73, KcHome), (0x77, KcEnd), (0x74, KcPageUp), (0x79, KcPageDown),
     (0x75, KcDelete), (0x72, KcInsert), (0x47, KcNumLock), (0x52, KcKeypad0), (0x53, KcKeypad1),
     (0x54, KcKeypad2), (0x55, KcKeypad3), (0x56, KcKeypad4), (0x57, KcKeypad5),
     (0x58, KcKeypad6), (0x59, KcKeypad7), (0x5B, KcKeypad8), (0x5C, KcKeypad9),
     (0x45, KcKeypadAdd), (0x4E, KcKeypadSubtract), (0x43, KcKeypadMultiply),
     (0x4B, KcKeypadDivide), (0x41, KcKeypadDecimal), (0x4C, KcKeypadEnter)]"

definition key_code_from_macos_keycode :: "u32 \<Rightarrow> key_code option" where
  "key_code_from_macos_keycode keycode = map_of macos_keys keycode"

section \<open>Windows\<close>

definition windows_vk_keys :: "(u32 \<times> key_code) list" where
  "windows_vk_keys =
    [(0x08, KcBackspace), (0x09, KcTab), (0x0D, KcEnter), (0x10, KcShiftLeft),
     (0xA0, KcShiftLeft), (0xA1, KcShiftRight), (0x11, KcControlLeft), (0xA2, KcControlLeft),
     (0xA3, KcControlRight), (0x12, KcAltLeft), (0xA4, KcAltLeft), (0xA5, KcAltRight),
     (0x14, KcCapsLock), (0x1B, KcEscape), (0x20, KcSpace), (0x21, KcPageUp), (0x22, KcPageDown),
     (0x23, KcEnd), (0x24, KcHome), (0x25, KcLeft), (0x26, KcUp), (0x27, KcRight),
     (0x28, KcDown), (0x2D, KcInsert), (0x2E, KcDelete), (0x5B, KcSuperLeft),
     (0x5C, KcSuperRight), (0x60, KcKeypad0), (0x61, KcKeypad1), (0x62, KcKeypad2),
     (0x63, KcKeypad3), (0x64, KcKeypad4), (0x65, KcKeypad5), (0x66, KcKeypad6),
     (0x67, KcKeypad7), (0x68, KcKeypad8), (0x69, KcKeypad9), (0x6A, KcKeypadMultiply),
     (0x6B, KcKeypadAdd), (0x6D, KcKeypadSubtract), (0x6E, KcKeypadDecimal),
     (0x6F, KcKeypadDivide), (0x70, KcF1), (0x71, KcF2), (0x72, KcF3), (0x73, KcF4),
     (0x74, KcF5), (0x75, KcF6), (0x76, KcF7), (0x77, KcF8), (0x78, KcF9), (0x79, KcF10),
     (0x7A, KcF11), (0x7B, KcF12), (0x90, KcNumLock)]"

definition key_code_from_windows_vk :: "u32 \<Rightarrow> key_code option" where
  "key_code_from_windows_vk vk =
     (if is_char_code vk then Some (KcChar vk)
      else case map_of windows_vk_keys vk of
        Some k \<Rightarrow> Some k
      | None \<Rightarrow> if is_canonical_raw_keycode vk then Some (KcRaw vk) else None)"

text \<open>Bit 0 of the hook flags and bit 1 of the driver flags mark an extended key.\<close>

definition hook_extended :: "u32 \<Rightarrow> bool" where
  "hook_extended flags \<longleftrightarrow> odd flags"

definition driver_extended :: "u32 \<Rightarrow> bool" where
  "driver_extended flags \<longleftrightarrow> odd (flags div 2)"

definition key_code_from_windows_hook_key :: "u32 \<Rightarrow> u32 \<Rightarrow> u32 \<Rightarrow> key_code option" where
  "key_code_from_windows_hook_key vk scan_code flags =
     (let extended = hook_extended flags
      in if vk = 0x10 then
           (if scan_code = 0x2A then Some KcShiftLeft
            else if scan_code = 0x36 then Some KcShiftRight else None)
         else if vk = 0x11 then
           (if scan_code = 0x1D then Some (if extended then KcControlRight else KcControlLeft)
            else None)
         else if vk = 0x12 then
           (if scan_code = 0x38 then Some (if extended then KcAltRight else KcAltLeft) else None)
         else if vk = 0x0D then
           (if scan_code = 0x1C then Some (if extended then KcKeypadEnter else KcEnter) else None)
         else key_code_from_windows_vk vk)"

text \<open>The scan code table: \<open>None\<close> in the middle stands for the pattern \<open>_\<close> of its arm.\<close>

definition windows_scan_keys :: "(u32 \<times> bool option \<times> key_code) list" where
  "windows_scan_keys =
    [(0x01, None, KcEscape), (0x02, None, kc CHR ''1''), (0x03, None, kc CHR ''2''),
     (0x04, None, kc CHR ''3''), (0x05, None, kc CHR ''4''), (0x06, None, kc CHR ''5''),
     (0x07, None, kc CHR ''6''), (0x08, None, kc CHR ''7''), (0x09, None, kc CHR ''8''),
     (0x0A, None, kc CHR ''9''), (0x0B, None, kc CHR ''0''), (0x0C, None, KcRaw 0xBD),
     (0x0D, None, KcRaw 0xBB), (0x0E, None, KcBackspace), (0x0F, None, KcTab),
     (0x10, None, kc CHR ''Q''), (0x11, None, kc CHR ''W''), (0x12, None, kc CHR ''E''),
     (0x13, None, kc CHR ''R''), (0x14, None, kc CHR ''T''), (0x15, None, kc CHR ''Y''),
     (0x16, None, kc CHR ''U''), (0x17, None, kc CHR ''I''), (0x18, None, kc CHR ''O''),
     (0x19, None, kc CHR ''P''), (0x1A, None, KcRaw 0xDB), (0x1B, None, KcRaw 0xDD),
     (0x1C, Some False, KcEnter), (0x1C, Some True, KcKeypadEnter),
     (0x1D, Some False, KcControlLeft), (0x1D, Some True, KcControlRight),
     (0x1E, None, kc CHR ''A''), (0x1F, None, kc CHR ''S''), (0x20, None, kc CHR ''D''),
     (0x21, None, kc CHR ''F''), (0x22, None, kc CHR ''G''), (0x23, None, kc CHR ''H''),
     (0x24, None, kc CHR ''J''), (0x25, None, kc CHR ''K''), (0x26, None, kc CHR ''L''),
     (0x27, None, KcRaw 0xBA), (0x28, None, KcRaw 0xDE), (0x29, None, KcRaw 0xC0),
     (0x2A, None, KcShiftLeft), (0x2B, None, KcRaw 0xDC), (0x2C, None, kc CHR ''Z''),
     (0x2D, None, kc CHR ''X''), (0x2E, None, kc CHR ''C''), (0x2F, None, kc CHR ''V''),
     (0x30, None, kc CHR ''B''), (0x31, None, kc CHR ''N''), (0x32, None, kc CHR ''M''),
     (0x33, None, KcRaw 0xBC), (0x34, None, KcRaw 0xBE), (0x35, Some False, KcRaw 0xBF),
     (0x35, Some True, KcKeypadDivide), (0x36, None, KcShiftRight),
     (0x37, Some False, KcKeypadMultiply), (0x38, Some False, KcAltLeft),
     (0x38, Some True, KcAltRight), (0x39, None, KcSpace), (0x3A, None, KcCapsLock),
     (0x3B, None, KcF1), (0x3C, None, KcF2), (0x3D, None, KcF3), (0x3E, None, KcF4),
     (0x3F, None, KcF5), (0x40, None, KcF6), (0x41, None, KcF7), (0x42, None, KcF8),
     (0x43, None, KcF9), (0x44, None, KcF10), (0x45, None, KcNumLock),
     (0x47, Some False, KcKeypad7), (0x47, Some True, KcHome), (0x48, Some False, KcKeypad8),
     (0x48, Some True, KcUp), (0x49, Some False, KcKeypad9), (0x49, Some True, KcPageUp),
     (0x4A, Some False, KcKeypadSubtract), (0x4B, Some False, KcKeypad4),
     (0x4B, Some True, KcLeft), (0x4C, Some False, KcKeypad5), (0x4D, Some False, KcKeypad6),
     (0x4D, Some True, KcRight), (0x4E, Some False, KcKeypadAdd), (0x4F, Some False, KcKeypad1),
     (0x4F, Some True, KcEnd), (0x50, Some False, KcKeypad2), (0x50, Some True, KcDown),
     (0x51, Some False, KcKeypad3), (0x51, Some True, KcPageDown), (0x52, Some False, KcKeypad0),
     (0x52, Some True, KcInsert), (0x53, Some False, KcKeypadDecimal),
     (0x53, Some True, KcDelete), (0x56, Some False, KcRaw rshare_iso_102nd_raw),
     (0x57, None, KcF11), (0x58, None, KcF12), (0x5B, Some True, KcSuperLeft),
     (0x5C, Some True, KcSuperRight)]"

definition scan_arm :: "u32 \<Rightarrow> bool \<Rightarrow> u32 \<times> bool option \<times> key_code \<Rightarrow> bool" where
  "scan_arm scan_code extended arm \<longleftrightarrow>
     fst arm = scan_code \<and> (case fst (snd arm) of None \<Rightarrow> True | Some e \<Rightarrow> e = extended)"

definition key_code_from_windows_scan_code :: "u32 \<Rightarrow> u32 \<Rightarrow> key_code option" where
  "key_code_from_windows_scan_code scan_code flags =
     map_option (snd \<circ> snd) (find (scan_arm scan_code (driver_extended flags)) windows_scan_keys)"

section \<open>What the tables agree on\<close>

text \<open>
  A key is canonical when the wire number it is sent as names that key again: every semantic key
  is, a character if it is a digit or an upper-case letter, a raw number if it is in the listed
  set and does not stand for the keypad's Enter.
\<close>

definition canonical_key :: "key_code \<Rightarrow> bool" where
  "canonical_key k \<longleftrightarrow>
     (case k of
        KcChar c \<Rightarrow> is_char_code c
      | KcRaw r \<Rightarrow> is_canonical_raw_keycode r \<and> r \<noteq> rshare_keypad_enter_raw
      | _ \<Rightarrow> True)"

lemmas raw_constants = rshare_keypad_enter_raw_def rshare_iso_102nd_raw_def
lemmas wire_defs = to_raw_def default_raw_code_def default_raw_codes_def from_wire_def
  is_char_code_def wire_keys_def raw_constants kc_def

lemma map_of_list_all: "list_all P xs \<Longrightarrow> map_of xs k = Some v \<Longrightarrow> P (k, v)"
  by (auto simp: list_all_iff dest: map_of_SomeD)

lemma wire_keys_raw: "list_all (\<lambda>(r, k). to_raw k = r) wire_keys"
  by (simp add: wire_defs)

lemma to_raw_from_wire: "to_raw (from_wire r) = r"
proof (cases "map_of wire_keys r")
  case None
  then show ?thesis by (simp add: from_wire_def to_raw_def)
next
  case (Some k)
  then have "to_raw k = r" using map_of_list_all [OF wire_keys_raw] by fastforce
  then show ?thesis using Some by (simp add: from_wire_def to_raw_def [of "KcChar r"])
qed

lemma lookup_Cons: "map_of ((a, b) # xs) k = (if a = k then Some b else map_of xs k)"
  by simp

lemma default_raw_codes_wire: "list_all (\<lambda>(k, r). from_wire r = k) default_raw_codes"
  by (simp add: default_raw_codes_def from_wire_def is_char_code_def wire_keys_def raw_constants
      lookup_Cons del: map_of.simps(2))

text \<open>Every key but the characters and the raw numbers has a default code.\<close>

lemma semantic_keys_coded:
  "(case k of KcChar _ \<Rightarrow> True | KcRaw _ \<Rightarrow> True | _ \<Rightarrow> k \<in> set (map fst default_raw_codes))"
  unfolding default_raw_codes_def list.map fst_conv list.set by (cases k) simp_all

lemma to_raw_semantic:
  assumes "\<And>c. k \<noteq> KcChar c" and "\<And>r. k \<noteq> KcRaw r"
  shows "(k, to_raw k) \<in> set default_raw_codes"
proof -
  have "k \<in> fst ` set default_raw_codes"
    using semantic_keys_coded [of k] assms by (cases k) auto
  then obtain r where r: "map_of default_raw_codes k = Some r"
    by (metis map_of_eq_None_iff not_None_eq)
  have "to_raw k = default_raw_code k" using assms by (cases k) (auto simp: to_raw_def)
  then show ?thesis using r by (simp add: default_raw_code_def map_of_SomeD)
qed

lemma canonical_raw_wire:
  "list_all (\<lambda>r. r = rshare_keypad_enter_raw \<or> from_wire r = KcRaw r)
     [rshare_keypad_enter_raw, 0x13, 0x2C, 0x91, 0xBA, 0xBB, 0xBC, 0xBD, 0xBE, 0xBF,
      0xC0, 0xDB, 0xDC, 0xDD, 0xDE, rshare_iso_102nd_raw]"
  by (simp add: from_wire_def is_char_code_def wire_keys_def raw_constants
      lookup_Cons del: map_of.simps(2))

lemma wire_raw_unlisted: "is_canonical_raw_keycode r \<Longrightarrow> r \<noteq> rshare_keypad_enter_raw \<Longrightarrow> from_wire r = KcRaw r"
  using canonical_raw_wire unfolding is_canonical_raw_keycode_def list_all_iff by blast

lemma from_wire_to_raw:
  assumes "canonical_key k"
  shows "from_wire (to_raw k) = k"
proof -
  consider (char) c where "k = KcChar c" | (raw) r where "k = KcRaw r"
    | (semantic) "\<And>c. k \<noteq> KcChar c" "\<And>r. k \<noteq> KcRaw r" by blast
  then show ?thesis
  proof cases
    case char
    then show ?thesis using assms by (simp add: canonical_key_def to_raw_def from_wire_def)
  next
    case raw
    then show ?thesis using assms by (simp add: canonical_key_def to_raw_def wire_raw_unlisted)
  next
    case semantic
    then have "(k, to_raw k) \<in> set default_raw_codes" by (rule to_raw_semantic)
    then have "case (k, to_raw k) of (k, r) \<Rightarrow> from_wire r = k"
      using default_raw_codes_wire unfolding list_all_iff by blast
    then show ?thesis by simp
  qed
qed

lemma canonical_semantic: "\<lbrakk>\<And>c. k \<noteq> KcChar c; \<And>r. k \<noteq> KcRaw r\<rbrakk> \<Longrightarrow> canonical_key k"
  by (cases k) (auto simp: canonical_key_def)

section \<open>The native tables\<close>

lemma linux_keys_canonical: "list_all (\<lambda>(c, k). canonical_key k) linux_evdev_keys"
  by (simp add: linux_evdev_keys_def canonical_key_def kc_def is_char_code_def
      is_canonical_raw_keycode_def raw_constants)

lemma macos_keys_canonical: "list_all (\<lambda>(c, k). canonical_key k) macos_keys"
  by (simp add: macos_keys_def canonical_key_def kc_def is_char_code_def
      is_canonical_raw_keycode_def raw_constants)

lemma windows_vk_keys_canonical: "list_all (\<lambda>(c, k). canonical_key k) windows_vk_keys"
  by (simp add: windows_vk_keys_def canonical_key_def)

lemma windows_scan_keys_canonical: "list_all (\<lambda>(c, e, k). canonical_key k) windows_scan_keys"
  by (simp add: windows_scan_keys_def canonical_key_def kc_def is_char_code_def
      is_canonical_raw_keycode_def raw_constants)

lemma linux_canonical: "linux_evdev_keycode_to_keycode c = Some k \<Longrightarrow> canonical_key k"
  using map_of_list_all [OF linux_keys_canonical] by (fastforce simp: linux_evdev_keycode_to_keycode_def)

lemma macos_canonical: "key_code_from_macos_keycode c = Some k \<Longrightarrow> canonical_key k"
  using map_of_list_all [OF macos_keys_canonical] by (fastforce simp: key_code_from_macos_keycode_def)

lemma vk_canonical:
  assumes "key_code_from_windows_vk vk = Some k" and "vk < 0x100"
  shows "canonical_key k"
  using assms map_of_list_all [OF windows_vk_keys_canonical]
  by (fastforce simp: key_code_from_windows_vk_def canonical_key_def [of "KcChar vk"]
      canonical_key_def [of "KcRaw vk"] raw_constants split: if_splits option.splits)

lemma hook_canonical:
  assumes "key_code_from_windows_hook_key vk scan flags = Some k" and "vk < 0x100"
  shows "canonical_key k"
  using assms vk_canonical [of vk k]
  by (auto simp: key_code_from_windows_hook_key_def Let_def split: if_splits
      intro: canonical_semantic)

lemma scan_canonical: "key_code_from_windows_scan_code scan flags = Some k \<Longrightarrow> canonical_key k"
  using windows_scan_keys_canonical
  by (fastforce simp: key_code_from_windows_scan_code_def list_all_iff dest: find_SomeD)

lemma uinput_keys_inverse: "list_all (\<lambda>(k, c). linux_evdev_keycode_to_keycode c = Some k) uinput_keys"
  unfolding uinput_keys_def list.pred_inject prod.case
  by (intro conjI)
    (simp_all add: linux_evdev_keycode_to_keycode_def linux_evdev_keys_def lookup_Cons
      del: map_of.simps(2))

lemma linux_keys_inverse:
  "list_all (\<lambda>(c, k). c = 210 \<or> keycode_to_linux_evdev_keycode k = Some c) linux_evdev_keys"
  unfolding linux_evdev_keys_def list.pred_inject prod.case
  by (intro conjI)
    (simp_all add: keycode_to_linux_evdev_keycode_def uinput_keys_def kc_def lookup_Cons
      raw_constants del: map_of.simps(2))

end
