(* ===== verification/InputEvents.thy ===== *)
theory InputEvents
  imports InputProtocol KeyCodes
begin

text \<open>
  Input events (\<open>crates/rshare-input/src/events.rs\<close>) and their construction from what the
  platform captures report: the Windows low-level hook and filter driver, the macOS event tap and
  the Linux evdev reader. The platform structs are those of \<open>rshare-platform\<close>, with the fields
  the conversion reads; device paths and time stamps are dropped.
\<close>

section \<open>Events\<close>

record gamepad_button_state =
  gb_button :: gamepad_button
  gb_pressed :: bool

record gamepad_state =
  gs_gamepad_id :: u8
  gs_sequence :: u64
  gs_buttons :: "gamepad_button_state list"
  gs_left_stick_x :: i16
  gs_left_stick_y :: i16
  gs_right_stick_x :: i16
  gs_right_stick_y :: i16
  gs_left_trigger :: u16
  gs_right_trigger :: u16
  gs_timestamp_ms :: u64

definition gamepad_neutral :: "u8 \<Rightarrow> u64 \<Rightarrow> u64 \<Rightarrow> gamepad_state" where
  "gamepad_neutral gamepad_id sequence timestamp_ms =
     \<lparr>gs_gamepad_id = gamepad_id, gs_sequence = sequence, gs_buttons = [], gs_left_stick_x = 0,
      gs_left_stick_y = 0, gs_right_stick_x = 0, gs_right_stick_y = 0, gs_left_trigger = 0,
      gs_right_trigger = 0, gs_timestamp_ms = timestamp_ms\<rparr>"

datatype input_event =
    MouseMove i32 i32
  | MouseButton mouse_button button_state
  | MouseWheel i32 i32
  | Key key_code button_state
  | KeyExtended key_code button_state bool bool bool bool
  | TextCommit string
  | GamepadConnected gamepad_device_info
  | GamepadDisconnected u8
  | GamepadButton u8 gamepad_button bool gamepad_state
  | GamepadState gamepad_state

definition pressed_if :: "bool \<Rightarrow> button_state" where
  "pressed_if down = (if down then BtnPressed else BtnReleased)"

section \<open>Captured events\<close>

text \<open>\<open>as u8\<close> and \<open>as u32\<close> truncate; a driver value is an i32.\<close>

definition as_u8 :: "int \<Rightarrow> u8" where
  "as_u8 v = nat (v mod 256)"

definition as_u32 :: "int \<Rightarrow> u32" where
  "as_u32 v = nat (v mod 4294967296)"

datatype macos_input_event =
    MacMouseMove i32 i32 i32 i32
  | MacMouseButton u8 bool
  | MacMouseWheel i32 i32
  | MacKey u32 bool

definition from_macos_event :: "macos_input_event \<Rightarrow> input_event option" where
  "from_macos_event e =
     (case e of
        MacMouseMove x y delta_x delta_y \<Rightarrow> Some (MouseMove x y)
      | MacMouseButton button down \<Rightarrow> Some (MouseButton (button_from_code button) (pressed_if down))
      | MacMouseWheel delta_x delta_y \<Rightarrow> Some (MouseWheel delta_x delta_y)
      | MacKey keycode down \<Rightarrow>
          map_option (\<lambda>k. Key k (pressed_if down)) (key_code_from_macos_keycode keycode))"

datatype windows_input_event =
    WinMouseMove i32 i32
  | WinMouseButton u8 bool
  | WinMouseWheel i32 i32
  | WinKey u32 u32 u32 bool

definition from_windows_event :: "windows_input_event \<Rightarrow> input_event option" where
  "from_windows_event e =
     (case e of
        WinMouseMove x y \<Rightarrow> Some (MouseMove x y)
      | WinMouseButton button down \<Rightarrow> Some (MouseButton (button_from_code button) (pressed_if down))
      | WinMouseWheel delta_x delta_y \<Rightarrow> Some (MouseWheel delta_x delta_y)
      | WinKey vk scan_code flags down \<Rightarrow>
          map_option (\<lambda>k. Key k (pressed_if down)) (key_code_from_windows_hook_key vk scan_code flags))"

datatype windows_driver_device_kind = DrvKeyboard | DrvMouse | DrvGamepad

datatype windows_driver_event_kind =
  DrvKey | DrvMouseMove | DrvMouseButton | DrvMouseWheel | DrvSynthetic

record windows_driver_input_event =
  wd_device_kind :: windows_driver_device_kind
  wd_event_kind :: windows_driver_event_kind
  wd_value0 :: i32
  wd_value1 :: i32
  wd_value2 :: i32
  wd_flags :: u32

definition from_windows_driver_event :: "windows_driver_input_event \<Rightarrow> input_event option" where
  "from_windows_driver_event e =
     (case (wd_device_kind e, wd_event_kind e) of
        (DrvKeyboard, DrvKey) \<Rightarrow>
          (let st = pressed_if (wd_value1 e \<noteq> 0);
               flags = if wd_flags e \<noteq> 0 then wd_flags e else as_u32 (wd_value2 e)
           in map_option (\<lambda>k. Key k st)
                (key_code_from_windows_scan_code (as_u32 (wd_value0 e)) flags))
      | (DrvMouse, DrvMouseMove) \<Rightarrow> Some (MouseMove (wd_value0 e) (wd_value1 e))
      | (DrvMouse, DrvMouseButton) \<Rightarrow>
          Some (MouseButton (button_from_code (as_u8 (wd_value0 e))) (pressed_if (wd_value1 e \<noteq> 0)))
      | (DrvMouse, DrvMouseWheel) \<Rightarrow> Some (MouseWheel (wd_value0 e) (wd_value1 e))
      | _ \<Rightarrow> None)"

datatype evdev_driver_event =
    EvMouseMove i32 i32
  | EvMouseButton u32 bool
  | EvMouseWheel i32 i32
  | EvKey u32 bool

definition from_evdev_driver_event :: "evdev_driver_event \<Rightarrow> input_event option" where
  "from_evdev_driver_event e =
     (case e of
        EvMouseMove x y \<Rightarrow> Some (MouseMove x y)
      | EvMouseButton button pressed \<Rightarrow>
          Some (MouseButton (button_from_code (button mod 256)) (pressed_if pressed))
      | EvMouseWheel delta_x delta_y \<Rightarrow> Some (MouseWheel delta_x delta_y)
      | EvKey keycode pressed \<Rightarrow>
          map_option (\<lambda>k. Key k (pressed_if pressed)) (linux_evdev_keycode_to_keycode keycode))"

section \<open>Properties\<close>

text \<open>
  C16. The wire numbering of keys is a round trip. Decoding any number and encoding it again
  gives the number back, so no peer's key is altered by a relay; and a key whose number is
  canonical (a digit or upper-case letter, any named key, a listed raw code) is decoded to
  exactly itself.
\<close>

theorem key_wire_roundtrip:
  "to_raw (from_wire r) = r \<and> (canonical_key k \<longrightarrow> from_wire (to_raw k) = k)"
  by (simp add: to_raw_from_wire from_wire_to_raw)

theorem key_wire_roundtrip_witness:
  "to_raw (from_wire 0x70) = 0x70 \<and> from_wire (to_raw KcEscape) = KcEscape"
  using key_wire_roundtrip [of "0x70" KcEscape] by (simp add: canonical_key_def)

text \<open>
  Whatever a capture reports, on Linux, macOS or Windows (hook with a virtual-key code below
  256, or filter driver), the key it becomes survives the wire: the receiving side, decoding the
  number sent for it, gets the same key. Nothing that has no stable number is forwarded.
\<close>

theorem captured_keys_survive_wire:
  assumes "from_evdev_driver_event ev = Some (Key k st) \<or> from_macos_event mac = Some (Key k st) \<or>
    from_windows_driver_event drv = Some (Key k st) \<or>
    (from_windows_event (WinKey vk scan flags down) = Some (Key k st) \<and> vk < 0x100)"
  shows "from_wire (to_raw k) = k"
proof (rule from_wire_to_raw)
  show "canonical_key k"
    using assms
    by (auto simp: from_evdev_driver_event_def from_macos_event_def from_windows_driver_event_def
        from_windows_event_def Let_def
        split: evdev_driver_event.splits macos_input_event.splits windows_driver_device_kind.splits
          windows_driver_event_kind.splits
        intro: linux_canonical macos_canonical scan_canonical hook_canonical)
qed

theorem captured_keys_survive_wire_witness:
  "from_evdev_driver_event (EvKey 12 True) = Some (Key (KcRaw 0xBD) BtnPressed) \<and>
   from_wire (to_raw (KcRaw 0xBD)) = KcRaw 0xBD"
proof -
  have "from_evdev_driver_event (EvKey 12 True) = Some (Key (KcRaw 0xBD) BtnPressed)"
    by (simp add: from_evdev_driver_event_def pressed_if_def linux_evdev_keycode_to_keycode_def
        linux_evdev_keys_def)
  then show ?thesis using captured_keys_survive_wire [of "EvKey 12 True"] by blast
qed

text \<open>
  The uinput table inverts the evdev table: the code injected for a key is one the capture
  reads back as that key, and the code captured for a key is the one injected for it, with the
  single exception of the second Print key (210), which is injected as 99.
\<close>

theorem uinput_inverts_evdev:
  "(keycode_to_linux_evdev_keycode k = Some c \<longrightarrow> linux_evdev_keycode_to_keycode c = Some k) \<and>
   (linux_evdev_keycode_to_keycode c = Some k \<and> c \<noteq> 210 \<longrightarrow>
      keycode_to_linux_evdev_keycode k = Some c)"
  using map_of_list_all [OF uinput_keys_inverse, of k c]
    map_of_list_all [OF linux_keys_inverse, of c k]
  by (auto simp: keycode_to_linux_evdev_keycode_def [of k] linux_evdev_keycode_to_keycode_def [of c])

theorem uinput_inverts_evdev_witness:
  "linux_evdev_keycode_to_keycode 16 = Some (KcChar 81) \<and>
   keycode_to_linux_evdev_keycode (KcChar 81) = Some 16"
proof -
  have "linux_evdev_keycode_to_keycode 16 = Some (KcChar 81)"
    by (simp add: linux_evdev_keycode_to_keycode_def linux_evdev_keys_def kc_def)
  then show ?thesis using uinput_inverts_evdev [of "KcChar 81" 16] by simp
qed

end
