(* ===== verification/Ingress.thy ===== *)
theory Ingress
  imports InputEvents
begin

text \<open>
  The bounded ingress between a capture callback and the daemon
  (\<open>crates/rshare-input/src/ingress.rs\<close>). The mutex makes every call atomic, so a call is one
  transition of the shared state; the clock's reading is an argument of the calls that take one,
  an asynchronous \<open>recv\<close> is one poll of it, and \<open>None\<close> stands for the panic of an exhausted
  statistics counter. Wake-ups of waiting tasks are the runtime's and are not modelled.
\<close>

section \<open>Captured inputs\<close>

datatype capture_source =
  PortableHook | WindowsHook | WindowsFilter | Evdev | GamepadSource | TestSource

record capture_origin =
  co_source :: capture_source
  co_device_token :: u64
  co_instance_token :: u64

definition default_origin :: capture_origin where
  "default_origin = \<lparr>co_source = PortableHook, co_device_token = 0, co_instance_token = 0\<rparr>"

record pointer_position =
  pp_x :: i32
  pp_y :: i32

datatype pointer_sample =
    AbsoluteSample i32 i32
  | RelativeSample i32 i32 "i32 option" "i32 option"

record gamepad_axes =
  ga_gamepad_id :: u8
  ga_sequence :: u64
  ga_buttons :: "gamepad_button_state list"
  ga_left_stick_x :: i16
  ga_left_stick_y :: i16
  ga_right_stick_x :: i16
  ga_right_stick_y :: i16
  ga_left_trigger :: u16
  ga_right_trigger :: u16
  ga_timestamp_ms :: u64

definition axes_from_state :: "gamepad_state \<Rightarrow> gamepad_axes" where
  "axes_from_state s =
     \<lparr>ga_gamepad_id = gs_gamepad_id s, ga_sequence = gs_sequence s, ga_buttons = gs_buttons s,
      ga_left_stick_x = gs_left_stick_x s, ga_left_stick_y = gs_left_stick_y s,
      ga_right_stick_x = gs_right_stick_x s, ga_right_stick_y = gs_right_stick_y s,
      ga_left_trigger = gs_left_trigger s, ga_right_trigger = gs_right_trigger s,
      ga_timestamp_ms = gs_timestamp_ms s\<rparr>"

definition state_from_axes :: "gamepad_axes \<Rightarrow> gamepad_state" where
  "state_from_axes a =
     \<lparr>gs_gamepad_id = ga_gamepad_id a, gs_sequence = ga_sequence a, gs_buttons = ga_buttons a,
      gs_left_stick_x = ga_left_stick_x a, gs_left_stick_y = ga_left_stick_y a,
      gs_right_stick_x = ga_right_stick_x a, gs_right_stick_y = ga_right_stick_y a,
      gs_left_trigger = ga_left_trigger a, gs_right_trigger = ga_right_trigger a,
      gs_timestamp_ms = ga_timestamp_ms a\<rparr>"

datatype continuous_input = PointerInput pointer_sample | GamepadAxesInput gamepad_axes

datatype captured_input_payload = Continuous continuous_input | Discrete input_event

fun is_replaceable :: "captured_input_payload \<Rightarrow> bool" where
  "is_replaceable (Continuous _) = True"
| "is_replaceable (Discrete _) = False"

fun same_replaceable_class :: "captured_input_payload \<Rightarrow> captured_input_payload \<Rightarrow> bool" where
  "same_replaceable_class (Continuous (PointerInput (AbsoluteSample _ _)))
     (Continuous (PointerInput (AbsoluteSample _ _))) = True"
| "same_replaceable_class (Continuous (PointerInput (RelativeSample _ _ _ _)))
     (Continuous (PointerInput (RelativeSample _ _ _ _))) = True"
| "same_replaceable_class (Continuous (GamepadAxesInput l)) (Continuous (GamepadAxesInput r)) =
     (ga_gamepad_id l = ga_gamepad_id r)"
| "same_replaceable_class _ _ = False"

definition payload_from_event :: "input_event \<Rightarrow> captured_input_payload" where
  "payload_from_event e =
     (case e of MouseMove x y \<Rightarrow> Continuous (PointerInput (AbsoluteSample x y)) | _ \<Rightarrow> Discrete e)"

record captured_input =
  ci_captured_at :: monotonic_stamp
  ci_ingress_enqueued_at :: monotonic_stamp
  ci_origin :: capture_origin
  ci_pointer :: "pointer_position option"
  ci_payload :: captured_input_payload

datatype conversion_error = RelativePointerWithoutObservedPosition

definition into_input_event :: "captured_input \<Rightarrow> conversion_error + input_event" where
  "into_input_event item =
     (case ci_payload item of
        Discrete e \<Rightarrow> Inr e
      | Continuous (PointerInput (AbsoluteSample x y)) \<Rightarrow> Inr (MouseMove x y)
      | Continuous (PointerInput (RelativeSample _ _ (Some x) (Some y))) \<Rightarrow> Inr (MouseMove x y)
      | Continuous (PointerInput (RelativeSample _ _ _ _)) \<Rightarrow>
          Inl RelativePointerWithoutObservedPosition
      | Continuous (GamepadAxesInput axes) \<Rightarrow> Inr (GamepadState (state_from_axes axes)))"

section \<open>The shared state\<close>

datatype push_outcome =
  Enqueued | Coalesced | RealtimeReplaced | RealtimeDropped | ReliableOverflow | PushClosed

datatype ingress_fault = ReliableOverflowFault | CaptureDiscontinuity

record ingress_stats =
  st_capacity :: usize
  st_pending_items :: usize
  st_enqueued :: u64
  st_dequeued :: u64
  st_coalesced_motion :: u64
  st_replaced_realtime :: u64
  st_dropped_realtime :: u64
  st_reliable_overflow :: u64
  st_reliable_overflow_latched :: bool
  st_closed :: bool

record ingress_state =
  is_queue :: "captured_input list"
  is_capacity :: usize
  is_latest_pointer :: "pointer_position option"
  is_enqueued :: u64
  is_dequeued :: u64
  is_coalesced_motion :: u64
  is_replaced_realtime :: u64
  is_dropped_realtime :: u64
  is_reliable_overflow :: u64
  is_reliable_overflow_latched :: bool
  is_capture_discontinuity_latched :: bool
  is_closed :: bool

text \<open>\<open>SharedIngress\<close>: the locked state and the number of live producers.\<close>

record shared_ingress =
  sh_state :: ingress_state
  sh_producer_count :: usize

definition ingress_new :: "usize \<Rightarrow> shared_ingress option" where
  "ingress_new capacity =
     (if 0 < capacity then
        Some \<lparr>sh_state = \<lparr>is_queue = [], is_capacity = capacity, is_latest_pointer = None,
                is_enqueued = 0, is_dequeued = 0, is_coalesced_motion = 0,
                is_replaced_realtime = 0, is_dropped_realtime = 0, is_reliable_overflow = 0,
                is_reliable_overflow_latched = False, is_capture_discontinuity_latched = False,
                is_closed = False\<rparr>,
              sh_producer_count = 1\<rparr>
      else None)"

definition stats_of :: "ingress_state \<Rightarrow> ingress_stats" where
  "stats_of s =
     \<lparr>st_capacity = is_capacity s, st_pending_items = length (is_queue s),
      st_enqueued = is_enqueued s, st_dequeued = is_dequeued s,
      st_coalesced_motion = is_coalesced_motion s, st_replaced_realtime = is_replaced_realtime s,
      st_dropped_realtime = is_dropped_realtime s, st_reliable_overflow = is_reliable_overflow s,
      st_reliable_overflow_latched = is_reliable_overflow_latched s, st_closed = is_closed s\<rparr>"

definition oldest_replaceable_index :: "ingress_state \<Rightarrow> usize option" where
  "oldest_replaceable_index s = find_index (is_replaceable \<circ> ci_payload) (is_queue s)"

definition pop_fault :: "ingress_state \<Rightarrow> ingress_fault option \<times> ingress_state" where
  "pop_fault s =
     (if is_capture_discontinuity_latched s
      then (Some CaptureDiscontinuity, s\<lparr>is_capture_discontinuity_latched := False\<rparr>)
      else if is_reliable_overflow_latched s
      then (Some ReliableOverflowFault, s\<lparr>is_reliable_overflow_latched := False\<rparr>)
      else (None, s))"

definition update_pointer :: "captured_input \<Rightarrow> ingress_state \<Rightarrow> captured_input \<times> ingress_state" where
  "update_pointer item s =
     (case ci_payload item of
        Continuous (PointerInput (AbsoluteSample x y)) \<Rightarrow>
          (let p = Some \<lparr>pp_x = x, pp_y = y\<rparr>
           in (item\<lparr>ci_pointer := p\<rparr>, s\<lparr>is_latest_pointer := p\<rparr>))
      | Continuous (PointerInput (RelativeSample _ _ ox oy)) \<Rightarrow>
          (let p = (case (ox, oy) of (Some x, Some y) \<Rightarrow> Some \<lparr>pp_x = x, pp_y = y\<rparr>
                                   | _ \<Rightarrow> is_latest_pointer s)
           in (item\<lparr>ci_pointer := p\<rparr>, s\<lparr>is_latest_pointer := p\<rparr>))
      | Discrete _ \<Rightarrow> (item\<lparr>ci_pointer := is_latest_pointer s\<rparr>, s)
      | Continuous (GamepadAxesInput _) \<Rightarrow> (item, s))"

section \<open>The producer\<close>

text \<open>The result is \<open>None\<close> when the summed motion leaves the i32 range: the back item is kept.\<close>

definition coalesce_back :: "captured_input \<Rightarrow> captured_input \<Rightarrow> captured_input option" where
  "coalesce_back back incoming =
     (case (ci_payload back, ci_payload incoming) of
        (Continuous (PointerInput (RelativeSample bdx bdy box boy)),
         Continuous (PointerInput (RelativeSample dx dy ox oy))) \<Rightarrow>
          (case (checked_i32 (bdx + dx), checked_i32 (bdy + dy)) of
             (Some next_dx, Some next_dy) \<Rightarrow>
               Some (back\<lparr>ci_payload := Continuous (PointerInput (RelativeSample next_dx next_dy
                            (if ox \<noteq> None then ox else box) (if oy \<noteq> None then oy else boy))),
                          ci_ingress_enqueued_at := ci_ingress_enqueued_at incoming,
                          ci_pointer := ci_pointer incoming\<rparr>)
           | _ \<Rightarrow> None)
      | _ \<Rightarrow>
          Some (back\<lparr>ci_payload := ci_payload incoming,
                     ci_captured_at := ci_captured_at incoming,
                     ci_ingress_enqueued_at := ci_ingress_enqueued_at incoming,
                     ci_origin := ci_origin incoming,
                     ci_pointer := ci_pointer incoming\<rparr>))"

definition capture :: "monotonic_stamp \<Rightarrow> capture_origin \<Rightarrow> captured_input_payload \<Rightarrow> captured_input" where
  "capture now origin payload =
     \<lparr>ci_captured_at = now, ci_ingress_enqueued_at = now, ci_origin = origin, ci_pointer = None,
      ci_payload = payload\<rparr>"

text \<open>A statistics counter is advanced together with the rest of the update, or the call panics.\<close>

definition coalesces_with_back :: "captured_input \<Rightarrow> ingress_state \<Rightarrow> bool" where
  "coalesces_with_back item s \<longleftrightarrow>
     is_replaceable (ci_payload item) \<and> is_queue s \<noteq> [] \<and>
     ci_origin (last (is_queue s)) = ci_origin item \<and>
     same_replaceable_class (ci_payload (last (is_queue s))) (ci_payload item)"

definition push_coalescing ::
  "captured_input \<Rightarrow> ingress_state \<Rightarrow> (push_outcome \<times> ingress_state) option" where
  "push_coalescing item s =
     (case coalesce_back (last (is_queue s)) item of
        Some back \<Rightarrow>
          map_option (\<lambda>n. (Coalesced, s\<lparr>is_queue := butlast (is_queue s) @ [back],
                                         is_coalesced_motion := n\<rparr>))
            (checked_inc (is_coalesced_motion s))
      | None \<Rightarrow>
          map_option (\<lambda>n. (RealtimeDropped, s\<lparr>is_dropped_realtime := n\<rparr>))
            (checked_inc (is_dropped_realtime s)))"

definition push_full ::
  "captured_input \<Rightarrow> ingress_state \<Rightarrow> (push_outcome \<times> ingress_state) option" where
  "push_full item s =
     (case oldest_replaceable_index s of
        Some index \<Rightarrow>
          map_option (\<lambda>n. (RealtimeReplaced, s\<lparr>is_queue := remove_nth index (is_queue s) @ [item],
                                                is_replaced_realtime := n\<rparr>))
            (checked_inc (is_replaced_realtime s))
      | None \<Rightarrow>
          if is_replaceable (ci_payload item)
          then map_option (\<lambda>n. (RealtimeDropped, s\<lparr>is_dropped_realtime := n\<rparr>))
                 (checked_inc (is_dropped_realtime s))
          else map_option (\<lambda>n. (ReliableOverflow, s\<lparr>is_reliable_overflow := n,
                                                    is_reliable_overflow_latched := True\<rparr>))
                 (checked_inc (is_reliable_overflow s)))"

definition try_push ::
  "monotonic_stamp \<Rightarrow> captured_input \<Rightarrow> ingress_state \<Rightarrow> (push_outcome \<times> ingress_state) option" where
  "try_push now item s =
     (if is_closed s then Some (PushClosed, s)
      else let (item, s) = update_pointer (item\<lparr>ci_ingress_enqueued_at := now\<rparr>) s
           in if coalesces_with_back item s then push_coalescing item s
              else if length (is_queue s) = is_capacity s then push_full item s
              else map_option (\<lambda>n. (Enqueued, s\<lparr>is_queue := is_queue s @ [item], is_enqueued := n\<rparr>))
                     (checked_inc (is_enqueued s)))"

definition try_push_event ::
  "monotonic_stamp \<Rightarrow> monotonic_stamp \<Rightarrow> capture_origin \<Rightarrow> input_event \<Rightarrow> ingress_state
     \<Rightarrow> (push_outcome \<times> ingress_state) option" where
  "try_push_event captured now origin e s = try_push now (capture captured origin (payload_from_event e)) s"

definition report_fault :: "ingress_fault \<Rightarrow> ingress_state \<Rightarrow> ingress_state option" where
  "report_fault fault s =
     (if is_closed s then Some s
      else case fault of
        ReliableOverflowFault \<Rightarrow>
          map_option (\<lambda>n. s\<lparr>is_reliable_overflow := n, is_reliable_overflow_latched := True\<rparr>)
            (checked_inc (is_reliable_overflow s))
      | CaptureDiscontinuity \<Rightarrow> Some (s\<lparr>is_capture_discontinuity_latched := True\<rparr>))"

definition ingress_close :: "ingress_state \<Rightarrow> ingress_state" where
  "ingress_close s = s\<lparr>is_closed := True\<rparr>"

text \<open>The count of live producers: cloning panics at the top, dropping the last one closes.\<close>

definition producer_clone :: "shared_ingress \<Rightarrow> shared_ingress option" where
  "producer_clone sh =
     map_option (\<lambda>n. sh\<lparr>sh_producer_count := n\<rparr>) (checked_inc (sh_producer_count sh))"

definition producer_drop :: "shared_ingress \<Rightarrow> shared_ingress" where
  "producer_drop sh =
     (let count = sh_producer_count sh;
          sh' = sh\<lparr>sh_producer_count := (if count = 0 then u64_max else count - 1)\<rparr>
      in if count = 1 then sh'\<lparr>sh_state := ingress_close (sh_state sh')\<rparr> else sh')"

section \<open>The consumer\<close>

definition consumer_drop :: "ingress_state \<Rightarrow> ingress_state" where
  "consumer_drop s = s\<lparr>is_closed := True\<rparr>"

definition ingress_try_recv :: "ingress_state \<Rightarrow> (captured_input option \<times> ingress_state) option" where
  "ingress_try_recv s =
     (case is_queue s of
        [] \<Rightarrow> Some (None, s)
      | item # rest \<Rightarrow>
          map_option (\<lambda>n. (Some item, s\<lparr>is_queue := rest, is_dequeued := n\<rparr>))
            (checked_inc (is_dequeued s)))"

datatype 'a poll = Pending | Ready 'a

datatype ingress_event = InputEvent captured_input | FaultEvent ingress_fault

definition recv_poll :: "ingress_state \<Rightarrow> (captured_input option poll \<times> ingress_state) option" where
  "recv_poll s =
     (case ingress_try_recv s of
        None \<Rightarrow> None
      | Some (Some item, s') \<Rightarrow> Some (Ready (Some item), s')
      | Some (None, s') \<Rightarrow> Some (if is_closed s' then Ready None else Pending, s'))"

definition recv_event_poll :: "ingress_state \<Rightarrow> (ingress_event option poll \<times> ingress_state) option" where
  "recv_event_poll s =
     (case pop_fault s of
        (Some fault, s') \<Rightarrow> Some (Ready (Some (FaultEvent fault)), s')
      | (None, s') \<Rightarrow>
          (case ingress_try_recv s' of
             None \<Rightarrow> None
           | Some (Some item, s'') \<Rightarrow> Some (Ready (Some (InputEvent item)), s'')
           | Some (None, s'') \<Rightarrow> Some (if is_closed s'' then Ready None else Pending, s'')))"

end
