(* ===== verification/IngressSpec.thy ===== *)
theory IngressSpec
  imports Ingress
begin

text \<open>
  The ingress as a machine of calls, its invariant, and what a run of calls conserves. The calls
  of all producers and of the consumer are interleaved in one list, as the mutex orders them.
\<close>

section \<open>Calls\<close>

datatype ingress_op =
    PushOp monotonic_stamp captured_input
  | FaultOp ingress_fault
  | CloseOp
  | TryRecvOp
  | RecvOp
  | RecvEventOp
  | PopFaultOp
  | CloneOp
  | DropProducerOp
  | DropConsumerOp

datatype ingress_obs =
    Pushed captured_input push_outcome
  | Received captured_input
  | Faulted ingress_fault

definition on_state ::
  "('r \<times> ingress_state) option \<Rightarrow> ('r \<Rightarrow> ingress_obs list) \<Rightarrow> shared_ingress
     \<Rightarrow> ingress_obs list \<times> shared_ingress option" where
  "on_state r f sh =
     (case r of None \<Rightarrow> ([], None) | Some (x, s) \<Rightarrow> (f x, Some (sh\<lparr>sh_state := s\<rparr>)))"

fun event_obs :: "ingress_event option poll \<Rightarrow> ingress_obs list" where
  "event_obs (Ready (Some (InputEvent i))) = [Received i]"
| "event_obs (Ready (Some (FaultEvent f))) = [Faulted f]"
| "event_obs _ = []"

fun input_obs :: "captured_input option poll \<Rightarrow> ingress_obs list" where
  "input_obs (Ready (Some i)) = [Received i]"
| "input_obs _ = []"

definition option_obs :: "('a \<Rightarrow> ingress_obs) \<Rightarrow> 'a option \<Rightarrow> ingress_obs list" where
  "option_obs f x = (case x of None \<Rightarrow> [] | Some y \<Rightarrow> [f y])"

text \<open>A producer can only be dropped while there is one.\<close>

fun ingress_call :: "shared_ingress \<Rightarrow> ingress_op \<Rightarrow> ingress_obs list \<times> shared_ingress option" where
  "ingress_call sh (PushOp now item) =
     on_state (try_push now item (sh_state sh)) (\<lambda>r. [Pushed item r]) sh"
| "ingress_call sh (FaultOp fault) =
     on_state (map_option (Pair ()) (report_fault fault (sh_state sh))) (\<lambda>_. []) sh"
| "ingress_call sh CloseOp = on_state (Some ((), ingress_close (sh_state sh))) (\<lambda>_. []) sh"
| "ingress_call sh TryRecvOp = on_state (ingress_try_recv (sh_state sh)) (option_obs Received) sh"
| "ingress_call sh RecvOp = on_state (recv_poll (sh_state sh)) input_obs sh"
| "ingress_call sh RecvEventOp = on_state (recv_event_poll (sh_state sh)) event_obs sh"
| "ingress_call sh PopFaultOp = on_state (Some (pop_fault (sh_state sh))) (option_obs Faulted) sh"
| "ingress_call sh CloneOp = ([], producer_clone sh)"
| "ingress_call sh DropProducerOp =
     ([], Some (if sh_producer_count sh = 0 then sh else producer_drop sh))"
| "ingress_call sh DropConsumerOp = on_state (Some ((), consumer_drop (sh_state sh))) (\<lambda>_. []) sh"

text \<open>A call that panics poisons the mutex: no later call gets through.\<close>

fun ingress_step ::
  "shared_ingress option \<Rightarrow> ingress_op \<Rightarrow> ingress_obs list \<times> shared_ingress option" where
  "ingress_step None _ = ([], None)"
| "ingress_step (Some sh) call = ingress_call sh call"

section \<open>The invariant\<close>

fun payload_ok :: "captured_input_payload \<Rightarrow> bool" where
  "payload_ok (Continuous (PointerInput (RelativeSample dx dy _ _))) \<longleftrightarrow> in_i32 dx \<and> in_i32 dy"
| "payload_ok _ \<longleftrightarrow> True"

definition ingress_ok :: "ingress_state \<Rightarrow> bool" where
  "ingress_ok s \<longleftrightarrow>
     0 < is_capacity s \<and> length (is_queue s) \<le> is_capacity s \<and>
     is_enqueued s = is_dequeued s + length (is_queue s) \<and> is_enqueued s \<le> u64_max \<and>
     (\<forall>item\<in>set (is_queue s). payload_ok (ci_payload item))"

definition shared_ok :: "shared_ingress option \<Rightarrow> bool" where
  "shared_ok sh \<longleftrightarrow>
     (case sh of None \<Rightarrow> True
      | Some s \<Rightarrow> ingress_ok (sh_state s) \<and> (sh_producer_count s = 0 \<longrightarrow> is_closed (sh_state s)))"

fun op_ok :: "ingress_op \<Rightarrow> bool" where
  "op_ok (PushOp now item) \<longleftrightarrow> payload_ok (ci_payload item)"
| "op_ok _ \<longleftrightarrow> True"

section \<open>What is counted\<close>

text \<open>The discrete events of a list of inputs, and the relative motion it carries.\<close>

fun discretes :: "captured_input list \<Rightarrow> (capture_origin \<times> input_event) list" where
  "discretes [] = []"
| "discretes (item # xs) =
     (case ci_payload item of
        Discrete e \<Rightarrow> (ci_origin item, e) # discretes xs | Continuous _ \<Rightarrow> discretes xs)"

fun payload_motion :: "captured_input_payload \<Rightarrow> i32 \<times> i32" where
  "payload_motion (Continuous (PointerInput (RelativeSample dx dy _ _))) = (dx, dy)"
| "payload_motion _ = (0, 0)"

definition motion_x :: "captured_input list \<Rightarrow> int" where
  "motion_x xs = sum_list (map (fst \<circ> payload_motion \<circ> ci_payload) xs)"

definition motion_y :: "captured_input list \<Rightarrow> int" where
  "motion_y xs = sum_list (map (snd \<circ> payload_motion \<circ> ci_payload) xs)"

fun accepted :: "ingress_obs list \<Rightarrow> captured_input list" where
  "accepted [] = []"
| "accepted (Pushed item r # os) =
     (if r \<in> {Enqueued, Coalesced, RealtimeReplaced} then item # accepted os else accepted os)"
| "accepted (_ # os) = accepted os"

fun delivered :: "ingress_obs list \<Rightarrow> captured_input list" where
  "delivered [] = []"
| "delivered (Received item # os) = item # delivered os"
| "delivered (_ # os) = delivered os"

definition nothing_replaced :: "ingress_obs list \<Rightarrow> bool" where
  "nothing_replaced os \<longleftrightarrow> (\<forall>item. Pushed item RealtimeReplaced \<notin> set os)"

text \<open>
  The account of a stretch of calls from \<open>s\<close> to \<open>s'\<close> with observations \<open>os\<close>: discrete events in
  are discrete events out, in order; so is relative motion, as a sum, as long as no queued sample
  was replaced.
\<close>

definition conserves :: "ingress_state \<Rightarrow> ingress_obs list \<Rightarrow> ingress_state \<Rightarrow> bool" where
  "conserves s os s' \<longleftrightarrow>
     discretes (is_queue s) @ discretes (accepted os) =
       discretes (delivered os) @ discretes (is_queue s') \<and>
     (nothing_replaced os \<longrightarrow>
       motion_x (is_queue s) + motion_x (accepted os) =
         motion_x (delivered os) + motion_x (is_queue s') \<and>
       motion_y (is_queue s) + motion_y (accepted os) =
         motion_y (delivered os) + motion_y (is_queue s'))"

fun shared_conserves ::
  "shared_ingress option \<Rightarrow> ingress_obs list \<Rightarrow> shared_ingress option \<Rightarrow> bool" where
  "shared_conserves (Some s) os (Some s') \<longleftrightarrow> conserves (sh_state s) os (sh_state s')"
| "shared_conserves None os (Some s') \<longleftrightarrow> False"
| "shared_conserves _ os None \<longleftrightarrow> True"

named_theorems ingress_flow \<open>the counted lists of constructed queues and observations\<close>

lemma discretes_append [ingress_flow]: "discretes (xs @ ys) = discretes xs @ discretes ys"
  by (induction xs) (auto split: captured_input_payload.splits)

lemma motion_simps [ingress_flow]:
  "motion_x [] = 0" "motion_y [] = 0"
  "motion_x (item # xs) = fst (payload_motion (ci_payload item)) + motion_x xs"
  "motion_y (item # xs) = snd (payload_motion (ci_payload item)) + motion_y xs"
  "motion_x (xs @ ys) = motion_x xs + motion_x ys"
  "motion_y (xs @ ys) = motion_y xs + motion_y ys"
  by (simp_all add: motion_x_def motion_y_def)

lemma accepted_append [ingress_flow]: "accepted (os @ os') = accepted os @ accepted os'"
  by (induction os rule: accepted.induct) auto

lemma delivered_append [ingress_flow]: "delivered (os @ os') = delivered os @ delivered os'"
  by (induction os rule: delivered.induct) auto

lemma nothing_replaced_simps [ingress_flow]:
  "nothing_replaced []"
  "nothing_replaced (os @ os') \<longleftrightarrow> nothing_replaced os \<and> nothing_replaced os'"
  by (auto simp: nothing_replaced_def)

lemma conserves_nil: "conserves s [] s"
  by (simp add: conserves_def ingress_flow)

lemma conserves_comp:
  assumes a: "conserves s os s1" and b: "conserves s1 os' s2"
  shows "conserves s (os @ os') s2"
proof -
  have "discretes (is_queue s) @ discretes (accepted (os @ os')) =
      discretes (delivered (os @ os')) @ discretes (is_queue s2)"
    using a b unfolding conserves_def ingress_flow by (metis append_assoc)
  then show ?thesis using a b unfolding conserves_def ingress_flow by auto
qed

section \<open>One push\<close>

lemma update_pointer_frame:
  "update_pointer item s = (item', s') \<Longrightarrow>
     ci_payload item' = ci_payload item \<and> ci_origin item' = ci_origin item \<and>
     (\<exists>p. s' = s\<lparr>is_latest_pointer := p\<rparr>)"
  unfolding update_pointer_def Let_def
  by (cases s)
    (auto split: captured_input_payload.splits continuous_input.splits pointer_sample.splits
      option.splits)

lemma discretes_replaceable:
  "discretes (filter (\<lambda>i. \<not> is_replaceable (ci_payload i)) xs) = discretes xs"
proof (induction xs)
  case (Cons x xs)
  then show ?case by (cases "ci_payload x") auto
qed simp

lemma oldest_replaceable:
  assumes "oldest_replaceable_index s = Some i"
  shows "i < length (is_queue s)" "is_replaceable (ci_payload (is_queue s ! i))"
  using find_index_SomeD [of "is_replaceable \<circ> ci_payload" "is_queue s" i] assms
  by (simp_all add: oldest_replaceable_index_def)

lemma discretes_oldest_removed:
  assumes "oldest_replaceable_index s = Some i"
  shows "discretes (remove_nth i (is_queue s)) = discretes (is_queue s)"
  using oldest_replaceable [OF assms]
  by (metis (mono_tags, lifting) discretes_replaceable filter_remove_nth)

lemma coalesce_back_facts:
  assumes "coalesce_back back item = Some back'"
    and "same_replaceable_class (ci_payload back) (ci_payload item)"
    and "payload_ok (ci_payload item)"
  shows "discretes [back] = []" "discretes [item] = []" "discretes [back'] = []"
    "motion_x [back'] = motion_x [back] + motion_x [item]"
    "motion_y [back'] = motion_y [back] + motion_y [item]"
    "payload_ok (ci_payload back')"
  using assms
  by (auto simp: coalesce_back_def motion_simps split: captured_input_payload.splits
      continuous_input.splits pointer_sample.splits option.splits)

lemma queue_last: "is_queue s \<noteq> [] \<Longrightarrow> is_queue s = butlast (is_queue s) @ [last (is_queue s)]"
  by simp

lemma push_coalescing_ok:
  assumes "push_coalescing item s = Some (r, s')" and "coalesces_with_back item s"
    and "payload_ok (ci_payload item)" and "ingress_ok s"
  shows "ingress_ok s' \<and> conserves s [Pushed item r] s' \<and> is_closed s' = is_closed s"
proof (cases "coalesce_back (last (is_queue s)) item")
  case None
  then have "r = RealtimeDropped" "\<exists>n. s' = s\<lparr>is_dropped_realtime := n\<rparr>"
    using assms(1) by (auto simp: push_coalescing_def)
  then show ?thesis using assms(4) by (auto simp: ingress_ok_def conserves_def ingress_flow)
next
  case (Some bk)
  have q: "is_queue s \<noteq> []" and cls: "same_replaceable_class (ci_payload (last (is_queue s))) (ci_payload item)"
    using assms(2) by (auto simp: coalesces_with_back_def)
  obtain n where s': "r = Coalesced"
      "s' = s\<lparr>is_queue := butlast (is_queue s) @ [bk], is_coalesced_motion := n\<rparr>"
    using assms(1) Some by (auto simp: push_coalescing_def)
  note facts = coalesce_back_facts [OF Some cls assms(3)]
  have d: "discretes (is_queue s) = discretes (butlast (is_queue s))"
    by (subst queue_last [OF q]) (simp only: discretes_append facts append_Nil2)
  have x: "motion_x (is_queue s) = motion_x (butlast (is_queue s)) + motion_x [last (is_queue s)]"
    "motion_y (is_queue s) = motion_y (butlast (is_queue s)) + motion_y [last (is_queue s)]"
    by (subst queue_last [OF q], simp only: motion_simps)+
  have "conserves s [Pushed item r] s'"
    using d x facts by (simp add: conserves_def s' ingress_flow)
  moreover have "ingress_ok s'"
    using assms(4) q facts by (auto simp: ingress_ok_def s' dest: in_set_butlastD)
  ultimately show ?thesis using s' by simp
qed

lemma push_full_ok:
  assumes "push_full item s = Some (r, s')" and "length (is_queue s) = is_capacity s"
    and "payload_ok (ci_payload item)" and "ingress_ok s"
  shows "ingress_ok s' \<and> conserves s [Pushed item r] s' \<and> is_closed s' = is_closed s"
proof (cases "oldest_replaceable_index s")
  case None
  then obtain n where "(r = RealtimeDropped \<and> s' = s\<lparr>is_dropped_realtime := n\<rparr>) \<or>
      (r = ReliableOverflow \<and>
       s' = s\<lparr>is_reliable_overflow := n, is_reliable_overflow_latched := True\<rparr>)"
    using assms(1) by (auto simp: push_full_def split: if_splits)
  then show ?thesis using assms(4) by (auto simp: ingress_ok_def conserves_def ingress_flow)
next
  case (Some i)
  then obtain n where s': "r = RealtimeReplaced"
      "s' = s\<lparr>is_queue := remove_nth i (is_queue s) @ [item], is_replaced_realtime := n\<rparr>"
    using assms(1) by (auto simp: push_full_def)
  have i: "i < length (is_queue s)"
    by (rule oldest_replaceable [OF Some])
  have "ingress_ok s'"
    using assms(3,4) i set_remove_nth [of i "is_queue s"]
    by (auto simp: ingress_ok_def s' length_remove_nth)
  moreover have "conserves s [Pushed item r] s'"
    using discretes_oldest_removed [OF Some]
    by (auto simp: conserves_def s' ingress_flow nothing_replaced_def split: captured_input_payload.splits)
  ultimately show ?thesis using s' by simp
qed

lemma flow_item_cong:
  assumes "ci_payload item' = ci_payload item" and "ci_origin item' = ci_origin item"
  shows "conserves s [Pushed item' r] s' = conserves s [Pushed item r] s'"
  using assms by (auto simp: conserves_def ingress_flow nothing_replaced_def split: captured_input_payload.splits)

lemma try_push_ok:
  assumes "try_push now item s = Some (r, s')" and "payload_ok (ci_payload item)" and "ingress_ok s"
  shows "ingress_ok s' \<and> conserves s [Pushed item r] s' \<and> is_closed s' = is_closed s"
proof (cases "is_closed s")
  case True
  then show ?thesis using assms by (auto simp: try_push_def conserves_def ingress_flow)
next
  case open_state: False
  obtain item1 s1 where u: "update_pointer (item\<lparr>ci_ingress_enqueued_at := now\<rparr>) s = (item1, s1)"
    by fastforce
  obtain p where f: "ci_payload item1 = ci_payload item" "ci_origin item1 = ci_origin item"
      "s1 = s\<lparr>is_latest_pointer := p\<rparr>"
    using update_pointer_frame [OF u] by auto
  have ok: "ingress_ok s1" "payload_ok (ci_payload item1)"
    using assms(2,3) f by (auto simp: ingress_ok_def)
  have step: "(if coalesces_with_back item1 s1 then push_coalescing item1 s1
      else if length (is_queue s1) = is_capacity s1 then push_full item1 s1
      else map_option (\<lambda>n. (Enqueued, s1\<lparr>is_queue := is_queue s1 @ [item1], is_enqueued := n\<rparr>))
        (checked_inc (is_enqueued s1))) = Some (r, s')"
    using assms(1) open_state u by (simp add: try_push_def)
  have "ingress_ok s' \<and> conserves s1 [Pushed item1 r] s' \<and> is_closed s' = is_closed s1"
  proof (cases "coalesces_with_back item1 s1 \<or> length (is_queue s1) = is_capacity s1")
    case True
    then show ?thesis using step ok push_coalescing_ok push_full_ok by (metis (full_types))
  next
    case False
    then show ?thesis
      using step ok by (auto simp: ingress_ok_def conserves_def ingress_flow)
  qed
  moreover have "conserves s1 [Pushed item1 r] s' = conserves s [Pushed item r] s'"
    unfolding flow_item_cong [OF f(1,2)] by (simp add: f(3) conserves_def)
  ultimately show ?thesis by (simp add: f(3))
qed

section \<open>Every call\<close>

lemma ingress_try_recv_ok:
  assumes "ingress_try_recv s = Some (x, s')" and "ingress_ok s"
  shows "ingress_ok s' \<and> conserves s (option_obs Received x) s' \<and> is_closed s' = is_closed s"
proof (cases "is_queue s")
  case Nil
  then show ?thesis
    using assms by (auto simp: ingress_try_recv_def option_obs_def conserves_nil)
next
  case (Cons item rest)
  then obtain n where "x = Some item" "s' = s\<lparr>is_queue := rest, is_dequeued := Suc n\<rparr>"
      "n = is_dequeued s"
    using assms(1) by (auto simp: ingress_try_recv_def)
  then show ?thesis
    using assms(2) Cons
    by (auto simp: ingress_ok_def conserves_def option_obs_def ingress_flow
        split: captured_input_payload.splits)
qed

lemma pop_fault_ok:
  "pop_fault s = (x, s') \<Longrightarrow> ingress_ok s \<Longrightarrow>
     ingress_ok s' \<and> conserves s (option_obs Faulted x) s' \<and> is_closed s' = is_closed s"
  by (auto simp: pop_fault_def ingress_ok_def conserves_def option_obs_def ingress_flow
      split: if_splits)

lemma pop_fault_None: "pop_fault s = (None, s') \<Longrightarrow> s' = s"
  by (auto simp: pop_fault_def split: if_splits)

lemma recv_poll_ok:
  assumes "recv_poll s = Some (x, s')" and "ingress_ok s"
  shows "ingress_ok s' \<and> conserves s (input_obs x) s' \<and> is_closed s' = is_closed s"
proof -
  obtain y where y: "ingress_try_recv s = Some (y, s')" "input_obs x = option_obs Received y"
    using assms(1) by (auto simp: recv_poll_def option_obs_def split: option.splits prod.splits if_splits)
  show ?thesis unfolding y(2) by (rule ingress_try_recv_ok [OF y(1) assms(2)])
qed

lemma recv_event_poll_ok:
  assumes "recv_event_poll s = Some (x, s')" and "ingress_ok s"
  shows "ingress_ok s' \<and> conserves s (event_obs x) s' \<and> is_closed s' = is_closed s"
proof -
  obtain f s1 where f: "pop_fault s = (f, s1)" by fastforce
  show ?thesis
  proof (cases f)
    case (Some fault)
    then have "x = Ready (Some (FaultEvent fault))" "s' = s1"
      using assms(1) f by (simp_all add: recv_event_poll_def)
    then show ?thesis using pop_fault_ok [OF f assms(2)] Some by (simp add: option_obs_def)
  next
    case None
    then have "s1 = s" using f pop_fault_None by blast
    then obtain y where y: "ingress_try_recv s = Some (y, s')" "event_obs x = option_obs Received y"
      using assms(1) f None
      by (auto simp: recv_event_poll_def option_obs_def split: option.splits prod.splits if_splits)
    show ?thesis unfolding y(2) by (rule ingress_try_recv_ok [OF y(1) assms(2)])
  qed
qed

lemma report_fault_ok:
  "report_fault f s = Some s' \<Longrightarrow> ingress_ok s \<Longrightarrow>
     ingress_ok s' \<and> conserves s [] s' \<and> is_closed s' = is_closed s"
  by (auto simp: report_fault_def ingress_ok_def conserves_def ingress_flow
      split: if_splits ingress_fault.splits)

lemma close_ok: "ingress_ok s \<Longrightarrow> ingress_ok (s\<lparr>is_closed := True\<rparr>) \<and> conserves s [] (s\<lparr>is_closed := True\<rparr>)"
  by (auto simp: ingress_ok_def conserves_def ingress_flow)

text \<open>A call on the locked state that keeps the invariant and the account does so on the whole.\<close>

lemma on_state_ok:
  assumes "on_state r f sh = (os, sh')" and "shared_ok (Some sh)"
    and "\<And>x s'. r = Some (x, s') \<Longrightarrow>
      ingress_ok s' \<and> conserves (sh_state sh) (f x) s' \<and>
      (is_closed (sh_state sh) \<longrightarrow> is_closed s')"
  shows "shared_ok sh' \<and> shared_conserves (Some sh) os sh'"
  using assms by (cases r) (auto simp: on_state_def shared_ok_def)

lemma ingress_call_ok:
  assumes "shared_ok (Some sh)" and "op_ok call" and "ingress_call sh call = (os, sh')"
  shows "shared_ok sh' \<and> shared_conserves (Some sh) os sh'"
proof -
  have ok: "ingress_ok (sh_state sh)" using assms(1) by (simp add: shared_ok_def)
  note on = on_state_ok [OF _ assms(1)]
  show ?thesis
  proof (cases call)
    case (PushOp now item)
    then have "on_state (try_push now item (sh_state sh)) (\<lambda>r. [Pushed item r]) sh = (os, sh')"
      using assms(3) by simp
    then show ?thesis
      by (rule on) (use try_push_ok [OF _ _ ok] assms(2) PushOp in auto)
  next
    case (FaultOp fault)
    then have "on_state (map_option (Pair ()) (report_fault fault (sh_state sh))) (\<lambda>_. []) sh = (os, sh')"
      using assms(3) by simp
    then show ?thesis
      by (rule on) (use report_fault_ok [OF _ ok] in auto)
  next
    case CloseOp
    then have "on_state (Some ((), ingress_close (sh_state sh))) (\<lambda>_. []) sh = (os, sh')"
      using assms(3) by simp
    then show ?thesis
      by (rule on) (use close_ok [OF ok] in \<open>auto simp: ingress_close_def\<close>)
  next
    case TryRecvOp
    then have "on_state (ingress_try_recv (sh_state sh)) (option_obs Received) sh = (os, sh')"
      using assms(3) by simp
    then show ?thesis
      by (rule on) (use ingress_try_recv_ok [OF _ ok] in auto)
  next
    case RecvOp
    then have "on_state (recv_poll (sh_state sh)) (input_obs) sh = (os, sh')"
      using assms(3) by simp
    then show ?thesis
      by (rule on) (use recv_poll_ok [OF _ ok] in auto)
  next
    case RecvEventOp
    then have "on_state (recv_event_poll (sh_state sh)) (event_obs) sh = (os, sh')"
      using assms(3) by simp
    then show ?thesis
      by (rule on) (use recv_event_poll_ok [OF _ ok] in auto)
  next
    case PopFaultOp
    then have "on_state (Some (pop_fault (sh_state sh))) (option_obs Faulted) sh = (os, sh')"
      using assms(3) by simp
    then show ?thesis
      by (rule on) (use pop_fault_ok [OF _ ok] in auto)
  next
    case DropConsumerOp
    then have "on_state (Some ((), consumer_drop (sh_state sh))) (\<lambda>_. []) sh = (os, sh')"
      using assms(3) by simp
    then show ?thesis
      by (rule on) (use close_ok [OF ok] in \<open>auto simp: consumer_drop_def\<close>)
  next
    case CloneOp
    then show ?thesis
      using assms
      by (cases "checked_inc (sh_producer_count sh)")
        (auto simp: producer_clone_def shared_ok_def conserves_nil)
  next
    case DropProducerOp
    then show ?thesis
      using assms close_ok [OF ok]
      by (auto simp: producer_drop_def Let_def shared_ok_def ingress_close_def conserves_nil)
  qed
qed

lemma shared_conserves_comp:
  "shared_conserves a os b \<Longrightarrow> shared_conserves b os' c \<Longrightarrow> shared_conserves a (os @ os') c"
  using conserves_comp by (cases a; cases b; cases c) auto

lemma shared_conserves_nil: "shared_conserves a [] a"
  by (cases a) (auto simp: conserves_nil)

interpretation ingress: emitting_machine ingress_step shared_ok op_ok shared_conserves
proof unfold_locales
  fix s e
  assume *: "shared_ok s" "op_ok e"
  show "shared_ok (snd (ingress_step s e))" "shared_conserves s (fst (ingress_step s e)) (snd (ingress_step s e))"
    using * ingress_call_ok [of _ e "fst (ingress_step s e)" "snd (ingress_step s e)"]
    by (cases s; fastforce simp: shared_ok_def)+
qed (auto intro: shared_conserves_comp shared_conserves_nil)

section \<open>Runs\<close>

lemma ingress_new_ok: "ingress_new capacity = Some sh \<Longrightarrow> shared_ok (Some sh)"
  by (auto simp: ingress_new_def shared_ok_def ingress_ok_def split: if_splits)

lemma ingress_run_ok:
  assumes "ingress_new capacity = Some sh0" and "\<forall>call\<in>set calls. op_ok call"
    and "run ingress_step (Some sh0) calls = (os, Some sh)"
  shows "ingress_ok (sh_state sh)" "conserves (sh_state sh0) os (sh_state sh)"
    "is_queue (sh_state sh0) = []"
  using ingress.run_inv [OF ingress_new_ok [OF assms(1)] assms(2)]
    ingress.run_rel [OF ingress_new_ok [OF assms(1)] assms(2)] assms(1,3)
  by (auto simp: shared_ok_def ingress_new_def split: if_splits)

lemma update_pointer_capacity: "update_pointer item s = (item', s') \<Longrightarrow> is_capacity s' = is_capacity s"
  using update_pointer_frame [of item s item' s'] by auto

lemma try_push_capacity: "try_push now item s = Some (r, s') \<Longrightarrow> is_capacity s' = is_capacity s"
  by (auto simp: try_push_def push_coalescing_def push_full_def split: if_splits prod.splits option.splits
      dest: update_pointer_capacity)

text \<open>What no call changes, and what only a reader changes.\<close>

definition sticky :: "shared_ingress option \<Rightarrow> ingress_obs list \<Rightarrow> shared_ingress option \<Rightarrow> bool" where
  "sticky a os b \<longleftrightarrow>
     (case (a, b) of
        (Some s, Some s') \<Rightarrow> is_capacity (sh_state s') = is_capacity (sh_state s) \<and>
                             (is_closed (sh_state s) \<longrightarrow> is_closed (sh_state s'))
      | (None, Some _) \<Rightarrow> False
      | _ \<Rightarrow> True)"

lemma try_push_closed: "try_push now item s = Some (r, s') \<Longrightarrow> is_closed s \<Longrightarrow> is_closed s'"
  by (simp add: try_push_def)

lemma ingress_call_sticky: "sticky (Some sh) (fst (ingress_call sh call)) (snd (ingress_call sh call))"
  by (cases call)
    (auto simp: sticky_def on_state_def report_fault_def ingress_close_def ingress_try_recv_def
      recv_poll_def recv_event_poll_def pop_fault_def producer_clone_def producer_drop_def
      consumer_drop_def Let_def try_push_capacity try_push_closed
      split: option.splits prod.splits if_splits list.splits ingress_fault.splits)

interpretation sticky: emitting_machine ingress_step "\<lambda>_. True" "\<lambda>_. True" sticky
proof unfold_locales
  fix s e
  show "sticky s (fst (ingress_step s e)) (snd (ingress_step s e))"
    using ingress_call_sticky by (cases s) (auto simp: sticky_def)
qed (auto simp: sticky_def split: option.splits)

text \<open>A latched overflow stays latched until a fault is read.\<close>

definition latched :: "shared_ingress option \<Rightarrow> bool" where
  "latched a \<longleftrightarrow> (case a of None \<Rightarrow> True | Some s \<Rightarrow> is_reliable_overflow_latched (sh_state s))"

definition not_reading_faults :: "ingress_op \<Rightarrow> bool" where
  "not_reading_faults call \<longleftrightarrow> call \<noteq> RecvEventOp \<and> call \<noteq> PopFaultOp"

lemma update_pointer_latch:
  "update_pointer item s = (item', s') \<Longrightarrow>
     is_reliable_overflow_latched s' = is_reliable_overflow_latched s"
  using update_pointer_frame [of item s item' s'] by auto

lemma try_push_latch:
  "try_push now item s = Some (r, s') \<Longrightarrow>
     is_reliable_overflow_latched s \<or> r = ReliableOverflow \<Longrightarrow> is_reliable_overflow_latched s'"
  by (auto simp: try_push_def push_coalescing_def push_full_def split: if_splits prod.splits option.splits
      dest: update_pointer_latch)

lemma ingress_call_latch:
  "is_reliable_overflow_latched (sh_state sh) \<Longrightarrow> not_reading_faults call \<Longrightarrow>
     latched (snd (ingress_call sh call))"
  by (cases call)
    (auto simp: latched_def not_reading_faults_def on_state_def report_fault_def ingress_close_def
      ingress_try_recv_def recv_poll_def producer_clone_def producer_drop_def consumer_drop_def Let_def
      try_push_latch
      split: option.splits prod.splits if_splits list.splits ingress_fault.splits)

interpretation latch: machine ingress_step latched not_reading_faults
proof unfold_locales
  fix s e
  assume "latched s" "not_reading_faults e"
  then show "latched (snd (ingress_step s e))"
    using ingress_call_latch by (cases s) (auto simp: latched_def)
qed

section \<open>Counters\<close>

text \<open>No counter exceeds the number of calls made; the producers, by one more.\<close>

definition counts_below :: "nat \<Rightarrow> shared_ingress \<Rightarrow> bool" where
  "counts_below n sh \<longleftrightarrow>
     (let s = sh_state sh in
        is_enqueued s \<le> n \<and> is_dequeued s \<le> n \<and> is_coalesced_motion s \<le> n \<and>
        is_replaced_realtime s \<le> n \<and> is_dropped_realtime s \<le> n \<and> is_reliable_overflow s \<le> n \<and>
        sh_producer_count sh \<le> Suc n)"

lemma checked_inc_below: "v \<le> n \<Longrightarrow> n < u64_max \<Longrightarrow> checked_inc v = Some (Suc v)"
  by simp

lemma push_counts:
  assumes "counts_below n sh" and "n < u64_max"
  shows "\<exists>r s'. try_push now item (sh_state sh) = Some (r, s') \<and>
    counts_below (Suc n) (sh\<lparr>sh_state := s'\<rparr>)"
proof -
  let ?s = "sh_state sh"
  obtain item1 s1 where u: "update_pointer (item\<lparr>ci_ingress_enqueued_at := now\<rparr>) ?s = (item1, s1)"
    by fastforce
  obtain p where s1: "s1 = ?s\<lparr>is_latest_pointer := p\<rparr>"
    using update_pointer_frame [OF u] by auto
  have c: "is_enqueued ?s \<le> n" "is_coalesced_motion ?s \<le> n" "is_replaced_realtime ?s \<le> n"
    "is_dropped_realtime ?s \<le> n" "is_reliable_overflow ?s \<le> n"
    using assms(1) by (simp_all add: counts_below_def Let_def)
  note inc = c [THEN checked_inc_below [OF _ assms(2)]]
  show ?thesis
    using assms(1) c inc
    by (auto simp: try_push_def u s1 push_coalescing_def push_full_def counts_below_def Let_def
        split: option.splits)
qed

lemma call_counts:
  assumes "counts_below n sh" and "Suc n < u64_max"
  shows "\<exists>sh'. snd (ingress_call sh call) = Some sh' \<and> counts_below (Suc n) sh'"
proof (cases call)
  case (PushOp now item)
  have "n < u64_max" using assms(2) by simp
  then obtain r s' where "try_push now item (sh_state sh) = Some (r, s')"
      "counts_below (Suc n) (sh\<lparr>sh_state := s'\<rparr>)"
    using push_counts [OF assms(1), of now item] by blast
  then show ?thesis using PushOp by (simp add: on_state_def)
qed (use assms in \<open>auto simp: on_state_def counts_below_def Let_def report_fault_def ingress_close_def
      ingress_try_recv_def recv_poll_def recv_event_poll_def pop_fault_def producer_clone_def
      producer_drop_def consumer_drop_def checked_inc_eq
      split: option.splits list.splits ingress_fault.splits\<close>)

lemma run_counts:
  "counts_below n sh \<Longrightarrow> n + length calls < u64_max \<Longrightarrow>
     \<exists>os sh'. run ingress_step (Some sh) calls = (os, Some sh')"
proof (induction calls arbitrary: n sh)
  case (Cons call calls)
  then obtain sh1 where s1: "snd (ingress_call sh call) = Some sh1" "counts_below (Suc n) sh1"
    using call_counts [of n sh call] by auto
  then obtain os2 sh2 where "run ingress_step (Some sh1) calls = (os2, Some sh2)"
    using Cons.IH [of "Suc n" sh1] Cons.prems(2) by auto
  then show ?case using s1(1) by (cases "ingress_call sh call") simp
qed simp

section \<open>Draining\<close>

text \<open>The consumer's loop \<open>while let Some(item) = ingress.recv().await\<close>, with fuel; \<open>None\<close> when it has to wait.\<close>

fun drain :: "nat \<Rightarrow> ingress_state \<Rightarrow> captured_input list option" where
  "drain 0 s = None"
| "drain (Suc n) s =
     (case recv_poll s of
        Some (Ready (Some item), s') \<Rightarrow> map_option (Cons item) (drain n s')
      | Some (Ready None, s') \<Rightarrow> Some []
      | _ \<Rightarrow> None)"

lemma drain_closed:
  "is_closed s \<Longrightarrow> is_dequeued s + length (is_queue s) \<le> u64_max \<Longrightarrow> length (is_queue s) < n \<Longrightarrow>
     drain n s = Some (is_queue s)"
proof (induction "is_queue s" arbitrary: s n)
  case Nil
  then have "is_queue s = []" by simp
  then show ?case using Nil.prems by (cases n) (auto simp: recv_poll_def ingress_try_recv_def)
next
  case (Cons item rest)
  then obtain m where n: "n = Suc m" by (cases n) auto
  have q: "is_queue s = item # rest" using Cons.hyps(2) by simp
  let ?s' = "s\<lparr>is_queue := rest, is_dequeued := Suc (is_dequeued s)\<rparr>"
  have "drain m ?s' = Some rest"
    using Cons.hyps(1) [of ?s' m] Cons.prems q n by simp
  then show ?case
    using Cons.prems q n by (simp add: recv_poll_def ingress_try_recv_def checked_inc_eq)
qed

section \<open>Properties\<close>

text \<open>
  The ingress is bounded. Whatever producers and consumer do, the queue never exceeds the
  capacity it was made with, the statistics account for it (enqueued = dequeued + pending), and
  every queued relative motion, however often it was coalesced, is an i32.
\<close>

theorem ingress_bounded:
  assumes "ingress_new capacity = Some sh0" and "\<forall>call\<in>set calls. op_ok call"
    and "run ingress_step (Some sh0) calls = (os, Some sh)"
  shows "length (is_queue (sh_state sh)) \<le> capacity \<and>
    st_enqueued (stats_of (sh_state sh)) =
      st_dequeued (stats_of (sh_state sh)) + st_pending_items (stats_of (sh_state sh)) \<and>
    (\<forall>item\<in>set (is_queue (sh_state sh)).
       \<forall>dx dy ox oy. ci_payload item = Continuous (PointerInput (RelativeSample dx dy ox oy)) \<longrightarrow>
         in_i32 dx \<and> in_i32 dy)"
proof -
  have ok: "ingress_ok (sh_state sh)" by (rule ingress_run_ok [OF assms])
  have "sticky (Some sh0) os (Some sh)"
    using sticky.run_rel [of calls "Some sh0"] assms(3) by simp
  then have "is_capacity (sh_state sh) = capacity"
    using assms(1) by (auto simp: sticky_def ingress_new_def split: if_splits)
  then show ?thesis using ok by (fastforce simp: ingress_ok_def stats_of_def)
qed

text \<open>
  C17. Discrete events (keys, buttons, wheel, text, gamepad changes) are lossless and in order:
  those the producers were told were accepted are, in that order, those delivered followed by
  those still pending. Motion is replaced or coalesced around them, never instead of them.
\<close>

theorem discrete_events_lossless:
  assumes "ingress_new capacity = Some sh0" and "\<forall>call\<in>set calls. op_ok call"
    and "run ingress_step (Some sh0) calls = (os, Some sh)"
  shows "discretes (accepted os) = discretes (delivered os) @ discretes (is_queue (sh_state sh))"
  using ingress_run_ok [OF assms] by (simp add: conserves_def)


text \<open>
  A lost reliable event is always reported before the consumer sees another input. After a
  push that overflowed, whatever calls follow that do not read a fault, the next event the
  consumer receives is a fault: the overflow itself, or a capture discontinuity and then the
  overflow.
\<close>

theorem overflow_reported_first:
  assumes "ingress_call sh (PushOp now item) = ([Pushed item ReliableOverflow], Some sh1)"
    and "\<forall>call\<in>set calls. not_reading_faults call"
    and "run ingress_step (Some sh1) calls = (os, Some sh2)"
  shows "fst (ingress_step (Some sh2) RecvEventOp) = [Faulted ReliableOverflowFault] \<or>
    fst (run ingress_step (Some sh2) [RecvEventOp, RecvEventOp]) =
      [Faulted CaptureDiscontinuity, Faulted ReliableOverflowFault]"
proof -
  have "latched (Some sh1)"
    using assms(1) try_push_latch [of now item "sh_state sh" ReliableOverflow]
    by (auto simp: on_state_def latched_def split: option.splits)
  then have "is_reliable_overflow_latched (sh_state sh2)"
    using latch.run_inv [OF _ assms(2), of "Some sh1"] assms(3) by (simp add: latched_def)
  then show ?thesis
    by (cases "is_capture_discontinuity_latched (sh_state sh2)")
      (simp_all add: recv_event_poll_def pop_fault_def on_state_def)
qed

text \<open>
  Fewer than 2^64 - 1 calls never panic: every statistics counter, and the count of
  producers, has room, so the lock is not poisoned.
\<close>

theorem ingress_never_panics:
  assumes "ingress_new capacity = Some sh0" and "length calls < u64_max"
  shows "\<exists>os sh. run ingress_step (Some sh0) calls = (os, Some sh)"
proof -
  have "counts_below 0 sh0"
    using assms(1) by (auto simp: ingress_new_def counts_below_def split: if_splits)
  then show ?thesis using run_counts [of 0 sh0 calls] assms(2) by simp
qed

text \<open>
  C19. A consumer that reads until the end of a closed ingress stops, with every pending input in
  order and nothing else: the last producer's departure loses nothing that was queued.
\<close>

theorem closed_ingress_drains:
  assumes "ingress_new capacity = Some sh0" and "\<forall>call\<in>set calls. op_ok call"
    and "run ingress_step (Some sh0) calls = (os, Some sh)" and "sh_producer_count sh = 0"
  shows "drain (Suc capacity) (sh_state sh) = Some (is_queue (sh_state sh))"
proof -
  have "shared_ok (Some sh)"
    using ingress.run_inv [OF ingress_new_ok [OF assms(1)] assms(2)] assms(3) by simp
  then have "is_closed (sh_state sh)" "ingress_ok (sh_state sh)"
    using assms(4) by (simp_all add: shared_ok_def)
  moreover have "sticky (Some sh0) os (Some sh)"
    using sticky.run_rel [of calls "Some sh0"] assms(3) by simp
  then have "is_capacity (sh_state sh) = capacity"
    using assms(1) by (auto simp: sticky_def ingress_new_def split: if_splits)
  ultimately show ?thesis
    by (intro drain_closed) (auto simp: ingress_ok_def)
qed

section \<open>Examples\<close>

definition example_stamp :: monotonic_stamp where
  "example_stamp = \<lparr>ms_domain = 1, ms_value_us = 7\<rparr>"

definition example_key :: captured_input where
  "example_key = capture example_stamp default_origin (Discrete (Key KcEscape BtnPressed))"

definition example_motion :: "int \<Rightarrow> int \<Rightarrow> captured_input" where
  "example_motion dx dy =
     capture example_stamp default_origin (Continuous (PointerInput (RelativeSample dx dy None None)))"

definition example_shared :: "usize \<Rightarrow> shared_ingress" where
  "example_shared capacity = the (ingress_new capacity)"

definition example_calls :: "ingress_op list" where
  "example_calls =
     [PushOp example_stamp example_key, PushOp example_stamp (example_motion 5 1),
      PushOp example_stamp (example_motion 3 1), RecvOp, DropProducerOp]"

definition example_end :: shared_ingress where
  "example_end = the (snd (run ingress_step (Some (example_shared 2)) example_calls))"

lemmas example_defs = example_stamp_def example_key_def example_motion_def example_calls_def
  example_shared_def capture_def ingress_new_def on_state_def try_push_def update_pointer_def
  coalesces_with_back_def push_coalescing_def coalesce_back_def recv_poll_def ingress_try_recv_def
  producer_drop_def ingress_close_def checked_inc_eq checked_i32_def in_i32_def

lemma example_new: "ingress_new 2 = Some (example_shared 2)"
  by (simp add: example_shared_def ingress_new_def)

lemma example_ops_ok: "\<forall>call\<in>set example_calls. op_ok call"
  by (simp add: example_calls_def example_key_def example_motion_def capture_def in_i32_def)

lemma example_run:
  "run ingress_step (Some (example_shared 2)) example_calls =
    ([Pushed example_key Enqueued, Pushed (example_motion 5 1) Enqueued,
      Pushed (example_motion 3 1) Coalesced,
      Received example_key], Some example_end)"
  "sh_producer_count example_end = 0"
  "is_queue (sh_state example_end) = [example_motion 8 2]"
  unfolding example_end_def by (simp_all add: example_defs)

theorem ingress_bounded_witness: "length (is_queue (sh_state example_end)) \<le> 2"
  using ingress_bounded [OF example_new example_ops_ok example_run(1)] by simp

theorem discrete_events_lossless_witness:
  "discretes [example_key, example_motion 5 1, example_motion 3 1] =
     discretes [example_key] @ discretes (is_queue (sh_state example_end))"
  using discrete_events_lossless [OF example_new example_ops_ok example_run(1)] by simp


theorem ingress_never_panics_witness:
  "\<exists>os sh. run ingress_step (Some (example_shared 2)) example_calls = (os, Some sh)"
  using ingress_never_panics [OF example_new, of example_calls]
  by (simp add: example_calls_def)

theorem closed_ingress_drains_witness: "drain 3 (sh_state example_end) = Some [example_motion 8 2]"
  using closed_ingress_drains [OF example_new example_ops_ok example_run(1,2)] example_run(3)
  by (simp add: numeral_3_eq_3)

text \<open>A full queue of keys overflows on one more.\<close>

definition full_shared :: shared_ingress where
  "full_shared = the (snd (run ingress_step (Some (example_shared 1)) [PushOp example_stamp example_key]))"

definition overflown_shared :: shared_ingress where
  "overflown_shared = the (snd (ingress_call full_shared (PushOp example_stamp example_key)))"

lemma overflow_example:
  "ingress_call full_shared (PushOp example_stamp example_key) =
     ([Pushed example_key ReliableOverflow], Some overflown_shared)"
  unfolding overflown_shared_def full_shared_def
  by (simp add: example_defs push_full_def oldest_replaceable_index_def)

theorem overflow_reported_first_witness:
  "fst (ingress_step (Some overflown_shared) RecvEventOp) = [Faulted ReliableOverflowFault] \<or>
   fst (run ingress_step (Some overflown_shared) [RecvEventOp, RecvEventOp]) =
     [Faulted CaptureDiscontinuity, Faulted ReliableOverflowFault]"
  using overflow_reported_first [OF overflow_example, of "[]" "[]" overflown_shared] by simp

end
