(* ===== verification/FileTransfer.thy ===== *)
theory FileTransfer
  imports InputProtocol
begin

text \<open>
  File drops (\<open>crates/rshare-core/src/file_transfer.rs\<close>): the manifest a receiver accepts and the
  receipts that tie a folder drop to the button release that made it. A Rust string is the list of
  its code points; \<open>to_lowercase\<close>, whose Unicode tables are the standard library's, is the argument
  \<open>lower\<close>. White space and control characters are the Unicode classes the library documents.
\<close>

section \<open>Text\<close>

type_synonym ustring = "nat list"

definition cp :: "char \<Rightarrow> nat" where
  "cp c = of_char c"

definition ustr :: "string \<Rightarrow> ustring" where
  "ustr s = map cp s"

text \<open>\<open>str::len\<close>: the number of bytes of the UTF-8 encoding.\<close>

definition utf8_width :: "nat \<Rightarrow> nat" where
  "utf8_width c = (if c < 0x80 then 1 else if c < 0x800 then 2 else if c < 0x10000 then 3 else 4)"

definition utf8_len :: "ustring \<Rightarrow> nat" where
  "utf8_len s = sum_list (map utf8_width s)"

definition is_control :: "nat \<Rightarrow> bool" where
  "is_control c \<longleftrightarrow> c \<le> 0x1F \<or> 0x7F \<le> c \<and> c \<le> 0x9F"

definition is_whitespace :: "nat \<Rightarrow> bool" where
  "is_whitespace c \<longleftrightarrow>
     9 \<le> c \<and> c \<le> 13 \<or> 0x2000 \<le> c \<and> c \<le> 0x200A \<or>
     c \<in> set [0x20, 0x85, 0xA0, 0x1680, 0x2028, 0x2029, 0x202F, 0x205F, 0x3000]"

definition trim :: "ustring \<Rightarrow> ustring" where
  "trim s = rev (dropWhile is_whitespace (rev (dropWhile is_whitespace s)))"

definition ascii_upper :: "nat \<Rightarrow> nat" where
  "ascii_upper c = (if 97 \<le> c \<and> c \<le> 122 then c - 32 else c)"

text \<open>\<open>str::split\<close> on one character: never empty, one part more than there are separators.\<close>

fun split_on :: "nat \<Rightarrow> ustring \<Rightarrow> ustring list" where
  "split_on c [] = [[]]"
| "split_on c (x # xs) =
     (if x = c then [] # split_on c xs
      else case split_on c xs of [] \<Rightarrow> [[x]] | p # ps \<Rightarrow> (x # p) # ps)"

section \<open>Manifests\<close>

definition max_file_entries :: nat where "max_file_entries = 1024"
definition max_transfer_bytes :: u64 where "max_transfer_bytes = 10737418240"

record file_entry =
  fe_path :: ustring
  fe_size :: u64
  fe_directory :: bool

datatype manifest_error =
  EntryCount | UnsafePath | UnsafeName | DirectorySize | TooLarge | DuplicatePath | PathConflict

definition part_stem :: "ustring \<Rightarrow> ustring" where
  "part_stem part = map ascii_upper (hd (split_on (cp CHR ''.'') part))"

definition reserved_stem :: "ustring \<Rightarrow> bool" where
  "reserved_stem stem \<longleftrightarrow>
     stem \<in> set [ustr ''CON'', ustr ''PRN'', ustr ''AUX'', ustr ''NUL''] \<or>
     (utf8_len stem = 4 \<and> (take 3 stem = ustr ''COM'' \<or> take 3 stem = ustr ''LPT'') \<and>
      cp CHR ''1'' \<le> stem ! 3 \<and> stem ! 3 \<le> cp CHR ''9'')"

definition unsafe_part :: "ustring \<Rightarrow> bool" where
  "unsafe_part part \<longleftrightarrow>
     part = [] \<or> part = ustr ''.'' \<or> part = ustr ''..'' \<or> trim part \<noteq> part \<or>
     last part = cp CHR ''.'' \<or>
     (\<exists>c\<in>set part. is_control c \<or> c \<in> set (ustr ''<>|?*'') \<or> c = 34) \<or>
     reserved_stem (part_stem part)"

type_synonym seen_paths = "(ustring, bool) hash_map"

definition check_entry ::
  "(ustring \<Rightarrow> ustring) \<Rightarrow> file_entry \<Rightarrow> seen_paths \<Rightarrow> u64 \<Rightarrow> manifest_error + seen_paths \<times> u64" where
  "check_entry lower entry paths tot =
     (if 1024 < utf8_len (fe_path entry) \<or> cp CHR 0x5C \<in> set (fe_path entry) \<or>
         cp CHR '':'' \<in> set (fe_path entry) then Inl UnsafePath
      else if \<exists>part\<in>set (split_on (cp CHR ''/'') (fe_path entry)). unsafe_part part then Inl UnsafeName
      else if fe_directory entry \<and> fe_size entry \<noteq> 0 then Inl DirectorySize
      else case checked_u64 (tot + fe_size entry) of
        None \<Rightarrow> Inl TooLarge
      | Some n \<Rightarrow>
          if max_transfer_bytes < n then Inl TooLarge
          else if hm_get paths (lower (fe_path entry)) \<noteq> None then Inl DuplicatePath
          else Inr (hm_put (lower (fe_path entry)) (fe_directory entry) paths, n))"

fun check_entries ::
  "(ustring \<Rightarrow> ustring) \<Rightarrow> file_entry list \<Rightarrow> seen_paths \<Rightarrow> u64 \<Rightarrow> manifest_error + seen_paths \<times> u64" where
  "check_entries lower [] paths tot = Inr (paths, tot)"
| "check_entries lower (entry # entries) paths tot =
     (case check_entry lower entry paths tot of
        Inl e \<Rightarrow> Inl e
      | Inr (paths, tot) \<Rightarrow> check_entries lower entries paths tot)"

text \<open>\<open>match_indices('/')\<close>: the prefixes of a path that end before a separator.\<close>

definition slash_prefixes :: "ustring \<Rightarrow> ustring list" where
  "slash_prefixes path = map (\<lambda>i. take i path) (filter (\<lambda>i. path ! i = cp CHR ''/'') [0..<length path])"

definition has_conflict :: "seen_paths \<Rightarrow> bool" where
  "has_conflict paths \<longleftrightarrow>
     (\<exists>path\<in>set (map fst paths). \<exists>p\<in>set (slash_prefixes path). hm_get paths p = Some False)"

definition validate_manifest ::
  "(ustring \<Rightarrow> ustring) \<Rightarrow> file_entry list \<Rightarrow> manifest_error + u64" where
  "validate_manifest lower entries =
     (if entries = [] \<or> max_file_entries < length entries then Inl EntryCount
      else case check_entries lower entries [] 0 of
        Inl e \<Rightarrow> Inl e
      | Inr (paths, tot) \<Rightarrow> if has_conflict paths then Inl PathConflict else Inr tot)"

section \<open>Drop receipts\<close>

record folder_drop_point =
  fd_x :: i32
  fd_y :: i32
  fd_session_epoch :: u64
  fd_release_sequence :: u64

type_synonym folder_drop_receipts =
  "(authenticated_input_owner \<times> folder_drop_point \<times> u64) list"

definition receipts_record ::
  "authenticated_input_owner \<Rightarrow> folder_drop_point \<Rightarrow> u64 \<Rightarrow> folder_drop_receipts
     \<Rightarrow> folder_drop_receipts" where
  "receipts_record owner point now_ms rs = drop (length rs - 63) rs @ [(owner, point, now_ms)]"

definition receipts_take ::
  "authenticated_input_owner \<Rightarrow> folder_drop_point \<Rightarrow> u64 \<Rightarrow> folder_drop_receipts
     \<Rightarrow> bool \<times> folder_drop_receipts" where
  "receipts_take owner point now_ms rs =
     (let kept = filter (\<lambda>r. now_ms - snd (snd r) \<le> 10000) rs
      in case find_index (\<lambda>r. fst r = owner \<and> fst (snd r) = point) kept of
           None \<Rightarrow> (False, kept)
         | Some i \<Rightarrow> (True, remove_nth i kept))"

datatype file_transfer_status =
  Preparing | Waiting | Transferring | TransferCompleted | TransferCancelled | TransferFailed

definition status_is_terminal :: "file_transfer_status \<Rightarrow> bool" where
  "status_is_terminal s \<longleftrightarrow> s \<in> {TransferCompleted, TransferCancelled, TransferFailed}"

section \<open>What a valid manifest is\<close>

definition sound_path :: "ustring \<Rightarrow> bool" where
  "sound_path path \<longleftrightarrow>
     utf8_len path \<le> 1024 \<and> cp CHR 0x5C \<notin> set path \<and> cp CHR '':'' \<notin> set path \<and>
     (\<forall>part\<in>set (split_on (cp CHR ''/'') path). \<not> unsafe_part part)"

text \<open>A file is in the way of an entry whose path goes through it.\<close>

definition goes_through :: "ustring \<Rightarrow> ustring \<Rightarrow> bool" where
  "goes_through path prefix \<longleftrightarrow> (\<exists>rest. path = prefix @ cp CHR ''/'' # rest)"

definition sound_manifest :: "(ustring \<Rightarrow> ustring) \<Rightarrow> file_entry list \<Rightarrow> bool" where
  "sound_manifest lower es \<longleftrightarrow>
     es \<noteq> [] \<and> length es \<le> 1024 \<and>
     (\<forall>e\<in>set es. sound_path (fe_path e) \<and> (fe_directory e \<longrightarrow> fe_size e = 0)) \<and>
     sum_list (map fe_size es) \<le> 10 * 1024 ^ 3 \<and>
     distinct (map (lower \<circ> fe_path) es) \<and>
     (\<forall>e\<in>set es. \<forall>f\<in>set es.
        \<not> fe_directory f \<longrightarrow> \<not> goes_through (lower (fe_path e)) (lower (fe_path f)))"

lemma slash_prefixes_iff: "p \<in> set (slash_prefixes path) \<longleftrightarrow> goes_through path p"
proof
  assume "p \<in> set (slash_prefixes path)"
  then obtain i where "i < length path" "path ! i = cp CHR ''/''" "p = take i path"
    by (auto simp: slash_prefixes_def)
  then show "goes_through path p" unfolding goes_through_def by (metis id_take_nth_drop)
next
  assume "goes_through path p"
  then obtain rest where "path = p @ cp CHR ''/'' # rest" by (auto simp: goes_through_def)
  then show "p \<in> set (slash_prefixes path)"
    by (auto simp: slash_prefixes_def simp del: upt_Suc intro: rev_image_eqI [of "length p"])
qed

definition entry_ok :: "(ustring \<Rightarrow> ustring) \<Rightarrow> seen_paths \<Rightarrow> u64 \<Rightarrow> file_entry \<Rightarrow> bool" where
  "entry_ok lower paths tot e \<longleftrightarrow>
     sound_path (fe_path e) \<and> (fe_directory e \<longrightarrow> fe_size e = 0) \<and>
     tot + fe_size e \<le> max_transfer_bytes \<and> hm_get paths (lower (fe_path e)) = None"

lemma check_entry_iff:
  "check_entry lower e paths tot = Inr r \<longleftrightarrow>
     entry_ok lower paths tot e \<and>
     r = (hm_put (lower (fe_path e)) (fe_directory e) paths, tot + fe_size e)"
  by (auto simp: check_entry_def entry_ok_def sound_path_def checked_u64_def max_transfer_bytes_def)

lemma check_entries_Cons:
  "check_entries lower (e # es) paths n = Inr r \<longleftrightarrow>
     entry_ok lower paths n e \<and>
     check_entries lower es (hm_put (lower (fe_path e)) (fe_directory e) paths) (n + fe_size e) = Inr r"
proof (cases "check_entry lower e paths n")
  case (Inl err)
  then have "\<not> entry_ok lower paths n e" using check_entry_iff by (metis sum.distinct(1))
  then show ?thesis using Inl by simp
next
  case (Inr s)
  then have "entry_ok lower paths n e"
    and "s = (hm_put (lower (fe_path e)) (fe_directory e) paths, n + fe_size e)"
    using check_entry_iff by blast+
  then show ?thesis using Inr by simp
qed

lemma check_entries_result:
  "hm_wf paths \<Longrightarrow> check_entries lower es paths n = Inr (paths', n') \<Longrightarrow>
     hm_wf paths' \<and> n' = n + sum_list (map fe_size es) \<and>
     (\<forall>k v. hm_get paths' k = Some v \<longleftrightarrow>
        hm_get paths k = Some v \<or> (\<exists>e\<in>set es. lower (fe_path e) = k \<and> fe_directory e = v))"
proof (induction es arbitrary: paths n)
  case Nil
  then show ?case by simp
next
  case (Cons e es)
  let ?m = "hm_put (lower (fe_path e)) (fe_directory e) paths"
  have e: "entry_ok lower paths n e" and "check_entries lower es ?m (n + fe_size e) = Inr (paths', n')"
    using Cons.prems(2) unfolding check_entries_Cons by auto
  then have IH: "hm_wf paths'" "n' = n + fe_size e + sum_list (map fe_size es)"
    "\<And>k v. hm_get paths' k = Some v \<longleftrightarrow>
        hm_get ?m k = Some v \<or> (\<exists>e\<in>set es. lower (fe_path e) = k \<and> fe_directory e = v)"
    using Cons.IH [OF hm.wf_put [OF Cons.prems(1)]] by blast+
  have "hm_get paths (lower (fe_path e)) = None" using e by (simp add: entry_ok_def)
  then show ?case using IH by (auto simp: hm.get_put [OF Cons.prems(1)])
qed

lemma check_entries_accepts:
  "hm_wf paths \<Longrightarrow> n \<le> max_transfer_bytes \<Longrightarrow>
   (\<exists>r. check_entries lower es paths n = Inr r) \<longleftrightarrow>
     (\<forall>e\<in>set es. sound_path (fe_path e) \<and> (fe_directory e \<longrightarrow> fe_size e = 0)) \<and>
     n + sum_list (map fe_size es) \<le> max_transfer_bytes \<and>
     distinct (map (lower \<circ> fe_path) es) \<and>
     (\<forall>e\<in>set es. hm_get paths (lower (fe_path e)) = None)"
proof (induction es arbitrary: paths n)
  case Nil
  then show ?case by simp
next
  case (Cons e es)
  let ?m = "hm_put (lower (fe_path e)) (fe_directory e) paths"
  have fresh: "(\<forall>x\<in>set es. hm_get ?m (lower (fe_path x)) = None) \<longleftrightarrow>
      lower (fe_path e) \<notin> (lower \<circ> fe_path) ` set es \<and>
      (\<forall>x\<in>set es. hm_get paths (lower (fe_path x)) = None)"
    by (fastforce simp: image_iff hm.get_put [OF Cons.prems(1)] split: if_splits)
  show ?case
  proof (cases "entry_ok lower paths n e")
    case False
    then show ?thesis using Cons.prems unfolding check_entries_Cons
      by (auto simp: entry_ok_def)
  next
    case True
    then have "n + fe_size e \<le> max_transfer_bytes" by (simp add: entry_ok_def)
    note IH = Cons.IH [OF hm.wf_put [OF Cons.prems(1)] this]
    have step: "(\<exists>r. check_entries lower (e # es) paths n = Inr r) \<longleftrightarrow>
        (\<exists>r. check_entries lower es ?m (n + fe_size e) = Inr r)"
      unfolding check_entries_Cons using True by blast
    have e: "sound_path (fe_path e)" "fe_directory e \<longrightarrow> fe_size e = 0"
      "hm_get paths (lower (fe_path e)) = None"
      using True by (simp_all add: entry_ok_def)
    show ?thesis unfolding step IH fresh list.map distinct.simps list.set ball_simps sum_list.Cons
      using e by (simp only: add.assoc o_apply image_set list.map_comp simp_thms) blast
  qed
qed

lemma check_entries_total:
  "check_entries lower es [] 0 = Inr (paths, n) \<Longrightarrow> n = sum_list (map fe_size es)"
  using check_entries_result [OF hm_wf_Nil, of lower es 0 paths n] by simp

lemma conflict_iff:
  assumes "check_entries lower es [] 0 = Inr (paths, n)"
  shows "has_conflict paths \<longleftrightarrow>
    (\<exists>e\<in>set es. \<exists>f\<in>set es.
       \<not> fe_directory f \<and> goes_through (lower (fe_path e)) (lower (fe_path f)))"
proof -
  have wf: "hm_wf paths" and get: "\<And>k v. hm_get paths k = Some v \<longleftrightarrow>
      (\<exists>e\<in>set es. lower (fe_path e) = k \<and> fe_directory e = v)"
    using check_entries_result [OF hm_wf_Nil assms] by simp_all
  have keys: "set (map fst paths) = (lower \<circ> fe_path) ` set es"
    unfolding hm.dom_get [OF wf, symmetric] by (auto simp: dom_def get)
  show ?thesis unfolding has_conflict_def keys Bex_def slash_prefixes_iff by (auto simp: get)
qed

lemma validate_manifest_run:
  "validate_manifest lower es = Inr n \<longleftrightarrow>
     es \<noteq> [] \<and> length es \<le> 1024 \<and>
     (\<exists>paths. check_entries lower es [] 0 = Inr (paths, n) \<and> \<not> has_conflict paths)"
  unfolding validate_manifest_def max_file_entries_def
  by (cases "check_entries lower es [] 0") (auto split: if_splits)

lemma validate_manifest_iff:
  "(\<exists>n. validate_manifest lower es = Inr n) = sound_manifest lower es"
proof -
  have accepts: "(\<exists>paths n. check_entries lower es [] 0 = Inr (paths, n)) \<longleftrightarrow>
      (\<forall>e\<in>set es. sound_path (fe_path e) \<and> (fe_directory e \<longrightarrow> fe_size e = 0)) \<and>
      sum_list (map fe_size es) \<le> 10 * 1024 ^ 3 \<and> distinct (map (lower \<circ> fe_path) es)"
    using check_entries_accepts [OF hm_wf_Nil, of 0 lower es]
    by (simp add: max_transfer_bytes_def)
  have "(\<exists>n. validate_manifest lower es = Inr n) \<longleftrightarrow>
      es \<noteq> [] \<and> length es \<le> 1024 \<and>
      (\<exists>paths n. check_entries lower es [] 0 = Inr (paths, n)) \<and>
      \<not> (\<exists>e\<in>set es. \<exists>f\<in>set es.
         \<not> fe_directory f \<and> goes_through (lower (fe_path e)) (lower (fe_path f)))"
    unfolding validate_manifest_run using conflict_iff by blast
  then show ?thesis unfolding accepts sound_manifest_def by blast
qed

lemma find_index_append_single:
  "\<forall>y\<in>set xs. \<not> p y \<Longrightarrow> find_index p (xs @ [x]) = (if p x then Some (length xs) else None)"
  by (induction xs) auto

lemma remove_nth_length: "remove_nth (length xs) (xs @ [x]) = xs"
  by (simp add: remove_nth_def)

definition example_entry :: file_entry where
  "example_entry = \<lparr>fe_path = ustr ''a/b'', fe_size = 3, fe_directory = False\<rparr>"

lemma example_valid: "validate_manifest id [example_entry] = Inr 3"
  by (simp add: example_entry_def validate_manifest_def max_file_entries_def check_entry_def checked_u64_def
      max_transfer_bytes_def utf8_len_def utf8_width_def ustr_def cp_def unsafe_part_def trim_def
      is_whitespace_def is_control_def reserved_stem_def part_stem_def ascii_upper_def
      has_conflict_def slash_prefixes_def hm_get_def hm_put_def hm_del_def)

section \<open>Properties\<close>

text \<open>
  C20. The manifest check decides soundness. It returns a total exactly for the manifests of 1 to
  1024 entries whose paths are safe on every platform, whose directories are empty, whose sizes
  add up to at most 10 GiB, whose paths differ even without regard to case, and in which no path
  goes through a file; and the total it returns is the sum of the sizes.
\<close>

theorem validate_manifest_decides:
  "(\<exists>n. validate_manifest lower es = Inr n) = sound_manifest lower es \<and>
   (\<forall>n. validate_manifest lower es = Inr n \<longrightarrow> n = sum_list (map fe_size es))"
proof -
  have "n = sum_list (map fe_size es)" if "validate_manifest lower es = Inr n" for n
    using that check_entries_total unfolding validate_manifest_run by blast
  then show ?thesis using validate_manifest_iff [of lower es] by blast
qed

theorem validate_manifest_decides_witness:
  "validate_manifest id [example_entry] = Inr 3 \<and> 3 = sum_list (map fe_size [example_entry])"
  using validate_manifest_decides [of id "[example_entry]"] example_valid by blast

text \<open>
  An accepted path stays inside the folder the receiver creates. Read as a walk from that
  folder, no step of it is empty (so it is not absolute and has no trailing separator), stays in
  place or goes up, and none contains a separator of another platform or a drive letter's colon.
\<close>

theorem accepted_paths_stay_inside:
  assumes "validate_manifest lower es = Inr n" and "e \<in> set es"
    and "part \<in> set (split_on (cp CHR ''/'') (fe_path e))"
  shows "part \<noteq> [] \<and> part \<noteq> ustr ''.'' \<and> part \<noteq> ustr ''..'' \<and>
    cp CHR 0x5C \<notin> set (fe_path e) \<and> cp CHR '':'' \<notin> set (fe_path e) \<and> hd (fe_path e) \<noteq> cp CHR ''/''"
proof -
  have "sound_path (fe_path e)"
    using validate_manifest_iff [of lower es] assms(1,2) by (auto simp: sound_manifest_def)
  then have safe: "\<forall>part\<in>set (split_on (cp CHR ''/'') (fe_path e)). \<not> unsafe_part part"
    and rest: "cp CHR 0x5C \<notin> set (fe_path e)" "cp CHR '':'' \<notin> set (fe_path e)"
    by (simp_all add: sound_path_def)
  have "[] \<notin> set (split_on (cp CHR ''/'') (fe_path e))"
    using safe by (auto simp: unsafe_part_def)
  then have "fe_path e \<noteq> [] \<and> hd (fe_path e) \<noteq> cp CHR ''/''"
    by (cases "fe_path e") (auto split: if_splits)
  then show ?thesis using safe assms(3) rest by (auto simp: unsafe_part_def)
qed

theorem accepted_paths_stay_inside_witness: "ustr ''b'' \<noteq> [] \<and> ustr ''b'' \<noteq> ustr ''..''"
  using accepted_paths_stay_inside [OF example_valid, of example_entry "ustr ''b''"]
  by (simp add: example_entry_def ustr_def cp_def)

text \<open>
  A drop receipt is good once. Recording one keeps at most 64; a folder drop with its owner and
  point is honoured for ten seconds after it was recorded and consumes it, and a second drop of the
  same release is refused, whenever it comes.
\<close>

theorem drop_receipt_used_once:
  assumes "length rs \<le> 64"
    and "\<forall>r\<in>set rs. (fst r, fst (snd r)) \<noteq> (owner, point)" and "now - at \<le> 10000"
  shows "length (receipts_record owner point at rs) \<le> 64 \<and>
    fst (receipts_take owner point now (receipts_record owner point at rs)) \<and>
    \<not> fst (receipts_take owner point later
             (snd (receipts_take owner point now (receipts_record owner point at rs))))"
proof -
  let ?m = "\<lambda>r. fst r = owner \<and> fst (snd r) = point"
  let ?f = "filter (\<lambda>r. now - snd (snd r) \<le> 10000) (drop (length rs - 63) rs)"
  have none: "\<forall>r\<in>set ?f. \<not> ?m r" using assms(2) by (auto dest!: in_set_dropD)
  have kept: "filter (\<lambda>r. now - snd (snd r) \<le> 10000) (receipts_record owner point at rs) =
      ?f @ [(owner, point, at)]"
    using assms(3) by (simp add: receipts_record_def)
  have take: "receipts_take owner point now (receipts_record owner point at rs) = (True, ?f)"
    unfolding receipts_take_def kept Let_def
    by (simp add: find_index_append_single [OF none] remove_nth_length)
  have "find_index ?m (filter (\<lambda>r. later - snd (snd r) \<le> 10000) ?f) = None"
    using none by (auto simp: find_index_None)
  then show ?thesis using assms(1)
    unfolding take by (simp add: receipts_record_def receipts_take_def Let_def)
qed

theorem drop_receipt_used_once_witness:
  "fst (receipts_take \<lparr>ao_peer_id = 1, ao_control_connection_id = 2\<rparr>
      \<lparr>fd_x = 3, fd_y = 4, fd_session_epoch = 1, fd_release_sequence = 5\<rparr> 9
      (receipts_record \<lparr>ao_peer_id = 1, ao_control_connection_id = 2\<rparr>
        \<lparr>fd_x = 3, fd_y = 4, fd_session_epoch = 1, fd_release_sequence = 5\<rparr> 7 []))"
  using drop_receipt_used_once [of "[]" "\<lparr>ao_peer_id = 1, ao_control_connection_id = 2\<rparr>"
      "\<lparr>fd_x = 3, fd_y = 4, fd_session_epoch = 1, fd_release_sequence = 5\<rparr>" 9 7]
  by simp

end
