(* ===== verification/InjectionQueue.thy ===== *)
theory InjectionQueue
  imports FileTransfer InputEvents
begin

text \<open>
  The admission side of the injection actor (\<open>crates/rshare-input/src/injection_actor.rs\<close>): the
  queue producers submit frames to, and the choice of the next work item the worker thread makes
  under the same lock. A call is one transition of the queue. The readings of the clocks it takes
  are its argument: the instant, the largest instant the platform represents (beyond which
  \<open>Instant::checked_add\<close> is \<open>None\<close>), and the monotonic stamp.
\<close>

section \<open>State\<close>

definition control_queue_capacity :: usize where "control_queue_capacity = 4"
definition realtime_segment_capacity :: usize where "realtime_segment_capacity = 8"
definition relative_component_capacity :: usize where "relative_component_capacity = 64"
definition timing_ring_capacity :: usize where "timing_ring_capacity = 64"

type_synonym instant = nat

record clock_reading =
  ck_now :: instant
  ck_limit :: instant
  ck_stamp :: monotonic_stamp

definition instant_add :: "clock_reading \<Rightarrow> nat \<Rightarrow> instant option" where
  "instant_add ck d = (if ck_now ck + d \<le> ck_limit ck then Some (ck_now ck + d) else None)"

datatype realtime_submit_result =
    SubmitAccepted | SubmitReplaced | SubmitAccumulated | SubmitOverflowDropped
  | SubmitCapacityDropped | SubmitOutOfOrder | SubmitWrongOwnerOrEpoch | SubmitEpochClosed
  | SubmitProtocolViolation | SubmitDeadlineOverflow | SubmitShuttingDown

datatype injection_queue_full =
    QueueFull | WrongOwnerOrEpoch | EpochClosed | ProtocolViolation | DeadlineOverflow
  | ShuttingDown

datatype trusted_local_error =
  TrustedQueueFull | TrustedShuttingDown | TrustedWorkerStopped | TrustedBackend string

record session_key =
  sk_owner :: authenticated_input_owner
  sk_epoch :: session_epoch

record admission_session =
  as_key :: session_key
  as_closed :: bool
  as_last_realtime_sequence :: "u64 option"
  as_last_reliable_sequence :: "u64 option"
  as_lease_duration :: nat
  as_deadline :: instant

datatype control_command =
    BeginControl session_key
  | CloseControl session_key release_all_reason

record relative_component =
  cp_sequence :: u64
  cp_captured_at :: monotonic_stamp
  cp_dx :: i32
  cp_dy :: i32
  cp_received_at :: monotonic_stamp
  cp_submitted_at :: instant

datatype queued_realtime =
  QueuedRealtime
    (qr_frame: realtime_input_frame)
    (qr_received_at: monotonic_stamp)
    (qr_submitted_at: instant)
    (qr_components: "relative_component list")
    (qr_followups: "queued_realtime list")

record queued_reliable =
  ql_frame :: reliable_input_frame
  ql_received_at :: monotonic_stamp

datatype queued_input = RealtimeInput queued_realtime | ReliableInput queued_reliable

record queue_state =
  qs_active :: "admission_session option"
  qs_controls :: "control_command list"
  qs_release_all_sources :: "release_all_reason option"
  qs_trusted_local :: "input_event list"
  qs_ordinary :: "queued_input list"
  qs_reliable_len :: usize
  qs_reliable_capacity :: usize
  qs_shutdown :: bool

definition queue_new :: "usize \<Rightarrow> queue_state" where
  "queue_new reliable_capacity =
     \<lparr>qs_active = None, qs_controls = [], qs_release_all_sources = None, qs_trusted_local = [],
      qs_ordinary = [], qs_reliable_len = 0, qs_reliable_capacity = reliable_capacity,
      qs_shutdown = False\<rparr>"

definition clear_ordinary :: "queue_state \<Rightarrow> queue_state" where
  "clear_ordinary q = q\<lparr>qs_ordinary := [], qs_reliable_len := 0\<rparr>"

text \<open>Every rejected command's sender is told that the actor is shutting down: one per command.\<close>

definition reject_trusted_local :: "queue_state \<Rightarrow> input_event list \<times> queue_state" where
  "reject_trusted_local q = (qs_trusted_local q, q\<lparr>qs_trusted_local := []\<rparr>)"

section \<open>Realtime batches\<close>

definition queued_realtime_new ::
  "realtime_input_frame \<Rightarrow> monotonic_stamp \<Rightarrow> instant \<Rightarrow> queued_realtime" where
  "queued_realtime_new frame received_at submitted_at =
     QueuedRealtime frame received_at submitted_at
       (case rf_payload frame of
          RelativeMouse dx dy \<Rightarrow>
            [\<lparr>cp_sequence = rf_sequence frame, cp_captured_at = rf_captured_at frame, cp_dx = dx,
              cp_dy = dy, cp_received_at = received_at, cp_submitted_at = submitted_at\<rparr>]
        | _ \<Rightarrow> [])
       []"

text \<open>The checked sums of a group's motion, from the left; \<open>None\<close> where the source panics.\<close>

fun sum_components :: "i32 \<Rightarrow> i32 \<Rightarrow> relative_component list \<Rightarrow> (i32 \<times> i32) option" where
  "sum_components dx dy [] = Some (dx, dy)"
| "sum_components dx dy (c # cs) =
     (case (checked_i32 (dx + cp_dx c), checked_i32 (dy + cp_dy c)) of
        (Some x, Some y) \<Rightarrow> sum_components x y cs
      | _ \<Rightarrow> None)"

definition from_relative_components ::
  "u16 \<Rightarrow> session_epoch \<Rightarrow> relative_component list \<Rightarrow> queued_realtime option" where
  "from_relative_components protocol_version epoch components =
     (if components = [] then None
      else case sum_components 0 0 components of
        None \<Rightarrow> None
      | Some (dx, dy) \<Rightarrow>
          Some (QueuedRealtime
            \<lparr>rf_protocol_version = protocol_version, rf_session_epoch = epoch,
             rf_sequence = cp_sequence (last components),
             rf_captured_at = cp_captured_at (last components), rf_payload = RelativeMouse dx dy\<rparr>
            (cp_received_at (hd components)) (cp_submitted_at (last components)) components []))"

datatype realtime_merge =
    MergeReplaced | MergeAccumulated | MergeOverflowDropped | MergeCapacityDropped
  | MergeIncompatible

definition merge_relative ::
  "queued_realtime \<Rightarrow> i32 \<Rightarrow> i32 \<Rightarrow> queued_realtime \<Rightarrow> i32 \<Rightarrow> i32 \<Rightarrow> realtime_merge \<times> queued_realtime" where
  "merge_relative previous dx dy incoming idx idy =
     (if relative_component_capacity \<le> length (qr_components previous)
      then (MergeCapacityDropped, previous)
      else case (checked_i32 (dx + idx), checked_i32 (dy + idy)) of
        (Some mx, Some my) \<Rightarrow>
          (MergeAccumulated,
           QueuedRealtime
             ((qr_frame previous)\<lparr>rf_payload := RelativeMouse mx my,
                rf_sequence := rf_sequence (qr_frame incoming),
                rf_captured_at := rf_captured_at (qr_frame incoming)\<rparr>)
             (qr_received_at previous) (qr_submitted_at incoming)
             (qr_components previous @ qr_components incoming) (qr_followups previous))
      | _ \<Rightarrow> (MergeOverflowDropped, previous))"

definition merge_adjacent_realtime ::
  "queued_realtime \<Rightarrow> queued_realtime \<Rightarrow> realtime_merge \<times> queued_realtime" where
  "merge_adjacent_realtime previous incoming =
     (case (rf_payload (qr_frame previous), rf_payload (qr_frame incoming)) of
        (RelativeMouse dx dy, RelativeMouse idx idy) \<Rightarrow> merge_relative previous dx dy incoming idx idy
      | (AbsoluteAnchor _ _, AbsoluteAnchor _ _) \<Rightarrow> (MergeReplaced, incoming)
      | (CursorVisual _ _ _, CursorVisual _ _ _) \<Rightarrow> (MergeReplaced, incoming)
      | (GamepadAxesPayload p _ _ _ _ _ _, GamepadAxesPayload i _ _ _ _ _ _) \<Rightarrow>
          if p = i then (MergeReplaced, incoming) else (MergeIncompatible, previous)
      | _ \<Rightarrow> (MergeIncompatible, previous))"

text \<open>The batch a new frame is merged into: the back item, or the last of its followups.\<close>

definition merge_into_back ::
  "queued_realtime \<Rightarrow> queued_realtime \<Rightarrow> realtime_merge \<times> queued_realtime" where
  "merge_into_back previous incoming =
     (if qr_followups previous = [] then merge_adjacent_realtime previous incoming
      else let (outcome, target) = merge_adjacent_realtime (last (qr_followups previous)) incoming
           in (outcome, QueuedRealtime (qr_frame previous) (qr_received_at previous)
                 (qr_submitted_at previous) (qr_components previous)
                 (butlast (qr_followups previous) @ [target])))"

section \<open>Admission\<close>

definition close_admission ::
  "session_key \<Rightarrow> release_all_reason \<Rightarrow> queue_state \<Rightarrow> queue_state" where
  "close_admission key reason q =
     (case qs_active q of
        None \<Rightarrow> q
      | Some active \<Rightarrow>
          if as_key active \<noteq> key \<or> as_closed active then q
          else let q = clear_ordinary (q\<lparr>qs_active := Some (active\<lparr>as_closed := True\<rparr>)\<rparr>)
               in q\<lparr>qs_controls := qs_controls q @ [CloseControl key reason]\<rparr>)"

definition begin_session ::
  "clock_reading \<Rightarrow> authenticated_input_owner \<Rightarrow> session_epoch \<Rightarrow> nat \<Rightarrow> queue_state
     \<Rightarrow> (injection_queue_full + unit) \<times> queue_state" where
  "begin_session ck owner epoch lease_duration q =
     (case instant_add ck lease_duration of
        None \<Rightarrow> (Inl DeadlineOverflow, q)
      | Some deadline \<Rightarrow>
          if qs_shutdown q then (Inl ShuttingDown, q)
          else
            let open_active = (case qs_active q of None \<Rightarrow> False | Some a \<Rightarrow> \<not> as_closed a);
                required = 1 + (if open_active then 1 else 0);
                key = \<lparr>sk_owner = owner, sk_epoch = epoch\<rparr>;
                start = (\<lambda>q. (Inr (), q\<lparr>qs_active := Some \<lparr>as_key = key, as_closed = False,
                            as_last_realtime_sequence = None, as_last_reliable_sequence = None,
                            as_lease_duration = lease_duration, as_deadline = deadline\<rparr>,
                          qs_controls := qs_controls q @ [BeginControl key]\<rparr>))
            in if control_queue_capacity < length (qs_controls q) + required then (Inl QueueFull, q)
               else case qs_active q of
                 None \<Rightarrow> start q
               | Some active \<Rightarrow>
                   if epoch \<le> sk_epoch (as_key active) then (Inl ProtocolViolation, q)
                   else
                     let q = (if \<not> as_closed active
                              then q\<lparr>qs_controls := qs_controls q @
                                       [CloseControl (as_key active) OwnershipTransfer]\<rparr>
                              else q)
                     in start (clear_ordinary q))"

definition is_realtime :: "queued_input \<Rightarrow> bool" where
  "is_realtime i = (case i of RealtimeInput _ \<Rightarrow> True | ReliableInput _ \<Rightarrow> False)"

text \<open>\<open>iter().rev().take_while(realtime).count()\<close>\<close>

definition segment_len :: "queued_input list \<Rightarrow> nat" where
  "segment_len xs = length (takeWhile is_realtime (rev xs))"

definition enqueue_realtime ::
  "queued_realtime \<Rightarrow> queue_state \<Rightarrow> realtime_submit_result \<times> queue_state" where
  "enqueue_realtime queued q =
     (let push = (if realtime_segment_capacity \<le> segment_len (qs_ordinary q)
                  then (SubmitCapacityDropped, q)
                  else (SubmitAccepted, q\<lparr>qs_ordinary := qs_ordinary q @ [RealtimeInput queued]\<rparr>))
      in case rev (qs_ordinary q) of
           RealtimeInput previous # _ \<Rightarrow>
             (let (outcome, merged) = merge_into_back previous queued;
                  q' = q\<lparr>qs_ordinary := butlast (qs_ordinary q) @ [RealtimeInput merged]\<rparr>
              in case outcome of
                   MergeReplaced \<Rightarrow> (SubmitReplaced, q')
                 | MergeAccumulated \<Rightarrow> (SubmitAccumulated, q')
                 | MergeOverflowDropped \<Rightarrow> (SubmitOverflowDropped, q')
                 | MergeCapacityDropped \<Rightarrow> (SubmitCapacityDropped, q')
                 | MergeIncompatible \<Rightarrow> push)
         | _ \<Rightarrow> push)"

definition submit_realtime ::
  "clock_reading \<Rightarrow> authenticated_input_owner \<Rightarrow> realtime_input_frame \<Rightarrow> queue_state
     \<Rightarrow> realtime_submit_result \<times> queue_state" where
  "submit_realtime ck from frame q =
     (if qs_shutdown q then (SubmitShuttingDown, q)
      else case qs_active q of
        None \<Rightarrow> (SubmitWrongOwnerOrEpoch, q)
      | Some active \<Rightarrow>
          let key = \<lparr>sk_owner = from, sk_epoch = rf_session_epoch frame\<rparr>
          in if as_key active \<noteq> key then (SubmitWrongOwnerOrEpoch, q)
             else if as_closed active then (SubmitEpochClosed, q)
             else if rf_protocol_version frame \<noteq> input_protocol_version
             then (SubmitProtocolViolation, close_admission key BackendFailure q)
             else if (case as_last_realtime_sequence active of
                        None \<Rightarrow> False | Some l \<Rightarrow> rf_sequence frame \<le> l)
             then (SubmitOutOfOrder, q)
             else case instant_add ck (as_lease_duration active) of
               None \<Rightarrow> (SubmitDeadlineOverflow, close_admission key BackendFailure q)
             | Some deadline \<Rightarrow>
                 enqueue_realtime (queued_realtime_new frame (ck_stamp ck) (ck_now ck))
                   (q\<lparr>qs_active := Some (active\<lparr>as_last_realtime_sequence := Some (rf_sequence frame),
                                                as_deadline := deadline\<rparr>)\<rparr>))"

definition try_submit_reliable ::
  "clock_reading \<Rightarrow> authenticated_input_owner \<Rightarrow> reliable_input_frame \<Rightarrow> queue_state
     \<Rightarrow> (injection_queue_full + unit) \<times> queue_state" where
  "try_submit_reliable ck from frame q =
     (if qs_shutdown q then (Inl ShuttingDown, q)
      else case qs_active q of
        None \<Rightarrow> (Inl WrongOwnerOrEpoch, q)
      | Some active \<Rightarrow>
          let key = \<lparr>sk_owner = from, sk_epoch = lf_session_epoch frame\<rparr>
          in if as_key active \<noteq> key then (Inl WrongOwnerOrEpoch, q)
             else if as_closed active then (Inl EpochClosed, q)
             else if lf_protocol_version frame \<noteq> input_protocol_version
             then (Inl ProtocolViolation, close_admission key BackendFailure q)
             else case lf_event frame of
               ReleaseAllEvent reason \<Rightarrow> (Inr (), close_admission key reason q)
             | _ \<Rightarrow>
                 if (case as_last_reliable_sequence active of
                       None \<Rightarrow> False | Some p \<Rightarrow> checked_inc p \<noteq> Some (lf_sequence frame))
                 then (Inl ProtocolViolation, close_admission key BackendFailure q)
                 else if qs_reliable_capacity q \<le> qs_reliable_len q then (Inl QueueFull, q)
                 else case instant_add ck (as_lease_duration active) of
                   None \<Rightarrow> (Inl DeadlineOverflow, close_admission key BackendFailure q)
                 | Some deadline \<Rightarrow>
                     (Inr (), q\<lparr>qs_active := Some (active\<lparr>as_last_reliable_sequence := Some (lf_sequence frame),
                                                          as_deadline := deadline\<rparr>),
                                qs_ordinary := qs_ordinary q @
                                  [ReliableInput \<lparr>ql_frame = frame, ql_received_at = ck_stamp ck\<rparr>],
                                qs_reliable_len := qs_reliable_len q + 1\<rparr>))"

definition request_release_all :: "release_all_reason \<Rightarrow> queue_state \<Rightarrow> queue_state" where
  "request_release_all reason q =
     (case qs_active q of None \<Rightarrow> q | Some active \<Rightarrow> close_admission (as_key active) reason q)"

definition request_release_all_sources ::
  "release_all_reason \<Rightarrow> queue_state \<Rightarrow> input_event list \<times> queue_state" where
  "request_release_all_sources reason q =
     (if qs_shutdown q then ([], q)
      else let q = q\<lparr>qs_active := map_option (\<lambda>a. a\<lparr>as_closed := True\<rparr>) (qs_active q)\<rparr>;
               q = (clear_ordinary q)\<lparr>qs_controls := []\<rparr>;
               (rejected, q) = reject_trusted_local q
           in (rejected,
               if qs_release_all_sources q = None then q\<lparr>qs_release_all_sources := Some reason\<rparr> else q))"

definition request_release_through ::
  "authenticated_input_owner \<Rightarrow> session_epoch \<Rightarrow> release_all_reason \<Rightarrow> queue_state \<Rightarrow> queue_state" where
  "request_release_through owner epoch reason q =
     (case qs_active q of
        None \<Rightarrow> q
      | Some active \<Rightarrow>
          if sk_owner (as_key active) = owner \<and> sk_epoch (as_key active) \<le> epoch
          then close_admission (as_key active) reason q else q)"

text \<open>The admission of a trusted-local event; its reply comes from the worker.\<close>

definition inject_trusted_local ::
  "input_event \<Rightarrow> queue_state \<Rightarrow> (trusted_local_error + unit) \<times> queue_state" where
  "inject_trusted_local e q =
     (if qs_shutdown q then (Inl TrustedShuttingDown, q)
      else if qs_reliable_capacity q \<le> length (qs_trusted_local q) then (Inl TrustedQueueFull, q)
      else (Inr (), q\<lparr>qs_trusted_local := qs_trusted_local q @ [e]\<rparr>))"

definition queue_shutdown :: "queue_state \<Rightarrow> input_event list \<times> queue_state" where
  "queue_shutdown q = reject_trusted_local (clear_ordinary (q\<lparr>qs_shutdown := True\<rparr>))"

section \<open>The next work item\<close>

datatype work_item =
    ControlWork control_command
  | ReleaseAllSourcesWork release_all_reason
  | TrustedLocalWork input_event
  | RealtimeWork queued_realtime
  | ReliableWork queued_reliable
  | LeaseExpiredWork session_key
  | ShutdownWork

text \<open>The anchor of the button behind the front item, if there is one.\<close>

definition anchor_behind_front :: "queued_input list \<Rightarrow> u64 option" where
  "anchor_behind_front xs =
     (case xs of
        _ # ReliableInput r # _ \<Rightarrow>
          (case lf_event (ql_frame r) of MouseButtonEvent _ _ _ _ anchor \<Rightarrow> Some anchor | _ \<Rightarrow> None)
      | _ \<Rightarrow> None)"

fun group_components ::
  "relative_component list \<Rightarrow> i32 \<Rightarrow> i32 \<Rightarrow> relative_component list \<Rightarrow> relative_component list list option" where
  "group_components cur cur_dx cur_dy [] = Some (if cur = [] then [] else [cur])"
| "group_components cur cur_dx cur_dy (c # cs) =
     (if cur \<noteq> [] \<and> (checked_i32 (cur_dx + cp_dx c) = None \<or> checked_i32 (cur_dy + cp_dy c) = None)
      then case (checked_i32 (cp_dx c), checked_i32 (cp_dy c)) of
             (Some x, Some y) \<Rightarrow> map_option (Cons cur) (group_components [c] x y cs)
           | _ \<Rightarrow> None
      else case (checked_i32 (cur_dx + cp_dx c), checked_i32 (cur_dy + cp_dy c)) of
             (Some x, Some y) \<Rightarrow> group_components (cur @ [c]) x y cs
           | _ \<Rightarrow> None)"

definition group_representable_relative_components ::
  "relative_component list \<Rightarrow> relative_component list list option" where
  "group_representable_relative_components cs = group_components [] 0 0 cs"

text \<open>A panic while an iterator is consumed is a panic of the whole.\<close>

fun all_some :: "'a option list \<Rightarrow> 'a list option" where
  "all_some [] = Some []"
| "all_some (x # xs) =
     (case x of None \<Rightarrow> None | Some y \<Rightarrow> map_option (Cons y) (all_some xs))"

definition with_followups :: "queued_realtime \<Rightarrow> queued_realtime list \<Rightarrow> queued_realtime" where
  "with_followups r fs =
     QueuedRealtime (qr_frame r) (qr_received_at r) (qr_submitted_at r) (qr_components r)
       (qr_followups r @ fs)"

text \<open>A popped batch leaves its followups in the queue.\<close>

definition without_followups :: "queued_realtime \<Rightarrow> queued_realtime" where
  "without_followups r =
     QueuedRealtime (qr_frame r) (qr_received_at r) (qr_submitted_at r) (qr_components r) []"

text \<open>The batches of a list become one queue item: the first, with the others as its followups.\<close>

definition requeue_batches :: "queued_realtime list \<Rightarrow> queued_input list" where
  "requeue_batches bs = (case bs of [] \<Rightarrow> [] | b # bs \<Rightarrow> [RealtimeInput (with_followups b bs)])"

text \<open>
  \<open>None\<close> is a panic; the first component of the result is \<open>None\<close> when there is nothing to split.
\<close>

definition split_front_relative_for_late_anchor ::
  "queue_state \<Rightarrow> (queued_realtime option \<times> queue_state) option" where
  "split_front_relative_for_late_anchor q =
     (case (anchor_behind_front (qs_ordinary q), qs_ordinary q) of
        (Some anchor, RealtimeInput original # reliable # rest) \<Rightarrow>
          (case find_index (\<lambda>c. anchor < cp_sequence c) (qr_components original) of
             None \<Rightarrow> Some (None, q)
           | Some split_index \<Rightarrow>
               if split_index = 0 then Some (None, q)
               else
                 let version = rf_protocol_version (qr_frame original);
                     epoch = rf_session_epoch (qr_frame original);
                     components = take split_index (qr_components original);
                     suffix = drop split_index (qr_components original)
                 in case (from_relative_components version epoch components,
                          group_representable_relative_components suffix) of
                      (Some prefix, Some groups) \<Rightarrow>
                        (case all_some (map (from_relative_components version epoch) groups) of
                           None \<Rightarrow> None
                         | Some batches \<Rightarrow>
                             Some (Some prefix,
                                   q\<lparr>qs_ordinary := reliable #
                                       requeue_batches (batches @ qr_followups original) @ rest\<rparr>))
                    | _ \<Rightarrow> None)
      | _ \<Rightarrow> Some (None, q))"

definition lease_expired :: "clock_reading \<Rightarrow> session_key option \<Rightarrow> queue_state \<Rightarrow> bool" where
  "lease_expired ck session q \<longleftrightarrow>
     (case (session, qs_active q) of
        (Some key, Some active) \<Rightarrow>
          as_key active = key \<and> \<not> as_closed active \<and> as_deadline active \<le> ck_now ck
      | _ \<Rightarrow> False)"

text \<open>Closing for the timeout, with the close command it reserved taken back out.\<close>

definition expire_lease :: "session_key \<Rightarrow> queue_state \<Rightarrow> queue_state" where
  "expire_lease key q =
     (let q = close_admission key TimeoutReason q
      in case rev (qs_controls q) of
           CloseControl k _ # _ \<Rightarrow> if k = key then q\<lparr>qs_controls := butlast (qs_controls q)\<rparr> else q
         | _ \<Rightarrow> q)"

definition pop_reliable :: "queued_reliable \<Rightarrow> queued_input list \<Rightarrow> queue_state \<Rightarrow> work_item \<times> queue_state" where
  "pop_reliable r rest q =
     (ReliableWork r, q\<lparr>qs_ordinary := rest, qs_reliable_len := qs_reliable_len q - 1\<rparr>)"

definition next_ordinary ::
  "clock_reading \<Rightarrow> nat \<Rightarrow> queue_state \<Rightarrow> (work_item option \<times> queue_state) option" where
  "next_ordinary ck window q =
     (case qs_ordinary q of
        [] \<Rightarrow> Some (None, q)
      | ReliableInput r # rest \<Rightarrow> Some (map_prod Some id (pop_reliable r rest q))
      | RealtimeInput r # rest \<Rightarrow>
          (case (anchor_behind_front (qs_ordinary q), rest) of
             (Some anchor, ReliableInput l # rest') \<Rightarrow>
               if anchor < rf_sequence (qr_frame r)
               then Some (map_prod Some id (pop_reliable l (RealtimeInput r # rest') q))
               else Some (Some (RealtimeWork (without_followups r)),
                          q\<lparr>qs_ordinary := requeue_batches (qr_followups r) @ rest\<rparr>)
           | _ \<Rightarrow>
               if rest = [] \<and> ck_now ck - qr_submitted_at r < window \<and> 0 < window
               then Some (None, q)
               else Some (Some (RealtimeWork (without_followups r)),
                          q\<lparr>qs_ordinary := requeue_batches (qr_followups r) @ rest\<rparr>)))"

text \<open>
  One pass of the loop: \<open>Some (None, q)\<close> when the worker waits on the condition variable. The
  session is the key of the worker's session, \<open>window\<close> the coalescing window.
\<close>

definition next_work_item ::
  "clock_reading \<Rightarrow> nat \<Rightarrow> session_key option \<Rightarrow> queue_state
     \<Rightarrow> (work_item option \<times> queue_state) option" where
  "next_work_item ck window session q =
     (if qs_shutdown q then Some (Some ShutdownWork, q)
      else case qs_release_all_sources q of
        Some reason \<Rightarrow> Some (Some (ReleaseAllSourcesWork reason), q\<lparr>qs_release_all_sources := None\<rparr>)
      | None \<Rightarrow>
          (case qs_controls q of
             control # rest \<Rightarrow> Some (Some (ControlWork control), q\<lparr>qs_controls := rest\<rparr>)
           | [] \<Rightarrow>
               if lease_expired ck session q
               then Some (Some (LeaseExpiredWork (the session)), expire_lease (the session) q)
               else case qs_trusted_local q of
                 e # rest \<Rightarrow> Some (Some (TrustedLocalWork e), q\<lparr>qs_trusted_local := rest\<rparr>)
               | [] \<Rightarrow>
                   (case split_front_relative_for_late_anchor q of
                      None \<Rightarrow> None
                    | Some (Some prefix, q) \<Rightarrow> Some (Some (RealtimeWork prefix), q)
                    | Some (None, q) \<Rightarrow> next_ordinary ck window q)))"

end
