(* ===== verification/InjectionWorker.thy ===== *)
theory InjectionWorker
  imports InjectionQueue
begin

text \<open>
  The worker of the injection actor (\<open>crates/rshare-input/src/injection_actor.rs\<close>): what it does with
  each work item, the ledgers it releases from, and the timing ring. The injection backend is a
  trait object; all the worker sees of it is whether each call succeeds, so it is the list of the
  calls made so far and an oracle \<open>ans\<close> that says, by the number of a call, whether it succeeds. The
  worker takes an item and applies it in two steps: producers may run in between.
\<close>

section \<open>The backend\<close>

datatype injection = InjectEvent input_event | InjectRelative i32 i32

type_synonym backend_log = "(injection \<times> bool) list"
type_synonym backend_oracle = "nat \<Rightarrow> bool"

definition backend_call :: "backend_oracle \<Rightarrow> injection \<Rightarrow> backend_log \<Rightarrow> bool \<times> backend_log" where
  "backend_call ans i log = (ans (length log), log @ [(i, ans (length log))])"

definition backend_inject :: "backend_oracle \<Rightarrow> input_event \<Rightarrow> backend_log \<Rightarrow> bool \<times> backend_log" where
  "backend_inject ans e log = backend_call ans (InjectEvent e) log"

section \<open>Timing\<close>

record injection_timing_sample =
  ts_epoch :: session_epoch
  ts_sequence :: u64
  ts_reliable :: bool
  ts_received :: monotonic_stamp
  ts_injection_started :: "monotonic_stamp option"
  ts_injection_completed :: "monotonic_stamp option"

record timing_state =
  tm_samples :: "injection_timing_sample list"
  tm_high_water :: "((session_epoch \<times> bool) \<times> u64) list"
  tm_latest_epoch :: "session_epoch option"

definition timing_new :: timing_state where
  "timing_new = \<lparr>tm_samples = [], tm_high_water = [], tm_latest_epoch = None\<rparr>"

definition record_high_water :: "session_epoch \<Rightarrow> bool \<Rightarrow> u64 \<Rightarrow> timing_state \<Rightarrow> timing_state" where
  "record_high_water epoch reliable sequence tm =
     (let key = (epoch, reliable);
          (high_water, rest) =
            (case find_index (\<lambda>e. fst e = key) (tm_high_water tm) of
               None \<Rightarrow> (sequence, tm_high_water tm)
             | Some i \<Rightarrow> (max (snd (tm_high_water tm ! i)) sequence, remove_nth i (tm_high_water tm)));
          rest = (if length rest = timing_ring_capacity then tl rest else rest)
      in tm\<lparr>tm_high_water := rest @ [(key, high_water)],
            tm_latest_epoch :=
              (case tm_latest_epoch tm of
                 None \<Rightarrow> Some epoch
               | Some latest \<Rightarrow> if latest < epoch then Some epoch else Some latest)\<rparr>)"

definition record_sample :: "injection_timing_sample \<Rightarrow> timing_state \<Rightarrow> timing_state" where
  "record_sample sample tm =
     record_high_water (ts_epoch sample) (ts_reliable sample) (ts_sequence sample)
       (tm\<lparr>tm_samples := (if length (tm_samples tm) = timing_ring_capacity then tl (tm_samples tm)
                          else tm_samples tm) @ [sample]\<rparr>)"

definition has_passed :: "session_epoch \<Rightarrow> bool \<Rightarrow> u64 \<Rightarrow> timing_state \<Rightarrow> bool" where
  "has_passed epoch reliable sequence tm \<longleftrightarrow>
     (case find (\<lambda>e. fst e = (epoch, reliable)) (rev (tm_high_water tm)) of
        None \<Rightarrow> False | Some e \<Rightarrow> sequence \<le> snd e) \<or>
     (case tm_latest_epoch tm of None \<Rightarrow> False | Some latest \<Rightarrow> epoch < latest)"

definition latest_timing :: "timing_state \<Rightarrow> injection_timing_sample option" where
  "latest_timing tm = (if tm_samples tm = [] then None else Some (last (tm_samples tm)))"

text \<open>One pass of the waiting loop: the sample, that it will not come, or that it may still come.\<close>

datatype timing_wait = TimingFound injection_timing_sample | TimingGone | TimingWait

definition wait_for_timing_pass :: "session_epoch \<Rightarrow> bool \<Rightarrow> u64 \<Rightarrow> timing_state \<Rightarrow> timing_wait" where
  "wait_for_timing_pass epoch reliable sequence tm =
     (case find (\<lambda>s. ts_epoch s = epoch \<and> ts_reliable s = reliable \<and> ts_sequence s = sequence)
             (rev (tm_samples tm)) of
        Some s \<Rightarrow> TimingFound s
      | None \<Rightarrow> if has_passed epoch reliable sequence tm then TimingGone else TimingWait)"

section \<open>Events for the backend\<close>

fun map_key_state :: "key_state \<Rightarrow> button_state" where
  "map_key_state KeyPressed = BtnPressed"
| "map_key_state KeyReleased = BtnReleased"

definition reliable_key_input :: "u32 \<Rightarrow> key_state \<Rightarrow> input_event" where
  "reliable_key_input keycode st = Key (from_wire keycode) (map_key_state st)"

text \<open>The input a released control becomes; other events of a batch are skipped.\<close>

definition release_input :: "reliable_input_event \<Rightarrow> input_event option" where
  "release_input e =
     (case e of
        KeyEvent keycode st \<Rightarrow> Some (reliable_key_input keycode st)
      | MouseButtonEvent button st _ _ _ \<Rightarrow> Some (MouseButton button st)
      | _ \<Rightarrow> None)"

fun inject_batch ::
  "backend_oracle \<Rightarrow> reliable_input_event list \<Rightarrow> backend_log \<Rightarrow> bool \<times> backend_log" where
  "inject_batch ans [] log = (True, log)"
| "inject_batch ans (e # es) log =
     (case release_input e of
        None \<Rightarrow> inject_batch ans es log
      | Some i \<Rightarrow>
          (let (ok, log) = backend_inject ans i log; (complete, log) = inject_batch ans es log
           in (ok \<and> complete, log)))"

definition release_held ::
  "backend_oracle \<Rightarrow> release_all_reason \<Rightarrow> backend_log \<times> pressed_state_ledger
     \<Rightarrow> backend_log \<times> pressed_state_ledger" where
  "release_held ans reason s =
     (let (log, ledger) = s
      in case release_all_events reason ledger of
           (Inl _, ledger) \<Rightarrow> (log, ledger)
         | (Inr batch, ledger) \<Rightarrow>
             (let (complete, log) = inject_batch ans (pb_events batch) log
              in (log, if complete then snd (confirm_release_all batch ledger) else ledger)))"

section \<open>The worker\<close>

record worker_session =
  ws_key :: session_key
  ws_gate :: input_ownership_gate
  ws_last_realtime_applied :: "u64 option"

type_synonym gamepads = "(u8, gamepad_state) hash_map"

record worker =
  wk_session :: "worker_session option"
  wk_remote_ledger :: pressed_state_ledger
  wk_trusted_ledger :: pressed_state_ledger
  wk_gamepads :: gamepads
  wk_local_pointer :: "i32 \<times> i32"
  wk_log :: backend_log

definition worker_new :: "uuid \<Rightarrow> uuid \<Rightarrow> worker" where
  "worker_new remote_id trusted_id =
     \<lparr>wk_session = None, wk_remote_ledger = ledger_new remote_id,
      wk_trusted_ledger = ledger_new trusted_id, wk_gamepads = [], wk_local_pointer = (0, 0),
      wk_log = []\<rparr>"

definition release_remote :: "backend_oracle \<Rightarrow> release_all_reason \<Rightarrow> worker \<Rightarrow> worker" where
  "release_remote ans reason w =
     (let (log, ledger) = release_held ans reason (wk_log w, wk_remote_ledger w)
      in w\<lparr>wk_log := log, wk_remote_ledger := ledger\<rparr>)"

definition release_trusted :: "backend_oracle \<Rightarrow> release_all_reason \<Rightarrow> worker \<Rightarrow> worker" where
  "release_trusted ans reason w =
     (let (log, ledger) = release_held ans reason (wk_log w, wk_trusted_ledger w)
      in w\<lparr>wk_log := log, wk_trusted_ledger := ledger\<rparr>)"

definition end_session :: "worker \<Rightarrow> worker" where
  "end_session w = w\<lparr>wk_session := None, wk_gamepads := []\<rparr>"

definition pad_or_neutral :: "u8 \<Rightarrow> u64 \<Rightarrow> gamepads \<Rightarrow> gamepad_state" where
  "pad_or_neutral gamepad_id sequence pads =
     (case hm_get pads gamepad_id of Some s \<Rightarrow> s | None \<Rightarrow> gamepad_neutral gamepad_id sequence 0)"

definition inject_realtime ::
  "backend_oracle \<Rightarrow> realtime_input_frame \<Rightarrow> backend_log \<times> gamepads \<Rightarrow> bool \<times> backend_log \<times> gamepads" where
  "inject_realtime ans frame s =
     (let (log, pads) = s
      in case rf_payload frame of
           RelativeMouse dx dy \<Rightarrow>
             (let (ok, log) = backend_call ans (InjectRelative dx dy) log in (ok, log, pads))
         | AbsoluteAnchor x y \<Rightarrow>
             (let (ok, log) = backend_inject ans (MouseMove x y) log in (ok, log, pads))
         | GamepadAxesPayload gamepad_id lx ly rx ry lt rt \<Rightarrow>
             (let st = (pad_or_neutral gamepad_id (rf_sequence frame) pads)
                         \<lparr>gs_sequence := rf_sequence frame, gs_left_stick_x := lx,
                          gs_left_stick_y := ly, gs_right_stick_x := rx, gs_right_stick_y := ry,
                          gs_left_trigger := lt, gs_right_trigger := rt\<rparr>;
                  (ok, log) = backend_inject ans (GamepadState st) log
              in (ok, log, hm_put gamepad_id st pads))
         | CursorVisual _ _ _ \<Rightarrow> (True, log, pads))"

text \<open>
  Reliable events, with the anchor the session last applied. A failing ledger fails the event,
  after the backend has injected it; so does a failing backend, before the ledger is asked.
\<close>

definition inject_key ::
  "backend_oracle \<Rightarrow> u32 \<Rightarrow> key_state \<Rightarrow> backend_log \<times> pressed_state_ledger
     \<Rightarrow> bool \<times> backend_log \<times> pressed_state_ledger" where
  "inject_key ans keycode st s =
     (let (log, ledger) = s; (ok, log) = backend_inject ans (reliable_key_input keycode st) log
      in if \<not> ok then (False, log, ledger)
         else case record_key keycode st ledger of
           (Inl _, ledger) \<Rightarrow> (False, log, ledger)
         | (Inr _, ledger) \<Rightarrow> (True, log, ledger))"

definition inject_button ::
  "backend_oracle \<Rightarrow> u64 option \<Rightarrow> mouse_button \<Rightarrow> button_state \<Rightarrow> i32 \<Rightarrow> i32 \<Rightarrow> u64
     \<Rightarrow> backend_log \<times> pressed_state_ledger \<Rightarrow> bool \<times> backend_log \<times> pressed_state_ledger" where
  "inject_button ans applied button st x y anchor s =
     (let (log, ledger) = s;
          (ok, log) = (if applied \<noteq> Some anchor then backend_inject ans (MouseMove x y) log
                       else (True, log))
      in if \<not> ok then (False, log, ledger)
         else let (ok, log) = backend_inject ans (MouseButton button st) log
              in if \<not> ok then (False, log, ledger)
                 else case record_mouse_button button st x y anchor ledger of
                   (Inl _, ledger) \<Rightarrow> (False, log, ledger)
                 | (Inr _, ledger) \<Rightarrow> (True, log, ledger))"

definition press_pad_button :: "u8 \<Rightarrow> gamepad_button \<Rightarrow> bool \<Rightarrow> gamepads \<Rightarrow> gamepad_state" where
  "press_pad_button gamepad_id button pressed pads =
     (let st = pad_or_neutral gamepad_id 0 pads
      in st\<lparr>gs_buttons := filter (\<lambda>b. gb_button b \<noteq> button) (gs_buttons st) @
                           [\<lparr>gb_button = button, gb_pressed = pressed\<rparr>]\<rparr>)"

definition inject_reliable ::
  "backend_oracle \<Rightarrow> u64 option \<Rightarrow> reliable_input_event \<Rightarrow> worker \<Rightarrow> bool \<times> worker" where
  "inject_reliable ans applied e w =
     (let inject = (\<lambda>i w. let (ok, log) = backend_inject ans i (wk_log w) in (ok, w\<lparr>wk_log := log\<rparr>));
          remote = (\<lambda>r. let (ok, log, ledger) = r
                        in (ok, w\<lparr>wk_log := log, wk_remote_ledger := ledger\<rparr>))
      in case e of
           EnterEvent _ x y \<Rightarrow> inject (MouseMove x y) w
         | LeaveEvent \<Rightarrow> (True, w)
         | ReleaseAllEvent reason \<Rightarrow> (True, release_remote ans reason w)
         | KeyEvent keycode st \<Rightarrow> remote (inject_key ans keycode st (wk_log w, wk_remote_ledger w))
         | TextCommitEvent t \<Rightarrow> inject (TextCommit t) w
         | MouseButtonEvent button st x y anchor \<Rightarrow>
             remote (inject_button ans applied button st x y anchor (wk_log w, wk_remote_ledger w))
         | WheelEvent delta_x delta_y \<Rightarrow> inject (MouseWheel delta_x delta_y) w
         | GamepadConnectedEvent info \<Rightarrow>
             inject (GamepadConnected info)
               (w\<lparr>wk_gamepads := hm_put (gi_gamepad_id info)
                                  (gamepad_neutral (gi_gamepad_id info) 0 0) (wk_gamepads w)\<rparr>)
         | GamepadDisconnectedEvent gamepad_id \<Rightarrow>
             inject (GamepadDisconnected gamepad_id)
               (w\<lparr>wk_gamepads := hm_del gamepad_id (wk_gamepads w)\<rparr>)
         | GamepadButtonEvent gamepad_id button pressed \<Rightarrow>
             (let st = press_pad_button gamepad_id button pressed (wk_gamepads w)
              in inject (GamepadButton gamepad_id button pressed st)
                   (w\<lparr>wk_gamepads := hm_put gamepad_id st (wk_gamepads w)\<rparr>)))"

definition record_trusted_local_ledger ::
  "input_event \<Rightarrow> pressed_state_ledger \<times> i32 \<times> i32
     \<Rightarrow> (ledger_error + unit) \<times> pressed_state_ledger \<times> i32 \<times> i32" where
  "record_trusted_local_ledger e s =
     (let (ledger, pointer) = s;
          unit_result = (\<lambda>r. case r of (Inl err, ledger) \<Rightarrow> (Inl err, ledger, pointer)
                                      | (Inr _, ledger) \<Rightarrow> (Inr (), ledger, pointer));
          key_state = (\<lambda>st. if st = BtnPressed then KeyPressed else KeyReleased)
      in case e of
           MouseMove x y \<Rightarrow> (Inr (), ledger, x, y)
         | MouseButton button st \<Rightarrow>
             unit_result (record_mouse_button (button_from_code (button_to_code button)) st
               (fst pointer) (snd pointer) 0 ledger)
         | Key keycode st \<Rightarrow> unit_result (record_key (to_raw keycode) (key_state st) ledger)
         | KeyExtended keycode st _ _ _ _ \<Rightarrow>
             unit_result (record_key (to_raw keycode) (key_state st) ledger)
         | _ \<Rightarrow> (Inr (), ledger, pointer))"

text \<open>The failing side of \<open>fail_worker_session\<close> and of the branches that follow it.\<close>

definition fail_admission :: "session_key \<Rightarrow> queue_state \<Rightarrow> queue_state" where
  "fail_admission key q =
     (case qs_active q of
        None \<Rightarrow> q
      | Some active \<Rightarrow>
          if as_key active = key \<and> \<not> as_closed active
          then clear_ordinary (q\<lparr>qs_active := Some (active\<lparr>as_closed := True\<rparr>)\<rparr>) else q)"

definition fail_worker_session ::
  "backend_oracle \<Rightarrow> session_key \<Rightarrow> worker \<times> queue_state \<Rightarrow> worker \<times> queue_state" where
  "fail_worker_session ans key s = (release_remote ans BackendFailure (fst s), fail_admission key (snd s))"

definition fail_and_end ::
  "backend_oracle \<Rightarrow> session_key \<Rightarrow> worker \<times> queue_state \<Rightarrow> worker \<times> queue_state" where
  "fail_and_end ans key s =
     (let (w, q) = fail_worker_session ans key s in (end_session (release_trusted ans BackendFailure w), q))"

section \<open>Applying a work item\<close>

record actor =
  ac_queue :: queue_state
  ac_worker :: worker
  ac_timing :: timing_state
  ac_receipts :: folder_drop_receipts

text \<open>The stamps taken when an injection starts and completes, and when a drop is recorded.\<close>

record apply_stamps =
  ap_started :: monotonic_stamp
  ap_dropped :: monotonic_stamp
  ap_completed :: monotonic_stamp

definition record_timing ::
  "session_epoch \<Rightarrow> u64 \<Rightarrow> bool \<Rightarrow> monotonic_stamp \<Rightarrow> apply_stamps \<Rightarrow> timing_state \<Rightarrow> timing_state" where
  "record_timing epoch sequence reliable received st =
     record_sample \<lparr>ts_epoch = epoch, ts_sequence = sequence, ts_reliable = reliable,
       ts_received = received, ts_injection_started = Some (ap_started st),
       ts_injection_completed = Some (ap_completed st)\<rparr>"

definition apply_control :: "backend_oracle \<Rightarrow> control_command \<Rightarrow> worker \<Rightarrow> worker" where
  "apply_control ans control w =
     (case control of
        BeginControl key \<Rightarrow>
          (let w = (case wk_session w of
                      Some current \<Rightarrow> if ws_key current \<noteq> key then release_remote ans OwnershipTransfer w else w
                    | None \<Rightarrow> w)
           in w\<lparr>wk_session := Some \<lparr>ws_key = key, ws_gate = gate_new (sk_owner key) (sk_epoch key),
                                   ws_last_realtime_applied = None\<rparr>,
                wk_gamepads := []\<rparr>)
      | CloseControl key reason \<Rightarrow>
          (case wk_session w of
             Some current \<Rightarrow> if ws_key current = key then end_session (release_remote ans reason w) else w
           | None \<Rightarrow> w))"

definition apply_trusted_local :: "backend_oracle \<Rightarrow> input_event \<Rightarrow> worker \<Rightarrow> bool \<times> worker" where
  "apply_trusted_local ans e w =
     (let (ok, log) = backend_inject ans e (wk_log w);
          w = w\<lparr>wk_log := log\<rparr>;
          release_both = (\<lambda>w. release_remote ans BackendFailure (release_trusted ans BackendFailure w))
      in if ok then
           (case record_trusted_local_ledger e (wk_trusted_ledger w, wk_local_pointer w) of
              (Inr _, ledger, pointer) \<Rightarrow>
                (True, w\<lparr>wk_trusted_ledger := ledger, wk_local_pointer := pointer\<rparr>)
            | (Inl _, ledger, pointer) \<Rightarrow>
                (True, release_both (w\<lparr>wk_trusted_ledger := ledger, wk_local_pointer := pointer\<rparr>)))
         else (False, release_both w))"

definition apply_realtime ::
  "backend_oracle \<Rightarrow> apply_stamps \<Rightarrow> queued_realtime \<Rightarrow> actor \<Rightarrow> actor" where
  "apply_realtime ans st queued a =
     (let w = ac_worker a; frame = qr_frame queued
      in case wk_session w of
           None \<Rightarrow> a
         | Some current \<Rightarrow>
             let key = ws_key current
             in if \<lparr>sk_owner = sk_owner key, sk_epoch = rf_session_epoch frame\<rparr> \<noteq> key then a
                else
                  let (accepted, gate) = accept_realtime (sk_owner key) (rf_session_epoch frame)
                                           (rf_sequence frame) (ws_gate current);
                      current = current\<lparr>ws_gate := gate\<rparr>;
                      w = w\<lparr>wk_session := Some current\<rparr>
                  in if accepted = RtOutOfOrder \<or> accepted = RtWrongOwnerOrEpoch
                     then a\<lparr>ac_worker := w\<rparr>
                     else
                       let (ok, log, pads) = inject_realtime ans frame (wk_log w, wk_gamepads w);
                           w = w\<lparr>wk_log := log, wk_gamepads := pads\<rparr>;
                           a = a\<lparr>ac_timing := record_timing (sk_epoch key) (rf_sequence frame) False
                                                (qr_received_at queued) st (ac_timing a)\<rparr>
                       in if \<not> ok
                          then let (w, q) = fail_and_end ans key (w, ac_queue a)
                               in a\<lparr>ac_worker := w, ac_queue := q\<rparr>
                          else a\<lparr>ac_worker := w\<lparr>wk_session :=
                                 Some (current\<lparr>ws_last_realtime_applied := Some (rf_sequence frame)\<rparr>)\<rparr>\<rparr>)"

text \<open>A left-button release that was injected leaves a drop receipt.\<close>

definition drop_receipt ::
  "apply_stamps \<Rightarrow> session_key \<Rightarrow> reliable_input_frame \<Rightarrow> folder_drop_receipts \<Rightarrow> folder_drop_receipts" where
  "drop_receipt st key frame rs =
     (case lf_event frame of
        MouseButtonEvent MbLeft BtnReleased x y _ \<Rightarrow>
          receipts_record (sk_owner key)
            \<lparr>fd_x = x, fd_y = y, fd_session_epoch = sk_epoch key, fd_release_sequence = lf_sequence frame\<rparr>
            (ms_value_us (ap_dropped st) div 1000) rs
      | _ \<Rightarrow> rs)"

definition apply_reliable ::
  "backend_oracle \<Rightarrow> apply_stamps \<Rightarrow> queued_reliable \<Rightarrow> actor \<Rightarrow> actor" where
  "apply_reliable ans st queued a =
     (let w = ac_worker a; frame = ql_frame queued
      in case wk_session w of
           None \<Rightarrow> a
         | Some current \<Rightarrow>
             let key = ws_key current;
                 (accepted, gate) = accept_reliable (sk_owner key) (lf_session_epoch frame)
                                      (lf_sequence frame) (ws_gate current);
                 w = w\<lparr>wk_session := Some (current\<lparr>ws_gate := gate\<rparr>)\<rparr>
             in if accepted \<noteq> RlAccepted
                then let (w, q) = fail_and_end ans key (w, ac_queue a)
                     in a\<lparr>ac_worker := w, ac_queue := q\<rparr>
                else
                  let (ok, w) = inject_reliable ans (ws_last_realtime_applied current) (lf_event frame) w;
                      a = a\<lparr>ac_receipts := (if ok then drop_receipt st key frame (ac_receipts a)
                                             else ac_receipts a),
                            ac_timing := record_timing (sk_epoch key) (lf_sequence frame) True
                                           (ql_received_at queued) st (ac_timing a)\<rparr>
                  in if \<not> ok
                     then let (w, q) = fail_and_end ans key (w, ac_queue a)
                          in a\<lparr>ac_worker := w, ac_queue := q\<rparr>
                     else a\<lparr>ac_worker := w\<rparr>)"

text \<open>
  One iteration of the worker's loop after the item was taken. The reply to a trusted-local
  command, if the item was one, is the first component. After a shutdown the thread is over.
\<close>

definition apply_work ::
  "backend_oracle \<Rightarrow> apply_stamps \<Rightarrow> work_item \<Rightarrow> actor \<Rightarrow> bool option \<times> actor" where
  "apply_work ans st item a =
     (let w = ac_worker a
      in case item of
           ShutdownWork \<Rightarrow>
             (None, a\<lparr>ac_worker := release_trusted ans SessionEnded (release_remote ans SessionEnded w)\<rparr>)
         | ControlWork control \<Rightarrow> (None, a\<lparr>ac_worker := apply_control ans control w\<rparr>)
         | ReleaseAllSourcesWork reason \<Rightarrow>
             (None, a\<lparr>ac_worker := end_session (release_trusted ans reason (release_remote ans reason w))\<rparr>)
         | LeaseExpiredWork key \<Rightarrow>
             (None, case wk_session w of
                      Some current \<Rightarrow>
                        if ws_key current = key
                        then a\<lparr>ac_worker := end_session (release_remote ans TimeoutReason w)\<rparr> else a
                    | None \<Rightarrow> a)
         | TrustedLocalWork e \<Rightarrow>
             (let (ok, w) = apply_trusted_local ans e w in (Some ok, a\<lparr>ac_worker := w\<rparr>))
         | RealtimeWork queued \<Rightarrow> (None, apply_realtime ans st queued a)
         | ReliableWork queued \<Rightarrow> (None, apply_reliable ans st queued a))"

end
