(* ===== verification/InjectionProofs.thy ===== *)
theory InjectionProofs
  imports InjectionWorker
begin

text \<open>
  Lemmas about the injection queue: what a realtime batch stands for, and the queue's own
  invariant with its preservation by every call of the producers and of the worker.
\<close>

section \<open>Batches\<close>

lemma sum_components_append:
  "sum_components x y (cs @ ds) =
    (case sum_components x y cs of None \<Rightarrow> None | Some (a, b) \<Rightarrow> sum_components a b ds)"
  by (induction cs arbitrary: x y) (auto split: option.splits)

lemma sum_components_total:
  "sum_components x y cs = Some (a, b) \<Longrightarrow>
     a = x + sum_list (map cp_dx cs) \<and> b = y + sum_list (map cp_dy cs)"
  by (induction cs arbitrary: x y) (fastforce split: option.splits)+

lemma sum_components_in_i32:
  "sum_components x y cs = Some (a, b) \<Longrightarrow> in_i32 x \<Longrightarrow> in_i32 y \<Longrightarrow> in_i32 a \<and> in_i32 b"
  by (induction cs arbitrary: x y) (auto split: option.splits)

definition component_ok :: "relative_component \<Rightarrow> bool" where
  "component_ok c \<longleftrightarrow> in_i32 (cp_dx c) \<and> in_i32 (cp_dy c)"

text \<open>A batch agrees with its components: the motion is their sum, every partial sum included.\<close>

definition batch_ok :: "queued_realtime \<Rightarrow> bool" where
  "batch_ok b \<longleftrightarrow>
     qr_followups b = [] \<and> list_all component_ok (qr_components b) \<and>
     length (qr_components b) \<le> relative_component_capacity \<and>
     (case rf_payload (qr_frame b) of
        RelativeMouse dx dy \<Rightarrow>
          qr_components b \<noteq> [] \<and> sum_components 0 0 (qr_components b) = Some (dx, dy) \<and>
          cp_sequence (last (qr_components b)) = rf_sequence (qr_frame b)
      | _ \<Rightarrow> qr_components b = [])"

definition batch_seqs :: "queued_realtime \<Rightarrow> u64 list" where
  "batch_seqs b =
     (if qr_components b = [] then [rf_sequence (qr_frame b)] else map cp_sequence (qr_components b))"

lemma batch_seqs_last: "batch_ok b \<Longrightarrow> batch_seqs b \<noteq> [] \<and> last (batch_seqs b) = rf_sequence (qr_frame b)"
  by (auto simp: batch_ok_def batch_seqs_def last_map split: realtime_input_payload.splits)

fun item_batches :: "queued_input \<Rightarrow> queued_realtime list" where
  "item_batches (RealtimeInput r) = without_followups r # qr_followups r"
| "item_batches (ReliableInput l) = []"

definition batches :: "queued_input list \<Rightarrow> queued_realtime list" where
  "batches xs = concat (map item_batches xs)"

lemma batches_simps [simp]:
  "batches [] = []"
  "batches (x # xs) = item_batches x @ batches xs"
  "batches (xs @ ys) = batches xs @ batches ys"
  by (simp_all add: batches_def)

lemma without_followups_id [simp]: "qr_followups b = [] \<Longrightarrow> without_followups b = b"
  by (cases b) (simp add: without_followups_def)

lemma without_followups_sel [simp]:
  "qr_frame (without_followups b) = qr_frame b"
  "qr_components (without_followups b) = qr_components b"
  "qr_followups (without_followups b) = []"
  "qr_received_at (without_followups b) = qr_received_at b"
  "qr_submitted_at (without_followups b) = qr_submitted_at b"
  by (simp_all add: without_followups_def)

lemma without_with_followups: "qr_followups b = [] \<Longrightarrow> without_followups (with_followups b bs) = b"
  by (cases b) (simp add: without_followups_def with_followups_def)

lemma batches_requeue: "list_all batch_ok bs \<Longrightarrow> batches (requeue_batches bs) = bs"
  by (cases bs)
    (auto simp: requeue_batches_def batch_ok_def without_with_followups, simp add: with_followups_def)

lemma requeue_realtime: "list_all is_realtime (requeue_batches bs)" "length (requeue_batches bs) \<le> 1"
  by (auto simp: requeue_batches_def is_realtime_def split: list.splits)

text \<open>The components and the sequence numbers of a stretch of the queue.\<close>

definition comps :: "queued_realtime list \<Rightarrow> relative_component list" where
  "comps bs = concat (map qr_components bs)"

definition seqs :: "queued_realtime list \<Rightarrow> u64 list" where
  "seqs bs = concat (map batch_seqs bs)"

lemma comps_simps [simp]:
  "comps [] = []" "comps (b # bs) = qr_components b @ comps bs" "comps (xs @ ys) = comps xs @ comps ys"
  by (simp_all add: comps_def)

lemma seqs_simps [simp]:
  "seqs [] = []" "seqs (b # bs) = batch_seqs b @ seqs bs" "seqs (xs @ ys) = seqs xs @ seqs ys"
  by (simp_all add: seqs_def)

section \<open>Splitting and grouping\<close>

lemma from_relative_components_ok:
  assumes "cs \<noteq> []" and "sum_components 0 0 cs \<noteq> None" and "list_all component_ok cs"
    and "length cs \<le> relative_component_capacity"
  shows "\<exists>b. from_relative_components version epoch cs = Some b \<and> batch_ok b \<and>
    qr_components b = cs \<and> rf_session_epoch (qr_frame b) = epoch"
  using assms by (auto simp: from_relative_components_def batch_ok_def)

definition group_ok :: "relative_component list \<Rightarrow> bool" where
  "group_ok cs \<longleftrightarrow> cs \<noteq> [] \<and> sum_components 0 0 cs \<noteq> None"

lemma group_components_ok:
  "list_all component_ok cs \<Longrightarrow> sum_components 0 0 cur = Some (dx, dy) \<Longrightarrow>
     \<exists>gs. group_components cur dx dy cs = Some gs \<and> concat gs = cur @ cs \<and> list_all group_ok gs"
proof (induction cs arbitrary: cur dx dy)
  case Nil
  then show ?case by (auto simp: group_ok_def)
next
  case (Cons c cs)
  have cs: "list_all component_ok cs" and "component_ok c" using Cons.prems(1) by simp_all
  then have c: "in_i32 (cp_dx c)" "in_i32 (cp_dy c)" by (simp_all add: component_ok_def)
  show ?case
  proof (cases "cur \<noteq> [] \<and> (checked_i32 (dx + cp_dx c) = None \<or> checked_i32 (dy + cp_dy c) = None)")
    case True
    have s: "sum_components 0 0 [c] = Some (cp_dx c, cp_dy c)" using c by (simp add: checked_i32_def)
    obtain gs where "group_components [c] (cp_dx c) (cp_dy c) cs = Some gs"
        "concat gs = [c] @ cs" "list_all group_ok gs"
      using Cons.IH [OF cs s] c by (auto simp: checked_i32_def)
    moreover have "group_ok cur" using True Cons.prems(2) by (simp add: group_ok_def)
    ultimately show ?thesis using True c by (auto simp: checked_i32_def)
  next
    case False
    have fits: "in_i32 (dx + cp_dx c)" "in_i32 (dy + cp_dy c)"
      using False c Cons.prems(2) by (cases "cur = []"; auto)+
    have s: "sum_components 0 0 (cur @ [c]) = Some (dx + cp_dx c, dy + cp_dy c)"
      using Cons.prems(2) fits by (simp add: sum_components_append checked_i32_def)
    obtain gs where "group_components (cur @ [c]) (dx + cp_dx c) (dy + cp_dy c) cs = Some gs"
        "concat gs = (cur @ [c]) @ cs" "list_all group_ok gs"
      using Cons.IH [OF cs s] fits by (auto simp: checked_i32_def)
    then show ?thesis using False fits by (auto simp: checked_i32_def)
  qed
qed

lemma length_group_le: "concat gs = cs \<Longrightarrow> g \<in> set gs \<Longrightarrow> length g \<le> length cs"
  by (induction gs arbitrary: cs) auto

lemma all_some_groups:
  assumes "list_all group_ok gs" and "list_all component_ok (concat gs)"
    and "length (concat gs) \<le> relative_component_capacity"
  shows "\<exists>bs. all_some (map (from_relative_components version epoch) gs) = Some bs \<and>
    list_all batch_ok bs \<and> comps bs = concat gs \<and>
    list_all (\<lambda>b. rf_session_epoch (qr_frame b) = epoch \<and> qr_components b \<noteq> []) bs"
  using assms
proof (induction gs)
  case Nil
  then show ?case by simp
next
  case (Cons g gs)
  obtain b where b: "from_relative_components version epoch g = Some b" "batch_ok b"
      "qr_components b = g" "rf_session_epoch (qr_frame b) = epoch"
    using from_relative_components_ok [of g version epoch] Cons.prems by (auto simp: group_ok_def)
  obtain bs where "all_some (map (from_relative_components version epoch) gs) = Some bs"
      "list_all batch_ok bs" "comps bs = concat gs"
      "list_all (\<lambda>b. rf_session_epoch (qr_frame b) = epoch \<and> qr_components b \<noteq> []) bs"
    using Cons by auto
  then show ?case using b Cons.prems(1) by (auto simp: group_ok_def)
qed

lemma seqs_of_comps:
  "list_all (\<lambda>b. qr_components b \<noteq> []) bs \<Longrightarrow> seqs bs = map cp_sequence (comps bs)"
  by (induction bs) (auto simp: batch_seqs_def)

section \<open>The invariant of the queue\<close>

definition open_session :: "queue_state \<Rightarrow> admission_session option" where
  "open_session q =
     (case qs_active q of Some a \<Rightarrow> if as_closed a then None else Some a | None \<Rightarrow> None)"

lemma open_session_frame [simp]:
  "open_session (q\<lparr>qs_controls := cs\<rparr>) = open_session q"
  "open_session (q\<lparr>qs_release_all_sources := r\<rparr>) = open_session q"
  "open_session (q\<lparr>qs_trusted_local := es\<rparr>) = open_session q"
  "open_session (q\<lparr>qs_ordinary := xs\<rparr>) = open_session q"
  "open_session (q\<lparr>qs_reliable_len := n\<rparr>) = open_session q"
  "open_session (q\<lparr>qs_shutdown := b\<rparr>) = open_session q"
  "open_session (q\<lparr>qs_active := Some a\<rparr>) = (if as_closed a then None else Some a)"
  by (simp_all add: open_session_def)

lemma open_session_Some: "open_session q = Some a \<longleftrightarrow> qs_active q = Some a \<and> \<not> as_closed a"
  by (auto simp: open_session_def split: option.splits)

text \<open>At most \<open>n\<close> more realtime items before the next reliable one, eight after each.\<close>

fun seg_ok :: "nat \<Rightarrow> queued_input list \<Rightarrow> bool" where
  "seg_ok n [] = True"
| "seg_ok n (RealtimeInput r # xs) = (n > 0 \<and> seg_ok (n - 1) xs)"
| "seg_ok n (ReliableInput l # xs) = seg_ok 8 xs"

text \<open>
  A button that overtakes the front item, or that splits it, leaves the item in the segment behind
  the button: the front segment may have one item more.
\<close>

definition segments_ok :: "queued_input list \<Rightarrow> bool" where
  "segments_ok xs \<longleftrightarrow>
     seg_ok 8 xs \<or>
     (\<exists>us r vs. xs = us @ RealtimeInput r # vs \<and> seg_ok 8 vs \<and> (us = [] \<or> (\<exists>l. us = [ReliableInput l])))"

fun reliables :: "queued_input list \<Rightarrow> queued_reliable list" where
  "reliables [] = []"
| "reliables (RealtimeInput r # xs) = reliables xs"
| "reliables (ReliableInput l # xs) = l # reliables xs"

definition belongs_to :: "admission_session \<Rightarrow> queued_input list \<Rightarrow> bool" where
  "belongs_to a xs \<longleftrightarrow>
     list_all (\<lambda>b. rf_session_epoch (qr_frame b) = sk_epoch (as_key a)) (batches xs) \<and>
     list_all (\<lambda>l. lf_session_epoch (ql_frame l) = sk_epoch (as_key a)) (reliables xs) \<and>
     sorted_wrt (<) (seqs (batches xs)) \<and>
     (\<forall>s\<in>set (seqs (batches xs)). \<exists>m. as_last_realtime_sequence a = Some m \<and> s \<le> m)"

definition queue_ok :: "queue_state \<Rightarrow> bool" where
  "queue_ok q \<longleftrightarrow>
     qs_reliable_len q = length (reliables (qs_ordinary q)) \<and>
     qs_reliable_len q \<le> qs_reliable_capacity q \<and>
     length (qs_trusted_local q) \<le> qs_reliable_capacity q \<and>
     length (qs_controls q) \<le> 5 \<and> (open_session q \<noteq> None \<longrightarrow> length (qs_controls q) \<le> 4) \<and>
     segments_ok (qs_ordinary q) \<and> list_all batch_ok (batches (qs_ordinary q)) \<and>
     (open_session q = None \<longrightarrow> qs_ordinary q = []) \<and>
     (\<forall>a. open_session q = Some a \<longrightarrow> belongs_to a (qs_ordinary q))"

lemma segments_ok_Nil [simp]: "segments_ok []"
  by (simp add: segments_ok_def)

lemma belongs_to_Nil [simp]: "belongs_to a []"
  by (simp add: belongs_to_def)

lemma reliables_append [simp]: "reliables (xs @ ys) = reliables xs @ reliables ys"
  by (induction xs rule: reliables.induct) auto

lemma queue_new_ok: "queue_ok (queue_new capacity)"
  by (simp add: queue_ok_def queue_new_def open_session_def)

text \<open>Whatever empties the ordinary queue and opens no session keeps the invariant.\<close>

lemma queue_ok_cleared:
  assumes "queue_ok q" and "qs_ordinary q' = []" and "qs_reliable_len q' = 0"
    and "qs_reliable_capacity q' = qs_reliable_capacity q"
    and "length (qs_trusted_local q') \<le> length (qs_trusted_local q)"
    and "length (qs_controls q') \<le> 5" and "open_session q' \<noteq> None \<Longrightarrow> length (qs_controls q') \<le> 4"
  shows "queue_ok q'"
  using assms by (auto simp: queue_ok_def split: option.splits)

lemma close_admission_ok:
  assumes "queue_ok q"
  shows "queue_ok (close_admission key reason q)"
proof (cases "open_session q")
  case None
  then have "close_admission key reason q = q"
    by (auto simp: open_session_def close_admission_def split: option.splits if_splits)
  then show ?thesis using assms by simp
next
  case (Some a)
  then have a: "qs_active q = Some a" "\<not> as_closed a"
    by (auto simp: open_session_def split: option.splits if_splits)
  show ?thesis
  proof (cases "as_key a = key")
    case False
    then show ?thesis using assms a by (simp add: close_admission_def)
  next
    case True
    show ?thesis
      by (rule queue_ok_cleared [OF assms])
        (use assms a True Some in \<open>auto simp: close_admission_def clear_ordinary_def open_session_def
          queue_ok_def\<close>)
  qed
qed

lemma begin_session_ok:
  assumes "queue_ok q"
  shows "queue_ok (snd (begin_session ck owner epoch lease q))"
proof (cases "snd (begin_session ck owner epoch lease q) = q")
  case True
  then show ?thesis using assms by simp
next
  case False
  show ?thesis
    by (rule queue_ok_cleared [OF assms])
      (use assms False in \<open>auto simp: begin_session_def clear_ordinary_def open_session_def Let_def
        queue_ok_def control_queue_capacity_def split: option.splits if_splits\<close>)
qed

lemma request_release_all_ok: "queue_ok q \<Longrightarrow> queue_ok (request_release_all reason q)"
  by (auto simp: request_release_all_def close_admission_ok split: option.splits)

lemma request_release_through_ok: "queue_ok q \<Longrightarrow> queue_ok (request_release_through owner epoch reason q)"
  by (auto simp: request_release_through_def close_admission_ok split: option.splits)

lemma request_release_all_sources_ok:
  assumes "queue_ok q"
  shows "queue_ok (snd (request_release_all_sources reason q))"
proof (cases "qs_shutdown q")
  case True
  then show ?thesis using assms by (simp add: request_release_all_sources_def)
next
  case False
  show ?thesis
    by (rule queue_ok_cleared [OF assms])
      (use False in \<open>auto simp: request_release_all_sources_def reject_trusted_local_def
        clear_ordinary_def open_session_def Let_def split: option.splits\<close>)
qed

lemma inject_trusted_local_ok: "queue_ok q \<Longrightarrow> queue_ok (snd (inject_trusted_local e q))"
  unfolding inject_trusted_local_def by (auto simp: queue_ok_def)

lemma queue_shutdown_ok: "queue_ok q \<Longrightarrow> queue_ok (snd (queue_shutdown q))"
  by (rule queue_ok_cleared, assumption)
    (auto simp: queue_shutdown_def reject_trusted_local_def clear_ordinary_def open_session_def queue_ok_def)

lemma fail_admission_ok:
  assumes "queue_ok q"
  shows "queue_ok (fail_admission key q)"
proof (cases "fail_admission key q = q")
  case True
  then show ?thesis using assms by simp
next
  case False
  show ?thesis
    by (rule queue_ok_cleared [OF assms])
      (use False assms in \<open>auto simp: fail_admission_def clear_ordinary_def open_session_def queue_ok_def
        split: option.splits if_splits\<close>)
qed

lemma seg_ok_append_reliable: "seg_ok n xs \<Longrightarrow> seg_ok n (xs @ [ReliableInput l])"
  by (induction n xs rule: seg_ok.induct) auto

lemma segments_ok_append_reliable:
  assumes "segments_ok xs"
  shows "segments_ok (xs @ [ReliableInput l])"
proof (cases "seg_ok 8 xs")
  case True
  then show ?thesis by (simp add: segments_ok_def seg_ok_append_reliable)
next
  case False
  then obtain us r vs where "xs = us @ RealtimeInput r # vs" "seg_ok 8 vs" "us = [] \<or> (\<exists>l. us = [ReliableInput l])"
    using assms unfolding segments_ok_def by blast
  then show ?thesis unfolding segments_ok_def using seg_ok_append_reliable
    by (intro disjI2 exI [of _ us] exI [of _ r] exI [of _ "vs @ [ReliableInput l]"]) auto
qed

definition enqueue_reliable ::
  "reliable_input_frame \<Rightarrow> monotonic_stamp \<Rightarrow> instant \<Rightarrow> admission_session \<Rightarrow> queue_state \<Rightarrow> queue_state" where
  "enqueue_reliable frame stamp deadline a q =
     q\<lparr>qs_active := Some (a\<lparr>as_last_reliable_sequence := Some (lf_sequence frame), as_deadline := deadline\<rparr>),
       qs_ordinary := qs_ordinary q @ [ReliableInput \<lparr>ql_frame = frame, ql_received_at = stamp\<rparr>],
       qs_reliable_len := qs_reliable_len q + 1\<rparr>"

text \<open>What a reliable submission can do to the queue: nothing, close the session, or enqueue.\<close>

lemma try_submit_reliable_cases:
  obtains (same) "snd (try_submit_reliable ck from frame q) = q"
  | (closed) key reason where "snd (try_submit_reliable ck from frame q) = close_admission key reason q"
      "open_session q \<noteq> None" "\<not> qs_shutdown q"
  | (queued) a deadline where
      "try_submit_reliable ck from frame q =
         (Inr (), enqueue_reliable frame (ck_stamp ck) deadline a q)"
      "open_session q = Some a" "as_key a = \<lparr>sk_owner = from, sk_epoch = lf_session_epoch frame\<rparr>"
      "\<And>reason. lf_event frame \<noteq> ReleaseAllEvent reason"
      "\<And>p. as_last_reliable_sequence a = Some p \<Longrightarrow> lf_sequence frame = Suc p"
      "qs_reliable_len q < qs_reliable_capacity q" "\<not> qs_shutdown q"
proof (cases "qs_shutdown q \<or> open_session q = None \<or>
    (\<exists>a. open_session q = Some a \<and> as_key a \<noteq> \<lparr>sk_owner = from, sk_epoch = lf_session_epoch frame\<rparr>)")
  case True
  then show thesis
    by (intro same, cases "qs_active q")
      (auto simp: try_submit_reliable_def Let_def open_session_def split: if_splits)
next
  case False
  then obtain a where a: "\<not> qs_shutdown q" "open_session q = Some a" "qs_active q = Some a" "\<not> as_closed a"
      "as_key a = \<lparr>sk_owner = from, sk_epoch = lf_session_epoch frame\<rparr>"
    by (auto simp: open_session_Some)
  show thesis
  proof (cases "lf_protocol_version frame \<noteq> input_protocol_version \<or>
      (\<exists>reason. lf_event frame = ReleaseAllEvent reason)")
    case True
    then have "\<exists>k r. snd (try_submit_reliable ck from frame q) = close_admission k r q"
      using a by (auto simp: try_submit_reliable_def Let_def) blast+
    then show thesis using closed a by blast
  next
    case ordinary: False
    have eval: "try_submit_reliable ck from frame q =
        (if (case as_last_reliable_sequence a of
               None \<Rightarrow> False | Some p \<Rightarrow> checked_inc p \<noteq> Some (lf_sequence frame))
         then (Inl ProtocolViolation, close_admission (as_key a) BackendFailure q)
         else if qs_reliable_capacity q \<le> qs_reliable_len q then (Inl QueueFull, q)
         else case instant_add ck (as_lease_duration a) of
           None \<Rightarrow> (Inl DeadlineOverflow, close_admission (as_key a) BackendFailure q)
         | Some deadline \<Rightarrow> (Inr (), enqueue_reliable frame (ck_stamp ck) deadline a q))"
      using ordinary a
      by (cases "instant_add ck (as_lease_duration a)"; cases "lf_event frame")
        (simp_all add: try_submit_reliable_def enqueue_reliable_def)
    show thesis
    proof (cases "(case as_last_reliable_sequence a of
               None \<Rightarrow> False | Some p \<Rightarrow> checked_inc p \<noteq> Some (lf_sequence frame)) \<or>
        (qs_reliable_len q < qs_reliable_capacity q \<and> instant_add ck (as_lease_duration a) = None)")
      case True
      then show thesis using a by (intro closed [of "as_key a" BackendFailure]) (auto simp: eval)
    next
      case sequenced: False
      show thesis
      proof (cases "qs_reliable_capacity q \<le> qs_reliable_len q")
        case True
        then show thesis using sequenced by (intro same) (auto simp: eval)
      next
        case False
        then obtain deadline where "instant_add ck (as_lease_duration a) = Some deadline"
          using sequenced by auto
        then show thesis using False sequenced a ordinary
          by (intro queued [of deadline a]) (auto simp: eval)
      qed
    qed
  qed
qed

lemma try_submit_reliable_ok:
  assumes "queue_ok q"
  shows "queue_ok (snd (try_submit_reliable ck from frame q))"
proof (cases rule: try_submit_reliable_cases [of ck "from" frame q])
  case same
  then show ?thesis using assms by simp
next
  case (closed key reason)
  then show ?thesis using close_admission_ok [OF assms] by simp
next
  case (queued a deadline)
  then show ?thesis
    using assms segments_ok_append_reliable open_session_Some [of q a]
    by (auto simp: enqueue_reliable_def queue_ok_def belongs_to_def)
qed

section \<open>Realtime admission\<close>

definition frame_ok :: "realtime_input_frame \<Rightarrow> bool" where
  "frame_ok f \<longleftrightarrow> (case rf_payload f of RelativeMouse dx dy \<Rightarrow> in_i32 dx \<and> in_i32 dy | _ \<Rightarrow> True)"

lemma queued_realtime_new_facts:
  "qr_frame (queued_realtime_new f r s) = f" "qr_followups (queued_realtime_new f r s) = []"
  "frame_ok f \<Longrightarrow> batch_ok (queued_realtime_new f r s)"
  "batch_seqs (queued_realtime_new f r s) = [rf_sequence f]"
  by (auto simp: queued_realtime_new_def batch_ok_def frame_ok_def batch_seqs_def component_ok_def
      relative_component_capacity_def checked_i32_def split: realtime_input_payload.splits)

text \<open>
  Merging keeps the target a batch: either nothing changes, or the incoming components are
  appended, or a batch without components is replaced by another.
\<close>

lemma merge_adjacent_realtime_cases:
  assumes "merge_adjacent_realtime p n = (r, m)" and "batch_ok p" and "batch_ok n"
    and "length (qr_components n) \<le> 1"
  obtains (unchanged) "m = p" "r \<in> {MergeOverflowDropped, MergeCapacityDropped, MergeIncompatible}"
  | (accumulated) "r = MergeAccumulated" "batch_ok m" "qr_components m = qr_components p @ qr_components n"
      "batch_seqs m = batch_seqs p @ batch_seqs n" "qr_followups m = []"
      "rf_session_epoch (qr_frame m) = rf_session_epoch (qr_frame p)"
  | (replaced) "r = MergeReplaced" "m = n" "qr_components p = []" "qr_components n = []"
proof (cases "\<exists>dx dy idx idy. rf_payload (qr_frame p) = RelativeMouse dx dy \<and>
    rf_payload (qr_frame n) = RelativeMouse idx idy")
  case True
  then obtain dx dy idx idy where pay: "rf_payload (qr_frame p) = RelativeMouse dx dy"
      "rf_payload (qr_frame n) = RelativeMouse idx idy" by blast
  have p: "qr_components p \<noteq> []" "sum_components 0 0 (qr_components p) = Some (dx, dy)"
    "list_all component_ok (qr_components p)" "qr_followups p = []"
    using assms(2) pay(1) by (simp_all add: batch_ok_def)
  obtain c where c: "qr_components n = [c]" "cp_dx c = idx" "cp_dy c = idy"
      "cp_sequence c = rf_sequence (qr_frame n)" "component_ok c"
    using assms(3,4) pay(2)
    by (cases "qr_components n") (auto simp: batch_ok_def split: option.splits)
  have merge: "merge_relative p dx dy n idx idy = (r, m)"
    using assms(1) pay by (simp add: merge_adjacent_realtime_def)
  show thesis
  proof (cases "length (qr_components p) < relative_component_capacity \<and>
      in_i32 (dx + idx) \<and> in_i32 (dy + idy)")
    case False
    then have "m = p" "r \<in> {MergeOverflowDropped, MergeCapacityDropped}"
      using merge by (auto simp: merge_relative_def checked_i32_def split: if_splits)
    then show thesis using unchanged by blast
  next
    case fits: True
    then have m: "r = MergeAccumulated" "qr_components m = qr_components p @ [c]"
        "qr_followups m = []" "rf_session_epoch (qr_frame m) = rf_session_epoch (qr_frame p)"
        "rf_payload (qr_frame m) = RelativeMouse (dx + idx) (dy + idy)"
        "rf_sequence (qr_frame m) = cp_sequence c"
      using merge c p(4) by (auto simp: merge_relative_def checked_i32_def)
    have "sum_components 0 0 (qr_components p @ [c]) = Some (dx + idx, dy + idy)"
      using p(2) c fits by (simp add: sum_components_append checked_i32_def)
    then have "batch_ok m" using m p c fits by (simp add: batch_ok_def)
    moreover have "batch_seqs m = batch_seqs p @ batch_seqs n"
      using m p c by (simp add: batch_seqs_def)
    ultimately show thesis using accumulated m c by simp
  qed
next
  case False
  have "rf_payload (qr_frame p) = RelativeMouse dx dy \<Longrightarrow> (r, m) = (MergeIncompatible, p)" for dx dy
    using False assms(1) by (auto simp: merge_adjacent_realtime_def split: realtime_input_payload.splits)
  moreover have "qr_components p = [] \<and> qr_components n = [] \<and> (r, m) = (MergeReplaced, n) \<or>
      (r, m) = (MergeIncompatible, p)" if "\<And>dx dy. rf_payload (qr_frame p) \<noteq> RelativeMouse dx dy"
    using that assms by (auto simp: merge_adjacent_realtime_def batch_ok_def
        split: realtime_input_payload.splits if_splits)
  ultimately show thesis using unchanged replaced
    by (cases "rf_payload (qr_frame p)") auto
qed

lemma merge_into_back_batches:
  assumes "merge_into_back p n = (r, p')" and "list_all batch_ok (item_batches (RealtimeInput p))"
  shows "\<exists>bs t m. item_batches (RealtimeInput p) = bs @ [t] \<and> merge_adjacent_realtime t n = (r, m) \<and>
    (qr_followups m = [] \<longrightarrow> item_batches (RealtimeInput p') = bs @ [m])"
proof (cases "qr_followups p = []")
  case True
  then show ?thesis using assms(1) by (auto simp: merge_into_back_def)
next
  case False
  obtain m where m: "merge_adjacent_realtime (last (qr_followups p)) n = (r, m)"
    using assms(1) False by (auto simp: merge_into_back_def split: prod.splits)
  then have "item_batches (RealtimeInput p') =
      (without_followups p # butlast (qr_followups p)) @ [m]"
    using assms(1) False by (auto simp: merge_into_back_def without_followups_def)
  moreover have "item_batches (RealtimeInput p) =
      (without_followups p # butlast (qr_followups p)) @ [last (qr_followups p)]"
    using False by simp
  ultimately show ?thesis using m by blast
qed

lemma is_realtime_simps [simp]: "is_realtime (RealtimeInput r)" "\<not> is_realtime (ReliableInput l)"
  by (simp_all add: is_realtime_def)

lemma segment_len_Cons:
  "segment_len (x # xs) =
    (if list_all is_realtime xs then (if is_realtime x then Suc (length xs) else length xs)
     else segment_len xs)"
  by (auto simp: segment_len_def takeWhile_append list_all_iff)

lemma seg_ok_append_realtime:
  "seg_ok n xs \<Longrightarrow> (if list_all is_realtime xs then length xs < n else segment_len xs < 8) \<Longrightarrow>
     seg_ok n (xs @ [RealtimeInput r])"
proof (induction n xs rule: seg_ok.induct)
  case (2 n b xs)
  then show ?case by (auto simp: segment_len_Cons split: if_splits)
next
  case (3 n l xs)
  then show ?case by (auto simp: segment_len_Cons split: if_splits)
qed simp

lemma segment_len_all: "list_all is_realtime xs \<Longrightarrow> segment_len xs = length xs"
  by (simp add: segment_len_def list_all_iff takeWhile_eq_all_conv [THEN iffD2])

lemma segments_ok_append_realtime:
  assumes "segments_ok xs" and "segment_len xs < 8"
  shows "segments_ok (xs @ [RealtimeInput r])"
proof (cases "seg_ok 8 xs")
  case True
  then show ?thesis
    using assms(2) by (auto simp: segments_ok_def segment_len_all intro!: seg_ok_append_realtime)
next
  case False
  then obtain us b vs where xs: "xs = us @ RealtimeInput b # vs" "seg_ok 8 vs"
      "us = [] \<or> (\<exists>l. us = [ReliableInput l])"
    using assms(1) unfolding segments_ok_def by blast
  then have "if list_all is_realtime vs then length vs < 8 else segment_len vs < 8"
    using assms(2) by (auto simp: segment_len_Cons split: if_splits)
  then show ?thesis unfolding segments_ok_def using xs seg_ok_append_realtime
    by (intro disjI2 exI [of _ us] exI [of _ b] exI [of _ "vs @ [RealtimeInput r]"]) auto
qed

lemma seg_ok_snoc_cong: "seg_ok n (xs @ [RealtimeInput r]) = seg_ok n (xs @ [RealtimeInput r'])"
  by (induction n xs rule: seg_ok.induct) auto

lemma segments_ok_snoc_cong:
  assumes "segments_ok (xs @ [RealtimeInput r])"
  shows "segments_ok (xs @ [RealtimeInput r'])"
proof (cases "seg_ok 8 (xs @ [RealtimeInput r])")
  case True
  then show ?thesis using seg_ok_snoc_cong [of 8 xs r r'] by (simp add: segments_ok_def)
next
  case False
  then obtain us b vs where xs: "xs @ [RealtimeInput r] = us @ RealtimeInput b # vs" "seg_ok 8 vs"
      and us: "us = [] \<or> (\<exists>l. us = [ReliableInput l])"
    using assms unfolding segments_ok_def by blast
  show ?thesis
  proof (cases vs rule: rev_cases)
    case Nil
    then have "xs = us" using xs(1) by simp
    then show ?thesis using us unfolding segments_ok_def
      by (intro disjI2 exI [of _ us] exI [of _ r'] exI [of _ "[]"]) auto
  next
    case (snoc ws w)
    then have "xs = us @ RealtimeInput b # ws" "w = RealtimeInput r" using xs(1) by auto
    then show ?thesis using us xs(2) snoc seg_ok_snoc_cong [of 8 ws r r'] unfolding segments_ok_def
      by (intro disjI2 exI [of _ us] exI [of _ b] exI [of _ "ws @ [RealtimeInput r']"]) auto
  qed
qed

text \<open>What a realtime frame does to the batches of the queue, by the result it is given.\<close>

definition realtime_effect ::
  "realtime_submit_result \<Rightarrow> queued_realtime \<Rightarrow> queued_realtime list \<Rightarrow> queued_realtime list \<Rightarrow> bool" where
  "realtime_effect r n bs bs' \<longleftrightarrow>
     (case r of
        SubmitAccepted \<Rightarrow> bs' = bs @ [n]
      | SubmitAccumulated \<Rightarrow>
          (\<exists>cs t m. bs = cs @ [t] \<and> bs' = cs @ [m] \<and>
             qr_components m = qr_components t @ qr_components n \<and>
             batch_seqs m = batch_seqs t @ batch_seqs n \<and>
             rf_session_epoch (qr_frame m) = rf_session_epoch (qr_frame t))
      | SubmitReplaced \<Rightarrow>
          (\<exists>cs t. bs = cs @ [t] \<and> bs' = cs @ [n] \<and> qr_components t = [] \<and> qr_components n = [])
      | _ \<Rightarrow> bs' = bs)"

lemma enqueue_realtime_effect:
  assumes "enqueue_realtime n q = (r, q')" and "batch_ok n" and "length (qr_components n) \<le> 1"
    and "list_all batch_ok (batches (qs_ordinary q))" and "segments_ok (qs_ordinary q)"
  shows "(\<exists>xs. q' = q\<lparr>qs_ordinary := xs\<rparr>) \<and> segments_ok (qs_ordinary q') \<and>
    list_all batch_ok (batches (qs_ordinary q')) \<and> reliables (qs_ordinary q') = reliables (qs_ordinary q) \<and>
    realtime_effect r n (batches (qs_ordinary q)) (batches (qs_ordinary q'))"
proof -
  define push where "push = (if realtime_segment_capacity \<le> segment_len (qs_ordinary q)
    then (SubmitCapacityDropped, q)
    else (SubmitAccepted, q\<lparr>qs_ordinary := qs_ordinary q @ [RealtimeInput n]\<rparr>))"
  have n: "qr_followups n = []" using assms(2) by (simp add: batch_ok_def)
  have pushed: ?thesis if "push = (r, q')"
  proof (cases "realtime_segment_capacity \<le> segment_len (qs_ordinary q)")
    case True
    then have "r = SubmitCapacityDropped" "q' = q" using that by (simp_all add: push_def)
    moreover have "\<exists>xs. q = q\<lparr>qs_ordinary := xs\<rparr>" by (rule exI [of _ "qs_ordinary q"]) simp
    ultimately show ?thesis using assms(4,5) by (simp add: realtime_effect_def)
  next
    case False
    then show ?thesis
      using that assms n segments_ok_append_realtime
      by (auto simp: push_def realtime_effect_def realtime_segment_capacity_def)
  qed
  show ?thesis
  proof (cases "\<exists>p zs. rev (qs_ordinary q) = RealtimeInput p # zs")
    case False
    then have "push = (r, q')"
      using assms(1) by (auto simp: enqueue_realtime_def push_def Let_def
          split: list.splits queued_input.splits)
    then show ?thesis by (rule pushed)
  next
    case True
    then obtain p zs where rev: "rev (qs_ordinary q) = RealtimeInput p # zs" by blast
    define xs where "xs = rev zs"
    have q: "qs_ordinary q = xs @ [RealtimeInput p]" using rev unfolding xs_def by (metis rev.simps(2) rev_rev_ident)
    obtain o1 p' where mb: "merge_into_back p n = (o1, p')" by fastforce
    have okp: "list_all batch_ok (item_batches (RealtimeInput p))" using assms(4) q by simp
    obtain bs t m where b: "item_batches (RealtimeInput p) = bs @ [t]"
        "merge_adjacent_realtime t n = (o1, m)"
        "qr_followups m = [] \<Longrightarrow> item_batches (RealtimeInput p') = bs @ [m]"
      using merge_into_back_batches [OF mb okp] by blast
    have "batch_ok t" using okp unfolding b(1) by simp
    then have t: "batch_ok t" "qr_followups t = []" by (simp_all add: batch_ok_def)
    let ?q = "q\<lparr>qs_ordinary := xs @ [RealtimeInput p']\<rparr>"
    have run: "(r, q') = (case o1 of MergeReplaced \<Rightarrow> (SubmitReplaced, ?q)
        | MergeAccumulated \<Rightarrow> (SubmitAccumulated, ?q) | MergeOverflowDropped \<Rightarrow> (SubmitOverflowDropped, ?q)
        | MergeCapacityDropped \<Rightarrow> (SubmitCapacityDropped, ?q) | MergeIncompatible \<Rightarrow> push)"
      using assms(1) rev q mb by (cases o1) (simp_all add: enqueue_realtime_def push_def Let_def)
    have base: "segments_ok (qs_ordinary ?q)" "reliables (qs_ordinary ?q) = reliables (qs_ordinary q)"
      using assms(5) q segments_ok_snoc_cong [of xs p] by simp_all
    have old: "batches (qs_ordinary q) = (batches xs @ bs) @ [t]" using q b(1) by simp
    show ?thesis
    proof (cases rule: merge_adjacent_realtime_cases [OF b(2) t(1) assms(2,3)])
      case 1
      show ?thesis
      proof (cases "o1 = MergeIncompatible")
        case True
        then show ?thesis using run pushed by simp
      next
        case False
        then have "q' = ?q" "r \<in> {SubmitOverflowDropped, SubmitCapacityDropped}" using run 1 by auto
        moreover have "batches (qs_ordinary ?q) = batches (qs_ordinary q)"
          using b(3) 1(1) t(2) old by simp
        ultimately show ?thesis using base assms(4) by (auto simp: realtime_effect_def)
      qed
    next
      case 2
      then have "q' = ?q" "r = SubmitAccumulated" using run by auto
      moreover have "batches (qs_ordinary ?q) = (batches xs @ bs) @ [m]" using b(3) 2 by simp
      ultimately show ?thesis
        using base assms(4) 2 old by (auto simp: realtime_effect_def)
    next
      case 3
      then have "q' = ?q" "r = SubmitReplaced" using run by auto
      moreover have "batches (qs_ordinary ?q) = (batches xs @ bs) @ [n]" using b(3) 3 n by simp
      ultimately show ?thesis
        using base assms(2,4) 3 old by (auto simp: realtime_effect_def)
    qed
  qed
qed

definition admit_realtime ::
  "realtime_input_frame \<Rightarrow> instant \<Rightarrow> admission_session \<Rightarrow> queue_state \<Rightarrow> queue_state" where
  "admit_realtime frame deadline a q =
     q\<lparr>qs_active := Some (a\<lparr>as_last_realtime_sequence := Some (rf_sequence frame), as_deadline := deadline\<rparr>)\<rparr>"

lemma submit_realtime_cases:
  obtains (same) "snd (submit_realtime ck from frame q) = q"
      "fst (submit_realtime ck from frame q) \<notin> {SubmitAccepted, SubmitAccumulated,
        SubmitProtocolViolation, SubmitDeadlineOverflow}"
  | (closed) a reason where "snd (submit_realtime ck from frame q) = close_admission (as_key a) reason q"
      "fst (submit_realtime ck from frame q) \<in> {SubmitProtocolViolation, SubmitDeadlineOverflow}"
      "open_session q = Some a" "\<not> qs_shutdown q"
  | (queued) a deadline where
      "submit_realtime ck from frame q =
         enqueue_realtime (queued_realtime_new frame (ck_stamp ck) (ck_now ck)) (admit_realtime frame deadline a q)"
      "open_session q = Some a" "as_key a = \<lparr>sk_owner = from, sk_epoch = rf_session_epoch frame\<rparr>"
      "\<And>p. as_last_realtime_sequence a = Some p \<Longrightarrow> p < rf_sequence frame" "\<not> qs_shutdown q"
proof (cases "qs_shutdown q \<or> open_session q = None \<or>
    (\<exists>a. open_session q = Some a \<and> as_key a \<noteq> \<lparr>sk_owner = from, sk_epoch = rf_session_epoch frame\<rparr>)")
  case True
  then show thesis
    by (intro same; cases "qs_active q")
      (auto simp: submit_realtime_def Let_def open_session_def split: if_splits)
next
  case False
  then obtain a where a: "\<not> qs_shutdown q" "open_session q = Some a" "qs_active q = Some a" "\<not> as_closed a"
      "as_key a = \<lparr>sk_owner = from, sk_epoch = rf_session_epoch frame\<rparr>"
    by (auto simp: open_session_Some)
  let ?late = "case as_last_realtime_sequence a of None \<Rightarrow> False | Some l \<Rightarrow> rf_sequence frame \<le> l"
  have eval: "submit_realtime ck from frame q =
      (if rf_protocol_version frame \<noteq> input_protocol_version
       then (SubmitProtocolViolation, close_admission (as_key a) BackendFailure q)
       else if ?late then (SubmitOutOfOrder, q)
       else case instant_add ck (as_lease_duration a) of
         None \<Rightarrow> (SubmitDeadlineOverflow, close_admission (as_key a) BackendFailure q)
       | Some deadline \<Rightarrow>
           enqueue_realtime (queued_realtime_new frame (ck_stamp ck) (ck_now ck))
             (admit_realtime frame deadline a q))"
    using a by (cases "instant_add ck (as_lease_duration a)")
      (simp_all add: submit_realtime_def admit_realtime_def)
  consider (bad) "rf_protocol_version frame \<noteq> input_protocol_version \<or>
        (\<not> ?late \<and> instant_add ck (as_lease_duration a) = None)"
    | (late) "rf_protocol_version frame = input_protocol_version" "?late"
    | (good) deadline where "rf_protocol_version frame = input_protocol_version" "\<not> ?late"
        "instant_add ck (as_lease_duration a) = Some deadline"
    by (cases "instant_add ck (as_lease_duration a)") auto
  then show thesis
  proof cases
    case bad
    then show thesis using a by (intro closed [of a BackendFailure]) (auto simp: eval)
  next
    case late
    then show thesis by (intro same) (auto simp: eval)
  next
    case good
    then show thesis using a by (intro queued [of deadline a]) (auto simp: eval)
  qed
qed

lemma realtime_effect_comps:
  "realtime_effect r n bs bs' \<Longrightarrow>
     comps bs' = (if r = SubmitAccepted \<or> r = SubmitAccumulated then comps bs @ qr_components n else comps bs)"
  by (auto simp: realtime_effect_def split: realtime_submit_result.splits)

text \<open>The sequence numbers after a submission: the new one at the end, at most the last one gone.\<close>

lemma realtime_effect_seqs:
  assumes "realtime_effect r n bs bs'" and "batch_seqs n = [s]"
  shows "\<exists>old new. seqs bs' = old @ new \<and> set new \<subseteq> {s} \<and> length new \<le> 1 \<and> (\<exists>rest. seqs bs = old @ rest)"
proof -
  have one: "seqs bs' = old @ [s] \<Longrightarrow> seqs bs = old @ rest \<Longrightarrow> ?thesis" for old rest
    by (intro exI [of _ old] exI [of _ "[s]"]) simp
  have none: "seqs bs' = seqs bs \<Longrightarrow> ?thesis"
    by (intro exI [of _ "seqs bs"] exI [of _ "[]"]) simp
  show ?thesis
  proof (cases r)
    case SubmitAccepted
    then show ?thesis using assms by (intro one [of "seqs bs" "[]"]) (auto simp: realtime_effect_def)
  next
    case SubmitReplaced
    then obtain cs t where "bs = cs @ [t]" "bs' = cs @ [n]" "qr_components t = []"
      using assms(1) by (auto simp: realtime_effect_def)
    then show ?thesis using assms(2) by (intro one [of "seqs cs" "batch_seqs t"]) simp_all
  next
    case SubmitAccumulated
    then show ?thesis using assms by (intro one [of "seqs bs" "[]"]) (auto simp: realtime_effect_def)
  qed (use none assms(1) in \<open>auto simp: realtime_effect_def\<close>)
qed

lemma realtime_effect_epochs:
  assumes "realtime_effect r n bs bs'" and "rf_session_epoch (qr_frame n) = e"
    and "list_all (\<lambda>b. rf_session_epoch (qr_frame b) = e) bs"
  shows "list_all (\<lambda>b. rf_session_epoch (qr_frame b) = e) bs'"
  using assms by (auto simp: realtime_effect_def split: realtime_submit_result.splits)

lemma queued_realtime_new_components:
  "length (qr_components (queued_realtime_new f r s)) \<le> 1"
  by (auto simp: queued_realtime_new_def split: realtime_input_payload.splits)

lemma submit_queued:
  assumes "queue_ok q" and "frame_ok frame"
    and "submit_realtime ck from frame q =
      enqueue_realtime (queued_realtime_new frame (ck_stamp ck) (ck_now ck)) (admit_realtime frame deadline a q)"
    and "open_session q = Some a" and "as_key a = \<lparr>sk_owner = from, sk_epoch = rf_session_epoch frame\<rparr>"
    and "\<And>p. as_last_realtime_sequence a = Some p \<Longrightarrow> p < rf_sequence frame"
    and "submit_realtime ck from frame q = (r, q')"
  shows "queue_ok q'" and "\<exists>xs. q' = (admit_realtime frame deadline a q)\<lparr>qs_ordinary := xs\<rparr>"
    and "reliables (qs_ordinary q') = reliables (qs_ordinary q)"
    and "realtime_effect r (queued_realtime_new frame (ck_stamp ck) (ck_now ck))
      (batches (qs_ordinary q)) (batches (qs_ordinary q'))"
proof -
  let ?n = "queued_realtime_new frame (ck_stamp ck) (ck_now ck)"
  let ?a = "a\<lparr>as_last_realtime_sequence := Some (rf_sequence frame), as_deadline := deadline\<rparr>"
  have closed: "\<not> as_closed a" using assms(4) by (simp add: open_session_Some)
  have run: "enqueue_realtime ?n (admit_realtime frame deadline a q) = (r, q')" using assms(3,7) by simp
  have ok: "list_all batch_ok (batches (qs_ordinary (admit_realtime frame deadline a q)))"
    "segments_ok (qs_ordinary (admit_realtime frame deadline a q))"
    using assms(1) by (simp_all add: queue_ok_def admit_realtime_def)
  note eff = enqueue_realtime_effect [OF run queued_realtime_new_facts(3) [OF assms(2)]
      queued_realtime_new_components ok]
  then obtain xs where xs: "q' = (admit_realtime frame deadline a q)\<lparr>qs_ordinary := xs\<rparr>" by blast
  then show "\<exists>xs. q' = (admit_realtime frame deadline a q)\<lparr>qs_ordinary := xs\<rparr>" by blast
  have same: "qs_ordinary (admit_realtime frame deadline a q) = qs_ordinary q"
    by (simp add: admit_realtime_def)
  show rel: "reliables (qs_ordinary q') = reliables (qs_ordinary q)" using eff same by simp
  show e: "realtime_effect r ?n (batches (qs_ordinary q)) (batches (qs_ordinary q'))" using eff same by simp
  have old: "belongs_to a (qs_ordinary q)" using assms(1,4) by (simp add: queue_ok_def)
  obtain old_seqs new_seqs rest where s: "seqs (batches (qs_ordinary q')) = old_seqs @ new_seqs"
      "set new_seqs \<subseteq> {rf_sequence frame}" "length new_seqs \<le> 1" "seqs (batches (qs_ordinary q)) = old_seqs @ rest"
    using realtime_effect_seqs [OF e queued_realtime_new_facts(4)] by blast
  have below: "\<forall>x\<in>set (old_seqs @ rest). x < rf_sequence frame"
    using old assms(6) unfolding belongs_to_def s(4) by (meson order_le_less_trans)
  have "sorted_wrt (<) old_seqs" using old unfolding belongs_to_def s(4) by (simp add: sorted_wrt_append)
  then have sorted: "sorted_wrt (<) (seqs (batches (qs_ordinary q')))"
    unfolding s(1) using s(2,3) below by (cases new_seqs) (auto simp: sorted_wrt_append)
  have "belongs_to ?a (qs_ordinary q')"
    unfolding belongs_to_def
  proof (intro conjI)
    show "list_all (\<lambda>b. rf_session_epoch (qr_frame b) = sk_epoch (as_key ?a)) (batches (qs_ordinary q'))"
      using realtime_effect_epochs [OF e refl] old assms(5) by (simp add: belongs_to_def queued_realtime_new_facts)
    show "list_all (\<lambda>l. lf_session_epoch (ql_frame l) = sk_epoch (as_key ?a)) (reliables (qs_ordinary q'))"
      using old rel by (simp add: belongs_to_def)
    show "sorted_wrt (<) (seqs (batches (qs_ordinary q')))" by (rule sorted)
    show "\<forall>x\<in>set (seqs (batches (qs_ordinary q'))). \<exists>m. as_last_realtime_sequence ?a = Some m \<and> x \<le> m"
      unfolding s(1) using s(2) below by (fastforce intro: less_imp_le)
  qed
  then show "queue_ok q'"
    using eff assms(1,4) closed rel unfolding queue_ok_def xs by (simp add: admit_realtime_def)
qed

lemma submit_realtime_ok:
  assumes "queue_ok q" and "frame_ok frame"
  shows "queue_ok (snd (submit_realtime ck from frame q))"
proof (cases rule: submit_realtime_cases [of ck "from" frame q])
  case same
  then show ?thesis using assms by simp
next
  case (closed key reason)
  then show ?thesis using close_admission_ok [OF assms(1)] by simp
next
  case (queued a deadline)
  obtain r q' where "submit_realtime ck from frame q = (r, q')" by fastforce
  then show ?thesis using submit_queued(1) [OF assms queued(1-4)] by simp
qed

section \<open>Taking work\<close>

lemma find_index_before: "find_index p xs = Some i \<Longrightarrow> x \<in> set (take i xs) \<Longrightarrow> \<not> p x"
  by (induction xs arbitrary: i) (auto split: if_splits)

text \<open>
  What is taken from the ordinary queue: a batch from the front of the batches, or a reliable
  event from the front of the reliable events, and nothing else changes.
\<close>

definition took_realtime :: "queued_input list \<Rightarrow> queued_realtime \<Rightarrow> queued_input list \<Rightarrow> bool" where
  "took_realtime xs r ys \<longleftrightarrow>
     batch_ok r \<and> segments_ok ys \<and> list_all batch_ok (batches ys) \<and> reliables ys = reliables xs \<and>
     comps (batches xs) = qr_components r @ comps (batches ys) \<and>
     seqs (batches xs) = batch_seqs r @ seqs (batches ys) \<and>
     (\<forall>e. list_all (\<lambda>b. rf_session_epoch (qr_frame b) = e) (batches xs) \<longrightarrow>
        rf_session_epoch (qr_frame r) = e \<and>
        list_all (\<lambda>b. rf_session_epoch (qr_frame b) = e) (batches ys)) \<and>
     (\<forall>anchor. anchor_behind_front xs = Some anchor \<longrightarrow> rf_sequence (qr_frame r) \<le> anchor)"

definition took_reliable :: "queued_input list \<Rightarrow> queued_reliable \<Rightarrow> queued_input list \<Rightarrow> bool" where
  "took_reliable xs l ys \<longleftrightarrow>
     segments_ok ys \<and> reliables xs = l # reliables ys \<and> batches ys = batches xs"

lemma seg_ok_mono: "seg_ok n xs \<Longrightarrow> n \<le> m \<Longrightarrow> seg_ok m xs"
  by (induction n xs arbitrary: m rule: seg_ok.induct) auto

lemma seg_ok_requeue: "seg_ok 8 xs \<Longrightarrow> segments_ok (requeue_batches bs @ xs)"
  unfolding segments_ok_def requeue_batches_def
  by (cases bs) (simp, intro disjI2 exI [of _ "[]"], simp)

lemma segments_ok_tl_realtime: "segments_ok (RealtimeInput r # xs) \<Longrightarrow> seg_ok 8 xs"
  by (auto simp: segments_ok_def Cons_eq_append_conv intro: seg_ok_mono)

lemma segments_ok_tl_reliable: "segments_ok (ReliableInput l # xs) \<Longrightarrow> segments_ok xs"
  by (auto simp: segments_ok_def Cons_eq_append_conv)

lemma segments_ok_behind: "segments_ok (RealtimeInput r # ReliableInput l # xs) \<Longrightarrow> seg_ok 8 xs"
  using segments_ok_tl_realtime [of r "ReliableInput l # xs"] by simp

lemma reliables_requeue [simp]: "reliables (requeue_batches bs) = []"
  by (auto simp: requeue_batches_def split: list.splits)

lemma take_front_batch:
  assumes "list_all batch_ok (batches (RealtimeInput r # rest))"
    and "segments_ok (RealtimeInput r # rest)"
    and "\<And>anchor. anchor_behind_front (RealtimeInput r # rest) = Some anchor \<Longrightarrow>
      rf_sequence (qr_frame r) \<le> anchor"
  shows "took_realtime (RealtimeInput r # rest) (without_followups r)
    (requeue_batches (qr_followups r) @ rest)"
proof -
  have "batches (requeue_batches (qr_followups r) @ rest) = qr_followups r @ batches rest"
    using assms(1) by (simp add: batches_requeue)
  then show ?thesis
    using assms seg_ok_requeue [OF segments_ok_tl_realtime [OF assms(2)]]
    by (simp add: took_realtime_def batch_seqs_def)
qed

lemma next_ordinary_takes:
  assumes "list_all batch_ok (batches (qs_ordinary q))" and "segments_ok (qs_ordinary q)"
    and "next_ordinary ck window q = res"
  obtains (wait) "res = Some (None, q)"
  | (realtime) r ys where "res = Some (Some (RealtimeWork r), q\<lparr>qs_ordinary := ys\<rparr>)"
      "took_realtime (qs_ordinary q) r ys"
  | (reliable) l ys where
      "res = Some (Some (ReliableWork l), q\<lparr>qs_ordinary := ys, qs_reliable_len := qs_reliable_len q - 1\<rparr>)"
      "took_reliable (qs_ordinary q) l ys"
proof (cases "qs_ordinary q")
  case Nil
  then show thesis using assms(3) wait by (simp add: next_ordinary_def)
next
  case (Cons x rest)
  show thesis
  proof (cases x)
    case (ReliableInput l)
    then have "took_reliable (qs_ordinary q) l rest"
      using assms(2) Cons segments_ok_tl_reliable [of l rest]
      by (simp add: took_reliable_def)
    then show thesis
      using assms(3) Cons ReliableInput reliable [of l rest] by (simp add: next_ordinary_def pop_reliable_def)
  next
    case (RealtimeInput r)
    have q: "qs_ordinary q = RealtimeInput r # rest" using Cons RealtimeInput by simp
    show thesis
    proof (cases "\<exists>anchor l rest'. anchor_behind_front (qs_ordinary q) = Some anchor \<and>
        rest = ReliableInput l # rest' \<and> anchor < rf_sequence (qr_frame r)")
      case True
      then obtain anchor l rest' where t: "anchor_behind_front (qs_ordinary q) = Some anchor"
          "rest = ReliableInput l # rest'" "anchor < rf_sequence (qr_frame r)" by blast
      have "seg_ok 8 rest'" using assms(2) q t(2) segments_ok_behind by simp
      then have "segments_ok (RealtimeInput r # rest')"
        unfolding segments_ok_def by (intro disjI2 exI [of _ "[]"]) simp
      then have "took_reliable (qs_ordinary q) l (RealtimeInput r # rest')"
        using q t(2) by (simp add: took_reliable_def)
      then show thesis
        using assms(3) q t reliable [of l "RealtimeInput r # rest'"]
        by (simp add: next_ordinary_def pop_reliable_def)
    next
      case False
      have behind: "anchor_behind_front (qs_ordinary q) = Some anchor \<Longrightarrow>
          \<exists>l rest'. rest = ReliableInput l # rest'" for anchor
        using q by (auto simp: anchor_behind_front_def split: list.splits queued_input.splits)
      have "took_realtime (qs_ordinary q) (without_followups r) (requeue_batches (qr_followups r) @ rest)"
        unfolding q
        by (rule take_front_batch) (use assms(1,2) False behind q in \<open>auto simp: not_less\<close>)
      moreover have "res = Some (None, q) \<or>
          res = Some (Some (RealtimeWork (without_followups r)),
            q\<lparr>qs_ordinary := requeue_batches (qr_followups r) @ rest\<rparr>)"
        using assms(3) q False
        by (auto simp: next_ordinary_def split: option.splits list.splits queued_input.splits if_splits)
      ultimately show thesis using wait realtime by blast
    qed
  qed
qed

lemma split_takes:
  assumes "list_all batch_ok (batches (qs_ordinary q))" and "segments_ok (qs_ordinary q)"
  obtains (none) "split_front_relative_for_late_anchor q = Some (None, q)"
  | (split) r ys where "split_front_relative_for_late_anchor q = Some (Some r, q\<lparr>qs_ordinary := ys\<rparr>)"
      "took_realtime (qs_ordinary q) r ys"
proof (cases "\<exists>o1 l rest anchor i. qs_ordinary q = RealtimeInput o1 # ReliableInput l # rest \<and>
    anchor_behind_front (qs_ordinary q) = Some anchor \<and>
    find_index (\<lambda>c. anchor < cp_sequence c) (qr_components o1) = Some i \<and> i \<noteq> 0")
  case False
  then have "split_front_relative_for_late_anchor q = Some (None, q)"
    by (auto simp: split_front_relative_for_late_anchor_def anchor_behind_front_def
        split: option.splits list.splits queued_input.splits)
  then show thesis by (rule none)
next
  case True
  then obtain o1 l rest anchor i where q: "qs_ordinary q = RealtimeInput o1 # ReliableInput l # rest"
      and anchor: "anchor_behind_front (qs_ordinary q) = Some anchor"
      and i: "find_index (\<lambda>c. anchor < cp_sequence c) (qr_components o1) = Some i" "i \<noteq> 0" by blast
  define cs where "cs = qr_components o1"
  let ?v = "rf_protocol_version (qr_frame o1)" and ?e = "rf_session_epoch (qr_frame o1)"
  have o1: "batch_ok (without_followups o1)" "list_all batch_ok (qr_followups o1)"
    using assms(1) q by simp_all
  have len: "i < length cs" using find_index_SomeD [OF i(1)] by (simp add: cs_def)
  have sums: "sum_components 0 0 cs \<noteq> None" "list_all component_ok cs"
      "length cs \<le> relative_component_capacity"
    using o1(1) len by (auto simp: batch_ok_def cs_def split: realtime_input_payload.splits)
  have "sum_components 0 0 (take i cs) \<noteq> None"
    using sums(1) sum_components_append [of 0 0 "take i cs" "drop i cs"] by (auto split: option.splits)
  moreover have "list_all component_ok (take i cs)"
    using sums(2) by (auto simp: list_all_iff dest: in_set_takeD)
  moreover have "take i cs \<noteq> []" using len i(2) by auto
  ultimately obtain prefix where p: "from_relative_components ?v ?e (take i cs) = Some prefix" "batch_ok prefix"
      "qr_components prefix = take i cs" "rf_session_epoch (qr_frame prefix) = ?e"
    using from_relative_components_ok [of "take i cs" ?v ?e] sums(3) len by force
  have suffix: "list_all component_ok (drop i cs)"
    using sums(2) by (auto simp: list_all_iff dest: in_set_dropD)
  then obtain gs where g: "group_representable_relative_components (drop i cs) = Some gs"
      "concat gs = drop i cs" "list_all group_ok gs"
    using group_components_ok [of "drop i cs" "[]" 0 0]
    by (auto simp: group_representable_relative_components_def)
  obtain bs where bs: "all_some (map (from_relative_components ?v ?e) gs) = Some bs" "list_all batch_ok bs"
      "comps bs = drop i cs" "list_all (\<lambda>b. rf_session_epoch (qr_frame b) = ?e \<and> qr_components b \<noteq> []) bs"
    using all_some_groups [OF g(3), of ?v ?e] suffix sums(3) unfolding g(2) by force
  define ys where "ys = ReliableInput l # requeue_batches (bs @ qr_followups o1) @ rest"
  have run: "split_front_relative_for_late_anchor q = Some (Some prefix, q\<lparr>qs_ordinary := ys\<rparr>)"
    using q anchor i p(1) g(1) bs(1)
    by (simp add: split_front_relative_for_late_anchor_def cs_def ys_def)
  have batches: "batches ys = bs @ qr_followups o1 @ batches rest"
    using bs(2) o1(2) by (simp add: ys_def batches_requeue)
  have "seg_ok 8 rest" using assms(2) q segments_ok_behind by simp
  then have seg: "segments_ok ys"
    unfolding segments_ok_def ys_def requeue_batches_def
    by (cases "bs @ qr_followups o1") (simp, intro disjI2 exI [of _ "[ReliableInput l]"], simp)
  have "seqs bs = map cp_sequence (drop i cs)"
    using seqs_of_comps [of bs] bs(3,4) by (simp add: list_all_iff)
  moreover have "batch_seqs prefix = map cp_sequence (take i cs)"
    using p(3) len i(2) by (auto simp: batch_seqs_def)
  moreover have "batch_seqs (without_followups o1) = map cp_sequence cs" using len by (auto simp: batch_seqs_def cs_def)
  ultimately have sq: "batch_seqs (without_followups o1) = batch_seqs prefix @ seqs bs"
    by (simp flip: map_append)
  have "last (take i cs) \<in> set (take i cs)" using len i(2) by (intro last_in_set) auto
  then have "cp_sequence (last (take i cs)) \<le> anchor"
    using find_index_before [OF i(1)] by (force simp: cs_def)
  moreover have "rf_sequence (qr_frame prefix) = cp_sequence (last (take i cs))"
    using batch_seqs_last [OF p(2)] \<open>batch_seqs prefix = _\<close> len i(2) by (auto simp: last_map)
  ultimately have "rf_sequence (qr_frame prefix) \<le> anchor" by simp
  then have "took_realtime (qs_ordinary q) prefix ys"
    unfolding took_realtime_def batches
    using p bs(2,3,4) o1 assms(1) anchor seg sq
    by (auto simp: q ys_def list_all_iff simp flip: cs_def)
  then show thesis using run split by blast
qed

definition idle :: "queue_state \<Rightarrow> bool" where
  "idle q \<longleftrightarrow> \<not> qs_shutdown q \<and> qs_release_all_sources q = None \<and> qs_controls q = []"

lemma expire_lease_idle:
  assumes "idle q" and "open_session q = Some a" and "as_key a = key"
  shows "expire_lease key q = clear_ordinary (q\<lparr>qs_active := Some (a\<lparr>as_closed := True\<rparr>)\<rparr>)"
  using assms by (simp add: expire_lease_def close_admission_def clear_ordinary_def Let_def idle_def open_session_Some)

lemma next_work_item_takes [consumes 1]:
  assumes "queue_ok q"
  obtains (wait) "next_work_item ck window session q = Some (None, q)"
  | (shutdown) "next_work_item ck window session q = Some (Some ShutdownWork, q)" "qs_shutdown q"
  | (release) reason where
      "next_work_item ck window session q =
         Some (Some (ReleaseAllSourcesWork reason), q\<lparr>qs_release_all_sources := None\<rparr>)"
      "qs_release_all_sources q = Some reason" "\<not> qs_shutdown q"
  | (control) c cs where
      "next_work_item ck window session q = Some (Some (ControlWork c), q\<lparr>qs_controls := cs\<rparr>)"
      "qs_controls q = c # cs" "qs_release_all_sources q = None" "\<not> qs_shutdown q"
  | (expired) a where
      "next_work_item ck window session q =
         Some (Some (LeaseExpiredWork (as_key a)), clear_ordinary (q\<lparr>qs_active := Some (a\<lparr>as_closed := True\<rparr>)\<rparr>))"
      "session = Some (as_key a)" "open_session q = Some a" "idle q"
  | (trusted) e es where
      "next_work_item ck window session q = Some (Some (TrustedLocalWork e), q\<lparr>qs_trusted_local := es\<rparr>)"
      "qs_trusted_local q = e # es" "idle q"
  | (realtime) r ys where
      "next_work_item ck window session q = Some (Some (RealtimeWork r), q\<lparr>qs_ordinary := ys\<rparr>)"
      "took_realtime (qs_ordinary q) r ys" "idle q"
  | (reliable) l ys where
      "next_work_item ck window session q =
         Some (Some (ReliableWork l), q\<lparr>qs_ordinary := ys, qs_reliable_len := qs_reliable_len q - 1\<rparr>)"
      "took_reliable (qs_ordinary q) l ys" "idle q"
proof (cases "idle q")
  case False
  show thesis
  proof (cases "qs_shutdown q")
    case True
    then show thesis using shutdown by (simp add: next_work_item_def)
  next
    case running: False
    show thesis
    proof (cases "qs_release_all_sources q")
      case None
      then obtain c cs where "qs_controls q = c # cs"
        using False running by (cases "qs_controls q") (auto simp: idle_def)
      then show thesis using None running control by (simp add: next_work_item_def)
    next
      case (Some reason)
      then show thesis using running release by (simp add: next_work_item_def)
    qed
  qed
next
  case True
  then have i: "\<not> qs_shutdown q" "qs_release_all_sources q = None" "qs_controls q = []"
    by (simp_all add: idle_def)
  have ok: "list_all batch_ok (batches (qs_ordinary q))" "segments_ok (qs_ordinary q)"
    using assms by (simp_all add: queue_ok_def)
  show thesis
  proof (cases "lease_expired ck session q")
    case expire: True
    then obtain a where a: "open_session q = Some a" "session = Some (as_key a)"
      by (auto simp: lease_expired_def open_session_Some split: option.splits)
    then show thesis using expire i True expired [of a] expire_lease_idle [OF True a(1) refl]
      by (simp add: next_work_item_def)
  next
    case alive: False
    show thesis
    proof (cases "qs_trusted_local q")
      case (Cons e es)
      then show thesis using alive i True trusted by (simp add: next_work_item_def)
    next
      case Nil
      show thesis
      proof (cases rule: split_takes [OF ok])
        case 1
        then have "next_work_item ck window session q = next_ordinary ck window q"
          using alive i Nil by (simp add: next_work_item_def)
        then show thesis
          using next_ordinary_takes [OF ok, of ck window] True wait realtime reliable by metis
      next
        case (2 r ys)
        then show thesis using alive i Nil True realtime [of r ys] by (simp add: next_work_item_def)
      qed
    qed
  qed
qed

lemma took_realtime_belongs:
  assumes "took_realtime xs r ys" and "belongs_to a xs"
  shows "belongs_to a ys" and "rf_session_epoch (qr_frame r) = sk_epoch (as_key a)"
    and "\<forall>s\<in>set (seqs (batches ys)). rf_sequence (qr_frame r) < s"
proof -
  have e: "rf_session_epoch (qr_frame r) = sk_epoch (as_key a)"
    "list_all (\<lambda>b. rf_session_epoch (qr_frame b) = sk_epoch (as_key a)) (batches ys)"
    using assms unfolding took_realtime_def belongs_to_def by blast+
  have s: "seqs (batches xs) = batch_seqs r @ seqs (batches ys)" "batch_ok r" "reliables ys = reliables xs"
    using assms(1) by (simp_all add: took_realtime_def)
  show "rf_session_epoch (qr_frame r) = sk_epoch (as_key a)" by (rule e)
  have "sorted_wrt (<) (batch_seqs r @ seqs (batches ys))"
    using assms(2) s(1) by (simp add: belongs_to_def)
  moreover have "rf_sequence (qr_frame r) \<in> set (batch_seqs r)"
    using batch_seqs_last [OF s(2)] last_in_set by metis
  ultimately show "\<forall>x\<in>set (seqs (batches ys)). rf_sequence (qr_frame r) < x"
    by (auto simp: sorted_wrt_append)
  show "belongs_to a ys" using assms(2) s e(2) by (auto simp: belongs_to_def sorted_wrt_append)
qed

lemma took_reliable_belongs:
  "took_reliable xs l ys \<Longrightarrow> belongs_to a xs \<Longrightarrow>
     belongs_to a ys \<and> lf_session_epoch (ql_frame l) = sk_epoch (as_key a)"
  by (simp add: took_reliable_def belongs_to_def)

lemma took_open:
  assumes "queue_ok q" and "took_realtime (qs_ordinary q) r ys \<or> took_reliable (qs_ordinary q) l ys"
  shows "open_session q \<noteq> None"
proof
  assume "open_session q = None"
  then have "qs_ordinary q = []" using assms(1) by (simp add: queue_ok_def)
  then show False
    using assms(2) batch_seqs_last [of r] by (auto simp: took_realtime_def took_reliable_def)
qed

lemma next_work_item_ok:
  assumes "queue_ok q"
  shows "\<exists>item q'. next_work_item ck window session q = Some (item, q') \<and> queue_ok q'"
  using assms
proof (cases rule: next_work_item_takes [where ck = ck and window = window and session = session])
  case (realtime r ys)
  have "queue_ok (q\<lparr>qs_ordinary := ys\<rparr>)"
  proof -
    obtain a where a: "open_session q = Some a" using took_open [OF assms] realtime(2) by blast
    have "belongs_to a (qs_ordinary q)" using assms a by (simp add: queue_ok_def)
    then have "belongs_to a ys" by (rule took_realtime_belongs(1) [OF realtime(2)])
    then show ?thesis
      using assms a realtime(2) unfolding queue_ok_def took_realtime_def by simp
  qed
  then show ?thesis using realtime(1) by blast
next
  case (reliable l ys)
  have "queue_ok (q\<lparr>qs_ordinary := ys, qs_reliable_len := qs_reliable_len q - 1\<rparr>)"
  proof -
    obtain a where a: "open_session q = Some a" using took_open [OF assms] reliable(2) by blast
    have "belongs_to a (qs_ordinary q)" using assms a by (simp add: queue_ok_def)
    then have "belongs_to a ys" using took_reliable_belongs [OF reliable(2)] by blast
    then show ?thesis
      using assms a reliable(2) unfolding queue_ok_def took_reliable_def by simp
  qed
  then show ?thesis using reliable(1) by blast
next
  case (expired a)
  have "queue_ok (clear_ordinary (q\<lparr>qs_active := Some (a\<lparr>as_closed := True\<rparr>)\<rparr>))"
    by (rule queue_ok_cleared [OF assms])
      (use assms expired in \<open>auto simp: clear_ordinary_def open_session_def idle_def\<close>)
  then show ?thesis using expired(1) by blast
qed (use assms in \<open>auto simp: queue_ok_def\<close>)

end
