(* ===== verification/InjectionSpec.thy ===== *)
theory InjectionSpec
  imports InjectionProofs
begin

text \<open>
  The injection actor as one machine: calls of producers and steps of the worker in any order. Its
  invariant ties the admission side to the gate the worker checks: what the worker's gate will be
  once the pending controls are applied is what the admission assumed when it let the frames in.
\<close>

section \<open>The machine\<close>

record system =
  sy_actor :: actor
  sy_in_flight :: "work_item option"
  sy_over :: bool

datatype actor_call =
    BeginCall clock_reading authenticated_input_owner session_epoch nat
  | RealtimeCall clock_reading authenticated_input_owner realtime_input_frame
  | ReliableCall clock_reading authenticated_input_owner reliable_input_frame
  | ReleaseCall release_all_reason
  | ReleaseSourcesCall release_all_reason
  | ReleaseThroughCall authenticated_input_owner session_epoch release_all_reason
  | TrustedCall input_event
  | ShutdownCall
  | TakeReceiptCall authenticated_input_owner folder_drop_point u64
  | WorkerTake clock_reading
  | WorkerApply apply_stamps

datatype actor_obs =
    RealtimeObs realtime_input_frame realtime_submit_result
  | ReliableObs reliable_input_frame "injection_queue_full + unit"
  | BeginObs "injection_queue_full + unit"
  | TrustedObs "trusted_local_error + unit"
  | RejectedObs input_event
  | RepliedObs bool
  | ReceiptObs bool

definition on_queue :: "('r \<times> queue_state) \<Rightarrow> ('r \<Rightarrow> actor_obs list) \<Rightarrow> system \<Rightarrow> actor_obs list \<times> system option" where
  "on_queue r obs sy =
     (obs (fst r), Some (sy\<lparr>sy_actor := (sy_actor sy)\<lparr>ac_queue := snd r\<rparr>\<rparr>))"

definition worker_key :: "worker \<Rightarrow> session_key option" where
  "worker_key w = map_option ws_key (wk_session w)"

fun system_call ::
  "backend_oracle \<Rightarrow> nat \<Rightarrow> system \<Rightarrow> actor_call \<Rightarrow> actor_obs list \<times> system option" where
  "system_call ans window sy (BeginCall ck owner epoch lease) =
     on_queue (begin_session ck owner epoch lease (ac_queue (sy_actor sy))) (\<lambda>r. [BeginObs r]) sy"
| "system_call ans window sy (RealtimeCall ck owner frame) =
     on_queue (submit_realtime ck owner frame (ac_queue (sy_actor sy))) (\<lambda>r. [RealtimeObs frame r]) sy"
| "system_call ans window sy (ReliableCall ck owner frame) =
     on_queue (try_submit_reliable ck owner frame (ac_queue (sy_actor sy))) (\<lambda>r. [ReliableObs frame r]) sy"
| "system_call ans window sy (ReleaseCall reason) =
     on_queue ((), request_release_all reason (ac_queue (sy_actor sy))) (\<lambda>_. []) sy"
| "system_call ans window sy (ReleaseSourcesCall reason) =
     on_queue (request_release_all_sources reason (ac_queue (sy_actor sy))) (map RejectedObs) sy"
| "system_call ans window sy (ReleaseThroughCall owner epoch reason) =
     on_queue ((), request_release_through owner epoch reason (ac_queue (sy_actor sy))) (\<lambda>_. []) sy"
| "system_call ans window sy (TrustedCall e) =
     on_queue (inject_trusted_local e (ac_queue (sy_actor sy))) (\<lambda>r. [TrustedObs r]) sy"
| "system_call ans window sy ShutdownCall =
     on_queue (queue_shutdown (ac_queue (sy_actor sy))) (map RejectedObs) sy"
| "system_call ans window sy (TakeReceiptCall owner point now) =
     (let (ok, rs) = receipts_take owner point now (ac_receipts (sy_actor sy))
      in ([ReceiptObs ok], Some (sy\<lparr>sy_actor := (sy_actor sy)\<lparr>ac_receipts := rs\<rparr>\<rparr>)))"
| "system_call ans window sy (WorkerTake ck) =
     (if sy_over sy \<or> sy_in_flight sy \<noteq> None then ([], Some sy)
      else case next_work_item ck window (worker_key (ac_worker (sy_actor sy))) (ac_queue (sy_actor sy)) of
        None \<Rightarrow> ([], None)
      | Some (item, q) \<Rightarrow>
          ([], Some (sy\<lparr>sy_actor := (sy_actor sy)\<lparr>ac_queue := q\<rparr>, sy_in_flight := item\<rparr>)))"
| "system_call ans window sy (WorkerApply st) =
     (case sy_in_flight sy of
        None \<Rightarrow> ([], Some sy)
      | Some item \<Rightarrow>
          (let (reply, a) = apply_work ans st item (sy_actor sy)
           in (case reply of None \<Rightarrow> [] | Some ok \<Rightarrow> [RepliedObs ok],
               Some (sy\<lparr>sy_actor := a, sy_in_flight := None, sy_over := (item = ShutdownWork)\<rparr>))))"

text \<open>A panic poisons the lock and ends the machine.\<close>

definition system_step ::
  "backend_oracle \<Rightarrow> nat \<Rightarrow> system option \<Rightarrow> actor_call \<Rightarrow> actor_obs list \<times> system option" where
  "system_step ans window sy call =
     (case sy of None \<Rightarrow> ([], None) | Some s \<Rightarrow> system_call ans window s call)"

definition system_new :: "usize \<Rightarrow> uuid \<Rightarrow> uuid \<Rightarrow> system" where
  "system_new capacity remote_id trusted_id =
     \<lparr>sy_actor = \<lparr>ac_queue = queue_new capacity, ac_worker = worker_new remote_id trusted_id,
                  ac_timing = timing_new, ac_receipts = []\<rparr>,
      sy_in_flight = None, sy_over = False\<rparr>"

fun call_ok :: "actor_call \<Rightarrow> bool" where
  "call_ok (RealtimeCall ck owner frame) = frame_ok frame"
| "call_ok _ = True"

section \<open>Views of the worker's session\<close>

text \<open>The key of a session, and the last reliable and realtime numbers its gate accepted.\<close>

type_synonym session_view = "(session_key \<times> u64 option \<times> u64 option) option"

definition worker_view :: "worker \<Rightarrow> session_view" where
  "worker_view w =
     map_option (\<lambda>s. (ws_key s, og_last_reliable_sequence (ws_gate s), og_last_realtime_sequence (ws_gate s)))
       (wk_session w)"

definition control_view :: "session_view \<Rightarrow> control_command \<Rightarrow> session_view" where
  "control_view v c =
     (case c of
        BeginControl key \<Rightarrow> Some (key, None, None)
      | CloseControl key _ \<Rightarrow> (case v of Some (k, _) \<Rightarrow> if k = key then None else v | None \<Rightarrow> None))"

definition item_view :: "work_item \<Rightarrow> session_view \<Rightarrow> session_view" where
  "item_view item v =
     (case item of
        ControlWork c \<Rightarrow> control_view v c
      | ReleaseAllSourcesWork _ \<Rightarrow> None
      | LeaseExpiredWork _ \<Rightarrow> None
      | RealtimeWork r \<Rightarrow> map_option (\<lambda>(k, l, _). (k, l, Some (rf_sequence (qr_frame r)))) v
      | ReliableWork l \<Rightarrow> map_option (\<lambda>(k, _, t). (k, Some (lf_sequence (ql_frame l)), t)) v
      | _ \<Rightarrow> v)"

definition pending_view :: "system \<Rightarrow> session_view" where
  "pending_view sy =
     (case sy_in_flight sy of
        None \<Rightarrow> worker_view (ac_worker (sy_actor sy))
      | Some item \<Rightarrow> item_view item (worker_view (ac_worker (sy_actor sy))))"

definition future_view :: "queue_state \<Rightarrow> session_view \<Rightarrow> session_view" where
  "future_view q v = foldl control_view (if qs_release_all_sources q = None then v else None) (qs_controls q)"

text \<open>The numbers follow each other from the one before the list to the one the list ends with.\<close>

fun chain :: "u64 option \<Rightarrow> u64 list \<Rightarrow> u64 option \<Rightarrow> bool" where
  "chain l [] f \<longleftrightarrow> l = f"
| "chain l (n # ns) f \<longleftrightarrow> (\<forall>p. l = Some p \<longrightarrow> n = Suc p) \<and> chain (Some n) ns f"

lemma chain_snoc: "chain l ns (Some p) \<Longrightarrow> chain l (ns @ [Suc p]) (Some (Suc p))"
  by (induction ns arbitrary: l) auto

lemma chain_first: "chain l ns None \<Longrightarrow> ns = [] \<and> l = None"
  by (induction ns arbitrary: l) auto

definition reliable_seqs :: "queue_state \<Rightarrow> u64 list" where
  "reliable_seqs q = map (lf_sequence \<circ> ql_frame) (reliables (qs_ordinary q))"

definition expects :: "admission_session \<Rightarrow> queue_state \<Rightarrow> session_view \<Rightarrow> bool" where
  "expects a q v \<longleftrightarrow>
     (\<exists>lr lt. v = Some (as_key a, lr, lt) \<and>
        chain lr (reliable_seqs q) (as_last_reliable_sequence a) \<and>
        (\<forall>l. lt = Some l \<longrightarrow>
           (\<forall>s\<in>set (seqs (batches (qs_ordinary q))). l < s) \<and>
           (\<exists>m. as_last_realtime_sequence a = Some m \<and> l \<le> m)))"

definition agrees :: "queue_state \<Rightarrow> session_view \<Rightarrow> bool" where
  "agrees q v \<longleftrightarrow>
     qs_shutdown q \<or>
     ((open_session q = None \<longrightarrow> future_view q v = None) \<and>
      (\<forall>a. open_session q = Some a \<longrightarrow> expects a q (future_view q v)))"

definition begin_epochs :: "control_command list \<Rightarrow> session_epoch list" where
  "begin_epochs cs = concat (map (\<lambda>c. case c of BeginControl k \<Rightarrow> [sk_epoch k] | CloseControl _ _ \<Rightarrow> []) cs)"

definition view_epochs :: "session_view \<Rightarrow> session_epoch list" where
  "view_epochs v = (case v of None \<Rightarrow> [] | Some (k, _) \<Rightarrow> [sk_epoch k])"

definition epochs_ok :: "queue_state \<Rightarrow> session_view \<Rightarrow> bool" where
  "epochs_ok q v \<longleftrightarrow>
     sorted_wrt (<) (view_epochs v @ begin_epochs (qs_controls q)) \<and>
     (qs_active q = None \<longrightarrow> view_epochs v @ begin_epochs (qs_controls q) = []) \<and>
     (\<forall>a. qs_active q = Some a \<longrightarrow>
        (\<forall>e\<in>set (view_epochs v @ begin_epochs (qs_controls q)). e \<le> sk_epoch (as_key a)))"

definition linked :: "queue_state \<Rightarrow> session_view \<Rightarrow> bool" where
  "linked q v \<longleftrightarrow> agrees q v \<and> epochs_ok q v"

lemma begin_epochs_simps [simp]:
  "begin_epochs [] = []"
  "begin_epochs (BeginControl k # cs) = sk_epoch k # begin_epochs cs"
  "begin_epochs (CloseControl k r # cs) = begin_epochs cs"
  "begin_epochs (cs @ ds) = begin_epochs cs @ begin_epochs ds"
  by (simp_all add: begin_epochs_def)

lemma view_epochs_simps [simp]: "view_epochs None = []" "view_epochs (Some (k, x)) = [sk_epoch k]"
  by (simp_all add: view_epochs_def)

lemma control_view_simps [simp]:
  "control_view v (BeginControl key) = Some (key, None, None)"
  "control_view None (CloseControl key r) = None"
  "control_view (Some (k, x)) (CloseControl key r) = (if k = key then None else Some (k, x))"
  by (simp_all add: control_view_def)

text \<open>
  Where a fold over the controls ends, it may forget where it started: starting without a session
  gives the same, unless the session it started with is still the one it ends with.
\<close>

lemma fold_controls_forget:
  "foldl control_view (Some (k, x)) cs = foldl control_view None cs \<or>
   (foldl control_view (Some (k, x)) cs = Some (k, x) \<and> foldl control_view None cs = None)"
proof (induction cs rule: rev_induct)
  case Nil
  then show ?case by simp
next
  case (snoc c cs)
  then show ?case by (cases c) auto
qed

lemma fold_controls_begin:
  "foldl control_view None cs = Some (k, x) \<Longrightarrow> sk_epoch k \<in> set (begin_epochs cs)"
proof (induction cs arbitrary: k x rule: rev_induct)
  case Nil
  then show ?case by simp
next
  case (snoc c cs)
  then show ?case
    by (cases c; cases "foldl control_view None cs") (auto split: if_splits)
qed

section \<open>Calls of the producers\<close>

lemma future_view_append:
  "future_view (q\<lparr>qs_controls := qs_controls q @ cs\<rparr>) v = foldl control_view (future_view q v) cs"
  by (simp add: future_view_def)

lemma close_admission_linked:
  assumes "linked q v"
  shows "linked (close_admission key reason q) v"
proof (cases "\<exists>a. open_session q = Some a \<and> as_key a = key")
  case False
  then have "close_admission key reason q = q"
    by (auto simp: open_session_Some close_admission_def split: option.splits)
  then show ?thesis using assms by simp
next
  case True
  then obtain a where a: "open_session q = Some a" "as_key a = key" "qs_active q = Some a" "\<not> as_closed a"
    by (auto simp: open_session_Some)
  then have eq: "close_admission key reason q =
      (q\<lparr>qs_controls := qs_controls q @ [CloseControl key reason]\<rparr>)
        \<lparr>qs_active := Some (a\<lparr>as_closed := True\<rparr>), qs_ordinary := [], qs_reliable_len := 0\<rparr>"
    by (simp add: close_admission_def clear_ordinary_def)
  have "qs_shutdown q \<or> (\<exists>lr lt. future_view q v = Some (key, lr, lt))"
    using assms a by (auto simp: linked_def agrees_def expects_def)
  then have "qs_shutdown q \<or>
      future_view (q\<lparr>qs_controls := qs_controls q @ [CloseControl key reason]\<rparr>) v = None"
    unfolding future_view_append by auto
  then show ?thesis
    using assms a unfolding eq linked_def agrees_def epochs_ok_def by (auto simp: future_view_def)
qed


lemma request_release_all_linked: "linked q v \<Longrightarrow> linked (request_release_all reason q) v"
  by (auto simp: request_release_all_def close_admission_linked split: option.splits)

lemma request_release_through_linked: "linked q v \<Longrightarrow> linked (request_release_through owner epoch reason q) v"
  by (auto simp: request_release_through_def close_admission_linked split: option.splits)

lemma request_release_all_sources_linked:
  "linked q v \<Longrightarrow> linked (snd (request_release_all_sources reason q)) v"
  by (auto simp: request_release_all_sources_def reject_trusted_local_def clear_ordinary_def Let_def
      linked_def agrees_def epochs_ok_def open_session_def future_view_def sorted_wrt_append
      split: option.splits)

lemma inject_trusted_local_linked: "linked q v \<Longrightarrow> linked (snd (inject_trusted_local e q)) v"
  by (auto simp: inject_trusted_local_def linked_def agrees_def epochs_ok_def future_view_def expects_def
      reliable_seqs_def)

lemma queue_shutdown_linked: "linked q v \<Longrightarrow> linked (snd (queue_shutdown q)) v"
  by (auto simp: queue_shutdown_def reject_trusted_local_def clear_ordinary_def linked_def agrees_def
      epochs_ok_def)

text \<open>A session that begins: the view it leads to is its own, and its epoch is above all others.\<close>

definition start_session ::
  "admission_session \<Rightarrow> queue_state \<Rightarrow> queue_state" where
  "start_session a q = q\<lparr>qs_active := Some a, qs_controls := qs_controls q @ [BeginControl (as_key a)]\<rparr>"

lemma start_session_linked:
  assumes "sorted_wrt (<) (view_epochs v @ begin_epochs (qs_controls q) @ [sk_epoch (as_key a)])"
    and "qs_ordinary q = []" and "as_last_reliable_sequence a = None" and "\<not> as_closed a"
  shows "linked (start_session a q) v"
proof -
  have "future_view (start_session a q) v = Some (as_key a, None, None)"
    by (simp add: future_view_def start_session_def)
  moreover have "epochs_ok (start_session a q) v"
    using assms(1) by (auto simp: epochs_ok_def start_session_def sorted_wrt_append intro: less_imp_le)
  ultimately show ?thesis
    using assms by (simp add: linked_def agrees_def expects_def start_session_def reliable_seqs_def)
qed

lemma begin_session_linked:
  assumes "linked q v" and "queue_ok q"
  shows "linked (snd (begin_session ck owner epoch lease q)) v"
proof (cases "snd (begin_session ck owner epoch lease q) = q")
  case True
  then show ?thesis using assms(1) by simp
next
  case False
  define key where "key = \<lparr>sk_owner = owner, sk_epoch = epoch\<rparr>"
  define new where "new deadline = \<lparr>as_key = key, as_closed = False, as_last_realtime_sequence = None,
      as_last_reliable_sequence = None, as_lease_duration = lease, as_deadline = deadline\<rparr>" for deadline
  have new: "sk_epoch (as_key (new d)) = epoch" "as_last_reliable_sequence (new d) = None" "\<not> as_closed (new d)" for d
    by (simp_all add: new_def key_def)
  have sorted: "sorted_wrt (<) (view_epochs v @ begin_epochs (qs_controls q) @ [epoch])"
    if "\<forall>a. qs_active q = Some a \<longrightarrow> sk_epoch (as_key a) < epoch"
    using assms(1) that
    by (cases "qs_active q") (force simp: linked_def epochs_ok_def sorted_wrt_append)+
  show ?thesis
  proof (cases "qs_active q")
    case None
    then obtain d where "snd (begin_session ck owner epoch lease q) = start_session (new d) q"
      using False by (auto simp: begin_session_def start_session_def new_def key_def Let_def
          split: option.splits if_splits)
    moreover have "qs_ordinary q = []" using assms(2) None by (simp add: queue_ok_def open_session_def)
    ultimately show ?thesis using start_session_linked [of v q] sorted None new by simp
  next
    case (Some a)
    define cs where "cs = (if as_closed a then [] else [CloseControl (as_key a) OwnershipTransfer])"
    have "\<exists>d. snd (begin_session ck owner epoch lease q) =
        start_session (new d) (clear_ordinary (q\<lparr>qs_controls := qs_controls q @ cs\<rparr>)) \<and>
        sk_epoch (as_key a) < epoch"
      using False Some
      by (cases "as_closed a")
        (auto simp: begin_session_def start_session_def new_def key_def Let_def clear_ordinary_def cs_def
          split: option.splits if_splits)
    then obtain d where run: "snd (begin_session ck owner epoch lease q) =
          start_session (new d) (clear_ordinary (q\<lparr>qs_controls := qs_controls q @ cs\<rparr>))"
        and lt: "sk_epoch (as_key a) < epoch" by blast
    have cs: "begin_epochs cs = []" by (simp add: cs_def)
    show ?thesis unfolding run
      by (rule start_session_linked) (use sorted Some lt cs new in \<open>simp_all add: clear_ordinary_def\<close>)
  qed
qed

lemma submit_realtime_linked:
  assumes "linked q v" and "queue_ok q" and "frame_ok frame"
  shows "linked (snd (submit_realtime ck from frame q)) v"
proof (cases rule: submit_realtime_cases [of ck "from" frame q])
  case same
  then show ?thesis using assms by simp
next
  case (closed key reason)
  then show ?thesis using close_admission_linked [OF assms(1)] by simp
next
  case (queued a deadline)
  obtain r q' where run: "submit_realtime ck from frame q = (r, q')" by fastforce
  note sub = submit_queued [OF assms(2,3) queued(1-4) run]
  obtain xs where q': "q' = (admit_realtime frame deadline a q)\<lparr>qs_ordinary := xs\<rparr>" using sub(2) by blast
  obtain lr lt where v: "future_view q v = Some (as_key a, lr, lt)"
      and chain: "chain lr (reliable_seqs q) (as_last_reliable_sequence a)"
      and lt: "\<And>l. lt = Some l \<Longrightarrow> (\<forall>s\<in>set (seqs (batches (qs_ordinary q))). l < s) \<and>
        (\<exists>m. as_last_realtime_sequence a = Some m \<and> l \<le> m)"
    using assms(1) queued(2,5) by (auto simp: linked_def agrees_def expects_def)
  obtain olds news rest where s: "seqs (batches (qs_ordinary q')) = olds @ news"
      "set news \<subseteq> {rf_sequence frame}" "seqs (batches (qs_ordinary q)) = olds @ rest"
    using realtime_effect_seqs [OF sub(4) queued_realtime_new_facts(4)] by blast
  have new: "l < rf_sequence frame \<and> (\<forall>s\<in>set (olds @ news). l < s)" if "lt = Some l" for l
    using lt [OF that] queued(4) s by fastforce
  have a': "open_session q' = Some (a\<lparr>as_last_realtime_sequence := Some (rf_sequence frame), as_deadline := deadline\<rparr>)"
    using queued(2) by (simp add: q' admit_realtime_def open_session_Some)
  have "future_view q' v = future_view q v" by (simp add: q' admit_realtime_def future_view_def)
  then have "agrees q' v"
    using v chain new sub(3) a' unfolding agrees_def expects_def s(1)
    by (auto simp: reliable_seqs_def less_imp_le)
  moreover have "epochs_ok q' v"
    using assms(1) queued(2) by (simp add: q' admit_realtime_def linked_def epochs_ok_def open_session_Some)
  ultimately show ?thesis using run by (simp add: linked_def)
qed

lemma try_submit_reliable_linked:
  assumes "linked q v"
  shows "linked (snd (try_submit_reliable ck from frame q)) v"
proof (cases rule: try_submit_reliable_cases [of ck "from" frame q])
  case same
  then show ?thesis using assms by simp
next
  case (closed key reason)
  then show ?thesis using close_admission_linked [OF assms(1)] by simp
next
  case (queued a deadline)
  define q' where "q' = enqueue_reliable frame (ck_stamp ck) deadline a q"
  obtain lr lt where v: "future_view q v = Some (as_key a, lr, lt)"
      and chain: "chain lr (reliable_seqs q) (as_last_reliable_sequence a)"
      and lt: "\<And>l. lt = Some l \<Longrightarrow> (\<forall>s\<in>set (seqs (batches (qs_ordinary q))). l < s) \<and>
        (\<exists>m. as_last_realtime_sequence a = Some m \<and> l \<le> m)"
    using assms(1) queued(2,7) by (auto simp: linked_def agrees_def expects_def)
  have "chain lr (reliable_seqs q @ [lf_sequence frame]) (Some (lf_sequence frame))"
    using chain queued(5) chain_snoc chain_first
    by (cases "as_last_reliable_sequence a") fastforce+
  moreover have "reliable_seqs q' = reliable_seqs q @ [lf_sequence frame]"
    "batches (qs_ordinary q') = batches (qs_ordinary q)" "future_view q' v = future_view q v"
    by (simp_all add: q'_def enqueue_reliable_def reliable_seqs_def future_view_def)
  ultimately have "agrees q' v"
    using v lt queued(2) unfolding agrees_def expects_def
    by (auto simp: q'_def enqueue_reliable_def open_session_Some)
  moreover have "epochs_ok q' v"
    using assms(1) queued(2) by (simp add: q'_def enqueue_reliable_def linked_def epochs_ok_def open_session_Some)
  ultimately show ?thesis using queued(1) by (simp add: linked_def q'_def)
qed

section \<open>Taking\<close>

text \<open>What the worker relies on when it applies the item it took.\<close>

definition gate_ok :: "worker \<Rightarrow> bool" where
  "gate_ok w \<longleftrightarrow>
     (\<forall>s. wk_session w = Some s \<longrightarrow>
        og_owner (ws_gate s) = sk_owner (ws_key s) \<and> og_epoch (ws_gate s) = sk_epoch (ws_key s))"

definition in_flight_ok :: "session_view \<Rightarrow> work_item \<Rightarrow> bool" where
  "in_flight_ok v item \<longleftrightarrow>
     (case item of
        RealtimeWork r \<Rightarrow>
          \<exists>k l t. v = Some (k, l, t) \<and> rf_session_epoch (qr_frame r) = sk_epoch k \<and>
            (\<forall>p. t = Some p \<longrightarrow> p < rf_sequence (qr_frame r))
      | ReliableWork x \<Rightarrow>
          \<exists>k l t. v = Some (k, l, t) \<and> lf_session_epoch (ql_frame x) = sk_epoch k \<and>
            (\<forall>p. l = Some p \<longrightarrow> lf_sequence (ql_frame x) = Suc p)
      | LeaseExpiredWork key \<Rightarrow> \<exists>x. v = Some (key, x)
      | _ \<Rightarrow> True)"

lemma idle_future: "idle q \<Longrightarrow> future_view q v = v"
  by (simp add: idle_def future_view_def)

lemma idle_expects: "linked q v \<Longrightarrow> idle q \<Longrightarrow> open_session q = Some a \<Longrightarrow> expects a q v"
  by (simp add: linked_def agrees_def idle_future) (simp add: idle_def)

lemma epochs_ok_shrink:
  assumes "epochs_ok q v" and "qs_active q' = qs_active q"
    and "sorted_wrt (<) (view_epochs v' @ begin_epochs (qs_controls q'))"
    and "set (view_epochs v' @ begin_epochs (qs_controls q')) \<subseteq> set (view_epochs v @ begin_epochs (qs_controls q))"
  shows "epochs_ok q' v'"
proof -
  define E E' where "E = view_epochs v @ begin_epochs (qs_controls q)"
    and "E' = view_epochs v' @ begin_epochs (qs_controls q')"
  have "set E' \<subseteq> set E" using assms(4) by (simp only: E_def E'_def)
  moreover from this have "E = [] \<Longrightarrow> E' = []" by simp
  ultimately show ?thesis
    using assms(1-3) unfolding epochs_ok_def E_def [symmetric] E'_def [symmetric] by auto
qed

lemma control_view_epochs:
  "sorted_wrt (<) (view_epochs v @ begin_epochs (c # cs)) \<Longrightarrow>
     sorted_wrt (<) (view_epochs (control_view v c) @ begin_epochs cs) \<and>
     set (view_epochs (control_view v c) @ begin_epochs cs) \<subseteq> set (view_epochs v @ begin_epochs (c # cs))"
  by (cases c; cases v) (auto simp: sorted_wrt_append split: if_splits)

lemma take_linked:
  assumes "queue_ok q" and "linked q v" and "session = map_option fst v"
    and "next_work_item ck window session q = Some (res, q')"
  shows "case res of None \<Rightarrow> linked q' v | Some item \<Rightarrow> linked q' (item_view item v) \<and> in_flight_ok v item"
  using assms(1)
proof (cases rule: next_work_item_takes [where ck = ck and window = window and session = session])
  case wait
  then show ?thesis using assms(2,4) by simp
next
  case shutdown
  then show ?thesis using assms(2,4) by (auto simp: item_view_def in_flight_ok_def)
next
  case (release reason)
  then show ?thesis
    using assms(2,4)
    by (auto simp: item_view_def in_flight_ok_def linked_def agrees_def epochs_ok_def future_view_def
        expects_def reliable_seqs_def sorted_wrt_append)
next
  case (control c cs)
  have q': "q' = q\<lparr>qs_controls := cs\<rparr>" "res = Some (ControlWork c)" using control(1) assms(4) by simp_all
  have "future_view q' (control_view v c) = future_view q v"
    using control by (simp add: q' future_view_def)
  then have "agrees q' (control_view v c)"
    using assms(2) by (simp add: q' linked_def agrees_def expects_def reliable_seqs_def)
  moreover have "epochs_ok q' (control_view v c)"
  proof (rule epochs_ok_shrink)
    show "epochs_ok q v" using assms(2) by (simp add: linked_def)
    then show "sorted_wrt (<) (view_epochs (control_view v c) @ begin_epochs (qs_controls q'))"
      "set (view_epochs (control_view v c) @ begin_epochs (qs_controls q'))
        \<subseteq> set (view_epochs v @ begin_epochs (qs_controls q))"
      using control_view_epochs [of v c cs] unfolding epochs_ok_def control(2) by (simp_all add: q')
  qed (simp add: q')
  ultimately show ?thesis by (simp add: q' item_view_def in_flight_ok_def linked_def)
next
  case (expired a)
  have "expects a q v" using idle_expects assms(2) expired by simp
  then show ?thesis
    using assms(2,4) expired
    by (auto simp: item_view_def in_flight_ok_def expects_def linked_def agrees_def epochs_ok_def
        clear_ordinary_def future_view_def idle_def open_session_Some)
next
  case (trusted e es)
  then show ?thesis
    using assms(2,4)
    by (auto simp: item_view_def in_flight_ok_def linked_def agrees_def epochs_ok_def future_view_def
        expects_def reliable_seqs_def)
next
  case (realtime r ys)
  have q': "q' = q\<lparr>qs_ordinary := ys\<rparr>" "res = Some (RealtimeWork r)" using realtime(1) assms(4) by simp_all
  obtain a where a: "open_session q = Some a" using took_open [OF assms(1)] realtime(2) by blast
  obtain lr lt where v: "v = Some (as_key a, lr, lt)"
      and chain: "chain lr (reliable_seqs q) (as_last_reliable_sequence a)"
      and lt: "\<And>l s. lt = Some l \<Longrightarrow> s \<in> set (seqs (batches (qs_ordinary q))) \<Longrightarrow> l < s"
    using idle_expects [OF assms(2) realtime(3) a] by (auto simp: expects_def)
  have belongs: "belongs_to a (qs_ordinary q)" using assms(1) a by (simp add: queue_ok_def)
  note took = took_realtime_belongs [OF realtime(2) belongs]
  have "batch_ok r" and s: "seqs (batches (qs_ordinary q)) = batch_seqs r @ seqs (batches ys)"
    and rel: "reliables ys = reliables (qs_ordinary q)"
    using realtime(2) by (simp_all add: took_realtime_def)
  then have mem: "rf_sequence (qr_frame r) \<in> set (seqs (batches (qs_ordinary q)))"
    using batch_seqs_last last_in_set unfolding s by force
  then obtain m where m: "as_last_realtime_sequence a = Some m" "rf_sequence (qr_frame r) \<le> m"
    using belongs by (auto simp: belongs_to_def)
  have "agrees q' (item_view (RealtimeWork r) v)"
    using idle_future [of q' "item_view (RealtimeWork r) v"] realtime(3) v chain took(3) m a rel
    by (simp add: agrees_def q' item_view_def idle_def expects_def reliable_seqs_def)
  moreover have "epochs_ok q' (item_view (RealtimeWork r) v)"
    using assms(2) v by (auto simp: linked_def epochs_ok_def q' item_view_def)
  moreover have "in_flight_ok v (RealtimeWork r)"
    using v took(2) lt mem by (auto simp: in_flight_ok_def)
  ultimately show ?thesis by (simp add: q' linked_def)
next
  case (reliable l ys)
  have q': "q' = q\<lparr>qs_ordinary := ys, qs_reliable_len := qs_reliable_len q - 1\<rparr>" "res = Some (ReliableWork l)"
    using reliable(1) assms(4) by simp_all
  obtain a where a: "open_session q = Some a" using took_open [OF assms(1)] reliable(2) by blast
  have rel: "reliables (qs_ordinary q) = l # reliables ys" "batches ys = batches (qs_ordinary q)"
    using reliable(2) by (simp_all add: took_reliable_def)
  obtain lr lt where v: "v = Some (as_key a, lr, lt)"
      and chain: "chain lr (lf_sequence (ql_frame l) # reliable_seqs q') (as_last_reliable_sequence a)"
      and lt: "\<And>p. lt = Some p \<Longrightarrow> (\<forall>s\<in>set (seqs (batches (qs_ordinary q))). p < s) \<and>
        (\<exists>m. as_last_realtime_sequence a = Some m \<and> p \<le> m)"
    using idle_expects [OF assms(2) reliable(3) a] rel(1) by (auto simp: expects_def reliable_seqs_def q')
  have belongs: "belongs_to a (qs_ordinary q)" using assms(1) a by (simp add: queue_ok_def)
  have "agrees q' (item_view (ReliableWork l) v)"
    using idle_future [of q' "item_view (ReliableWork l) v"] reliable(3) v chain lt a rel(2)
    by (simp add: agrees_def q' item_view_def idle_def expects_def reliable_seqs_def)
  moreover have "epochs_ok q' (item_view (ReliableWork l) v)"
    using assms(2) v by (auto simp: linked_def epochs_ok_def q' item_view_def)
  moreover have "in_flight_ok v (ReliableWork l)"
    using v took_reliable_belongs [OF reliable(2) belongs] chain by (auto simp: in_flight_ok_def)
  ultimately show ?thesis by (simp add: q' linked_def)
qed

section \<open>Applying\<close>

lemma release_frame [simp]:
  "wk_session (release_remote ans reason w) = wk_session w"
  "wk_session (release_trusted ans reason w) = wk_session w"
  by (simp_all add: release_remote_def release_trusted_def split: prod.splits)

lemma end_session_view [simp]: "wk_session (end_session w) = None"
  by (simp add: end_session_def)

lemma inject_reliable_frame: "inject_reliable ans applied e w = (ok, w') \<Longrightarrow> wk_session w' = wk_session w"
  by (auto simp: inject_reliable_def Let_def split: reliable_input_event.splits prod.splits)

lemma fail_and_end_facts:
  "fail_and_end ans key (w, q) = (w', q') \<Longrightarrow> wk_session w' = None \<and> q' = fail_admission key q"
  by (auto simp: fail_and_end_def fail_worker_session_def Let_def)

text \<open>
  A session that failed: its admission is closed, unless a later session has begun, and then the
  controls that lead to that one do not depend on the session that failed.
\<close>

lemma fail_admission_linked:
  assumes "linked q (Some (key, x))"
  shows "linked (fail_admission key q) None"
proof -
  have ep: "epochs_ok q (Some (key, x))" and ag: "agrees q (Some (key, x))"
    using assms by (simp_all add: linked_def)
  have none: "epochs_ok q None"
    by (rule epochs_ok_shrink [OF ep]) (use ep in \<open>auto simp: epochs_ok_def\<close>)
  have above: "e \<in> set (begin_epochs (qs_controls q)) \<Longrightarrow> sk_epoch key < e" for e
    using ep by (auto simp: epochs_ok_def)
  have begun: "future_view q None = Some (k, y) \<Longrightarrow> k \<noteq> key" for k y
    using fold_controls_begin [of "qs_controls q" k y] above by (auto simp: future_view_def)
  have forget: "future_view q (Some (key, x)) = future_view q None \<or>
      (future_view q (Some (key, x)) = Some (key, x) \<and> future_view q None = None)"
    using fold_controls_forget [of key x "qs_controls q"] by (auto simp: future_view_def)
  show ?thesis
  proof (cases "\<exists>a. open_session q = Some a \<and> as_key a = key")
    case True
    then obtain a where a: "qs_active q = Some a" "\<not> as_closed a" "as_key a = key" "open_session q = Some a"
      by (auto simp: open_session_Some)
    have "qs_shutdown q \<or> future_view q None = None"
    proof (cases "qs_shutdown q")
      case False
      then have "\<exists>y. future_view q (Some (key, x)) = Some (key, y)"
        using ag a by (auto simp: agrees_def expects_def)
      then show ?thesis using forget begun by auto
    qed simp
    then show ?thesis
      using a none unfolding linked_def agrees_def epochs_ok_def
      by (auto simp: fail_admission_def clear_ordinary_def future_view_def)
  next
    case False
    then have same: "fail_admission key q = q"
      by (auto simp: fail_admission_def open_session_Some split: option.splits)
    have "future_view q (Some (key, x)) = future_view q None" if "\<not> qs_shutdown q"
    proof (cases "open_session q")
      case None
      then show ?thesis using that ag forget by (auto simp: agrees_def)
    next
      case (Some a)
      then show ?thesis using that ag forget False by (auto simp: agrees_def expects_def)
    qed
    then have "agrees q None" using ag unfolding agrees_def by auto
    then show ?thesis using none same by (simp add: linked_def)
  qed
qed

text \<open>What applying a frame can do: the gate moves on, or the session fails.\<close>

definition moved :: "session_view \<Rightarrow> actor \<Rightarrow> actor \<Rightarrow> bool" where
  "moved v a a' \<longleftrightarrow>
     (ac_queue a' = ac_queue a \<and> worker_view (ac_worker a') = v \<and> gate_ok (ac_worker a')) \<or>
     (\<exists>key x. v = Some (key, x) \<and> wk_session (ac_worker a') = None \<and>
        ac_queue a' = fail_admission key (ac_queue a))"

lemma apply_realtime_moved:
  assumes "gate_ok (ac_worker a)" and "in_flight_ok (worker_view (ac_worker a)) (RealtimeWork r)"
  shows "moved (item_view (RealtimeWork r) (worker_view (ac_worker a))) a (apply_realtime ans st r a)"
proof -
  obtain s where s: "wk_session (ac_worker a) = Some s" "rf_session_epoch (qr_frame r) = sk_epoch (ws_key s)"
      and lt: "\<forall>p. og_last_realtime_sequence (ws_gate s) = Some p \<longrightarrow> p < rf_sequence (qr_frame r)"
    using assms(2) by (auto simp: in_flight_ok_def worker_view_def)
  have gate: "og_owner (ws_gate s) = sk_owner (ws_key s)" "og_epoch (ws_gate s) = sk_epoch (ws_key s)"
    using assms(1) s by (auto simp: gate_ok_def)
  define g where "g = (ws_gate s)\<lparr>og_last_realtime_sequence := Some (rf_sequence (qr_frame r))\<rparr>"
  have "\<exists>acc. accept_realtime (sk_owner (ws_key s)) (sk_epoch (ws_key s))
      (rf_sequence (qr_frame r)) (ws_gate s) = (acc, g) \<and> acc \<noteq> RtOutOfOrder \<and> acc \<noteq> RtWrongOwnerOrEpoch"
    using lt gate unfolding accept_realtime_def is_current_def g_def
    by (cases "og_last_realtime_sequence (ws_gate s)")
      (auto simp: Let_def not_le split: sequence_acceptance.split if_split)
  then obtain acc where acc: "accept_realtime (sk_owner (ws_key s)) (sk_epoch (ws_key s))
      (rf_sequence (qr_frame r)) (ws_gate s) = (acc, g)" "acc \<noteq> RtOutOfOrder" "acc \<noteq> RtWrongOwnerOrEpoch"
    by blast
  obtain ok log pads where inj: "inject_realtime ans (qr_frame r)
      (wk_log (ac_worker a), wk_gamepads (ac_worker a)) = (ok, log, pads)"
    by (metis prod_cases3)
  show ?thesis
  proof (cases ok)
    case True
    then show ?thesis
      unfolding moved_def using s gate acc inj
      by (simp add: apply_realtime_def worker_view_def item_view_def gate_ok_def Let_def)
        (simp add: g_def)
  next
    case False
    obtain w q where f: "fail_and_end ans (ws_key s)
        ((ac_worker a)\<lparr>wk_session := Some (s\<lparr>ws_gate := g\<rparr>), wk_log := log, wk_gamepads := pads\<rparr>, ac_queue a) = (w, q)"
      by fastforce
    then show ?thesis
      unfolding moved_def using s acc inj False fail_and_end_facts [OF f]
      by (simp add: apply_realtime_def worker_view_def item_view_def Let_def)
  qed
qed

lemma apply_reliable_moved:
  assumes "gate_ok (ac_worker a)" and "in_flight_ok (worker_view (ac_worker a)) (ReliableWork r)"
  shows "moved (item_view (ReliableWork r) (worker_view (ac_worker a))) a (apply_reliable ans st r a)"
proof -
  obtain s where s: "wk_session (ac_worker a) = Some s" "lf_session_epoch (ql_frame r) = sk_epoch (ws_key s)"
      and lt: "\<forall>p. og_last_reliable_sequence (ws_gate s) = Some p \<longrightarrow> lf_sequence (ql_frame r) = Suc p"
    using assms(2) by (auto simp: in_flight_ok_def worker_view_def)
  have gate: "og_owner (ws_gate s) = sk_owner (ws_key s)" "og_epoch (ws_gate s) = sk_epoch (ws_key s)"
    using assms(1) s by (auto simp: gate_ok_def)
  define g where "g = (ws_gate s)\<lparr>og_last_reliable_sequence := Some (lf_sequence (ql_frame r))\<rparr>"
  have acc: "accept_reliable (sk_owner (ws_key s)) (sk_epoch (ws_key s))
      (lf_sequence (ql_frame r)) (ws_gate s) = (RlAccepted, g)"
    using lt gate unfolding accept_reliable_def is_current_def g_def
    by (cases "og_last_reliable_sequence (ws_gate s)") (auto simp: Let_def)
  define w0 where "w0 = (ac_worker a)\<lparr>wk_session := Some (s\<lparr>ws_gate := g\<rparr>)\<rparr>"
  obtain ok w1 where inj: "inject_reliable ans (ws_last_realtime_applied s) (lf_event (ql_frame r)) w0 = (ok, w1)"
    by fastforce
  have w1: "wk_session w1 = Some (s\<lparr>ws_gate := g\<rparr>)" using inject_reliable_frame [OF inj] by (simp add: w0_def)
  show ?thesis
  proof (cases ok)
    case True
    then show ?thesis
      unfolding moved_def using s gate acc inj [unfolded w0_def] w1
      by (simp add: apply_reliable_def worker_view_def item_view_def gate_ok_def Let_def)
        (simp add: g_def)
  next
    case False
    obtain w q where f: "fail_and_end ans (ws_key s) (w1, ac_queue a) = (w, q)" by fastforce
    then show ?thesis
      unfolding moved_def using s acc inj [unfolded w0_def] False fail_and_end_facts [OF f]
      by (simp add: apply_reliable_def worker_view_def item_view_def Let_def)
  qed
qed

lemma moved_linked:
  assumes "moved v a a'" and "queue_ok (ac_queue a)" and "linked (ac_queue a) v"
  shows "queue_ok (ac_queue a') \<and> gate_ok (ac_worker a') \<and>
    linked (ac_queue a') (worker_view (ac_worker a'))"
  using assms fail_admission_ok fail_admission_linked
  unfolding moved_def by (fastforce simp: worker_view_def gate_ok_def)

lemma apply_work_moved:
  assumes "gate_ok (ac_worker a)" and "in_flight_ok (worker_view (ac_worker a)) item"
    and "apply_work ans st item a = (reply, a')"
  shows "moved (item_view item (worker_view (ac_worker a))) a a'"
proof (cases item)
  case (RealtimeWork r)
  then show ?thesis using apply_realtime_moved [of a r ans st] assms by (auto simp: apply_work_def)
next
  case (ReliableWork l)
  then show ?thesis using apply_reliable_moved [of a l ans st] assms by (auto simp: apply_work_def)
next
  case (ControlWork c)
  then show ?thesis using assms
    by (cases c; cases "wk_session (ac_worker a)")
      (auto simp: apply_work_def moved_def apply_control_def worker_view_def item_view_def gate_ok_def
        gate_new_def Let_def split: if_splits)
next
  case (TrustedLocalWork e)
  then have "wk_session (ac_worker a') = wk_session (ac_worker a)" "ac_queue a' = ac_queue a"
    using assms(3)
    by (auto simp: apply_work_def apply_trusted_local_def Let_def split: prod.splits sum.splits if_splits)
  then show ?thesis using TrustedLocalWork assms(1) by (simp add: moved_def item_view_def worker_view_def gate_ok_def)
next
  case (LeaseExpiredWork k)
  then show ?thesis using assms
    by (cases "wk_session (ac_worker a)")
      (auto simp: apply_work_def moved_def worker_view_def item_view_def gate_ok_def in_flight_ok_def)
qed (use assms in \<open>auto simp: apply_work_def moved_def worker_view_def item_view_def gate_ok_def Let_def\<close>)

end
