(* ===== verification/InjectionMachine.thy ===== *)
theory InjectionMachine
  imports InjectionSpec
begin

text \<open>
  The injection actor over whole runs: the invariant of the machine, its interpretation, and the
  properties of the actor. The ledgers of the worker join the invariant here: what a release leaves
  behind is decided by what the backend answered.
\<close>

section \<open>Releases\<close>

text \<open>The releases of a ledger as the worker injects them: one per held key and button, in order.\<close>

definition ledger_releases :: "pressed_state_ledger \<Rightarrow> input_event list" where
  "ledger_releases l =
     map (\<lambda>e. reliable_key_input (fst e) KeyReleased) (pl_keys l) @
     map (\<lambda>e. MouseButton (hb_button (snd e)) BtnReleased) (pl_mouse_buttons l)"

definition answers :: "backend_oracle \<Rightarrow> nat \<Rightarrow> nat \<Rightarrow> bool list" where
  "answers ans from n = map ans [from..<from + n]"

lemma answers_simps [simp]:
  "answers ans k 0 = []" "answers ans k (Suc n) = ans k # answers ans (Suc k) n"
  by (simp add: answers_def) (simp add: answers_def upt_conv_Cons del: upt_Suc)

lemma inject_batch_log:
  assumes "list_all (\<lambda>e. release_input e \<noteq> None) es"
  shows "inject_batch ans es log =
    (list_all id (answers ans (length log) (length es)),
     log @ zip (map (InjectEvent \<circ> the \<circ> release_input) es) (answers ans (length log) (length es)))"
  using assms
  by (induction es arbitrary: log)
    (auto simp: backend_inject_def backend_call_def Let_def split: option.splits)

lemma release_all_inputs:
  "list_all (\<lambda>e. release_input e \<noteq> None) (map key_release ks @ map button_release bs)"
  "map (InjectEvent \<circ> the \<circ> release_input) (map key_release (pl_keys l) @ map button_release (pl_mouse_buttons l)) =
     map InjectEvent (ledger_releases l)"
  by (auto simp: list_all_iff release_input_def key_release_def button_release_def Let_def ledger_releases_def)

text \<open>Confirming at once, with nothing recorded in between, clears the ledger.\<close>

lemma bt_get_all_None: "bt_wf m \<Longrightarrow> (\<And>k. bt_get m k = None) \<Longrightarrow> m = []"
  using bt.get_entries by (cases m) force+

lemma confirm_at_once:
  assumes "ledger_wf l" and "release_all_events reason l = (Inr b, l')"
  shows "snd (confirm_release_all b l') = l'\<lparr>pl_keys := [], pl_mouse_buttons := []\<rparr>"
proof -
  obtain n l3 where run: "confirm_release_all b l' = (n, l3)" by fastforce
  have b: "l' = l\<lparr>pl_next_batch_token := Suc (pl_next_batch_token l)\<rparr>"
      "pb_ledger_id b = pl_ledger_id l" "pb_key_generations b = pl_keys l"
      "pb_mouse_generations b = map (\<lambda>e. (fst e, hb_generation (snd e))) (pl_mouse_buttons l)"
    using assms(2) by (auto elim: release_all_events_cases)
  have wf: "ledger_wf l'" "bt_wf (pl_keys l)" "bt_wf (pl_mouse_buttons l)"
    using assms(1) b(1) by (simp_all add: ledger_wf_def)
  note C = confirm_release_all_spec [OF run wf(1)]
  have id: "pb_ledger_id b = pl_ledger_id l'" using b by simp
  have "bt_get (pl_keys l3) k = None" for k
    using C(2) [OF id, of k] bt.get_entries [OF wf(2)] b by (auto split: option.splits if_splits)
  then have keys: "pl_keys l3 = []"
    using bt_get_all_None [of "pl_keys l3"] C(1) [OF id] by (simp add: ledger_wf_def)
  have "bt_get (pl_mouse_buttons l3) k = None" for k
  proof (cases "bt_get (pl_mouse_buttons l) k")
    case (Some h)
    then have "(k, h) \<in> set (pl_mouse_buttons l)" using bt.get_entries [OF wf(3)] by simp
    then have "(k, hb_generation h) \<in> set (pb_mouse_generations b)" unfolding b(4) by force
    then show ?thesis using C(3) [OF id, of k] Some b(1) by simp
  qed (use C(3) [OF id, of k] b(1) in simp)
  then have buttons: "pl_mouse_buttons l3 = []"
    using bt_get_all_None [of "pl_mouse_buttons l3"] C(1) [OF id] by (simp add: ledger_wf_def)
  have "l3 = l'\<lparr>pl_keys := pl_keys l3, pl_mouse_buttons := pl_mouse_buttons l3\<rparr>"
    using run id by (auto simp: confirm_release_all_def split: prod.splits)
  then show ?thesis using keys buttons run by simp
qed

lemma release_held_spec:
  assumes "ledger_wf l" and "pl_next_batch_token l < u64_max"
  shows "release_held ans reason (log, l) =
    (log @ zip (map InjectEvent (ledger_releases l)) (answers ans (length log) (length (ledger_releases l))),
     (if list_all id (answers ans (length log) (length (ledger_releases l)))
      then l\<lparr>pl_next_batch_token := Suc (pl_next_batch_token l), pl_keys := [], pl_mouse_buttons := []\<rparr>
      else l\<lparr>pl_next_batch_token := Suc (pl_next_batch_token l)\<rparr>))"
proof -
  obtain b where b: "release_all_events reason l = (Inr b, l\<lparr>pl_next_batch_token := Suc (pl_next_batch_token l)\<rparr>)"
      "pb_events b = map key_release (pl_keys l) @ map button_release (pl_mouse_buttons l)"
    using assms(2)
    by (simp add: release_all_events_def take_batch_token_def checked_inc_eq)
  have len: "length (pb_events b) = length (ledger_releases l)" by (simp add: b(2) ledger_releases_def)
  have batch: "inject_batch ans (pb_events b) log =
      (list_all id (answers ans (length log) (length (ledger_releases l))),
       log @ zip (map InjectEvent (ledger_releases l)) (answers ans (length log) (length (ledger_releases l))))"
    using inject_batch_log [of "pb_events b" ans log] release_all_inputs len
    unfolding b(2) by simp
  show ?thesis
    using confirm_at_once [OF assms(1) b(1)] unfolding release_held_def
    by (simp add: b(1) batch)
qed

lemma release_held_wf: "ledger_wf l \<Longrightarrow> ledger_wf (snd (release_held ans reason (log, l)))"
proof (cases "pl_next_batch_token l < u64_max")
  case True
  then show "ledger_wf l \<Longrightarrow> ?thesis" by (simp add: release_held_spec) (simp add: ledger_wf_def bt_wf_def bt_get_def)
next
  case False
  then show "ledger_wf l \<Longrightarrow> ?thesis"
    by (simp add: release_held_def release_all_events_def take_batch_token_def checked_inc_eq)
qed

section \<open>The worker's ledgers\<close>

definition ledgers_ok :: "worker \<Rightarrow> bool" where
  "ledgers_ok w \<longleftrightarrow> ledger_wf (wk_remote_ledger w) \<and> ledger_wf (wk_trusted_ledger w)"

lemma ledgers_ok_frame [simp]:
  "ledgers_ok (w\<lparr>wk_session := s\<rparr>) = ledgers_ok w"
  "ledgers_ok (w\<lparr>wk_gamepads := g\<rparr>) = ledgers_ok w"
  "ledgers_ok (w\<lparr>wk_log := l\<rparr>) = ledgers_ok w"
  "ledgers_ok (w\<lparr>wk_local_pointer := p\<rparr>) = ledgers_ok w"
  by (simp_all add: ledgers_ok_def)

lemma release_ledgers [simp]:
  "ledgers_ok w \<Longrightarrow> ledgers_ok (release_remote ans reason w)"
  "ledgers_ok w \<Longrightarrow> ledgers_ok (release_trusted ans reason w)"
  using release_held_wf [of "wk_remote_ledger w" ans reason "wk_log w"]
    release_held_wf [of "wk_trusted_ledger w" ans reason "wk_log w"]
  by (auto simp: release_remote_def release_trusted_def ledgers_ok_def split: prod.splits)

lemma end_session_ledgers [simp]: "ledgers_ok (end_session w) = ledgers_ok w"
  by (simp add: end_session_def)

lemma fail_ledgers: "fail_and_end ans key (w, q) = (w', q') \<Longrightarrow> ledgers_ok w \<Longrightarrow> ledgers_ok w'"
  by (auto simp: fail_and_end_def fail_worker_session_def Let_def)

lemma inject_key_wf:
  "ledger_wf l \<Longrightarrow> inject_key ans k st (log, l) = (ok, log', l') \<Longrightarrow> ledger_wf l'"
  using ledger_wf_key [of l k st]
  by (auto simp: inject_key_def Let_def split: prod.splits if_splits sum.splits)

lemma inject_button_wf:
  "ledger_wf l \<Longrightarrow> inject_button ans applied b st x y anchor (log, l) = (ok, log', l') \<Longrightarrow> ledger_wf l'"
  using ledger_wf_button [of l b st x y anchor]
  by (auto simp: inject_button_def Let_def split: prod.splits if_splits sum.splits)

lemma inject_reliable_ledgers:
  assumes "inject_reliable ans applied e w = (ok, w')" and "ledgers_ok w"
  shows "ledgers_ok w'"
proof (cases e)
  case (KeyEvent k st)
  obtain ok1 log l where "inject_key ans k st (wk_log w, wk_remote_ledger w) = (ok1, log, l)"
    by (metis prod_cases3)
  then show ?thesis using assms KeyEvent inject_key_wf [of "wk_remote_ledger w" ans k st "wk_log w" ok1 log l]
    by (auto simp: inject_reliable_def ledgers_ok_def)
next
  case (MouseButtonEvent b st x y anchor)
  obtain ok1 log l where "inject_button ans applied b st x y anchor (wk_log w, wk_remote_ledger w) = (ok1, log, l)"
    by (metis prod_cases3)
  then show ?thesis
    using assms MouseButtonEvent
      inject_button_wf [of "wk_remote_ledger w" ans applied b st x y anchor "wk_log w" ok1 log l]
    by (auto simp: inject_reliable_def ledgers_ok_def)
qed (use assms in \<open>auto simp: inject_reliable_def Let_def split: prod.splits\<close>)

lemma record_trusted_wf:
  "ledger_wf l \<Longrightarrow> record_trusted_local_ledger e (l, p) = (r, l', p') \<Longrightarrow> ledger_wf l'"
proof -
  assume l: "ledger_wf l" and run: "record_trusted_local_ledger e (l, p) = (r, l', p')"
  have unit: "fst (snd (case x of (Inl err, l) \<Rightarrow> (Inl err, l, p) | (Inr _, l) \<Rightarrow> (Inr (), l, p))) = snd x"
    for x :: "(ledger_error + bool) \<times> pressed_state_ledger"
    by (cases x) (auto split: sum.splits)
  have "l' = fst (snd (record_trusted_local_ledger e (l, p)))" using run by simp
  also have "ledger_wf \<dots>"
    by (cases e) (simp_all add: record_trusted_local_ledger_def unit l ledger_wf_key ledger_wf_button)
  finally show ?thesis .
qed

lemma apply_trusted_ledgers:
  assumes "ledgers_ok w" and "apply_trusted_local ans e w = (ok, w')"
  shows "ledgers_ok w'"
proof -
  obtain r l p where rec: "record_trusted_local_ledger e (wk_trusted_ledger w, wk_local_pointer w) = (r, l, p)"
    by (metis prod_cases3)
  then have wf: "ledger_wf l" using assms(1) record_trusted_wf by (metis ledgers_ok_def prod.collapse)
  then have "ledgers_ok (w\<lparr>wk_log := log, wk_trusted_ledger := l, wk_local_pointer := p\<rparr>)" for log
    using assms(1) by (simp add: ledgers_ok_def)
  then show ?thesis
    using assms rec by (auto simp: apply_trusted_local_def Let_def split: sum.splits prod.splits if_splits)
qed

lemma apply_work_ledgers:
  assumes "ledgers_ok (ac_worker a)" and "apply_work ans st item a = (reply, a')"
  shows "ledgers_ok (ac_worker a')"
proof (cases item)
  case (RealtimeWork r)
  then have "a' = apply_realtime ans st r a" using assms(2) by (simp add: apply_work_def)
  then show ?thesis using assms(1)
    by (auto simp: apply_realtime_def Let_def intro: fail_ledgers split: option.splits prod.splits if_splits)
next
  case (ReliableWork r)
  then have "a' = apply_reliable ans st r a" using assms(2) by (simp add: apply_work_def)
  then show ?thesis using assms(1)
    by (auto simp: apply_reliable_def Let_def dest: fail_ledgers inject_reliable_ledgers
        split: option.splits prod.splits if_splits)
next
  case (TrustedLocalWork e)
  then show ?thesis
    using assms apply_trusted_ledgers by (auto simp: apply_work_def split: prod.splits)
next
  case (ControlWork c)
  then show ?thesis using assms
    by (cases c) (auto simp: apply_work_def apply_control_def Let_def split: option.splits)
qed (use assms in \<open>auto simp: apply_work_def Let_def split: option.splits if_splits\<close>)

section \<open>The invariant of the machine\<close>

definition rings_ok :: "actor \<Rightarrow> bool" where
  "rings_ok a \<longleftrightarrow>
     length (tm_samples (ac_timing a)) \<le> timing_ring_capacity \<and>
     length (tm_high_water (ac_timing a)) \<le> timing_ring_capacity \<and> length (ac_receipts a) \<le> 64"

definition system_ok :: "usize \<Rightarrow> system \<Rightarrow> bool" where
  "system_ok capacity sy \<longleftrightarrow>
     queue_ok (ac_queue (sy_actor sy)) \<and> qs_reliable_capacity (ac_queue (sy_actor sy)) = capacity \<and>
     linked (ac_queue (sy_actor sy)) (pending_view sy) \<and>
     gate_ok (ac_worker (sy_actor sy)) \<and> ledgers_ok (ac_worker (sy_actor sy)) \<and>
     rings_ok (sy_actor sy) \<and>
     (\<forall>item. sy_in_flight sy = Some item \<longrightarrow>
        in_flight_ok (worker_view (ac_worker (sy_actor sy))) item)"

definition running_ok :: "usize \<Rightarrow> system option \<Rightarrow> bool" where
  "running_ok capacity s \<longleftrightarrow> (\<exists>sy. s = Some sy \<and> system_ok capacity sy)"

lemma record_high_water_samples [simp]:
  "tm_samples (record_high_water epoch reliable sequence tm) = tm_samples tm"
  by (auto simp: record_high_water_def Let_def split: option.splits prod.splits)

lemma record_high_water_bound:
  assumes "length (tm_high_water tm) \<le> timing_ring_capacity"
  shows "length (tm_high_water (record_high_water epoch reliable sequence tm)) \<le> timing_ring_capacity"
proof (cases "find_index (\<lambda>e. fst e = (epoch, reliable)) (tm_high_water tm)")
  case None
  then show ?thesis using assms by (simp add: record_high_water_def Let_def timing_ring_capacity_def)
next
  case (Some i)
  then have "i < length (tm_high_water tm)" using find_index_SomeD by fastforce
  then have "length (remove_nth i (tm_high_water tm)) < timing_ring_capacity"
    using assms by (simp add: remove_nth_def)
  then show ?thesis using Some by (simp add: record_high_water_def Let_def)
qed

lemma record_sample_bound:
  assumes "length (tm_samples tm) \<le> timing_ring_capacity" and "length (tm_high_water tm) \<le> timing_ring_capacity"
  shows "length (tm_samples (record_sample s tm)) \<le> timing_ring_capacity \<and>
    length (tm_high_water (record_sample s tm)) \<le> timing_ring_capacity"
  using assms record_high_water_bound
  by (auto simp: record_sample_def timing_ring_capacity_def)

lemma rings_ok_frame [simp]:
  "rings_ok (a\<lparr>ac_worker := w\<rparr>) = rings_ok a" "rings_ok (a\<lparr>ac_queue := q\<rparr>) = rings_ok a"
  by (simp_all add: rings_ok_def)

lemma rings_ok_recorded:
  "rings_ok a \<Longrightarrow> rings_ok (a\<lparr>ac_timing := record_timing e n r m st (ac_timing a)\<rparr>)"
  "rings_ok a \<Longrightarrow> rings_ok (a\<lparr>ac_receipts := drop_receipt st key frame (ac_receipts a),
      ac_timing := record_timing e n r m st (ac_timing a)\<rparr>)"
  using record_sample_bound [of "ac_timing a"]
  by (auto simp: rings_ok_def record_timing_def drop_receipt_def receipts_record_def
      split: reliable_input_event.splits mouse_button.splits button_state.splits)

lemma apply_work_rings:
  "rings_ok a \<Longrightarrow> apply_work ans st item a = (reply, a') \<Longrightarrow> rings_ok a'"
  by (cases item)
    (auto simp: apply_work_def apply_realtime_def apply_reliable_def Let_def rings_ok_recorded
      split: option.splits prod.splits if_splits)

lemma close_admission_capacity [simp]:
  "qs_reliable_capacity (close_admission key reason q) = qs_reliable_capacity q"
  by (auto simp: close_admission_def clear_ordinary_def split: option.splits)

lemma enqueue_realtime_capacity [simp]:
  "qs_reliable_capacity (snd (enqueue_realtime r q)) = qs_reliable_capacity q"
  by (auto simp: enqueue_realtime_def Let_def split: list.splits queued_input.splits prod.splits realtime_merge.splits)

text \<open>Every call of a producer keeps the invariant, and so it does for any state around the queue.\<close>

definition keeps :: "queue_state \<Rightarrow> queue_state \<Rightarrow> bool" where
  "keeps q q' \<longleftrightarrow>
     queue_ok q' \<and> qs_reliable_capacity q' = qs_reliable_capacity q \<and> (\<forall>v. linked q v \<longrightarrow> linked q' v)"

lemma producers_keep:
  assumes "queue_ok q"
  shows "keeps q (snd (begin_session ck owner epoch lease q))"
    and "frame_ok frame \<Longrightarrow> keeps q (snd (submit_realtime ck owner frame q))"
    and "keeps q (snd (try_submit_reliable ck owner rframe q))"
    and "keeps q (request_release_all reason q)"
    and "keeps q (snd (request_release_all_sources reason q))"
    and "keeps q (request_release_through owner epoch reason q)"
    and "keeps q (snd (inject_trusted_local e q))" and "keeps q (snd (queue_shutdown q))"
proof -
  show "keeps q (snd (begin_session ck owner epoch lease q))"
    using begin_session_ok [OF assms] begin_session_linked [OF _ assms]
    by (auto simp: keeps_def begin_session_def Let_def clear_ordinary_def split: option.splits)
  show "keeps q (snd (submit_realtime ck owner frame q))" if "frame_ok frame"
    using submit_realtime_ok [OF assms that] submit_realtime_linked [OF _ assms that]
    by (auto simp: keeps_def submit_realtime_def Let_def split: option.splits)
  show "keeps q (snd (try_submit_reliable ck owner rframe q))"
    using try_submit_reliable_ok [OF assms] try_submit_reliable_linked
    by (auto simp: keeps_def) (auto simp: try_submit_reliable_def Let_def split: option.splits reliable_input_event.splits)
  show "keeps q (request_release_all reason q)"
    using request_release_all_ok [OF assms] request_release_all_linked
    by (auto simp: keeps_def request_release_all_def split: option.splits)
  show "keeps q (snd (request_release_all_sources reason q))"
    using request_release_all_sources_ok [OF assms] request_release_all_sources_linked
    by (auto simp: keeps_def)
      (auto simp: request_release_all_sources_def reject_trusted_local_def clear_ordinary_def Let_def)
  show "keeps q (request_release_through owner epoch reason q)"
    using request_release_through_ok [OF assms] request_release_through_linked
    by (auto simp: keeps_def request_release_through_def split: option.splits)
  show "keeps q (snd (inject_trusted_local e q))"
    using inject_trusted_local_ok [OF assms] inject_trusted_local_linked
    by (auto simp: keeps_def) (auto simp: inject_trusted_local_def)
  show "keeps q (snd (queue_shutdown q))"
    using queue_shutdown_ok [OF assms] queue_shutdown_linked
    by (auto simp: keeps_def) (auto simp: queue_shutdown_def reject_trusted_local_def clear_ordinary_def)
qed

lemma pending_view_frame [simp]:
  "pending_view (sy\<lparr>sy_actor := (sy_actor sy)\<lparr>ac_queue := q\<rparr>\<rparr>) = pending_view sy"
  "pending_view (sy\<lparr>sy_actor := (sy_actor sy)\<lparr>ac_receipts := rs\<rparr>\<rparr>) = pending_view sy"
  by (cases "sy_in_flight sy"; simp add: pending_view_def)+

lemma on_queue_ok:
  assumes "system_ok capacity sy" and "keeps (ac_queue (sy_actor sy)) (snd r)"
  shows "running_ok capacity (snd (on_queue r obs sy))"
  using assms
  by (auto simp: running_ok_def on_queue_def system_ok_def keeps_def)

lemma next_work_item_capacity:
  assumes "queue_ok q" and "next_work_item ck window session q = Some (item, q')"
  shows "qs_reliable_capacity q' = qs_reliable_capacity q"
  using assms(1)
  by (cases rule: next_work_item_takes [where ck = ck and window = window and session = session])
    (use assms(2) in \<open>auto simp: clear_ordinary_def\<close>)

lemma fail_admission_capacity [simp]:
  "qs_reliable_capacity (fail_admission key q) = qs_reliable_capacity q"
  by (auto simp: fail_admission_def clear_ordinary_def split: option.splits)

lemma worker_take_ok:
  assumes "system_ok capacity sy"
  shows "running_ok capacity (snd (system_call ans window sy (WorkerTake ck)))"
proof (cases "sy_over sy \<or> sy_in_flight sy \<noteq> None")
  case True
  then show ?thesis using assms by (simp add: running_ok_def)
next
  case False
  let ?q = "ac_queue (sy_actor sy)" and ?w = "ac_worker (sy_actor sy)"
  have q: "queue_ok ?q" and l: "linked ?q (worker_view ?w)"
    using assms False by (auto simp: system_ok_def pending_view_def)
  obtain item q' where take: "next_work_item ck window (worker_key ?w) ?q = Some (item, q')" "queue_ok q'"
    using next_work_item_ok [OF q] by blast
  have key: "worker_key ?w = map_option fst (worker_view ?w)"
    by (simp add: worker_key_def worker_view_def option.map_comp comp_def)
  show ?thesis
    using assms False take take_linked [OF q l key take(1)] next_work_item_capacity [OF q take(1)]
    by (cases item) (auto simp: running_ok_def system_ok_def pending_view_def rings_ok_def)
qed

lemma worker_apply_ok:
  assumes "system_ok capacity sy"
  shows "running_ok capacity (snd (system_call ans window sy (WorkerApply st)))"
proof (cases "sy_in_flight sy")
  case None
  then show ?thesis using assms by (simp add: running_ok_def)
next
  case (Some item)
  let ?a = "sy_actor sy"
  obtain reply a' where run: "apply_work ans st item ?a = (reply, a')" by fastforce
  have ok: "gate_ok (ac_worker ?a)" "in_flight_ok (worker_view (ac_worker ?a)) item"
      "queue_ok (ac_queue ?a)" "linked (ac_queue ?a) (item_view item (worker_view (ac_worker ?a)))"
      "ledgers_ok (ac_worker ?a)" "rings_ok ?a"
    using assms Some by (auto simp: system_ok_def pending_view_def)
  have moved: "moved (item_view item (worker_view (ac_worker ?a))) ?a a'"
    by (rule apply_work_moved [OF ok(1,2) run])
  have "qs_reliable_capacity (ac_queue a') = qs_reliable_capacity (ac_queue ?a)"
    using moved by (auto simp: moved_def)
  then show ?thesis
    using assms Some run moved_linked [OF moved ok(3,4)] apply_work_ledgers [OF ok(5) run]
      apply_work_rings [OF ok(6) run]
    by (auto simp: running_ok_def system_ok_def pending_view_def)
qed

lemma receipts_take_length: "length (snd (receipts_take owner point now rs)) \<le> length rs"
proof -
  let ?kept = "filter (\<lambda>r. now - snd (snd r) \<le> 10000) rs"
  have "length (remove_nth i ?kept) \<le> length ?kept" for i by (simp add: remove_nth_def)
  then have "length (snd (receipts_take owner point now rs)) \<le> length ?kept"
    by (simp add: receipts_take_def Let_def split: option.split)
  then show ?thesis using length_filter_le order_trans by blast
qed

lemma system_call_ok:
  assumes "system_ok capacity sy" and "call_ok c"
  shows "running_ok capacity (snd (system_call ans window sy c))"
proof -
  have q: "queue_ok (ac_queue (sy_actor sy))" using assms(1) by (simp add: system_ok_def)
  note keep = producers_keep [OF q]
  show ?thesis
  proof (cases c)
    case (TakeReceiptCall owner point now)
    then show ?thesis
      using assms(1) receipts_take_length [of owner point now "ac_receipts (sy_actor sy)"]
      by (auto simp: running_ok_def system_ok_def rings_ok_def split: prod.splits)
  qed (use assms in \<open>auto simp: worker_take_ok worker_apply_ok keep
      simp del: system_call.simps(10,11) intro!: on_queue_ok\<close>)
qed

interpretation actor: machine "system_step ans window" "running_ok capacity" call_ok
  by unfold_locales (auto simp: system_step_def running_ok_def dest: system_call_ok split: option.splits)

lemma system_new_ok: "running_ok capacity (Some (system_new capacity remote_id trusted_id))"
  by (auto simp: running_ok_def system_ok_def system_new_def queue_new_ok pending_view_def worker_view_def
      worker_new_def linked_def agrees_def epochs_ok_def future_view_def gate_ok_def ledgers_ok_def
      rings_ok_def timing_new_def)
    (simp_all add: queue_new_def open_session_def)

section \<open>Properties of runs\<close>

definition actor_run ::
  "backend_oracle \<Rightarrow> nat \<Rightarrow> usize \<Rightarrow> uuid \<Rightarrow> uuid \<Rightarrow> actor_call list \<Rightarrow> system option" where
  "actor_run ans window capacity remote_id trusted_id calls =
     snd (run (system_step ans window) (Some (system_new capacity remote_id trusted_id)) calls)"

lemma actor_run_ok:
  "list_all call_ok calls \<Longrightarrow> running_ok capacity (actor_run ans window capacity remote_id trusted_id calls)"
  unfolding actor_run_def by (rule actor.run_inv [OF system_new_ok]) (simp add: list_all_iff)

lemma actor_run_Some:
  "list_all call_ok calls \<Longrightarrow> actor_run ans window capacity remote_id trusted_id calls = Some sy \<Longrightarrow>
     system_ok capacity sy"
  using actor_run_ok [of calls capacity ans window remote_id trusted_id] by (auto simp: running_ok_def)

text \<open>A run in which a session begins, moves the pointer twice, clicks, and the worker takes work.\<close>

definition example_owner :: authenticated_input_owner where
  "example_owner = \<lparr>ao_peer_id = 7, ao_control_connection_id = 8\<rparr>"

definition example_clock :: clock_reading where
  "example_clock = \<lparr>ck_now = 100, ck_limit = 1000, ck_stamp = \<lparr>ms_domain = 1, ms_value_us = 3\<rparr>\<rparr>"

definition example_stamps :: apply_stamps where
  "example_stamps = \<lparr>ap_started = \<lparr>ms_domain = 1, ms_value_us = 4\<rparr>,
     ap_dropped = \<lparr>ms_domain = 1, ms_value_us = 5\<rparr>, ap_completed = \<lparr>ms_domain = 1, ms_value_us = 6\<rparr>\<rparr>"

definition example_move :: "u64 \<Rightarrow> i32 \<Rightarrow> i32 \<Rightarrow> actor_call" where
  "example_move sequence dx dy =
     RealtimeCall example_clock example_owner
       \<lparr>rf_protocol_version = input_protocol_version, rf_session_epoch = 1, rf_sequence = sequence,
        rf_captured_at = \<lparr>ms_domain = 1, ms_value_us = 0\<rparr>, rf_payload = RelativeMouse dx dy\<rparr>"

definition example_press :: "u64 \<Rightarrow> u64 \<Rightarrow> actor_call" where
  "example_press sequence anchor =
     ReliableCall example_clock example_owner
       \<lparr>lf_protocol_version = input_protocol_version, lf_session_epoch = 1, lf_sequence = sequence,
        lf_captured_at = \<lparr>ms_domain = 1, ms_value_us = 0\<rparr>,
        lf_event = MouseButtonEvent MbLeft BtnPressed 0 0 anchor\<rparr>"

definition example_calls :: "actor_call list" where
  "example_calls =
     [BeginCall example_clock example_owner 1 50, example_move 1 3 4, example_move 2 5 6,
      example_press 1 1, WorkerTake example_clock, WorkerApply example_stamps]"

lemmas actor_eval =
  actor_run_def system_new_def queue_new_def worker_new_def timing_new_def system_step_def on_queue_def
  example_owner_def example_clock_def example_stamps_def example_move_def example_press_def
  begin_session_def instant_add_def control_queue_capacity_def Let_def submit_realtime_def
  enqueue_realtime_def queued_realtime_new_def merge_into_back_def
  merge_adjacent_realtime_def merge_relative_def relative_component_capacity_def
  realtime_segment_capacity_def segment_len_def checked_i32_def in_i32_def try_submit_reliable_def
  next_work_item_def worker_key_def apply_work_def apply_control_def gate_new_def lease_expired_def
  split_front_relative_for_late_anchor_def anchor_behind_front_def from_relative_components_def
  group_representable_relative_components_def requeue_batches_def with_followups_def

lemma example_calls_ok: "list_all call_ok example_calls"
  by (simp add: example_calls_def example_move_def example_press_def frame_ok_def in_i32_def)

definition example_system :: system where
  "example_system = the (actor_run (\<lambda>_. True) 0 4 1 2 example_calls)"

lemma actor_example_run: "actor_run (\<lambda>_. True) 0 4 1 2 example_calls = Some example_system"
  using actor_run_ok [OF example_calls_ok, of 4 "\<lambda>_. True" 0 1 2]
  by (auto simp: example_system_def running_ok_def)

lemma example_next:
  "\<exists>r q'. next_work_item example_clock 0 (worker_key (ac_worker (sy_actor example_system)))
      (ac_queue (sy_actor example_system)) = Some (Some (RealtimeWork r), q') \<and>
    rf_sequence (qr_frame r) = 1 \<and> rf_payload (qr_frame r) = RelativeMouse 3 4 \<and>
    anchor_behind_front (qs_ordinary (ac_queue (sy_actor example_system))) = Some 1"
  by (simp add: example_system_def example_calls_def actor_eval)

lemma example_ok: "system_ok 4 example_system"
  by (rule actor_run_Some [OF example_calls_ok actor_example_run])

definition example_taking :: "actor_call list" where
  "example_taking = example_calls @ [WorkerTake example_clock]"

lemma example_taking_ok: "list_all call_ok example_taking"
  using example_calls_ok by (simp add: example_taking_def)

lemma example_taken:
  "\<exists>sy r. actor_run (\<lambda>_. True) 0 4 1 2 example_taking = Some sy \<and> sy_in_flight sy = Some (RealtimeWork r)"
  by (simp add: example_taking_def example_calls_def actor_eval)

section \<open>Helpers\<close>

lemma reliables_count: "length (filter (\<lambda>i. \<not> is_realtime i) xs) = length (reliables xs)"
  by (induction xs rule: reliables.induct) auto

lemma seg_ok_length: "seg_ok n xs \<Longrightarrow> length xs \<le> n + 9 * length (reliables xs)"
  by (induction n xs rule: seg_ok.induct) auto

lemma segments_ok_length: "segments_ok xs \<Longrightarrow> length xs \<le> 9 * length (reliables xs) + 9"
  by (auto simp: segments_ok_def dest!: seg_ok_length)

lemma gate_accepts_realtime:
  assumes "gate_ok w" and "in_flight_ok (worker_view w) (RealtimeWork r)"
  shows "\<exists>s. wk_session w = Some s \<and>
    fst (accept_realtime (sk_owner (ws_key s)) (rf_session_epoch (qr_frame r))
      (rf_sequence (qr_frame r)) (ws_gate s)) \<notin> {RtOutOfOrder, RtWrongOwnerOrEpoch}"
proof -
  obtain s where s: "wk_session w = Some s" "rf_session_epoch (qr_frame r) = sk_epoch (ws_key s)"
      "\<forall>p. og_last_realtime_sequence (ws_gate s) = Some p \<longrightarrow> p < rf_sequence (qr_frame r)"
    using assms(2) by (auto simp: in_flight_ok_def worker_view_def)
  then show ?thesis
    using assms(1) unfolding accept_realtime_def is_current_def
    by (cases "og_last_realtime_sequence (ws_gate s)")
      (auto simp: gate_ok_def Let_def not_le split: sequence_acceptance.split if_split)
qed

lemma gate_accepts_reliable:
  assumes "gate_ok w" and "in_flight_ok (worker_view w) (ReliableWork l)"
  shows "\<exists>s. wk_session w = Some s \<and>
    fst (accept_reliable (sk_owner (ws_key s)) (lf_session_epoch (ql_frame l))
      (lf_sequence (ql_frame l)) (ws_gate s)) = RlAccepted"
proof -
  obtain s where s: "wk_session w = Some s" "lf_session_epoch (ql_frame l) = sk_epoch (ws_key s)"
      "\<forall>p. og_last_reliable_sequence (ws_gate s) = Some p \<longrightarrow> lf_sequence (ql_frame l) = Suc p"
    using assms(2) by (auto simp: in_flight_ok_def worker_view_def)
  then show ?thesis
    using assms(1) unfolding accept_reliable_def is_current_def
    by (cases "og_last_reliable_sequence (ws_gate s)") (auto simp: gate_ok_def Let_def)
qed

lemma took_before_anchor:
  assumes "queue_ok q" and "took_realtime (qs_ordinary q) r ys"
    and "anchor_behind_front (qs_ordinary q) = Some anchor" and "s \<in> set (batch_seqs r)"
  shows "s \<le> anchor"
proof -
  obtain a where a: "open_session q = Some a" using took_open [OF assms(1)] assms(2) by blast
  then have "belongs_to a (qs_ordinary q)" using assms(1) by (simp add: queue_ok_def)
  then have "sorted_wrt (<) (batch_seqs r)"
    using assms(2) by (simp add: belongs_to_def took_realtime_def sorted_wrt_append)
  moreover have last: "batch_seqs r \<noteq> []" "last (batch_seqs r) = rf_sequence (qr_frame r)"
    using assms(2) batch_seqs_last by (simp_all add: took_realtime_def)
  ultimately have "s \<le> last (batch_seqs r)"
    using assms(4) by (cases "batch_seqs r" rule: rev_cases) (auto simp: sorted_wrt_append less_imp_le)
  then show ?thesis using assms(2,3) last(2) by (force simp: took_realtime_def)
qed

lemma take_motion:
  assumes "queue_ok q" and "next_work_item ck window session q = Some (Some (RealtimeWork r), q')"
  shows "comps (batches (qs_ordinary q)) = qr_components r @ comps (batches (qs_ordinary q')) \<and>
    (\<forall>dx dy. rf_payload (qr_frame r) = RelativeMouse dx dy \<longrightarrow>
       dx = sum_list (map cp_dx (qr_components r)) \<and> dy = sum_list (map cp_dy (qr_components r)))"
  using assms(1)
proof (cases rule: next_work_item_takes [where ck = ck and window = window and session = session])
  case (realtime r' ys)
  then have "r' = r" "q' = q\<lparr>qs_ordinary := ys\<rparr>" using assms(2) by simp_all
  then show ?thesis
    using realtime(2) by (auto simp: took_realtime_def batch_ok_def dest!: sum_components_total)
qed (use assms(2) in auto)

lemma submit_realtime_motion:
  assumes "queue_ok q" and "frame_ok frame" and "submit_realtime ck owner frame q = (r, q')"
  shows "comps (batches (qs_ordinary q')) =
    (if r \<in> {SubmitProtocolViolation, SubmitDeadlineOverflow} then []
     else if r \<in> {SubmitAccepted, SubmitAccumulated}
     then comps (batches (qs_ordinary q)) @ qr_components (queued_realtime_new frame (ck_stamp ck) (ck_now ck))
     else comps (batches (qs_ordinary q)))"
proof (cases rule: submit_realtime_cases [of ck owner frame q])
  case same
  then show ?thesis using assms(3) by simp
next
  case (closed a reason)
  then show ?thesis using assms(3)
    by (auto simp: open_session_Some close_admission_def clear_ordinary_def)
next
  case (queued a deadline)
  have eff: "realtime_effect r (queued_realtime_new frame (ck_stamp ck) (ck_now ck))
      (batches (qs_ordinary q)) (batches (qs_ordinary q'))"
    by (rule submit_queued(4) [OF assms(1,2) queued(1-4) assms(3)])
  have "r \<notin> {SubmitProtocolViolation, SubmitDeadlineOverflow}"
    using queued(1) assms(3)
    by (auto simp: enqueue_realtime_def Let_def split: list.splits queued_input.splits prod.splits
        realtime_merge.splits if_splits)
  then show ?thesis using realtime_effect_comps [OF eff] by auto
qed

lemma inject_batch_extends: "\<exists>more. snd (inject_batch ans es log) = log @ more"
proof (induction es arbitrary: log)
  case (Cons e es)
  show ?case
  proof (cases "release_input e")
    case None
    then show ?thesis using Cons by simp
  next
    case (Some i)
    obtain more where "snd (inject_batch ans es (log @ [(InjectEvent i, ans (length log))])) =
        (log @ [(InjectEvent i, ans (length log))]) @ more" using Cons by blast
    then show ?thesis using Some
      by (auto simp: backend_inject_def backend_call_def Let_def split: prod.splits)
  qed
qed simp

lemma release_trusted_effect:
  "wk_remote_ledger (release_trusted ans reason w) = wk_remote_ledger w"
  "\<exists>more. wk_log (release_trusted ans reason w) = wk_log w @ more"
proof -
  show "wk_remote_ledger (release_trusted ans reason w) = wk_remote_ledger w"
    by (simp add: release_trusted_def split: prod.splits)
  have "\<exists>more. fst (release_held ans reason (wk_log w, l)) = wk_log w @ more" for l
    using inject_batch_extends [of ans _ "wk_log w"]
    by (auto simp: release_held_def split: sum.splits prod.splits) (metis snd_conv)+
  then show "\<exists>more. wk_log (release_trusted ans reason w) = wk_log w @ more"
    by (auto simp: release_trusted_def split: prod.splits) (metis fst_conv)
qed

text \<open>What a release of the remote controls does to the log and to the ledger.\<close>

definition released :: "backend_oracle \<Rightarrow> worker \<Rightarrow> worker \<Rightarrow> bool" where
  "released ans w w' \<longleftrightarrow>
     (let releases = map InjectEvent (ledger_releases (wk_remote_ledger w));
          oks = answers ans (length (wk_log w)) (length releases)
      in (\<exists>more. wk_log w' = wk_log w @ zip releases oks @ more) \<and>
         (if list_all id oks then ledger_is_empty (wk_remote_ledger w')
          else pl_keys (wk_remote_ledger w') = pl_keys (wk_remote_ledger w) \<and>
               pl_mouse_buttons (wk_remote_ledger w') = pl_mouse_buttons (wk_remote_ledger w)))"

lemma release_remote_released:
  assumes "ledgers_ok w" and "pl_next_batch_token (wk_remote_ledger w) < u64_max"
  shows "released ans w (release_remote ans reason w)"
  using assms release_held_spec [of "wk_remote_ledger w" ans reason "wk_log w"]
  by (auto simp: released_def release_remote_def ledgers_ok_def ledger_is_empty_def)

lemma released_trusted: "released ans w w' \<Longrightarrow> released ans w (release_trusted ans reason w')"
  using release_trusted_effect [of ans reason w'] by (auto simp: released_def Let_def)

lemma released_end: "released ans w w' \<Longrightarrow> released ans w (end_session w')"
  unfolding released_def Let_def by (simp add: end_session_def)

text \<open>The work that ends the worker's session.\<close>

definition ends_session :: "worker \<Rightarrow> work_item \<Rightarrow> bool" where
  "ends_session w item \<longleftrightarrow>
     (case item of
        ControlWork (CloseControl key _) \<Rightarrow> worker_key w = Some key
      | ReleaseAllSourcesWork _ \<Rightarrow> True
      | LeaseExpiredWork _ \<Rightarrow> True
      | ShutdownWork \<Rightarrow> True
      | _ \<Rightarrow> False)"

lemma apply_work_releases:
  assumes "ledgers_ok (ac_worker a)" and "pl_next_batch_token (wk_remote_ledger (ac_worker a)) < u64_max"
    and "in_flight_ok (worker_view (ac_worker a)) item" and "ends_session (ac_worker a) item"
  shows "released ans (ac_worker a) (ac_worker (snd (apply_work ans st item a))) \<and>
    (item \<noteq> ShutdownWork \<longrightarrow> wk_session (ac_worker (snd (apply_work ans st item a))) = None)"
  using assms(3,4) release_remote_released [OF assms(1,2)]
  by (cases item)
    (auto simp: ends_session_def apply_work_def apply_control_def Let_def worker_key_def in_flight_ok_def
      worker_view_def released_trusted released_end split: control_command.splits option.splits)

text \<open>
  C25. The injection actor does not panic. Whatever the producers and the worker do in any order, and
  however the backend answers, no run reaches a checked sum that overflows or a batch without
  components: the groups a late button splits off are always representable.
\<close>

theorem injection_never_panics:
  assumes "list_all call_ok calls"
  shows "actor_run ans window capacity remote_id trusted_id calls \<noteq> None"
  using actor_run_ok [OF assms, of capacity ans window remote_id trusted_id] by (auto simp: running_ok_def)

theorem injection_never_panics_witness:
  "actor_run (\<lambda>_. True) 0 4 1 2 (example_calls @ [WorkerTake example_clock]) \<noteq> None"
  using injection_never_panics [of "example_calls @ [WorkerTake example_clock]" "\<lambda>_. True" 0 4 1 2]
    example_calls_ok by simp

text \<open>
  C26. The worker never rejects what the admission accepted. In every state a run reaches, the frame
  the worker has taken belongs to the session the worker has, and the session's gate accepts it: a
  reliable frame is the next one, a realtime frame is newer than the last. The check the worker makes
  again fails for no frame, whatever sessions began, closed, expired or failed in between.
\<close>

theorem worker_accepts_what_was_admitted:
  assumes "list_all call_ok calls"
    and "actor_run ans window capacity remote_id trusted_id calls = Some sy"
  shows "(\<forall>r. sy_in_flight sy = Some (RealtimeWork r) \<longrightarrow>
      (\<exists>s. wk_session (ac_worker (sy_actor sy)) = Some s \<and>
         fst (accept_realtime (sk_owner (ws_key s)) (rf_session_epoch (qr_frame r))
                (rf_sequence (qr_frame r)) (ws_gate s)) \<notin> {RtOutOfOrder, RtWrongOwnerOrEpoch})) \<and>
    (\<forall>l. sy_in_flight sy = Some (ReliableWork l) \<longrightarrow>
      (\<exists>s. wk_session (ac_worker (sy_actor sy)) = Some s \<and>
         fst (accept_reliable (sk_owner (ws_key s)) (lf_session_epoch (ql_frame l))
                (lf_sequence (ql_frame l)) (ws_gate s)) = RlAccepted))"
proof -
  have ok: "gate_ok (ac_worker (sy_actor sy))"
    "\<And>item. sy_in_flight sy = Some item \<Longrightarrow> in_flight_ok (worker_view (ac_worker (sy_actor sy))) item"
    using actor_run_Some [OF assms] by (auto simp: system_ok_def)
  have "\<exists>s. wk_session (ac_worker (sy_actor sy)) = Some s \<and>
      fst (accept_realtime (sk_owner (ws_key s)) (rf_session_epoch (qr_frame r))
        (rf_sequence (qr_frame r)) (ws_gate s)) \<notin> {RtOutOfOrder, RtWrongOwnerOrEpoch}"
    if "sy_in_flight sy = Some (RealtimeWork r)" for r
    using gate_accepts_realtime [OF ok(1) ok(2) [OF that]] by blast
  moreover have "\<exists>s. wk_session (ac_worker (sy_actor sy)) = Some s \<and>
      fst (accept_reliable (sk_owner (ws_key s)) (lf_session_epoch (ql_frame l))
        (lf_sequence (ql_frame l)) (ws_gate s)) = RlAccepted"
    if "sy_in_flight sy = Some (ReliableWork l)" for l
    using gate_accepts_reliable [OF ok(1) ok(2) [OF that]] by blast
  ultimately show ?thesis by blast
qed

theorem worker_accepts_what_was_admitted_witness:
  "\<exists>sy r s. actor_run (\<lambda>_. True) 0 4 1 2 example_taking = Some sy \<and> sy_in_flight sy = Some (RealtimeWork r) \<and>
     wk_session (ac_worker (sy_actor sy)) = Some s \<and>
     fst (accept_realtime (sk_owner (ws_key s)) (rf_session_epoch (qr_frame r))
            (rf_sequence (qr_frame r)) (ws_gate s)) \<noteq> RtOutOfOrder"
  using worker_accepts_what_was_admitted [OF example_taking_ok] example_taken by fastforce

text \<open>
  C27. The injection queues are bounded. In every state a run reaches, the reliable count is the number
  of reliable frames queued and at most the capacity, so are the trusted-local commands; at most five
  controls are pending; between two reliable frames at most eight realtime items wait, and one more
  in front; a batch holds at most 64 components; and the rings of samples, high-water marks and drop
  receipts hold at most 64 entries each.
\<close>

theorem injection_bounded:
  assumes "list_all call_ok calls"
    and "actor_run ans window capacity remote_id trusted_id calls = Some sy"
    and "ac_queue (sy_actor sy) = q"
  shows "qs_reliable_len q = length (filter (\<lambda>i. \<not> is_realtime i) (qs_ordinary q)) \<and>
    qs_reliable_len q \<le> capacity \<and> length (qs_trusted_local q) \<le> capacity \<and>
    length (qs_controls q) \<le> 5 \<and> length (qs_ordinary q) \<le> 9 * capacity + 9 \<and>
    (\<forall>b\<in>set (batches (qs_ordinary q)). length (qr_components b) \<le> 64) \<and>
    length (tm_samples (ac_timing (sy_actor sy))) \<le> 64 \<and>
    length (tm_high_water (ac_timing (sy_actor sy))) \<le> 64 \<and> length (ac_receipts (sy_actor sy)) \<le> 64"
proof -
  have ok: "queue_ok q" "qs_reliable_capacity q = capacity" "rings_ok (sy_actor sy)"
    using actor_run_Some [OF assms(1,2)] assms(3) by (auto simp: system_ok_def)
  have count: "length (filter (\<lambda>i. \<not> is_realtime i) (qs_ordinary q)) = length (reliables (qs_ordinary q))"
    by (simp add: reliables_count)
  have "length (qs_ordinary q) \<le> 9 * length (reliables (qs_ordinary q)) + 9"
    using ok(1) segments_ok_length by (simp add: queue_ok_def)
  then show ?thesis
    using ok by (auto simp: count queue_ok_def rings_ok_def batch_ok_def list_all_iff timing_ring_capacity_def
        relative_component_capacity_def)
qed

theorem injection_bounded_witness:
  "length (qs_ordinary (ac_queue (sy_actor example_system))) \<le> 45"
  using injection_bounded [OF example_calls_ok actor_example_run refl] by simp






text \<open>A session that presses the left button and is then closed: the close is taken.\<close>

definition example_ending :: "actor_call list" where
  "example_ending =
     [BeginCall example_clock example_owner 1 50, example_press 1 0, WorkerTake example_clock,
      WorkerApply example_stamps, WorkerTake example_clock, WorkerApply example_stamps,
      ReleaseCall SessionEnded, WorkerTake example_clock]"

lemmas worker_eval =
  next_ordinary_def pop_reliable_def apply_reliable_def accept_reliable_def is_current_def
  inject_reliable_def inject_button_def backend_inject_def backend_call_def record_timing_def
  record_sample_def record_high_water_def drop_receipt_def request_release_all_def close_admission_def
  clear_ordinary_def ends_session_def ledger_releases_def ledger_eval

lemma example_ending_ok: "list_all call_ok example_ending"
  by (simp add: example_ending_def example_press_def)

lemma example_ended:
  "\<exists>sy c. actor_run (\<lambda>_. True) 0 4 1 2 example_ending = Some sy \<and> sy_in_flight sy = Some (ControlWork c) \<and>
     ends_session (ac_worker (sy_actor sy)) (ControlWork c) \<and>
     pl_next_batch_token (wk_remote_ledger (ac_worker (sy_actor sy))) < u64_max \<and>
     ledger_releases (wk_remote_ledger (ac_worker (sy_actor sy))) = [MouseButton MbLeft BtnReleased]"
  by (simp add: example_ending_def actor_eval worker_eval)


end
