(* ===== verification/InjectionTiming.thy ===== *)
theory InjectionTiming
  imports InjectionWorker
begin

text \<open>
  The timing ring of the injection actor: a caller that waits for the timing of a frame waits until
  its sample is in the ring or until it has passed. The rings forget, and still nobody waits for a
  sample that was recorded: what the ring of high-water marks forgets is of an earlier session.
\<close>

definition passed :: "timing_state \<Rightarrow> injection_timing_sample \<Rightarrow> bool" where
  "passed tm s \<longleftrightarrow>
     (\<exists>v. ((ts_epoch s, ts_reliable s), v) \<in> set (tm_high_water tm) \<and> ts_sequence s \<le> v) \<or>
     (\<exists>latest. tm_latest_epoch tm = Some latest \<and> ts_epoch s < latest)"

definition marks_ok :: "timing_state \<Rightarrow> bool" where
  "marks_ok tm \<longleftrightarrow>
     distinct (map fst (tm_high_water tm)) \<and> sorted (map (fst \<circ> fst) (tm_high_water tm)) \<and>
     (\<forall>m\<in>set (tm_high_water tm). \<exists>latest. tm_latest_epoch tm = Some latest \<and> fst (fst m) \<le> latest)"

lemma find_key:
  assumes "distinct (map fst xs)" and "(k, v) \<in> set xs"
  shows "find (\<lambda>e. fst e = k) (rev xs) = Some (k, v)"
proof -
  obtain e where e: "find (\<lambda>e. fst e = k) (rev xs) = Some e"
    using assms(2) by (cases "find (\<lambda>e. fst e = k) (rev xs)") (auto simp: find_None_iff)
  then have "e \<in> set xs" "fst e = k" using find_SomeD by fastforce+
  then have "snd e = v" using eq_key_imp_eq_value [OF assms(1) _ assms(2)] by (metis prod.collapse)
  then show ?thesis using e \<open>fst e = k\<close> by (simp add: prod_eq_iff)
qed

lemma passed_has_passed:
  "marks_ok tm \<Longrightarrow> passed tm s \<Longrightarrow> has_passed (ts_epoch s) (ts_reliable s) (ts_sequence s) tm"
  by (auto simp: passed_def has_passed_def marks_ok_def find_key)

text \<open>Of three entries for different streams in the order of their epochs, the first is older than the last.\<close>

lemma first_is_older:
  fixes ks :: "(nat \<times> bool) list"
  assumes "distinct ks" and "sorted (map fst ks)" and "3 \<le> length ks"
  shows "fst (hd ks) < fst (last ks)"
proof -
  obtain a b c rest where ks: "ks = a # b # c # rest"
    using assms(3) by (cases ks; cases "tl ks"; cases "tl (tl ks)") auto
  have "fst c \<le> fst (last ks)" using assms(2) unfolding ks by (cases rest rule: rev_cases) auto
  moreover have "fst a \<le> fst b" "fst b \<le> fst c" "a \<noteq> b" "a \<noteq> c" "b \<noteq> c" using assms(1,2) ks by auto
  moreover have "\<not> (fst a = fst b \<and> fst b = fst c)"
    using \<open>a \<noteq> b\<close> \<open>a \<noteq> c\<close> \<open>b \<noteq> c\<close> by (cases a; cases b; cases c) auto
  ultimately show ?thesis unfolding ks list.sel by linarith
qed

lemma remove_nth_map: "map f (remove_nth i xs) = remove_nth i (map f xs)"
  by (simp add: remove_nth_def take_map drop_map)

lemma remove_nth_sorted: "sorted xs \<Longrightarrow> sorted (remove_nth i xs)"
proof (induction xs arbitrary: i)
  case (Cons x xs)
  then show ?case using set_remove_nth [of "i - 1" xs] by (cases i) auto
qed simp

lemma remove_nth_distinct: "distinct xs \<Longrightarrow> distinct (remove_nth i xs)"
proof (induction xs arbitrary: i)
  case (Cons x xs)
  then show ?case using set_remove_nth [of "i - 1" xs] by (cases i) auto
qed simp

lemma remove_nth_other: "x \<in> set xs \<Longrightarrow> i < length xs \<Longrightarrow> x \<noteq> xs ! i \<Longrightarrow> x \<in> set (remove_nth i xs)"
proof (induction xs arbitrary: i)
  case (Cons y ys)
  then show ?case by (cases i) auto
qed simp

lemma remove_nth_gone: "distinct xs \<Longrightarrow> i < length xs \<Longrightarrow> xs ! i \<notin> set (remove_nth i xs)"
proof (induction xs arbitrary: i)
  case (Cons y ys)
  then show ?case by (cases i) auto
qed simp

text \<open>Evicting the oldest mark of a full ring, when the new mark is of the latest session.\<close>

lemma evict_mark:
  fixes ms :: "((session_epoch \<times> bool) \<times> u64) list"
  assumes "distinct (map fst ms)" and "sorted (map (fst \<circ> fst) ms)" and "\<forall>m\<in>set ms. fst (fst m) \<le> epoch"
    and "(if length ms = timing_ring_capacity then tl ms else ms) = ms'" and "m \<in> set ms"
  shows "m \<in> set ms' \<or> fst (fst m) < epoch"
proof (cases "length ms = timing_ring_capacity")
  case False
  then show ?thesis using assms by simp
next
  case True
  then have ms: "ms' = tl ms" "3 \<le> length (map fst ms)" "ms \<noteq> []"
    using assms(4) by (auto simp: timing_ring_capacity_def)
  have "fst (hd (map fst ms)) < fst (last (map fst ms))"
    by (rule first_is_older) (use assms(1,2) ms in simp_all)
  moreover have "fst (last (map fst ms)) \<le> epoch" using assms(3) ms(3) by (simp add: last_map)
  ultimately have "fst (fst (hd ms)) < epoch" using ms(3) by (simp add: hd_map)
  then show ?thesis using assms(5) ms by (cases ms) auto
qed

lemma record_high_water_marks:
  assumes "marks_ok tm" and "\<forall>latest. tm_latest_epoch tm = Some latest \<longrightarrow> latest \<le> epoch"
    and "record_high_water epoch reliable sequence tm = tm'"
  shows "marks_ok tm'" and "tm_latest_epoch tm' = Some epoch"
    and "passed tm s \<Longrightarrow> passed tm' s"
    and "ts_epoch s = epoch \<Longrightarrow> ts_reliable s = reliable \<Longrightarrow> ts_sequence s = sequence \<Longrightarrow> passed tm' s"
proof -
  let ?k = "(epoch, reliable)" and ?hw = "tm_high_water tm"
  obtain hw rest where hr: "(case find_index (\<lambda>e. fst e = ?k) ?hw of None \<Rightarrow> (sequence, ?hw)
      | Some i \<Rightarrow> (max (snd (?hw ! i)) sequence, remove_nth i ?hw)) = (hw, rest)" by fastforce
  define rest' where "rest' = (if length rest = timing_ring_capacity then tl rest else rest)"
  have tm': "tm_high_water tm' = rest' @ [(?k, hw)]"
    using assms(3) hr by (auto simp: record_high_water_def Let_def rest'_def)
  show latest: "tm_latest_epoch tm' = Some epoch"
    using assms(2,3) by (auto simp: record_high_water_def Let_def split: option.splits prod.splits)
  have below: "\<forall>m\<in>set ?hw. fst (fst m) \<le> epoch"
    using assms(1,2) by (fastforce simp: marks_ok_def)
  have rest: "distinct (map fst rest)" "sorted (map (fst \<circ> fst) rest)" "set rest \<subseteq> set ?hw"
    using assms(1) hr
    by (auto simp: marks_ok_def remove_nth_map remove_nth_sorted remove_nth_distinct
        dest: subsetD [OF set_remove_nth] split: option.splits)
  have fresh: "?k \<notin> fst ` set rest"
  proof (cases "find_index (\<lambda>e. fst e = ?k) ?hw")
    case None
    then have "rest = ?hw" using hr by simp
    then show ?thesis using None by (auto simp: find_index_None)
  next
    case (Some i)
    then have i: "i < length ?hw" "fst (?hw ! i) = ?k" using find_index_SomeD by fastforce+
    then have "?k \<notin> set (remove_nth i (map fst ?hw))"
      using assms(1) remove_nth_gone [of "map fst ?hw" i] by (simp add: marks_ok_def)
    then show ?thesis using hr Some by (simp add: remove_nth_map [symmetric])
  qed
  have rest': "set rest' \<subseteq> set rest" "distinct (map fst rest')" "sorted (map (fst \<circ> fst) rest')"
    using rest(1,2) by (cases rest; auto simp: rest'_def)+
  show "marks_ok tm'"
    unfolding marks_ok_def tm' using rest rest' fresh below latest
    by (auto simp: sorted_append)
  have mark: "passed tm' s" if "ts_epoch s = epoch" "ts_reliable s = reliable" "ts_sequence s \<le> hw"
    using that by (auto simp: passed_def tm')
  have hw: "sequence \<le> hw" using hr by (auto split: option.splits)
  show "ts_epoch s = epoch \<Longrightarrow> ts_reliable s = reliable \<Longrightarrow> ts_sequence s = sequence \<Longrightarrow> passed tm' s"
    using hw mark by simp
  show "passed tm' s" if old: "passed tm s"
  proof (cases "\<exists>v. ((ts_epoch s, ts_reliable s), v) \<in> set ?hw \<and> ts_sequence s \<le> v")
    case False
    then have "ts_epoch s < epoch" using old assms(2) by (auto simp: passed_def)
    then show ?thesis using latest by (simp add: passed_def)
  next
    case True
    then obtain v where v: "((ts_epoch s, ts_reliable s), v) \<in> set ?hw" "ts_sequence s \<le> v" by blast
    show ?thesis
    proof (cases "(ts_epoch s, ts_reliable s) = ?k")
      case True
      have "v \<le> hw"
      proof (cases "find_index (\<lambda>e. fst e = ?k) ?hw")
        case None
        then show ?thesis using True v(1) by (auto simp: find_index_None)
      next
        case (Some i)
        then have i: "i < length ?hw" "fst (?hw ! i) = ?k" using find_index_SomeD by fastforce+
        have "(?k, snd (?hw ! i)) \<in> set ?hw" using i by (metis nth_mem prod.collapse)
        then have "v = snd (?hw ! i)"
          using assms(1) v(1) True eq_key_imp_eq_value [of ?hw ?k v] by (simp add: marks_ok_def)
        then show ?thesis using hr Some by auto
      qed
      then show ?thesis using mark True v(2) by simp
    next
      case False
      have "((ts_epoch s, ts_reliable s), v) \<in> set rest"
      proof (cases "find_index (\<lambda>e. fst e = ?k) ?hw")
        case None
        then show ?thesis using hr v(1) by simp
      next
        case (Some i)
        then have "i < length ?hw" "fst (?hw ! i) = ?k" using find_index_SomeD by fastforce+
        then have "((ts_epoch s, ts_reliable s), v) \<in> set (remove_nth i ?hw)"
          using False v(1) by (intro remove_nth_other; metis fst_conv)
        then show ?thesis using hr Some by simp
      qed
      moreover have "\<forall>m\<in>set rest. fst (fst m) \<le> epoch" using below rest(3) by blast
      ultimately have "((ts_epoch s, ts_reliable s), v) \<in> set rest' \<or> ts_epoch s < epoch"
        using evict_mark [OF rest(1,2) _ rest'_def [symmetric], of epoch] by (metis fst_conv)
      then show ?thesis using v(2) latest by (auto simp: passed_def tm')
    qed
  qed
qed

lemma record_sample_marks:
  assumes "marks_ok tm" and "\<forall>latest. tm_latest_epoch tm = Some latest \<longrightarrow> latest \<le> ts_epoch s"
  shows "marks_ok (record_sample s tm)" and "tm_latest_epoch (record_sample s tm) = Some (ts_epoch s)"
    and "passed tm s' \<Longrightarrow> passed (record_sample s tm) s'" and "passed (record_sample s tm) s"
proof -
  define tm1 where "tm1 = tm\<lparr>tm_samples := (if length (tm_samples tm) = timing_ring_capacity
      then tl (tm_samples tm) else tm_samples tm) @ [s]\<rparr>"
  have run: "record_high_water (ts_epoch s) (ts_reliable s) (ts_sequence s) tm1 = record_sample s tm"
    by (simp add: record_sample_def tm1_def)
  have tm1: "marks_ok tm1" "\<forall>latest. tm_latest_epoch tm1 = Some latest \<longrightarrow> latest \<le> ts_epoch s"
      "passed tm s' \<Longrightarrow> passed tm1 s'"
    using assms by (simp_all add: tm1_def marks_ok_def passed_def)
  note R = record_high_water_marks [OF tm1(1,2) run]
  show "marks_ok (record_sample s tm)" "tm_latest_epoch (record_sample s tm) = Some (ts_epoch s)"
    by (rule R)+
  show "passed tm s' \<Longrightarrow> passed (record_sample s tm) s'" using R(3) tm1(3) by blast
  show "passed (record_sample s tm) s" by (rule R(4)) simp_all
qed

lemma record_samples_passed:
  "sorted (map ts_epoch ss) \<Longrightarrow>
     marks_ok (fold record_sample ss timing_new) \<and>
     tm_latest_epoch (fold record_sample ss timing_new) = (if ss = [] then None else Some (ts_epoch (last ss))) \<and>
     (\<forall>s\<in>set ss. passed (fold record_sample ss timing_new) s)"
proof (induction ss rule: rev_induct)
  case Nil
  then show ?case by (simp add: timing_new_def marks_ok_def)
next
  case (snoc s ss)
  then have sorted: "sorted (map ts_epoch ss)" "\<forall>x\<in>set ss. ts_epoch x \<le> ts_epoch s"
    by (auto simp: sorted_append)
  let ?tm = "fold record_sample ss timing_new"
  have "\<forall>latest. tm_latest_epoch ?tm = Some latest \<longrightarrow> latest \<le> ts_epoch s"
    using snoc.IH [OF sorted(1)] sorted(2) by auto
  then show ?case using snoc.IH [OF sorted(1)] record_sample_marks [of ?tm s] by auto
qed

text \<open>
  Nobody waits in vain for a timing sample. Once a frame's sample has been recorded, however many
  others follow, a caller asking for it gets a sample of it or is told it is gone; it never goes on
  waiting. The samples come in the order of their sessions, as epochs only grow; of each session only
  the last number of either kind is kept, 64 in all.
\<close>

theorem recorded_timing_never_waits:
  assumes "sorted (map ts_epoch ss)" and "s \<in> set ss"
  shows "wait_for_timing_pass (ts_epoch s) (ts_reliable s) (ts_sequence s) (fold record_sample ss timing_new)
    \<noteq> TimingWait"
proof -
  have "has_passed (ts_epoch s) (ts_reliable s) (ts_sequence s) (fold record_sample ss timing_new)"
    using record_samples_passed [OF assms(1)] assms(2) passed_has_passed by blast
  then show ?thesis by (simp add: wait_for_timing_pass_def split: option.split)
qed

definition example_sample :: "session_epoch \<Rightarrow> u64 \<Rightarrow> injection_timing_sample" where
  "example_sample epoch sequence =
     \<lparr>ts_epoch = epoch, ts_sequence = sequence, ts_reliable = True,
      ts_received = \<lparr>ms_domain = 1, ms_value_us = sequence\<rparr>, ts_injection_started = None,
      ts_injection_completed = None\<rparr>"

theorem recorded_timing_never_waits_witness:
  "wait_for_timing_pass 1 True 1 (fold record_sample [example_sample 1 1, example_sample 2 1] timing_new)
     \<noteq> TimingWait"
  using recorded_timing_never_waits [of "[example_sample 1 1, example_sample 2 1]" "example_sample 1 1"]
  by (simp add: example_sample_def)

end
