(* ===== verification/NetCodec.thy ===== *)
theory NetCodec
  imports InputProtocol
begin

text \<open>
  The wire formats of \<open>crates/rshare-net/src/codec.rs\<close>: the fixed binary format of realtime input,
  the framing of reliable input and of control messages, and the streaming decoder. A byte is a
  \<open>nat\<close> below 256. What \<open>bincode\<close> and \<open>serde_json\<close> make of a value is an argument.
\<close>

section \<open>Big-endian fields\<close>

type_synonym byte = nat

primrec be_bytes :: "nat \<Rightarrow> nat \<Rightarrow> byte list" where
  "be_bytes 0 v = []"
| "be_bytes (Suc n) v = (v div 256 ^ n) mod 256 # be_bytes n v"

definition from_be :: "byte list \<Rightarrow> nat" where
  "from_be bs = foldl (\<lambda>acc b. acc * 256 + b) 0 bs"

text \<open>Two's complement: \<open>to_be_bytes\<close> and \<open>from_be_bytes\<close> of i16 and i32, by their width in bytes.\<close>

definition to_unsigned :: "nat \<Rightarrow> int \<Rightarrow> nat" where
  "to_unsigned n i = nat (i mod 256 ^ n)"

definition to_signed :: "nat \<Rightarrow> nat \<Rightarrow> int" where
  "to_signed n v = (if 2 * v < 256 ^ n then int v else int v - 256 ^ n)"

definition put_signed :: "nat \<Rightarrow> int \<Rightarrow> byte list" where
  "put_signed n i = be_bytes n (to_unsigned n i)"

definition get_signed :: "byte list \<Rightarrow> int" where
  "get_signed bs = to_signed (length bs) (from_be bs)"

lemma length_be_bytes [simp]: "length (be_bytes n v) = n"
  by (induction n) auto

lemma length_put_signed [simp]: "length (put_signed n i) = n"
  by (simp add: put_signed_def)

lemma foldl_be: "foldl (\<lambda>acc b. acc * 256 + b) a bs = a * 256 ^ length bs + from_be bs"
proof (induction bs arbitrary: a)
  case (Cons b bs)
  show ?case using Cons [of "a * 256 + b"] Cons [of b] by (simp add: from_be_def algebra_simps)
qed (simp add: from_be_def)

lemma from_be_simps [simp]: "from_be [] = 0" "from_be (b # bs) = b * 256 ^ length bs + from_be bs"
  using foldl_be [of b bs] by (simp_all add: from_be_def)

lemma from_be_be_bytes: "from_be (be_bytes n v) = v mod 256 ^ n"
proof (induction n)
  case (Suc n)
  have "v mod (256 ^ n * 256) = 256 ^ n * (v div 256 ^ n mod 256) + v mod 256 ^ n"
    by (rule mod_mult2_eq)
  then show ?case using Suc by (simp add: algebra_simps)
qed simp

definition bytes :: "byte list \<Rightarrow> bool" where
  "bytes bs \<longleftrightarrow> (\<forall>b\<in>set bs. b < 256)"

lemma bytes_simps [simp]: "bytes []" "bytes (b # bs) \<longleftrightarrow> b < 256 \<and> bytes bs" "bytes (bs @ cs) \<longleftrightarrow> bytes bs \<and> bytes cs"
  by (auto simp: bytes_def)

lemma bytes_take_drop [simp]: "bytes bs \<Longrightarrow> bytes (take n bs)" "bytes bs \<Longrightarrow> bytes (drop n bs)"
  by (auto simp: bytes_def dest: in_set_takeD in_set_dropD)

lemma bytes_be_bytes [simp]: "bytes (be_bytes n v)"
  by (induction n) auto

lemma bytes_put_signed [simp]: "bytes (put_signed n i)"
  by (simp add: put_signed_def)

lemma from_be_less: "bytes bs \<Longrightarrow> from_be bs < 256 ^ length bs"
proof (induction bs)
  case (Cons b bs)
  then have "b * 256 ^ length bs + from_be bs < Suc b * 256 ^ length bs" by simp
  also have "\<dots> \<le> 256 * 256 ^ length bs" using Cons.prems by (intro mult_le_mono1) simp
  finally show ?case by simp
qed simp

lemma be_bytes_cong: "u mod 256 ^ n = v mod 256 ^ n \<Longrightarrow> be_bytes n u = be_bytes n v"
proof (induction n)
  case (Suc n)
  have "u mod 256 ^ n = v mod 256 ^ n"
    using arg_cong [OF Suc.prems, of "\<lambda>x. x mod 256 ^ n"] by (simp add: mod_mod_cancel)
  moreover have "w div 256 ^ n mod 256 = w mod 256 ^ Suc n div 256 ^ n" for w :: nat
    by (simp add: mod_mult2_eq mult.commute [of 256])
  ultimately show ?case using Suc by simp
qed simp

lemma be_bytes_from_be: "bytes bs \<Longrightarrow> be_bytes (length bs) (from_be bs) = bs"
proof (induction bs)
  case (Cons b bs)
  then have less: "from_be bs < 256 ^ length bs" using from_be_less by simp
  then have "be_bytes (length bs) (b * 256 ^ length bs + from_be bs) = be_bytes (length bs) (from_be bs)"
    by (intro be_bytes_cong) simp
  then show ?case using Cons less by simp
qed simp

lemma to_signed_unsigned: "- (256 ^ n) \<le> 2 * i \<Longrightarrow> 2 * i < 256 ^ n \<Longrightarrow> to_signed n (to_unsigned n i) = i"
proof (cases "0 \<le> i")
  case True
  assume up: "2 * i < 256 ^ n"
  obtain k where k: "i = int k" using True nonneg_int_cases by blast
  then have "int (2 * k) < int (256 ^ n)" using up by simp
  then have "2 * k < 256 ^ n" by (simp only: of_nat_less_iff)
  moreover have "i mod 256 ^ n = i" using True up by (intro mod_pos_pos_trivial) auto
  ultimately show ?thesis using k by (simp add: to_signed_def to_unsigned_def)
next
  case False
  assume low: "- (256 ^ n) \<le> 2 * i"
  have "i mod 256 ^ n = (i + 256 ^ n) mod 256 ^ n" by simp
  also have "\<dots> = i + 256 ^ n" using False low by (intro mod_pos_pos_trivial) linarith+
  finally have m: "i mod 256 ^ n = i + 256 ^ n" .
  have "\<not> 2 * nat (i + 256 ^ n) < 256 ^ n"
  proof
    assume "2 * nat (i + 256 ^ n) < 256 ^ n"
    then have "int (2 * nat (i + 256 ^ n)) < int (256 ^ n)" by (simp only: of_nat_less_iff)
    then show False using low False by simp
  qed
  then show ?thesis using m low False by (simp add: to_signed_def to_unsigned_def)
qed

lemma to_unsigned_signed: "v < 256 ^ n \<Longrightarrow> to_unsigned n (to_signed n v) = v"
proof -
  assume "v < 256 ^ n"
  then have "int v < 256 ^ n" by (metis of_nat_less_iff of_nat_numeral of_nat_power)
  then show ?thesis by (auto simp: to_signed_def to_unsigned_def minus_mod_self2)
qed

text \<open>Round trips of the fields, as the proofs of the codecs use them.\<close>

lemma get_put_signed:
  "- (256 ^ n) \<le> 2 * i \<Longrightarrow> 2 * i < 256 ^ n \<Longrightarrow> get_signed (put_signed n i) = i"
proof -
  assume i: "- (256 ^ n) \<le> 2 * i" "2 * i < 256 ^ n"
  have "to_unsigned n i mod 256 ^ n = to_unsigned n i"
    by (intro mod_less) (simp add: to_unsigned_def nat_less_iff)
  then show ?thesis using to_signed_unsigned [OF i] by (simp add: get_signed_def put_signed_def from_be_be_bytes)
qed

lemma put_get_signed: "bytes bs \<Longrightarrow> length bs = n \<Longrightarrow> put_signed n (get_signed bs) = bs"
  using to_unsigned_signed [OF from_be_less] be_bytes_from_be by (auto simp: put_signed_def get_signed_def)

lemma put_get: "bytes bs \<Longrightarrow> length bs = n \<Longrightarrow> be_bytes n (from_be bs) = bs"
  using be_bytes_from_be by blast

section \<open>Realtime input\<close>

datatype codec_error =
    FrameTooShort nat | UnsupportedVersion u16 | UnknownKind u8 | InvalidPayloadLength u16
  | FrameLengthMismatch nat | InvalidVisibility u8 | BodyTooLarge nat | TrailingBytes nat
  | BodyVersionMismatch u16 | TextTooLong nat | EncodingFailed | DecodingFailed | MessageTooLarge nat

definition realtime_input_header_size :: usize where "realtime_input_header_size = 37"

datatype realtime_input_kind = RelativeMouseKind | AbsoluteAnchorKind | GamepadAxesKind | CursorVisualKind

fun kind_code :: "realtime_input_kind \<Rightarrow> u8" where
  "kind_code RelativeMouseKind = 1"
| "kind_code AbsoluteAnchorKind = 2"
| "kind_code GamepadAxesKind = 3"
| "kind_code CursorVisualKind = 4"

definition kind_decode :: "u8 \<Rightarrow> codec_error + realtime_input_kind" where
  "kind_decode value =
     (if value = 1 then Inr RelativeMouseKind else if value = 2 then Inr AbsoluteAnchorKind
      else if value = 3 then Inr GamepadAxesKind else if value = 4 then Inr CursorVisualKind
      else Inl (UnknownKind value))"

fun kind_payload_size :: "realtime_input_kind \<Rightarrow> u16" where
  "kind_payload_size RelativeMouseKind = 8"
| "kind_payload_size AbsoluteAnchorKind = 8"
| "kind_payload_size GamepadAxesKind = 13"
| "kind_payload_size CursorVisualKind = 9"

fun payload_kind :: "realtime_input_payload \<Rightarrow> realtime_input_kind" where
  "payload_kind (RelativeMouse dx dy) = RelativeMouseKind"
| "payload_kind (AbsoluteAnchor x y) = AbsoluteAnchorKind"
| "payload_kind (GamepadAxesPayload i lx ly rx ry lt rt) = GamepadAxesKind"
| "payload_kind (CursorVisual x y visible) = CursorVisualKind"

fun encode_payload :: "realtime_input_payload \<Rightarrow> byte list" where
  "encode_payload (RelativeMouse dx dy) = put_signed 4 dx @ put_signed 4 dy"
| "encode_payload (AbsoluteAnchor x y) = put_signed 4 x @ put_signed 4 y"
| "encode_payload (GamepadAxesPayload gamepad_id lx ly rx ry lt rt) =
     be_bytes 1 gamepad_id @ put_signed 2 lx @ put_signed 2 ly @ put_signed 2 rx @ put_signed 2 ry @
     be_bytes 2 lt @ be_bytes 2 rt"
| "encode_payload (CursorVisual x y visible) =
     put_signed 4 x @ put_signed 4 y @ be_bytes 1 (if visible then 1 else 0)"

definition encode_header :: "realtime_input_frame \<Rightarrow> byte list" where
  "encode_header frame =
     be_bytes 2 (rf_protocol_version frame) @ be_bytes 1 (kind_code (payload_kind (rf_payload frame))) @
     be_bytes 2 (kind_payload_size (payload_kind (rf_payload frame))) @
     be_bytes 8 (rf_session_epoch frame) @ be_bytes 8 (rf_sequence frame) @
     be_bytes 8 (ms_domain (rf_captured_at frame)) @ be_bytes 8 (ms_value_us (rf_captured_at frame))"

definition realtime_encode :: "realtime_input_frame \<Rightarrow> codec_error + byte list" where
  "realtime_encode frame =
     (if rf_protocol_version frame \<noteq> input_protocol_version
      then Inl (UnsupportedVersion (rf_protocol_version frame))
      else Inr (encode_header frame @ encode_payload (rf_payload frame)))"

text \<open>The bytes from \<open>i\<close> up to \<open>j\<close>, of data known to be long enough.\<close>

definition slice :: "nat \<Rightarrow> nat \<Rightarrow> 'a list \<Rightarrow> 'a list" where
  "slice i j xs = take (j - i) (drop i xs)"

definition decode_payload :: "realtime_input_kind \<Rightarrow> byte list \<Rightarrow> codec_error + realtime_input_payload" where
  "decode_payload kind payload =
     (case kind of
        RelativeMouseKind \<Rightarrow>
          Inr (RelativeMouse (get_signed (slice 0 4 payload)) (get_signed (slice 4 8 payload)))
      | AbsoluteAnchorKind \<Rightarrow>
          Inr (AbsoluteAnchor (get_signed (slice 0 4 payload)) (get_signed (slice 4 8 payload)))
      | GamepadAxesKind \<Rightarrow>
          Inr (GamepadAxesPayload (payload ! 0) (get_signed (slice 1 3 payload))
                 (get_signed (slice 3 5 payload)) (get_signed (slice 5 7 payload))
                 (get_signed (slice 7 9 payload)) (from_be (slice 9 11 payload))
                 (from_be (slice 11 13 payload)))
      | CursorVisualKind \<Rightarrow>
          if payload ! 8 \<noteq> 0 \<and> payload ! 8 \<noteq> 1 then Inl (InvalidVisibility (payload ! 8))
          else Inr (CursorVisual (get_signed (slice 0 4 payload)) (get_signed (slice 4 8 payload))
                      (payload ! 8 = 1)))"

definition realtime_decode :: "byte list \<Rightarrow> codec_error + realtime_input_frame" where
  "realtime_decode data =
     (if length data < realtime_input_header_size then Inl (FrameTooShort (length data))
      else let version = from_be (slice 0 2 data)
      in if version \<noteq> input_protocol_version then Inl (UnsupportedVersion version)
      else case kind_decode (data ! 2) of
        Inl e \<Rightarrow> Inl e
      | Inr kind \<Rightarrow>
          (let payload_size = from_be (slice 3 5 data)
           in if payload_size \<noteq> kind_payload_size kind then Inl (InvalidPayloadLength payload_size)
           else if length data \<noteq> realtime_input_header_size + payload_size
           then Inl (FrameLengthMismatch (length data))
           else case decode_payload kind (drop realtime_input_header_size data) of
             Inl e \<Rightarrow> Inl e
           | Inr payload \<Rightarrow>
               Inr \<lparr>rf_protocol_version = version, rf_session_epoch = from_be (slice 5 13 data),
                    rf_sequence = from_be (slice 13 21 data),
                    rf_captured_at = \<lparr>ms_domain = from_be (slice 21 29 data),
                                      ms_value_us = from_be (slice 29 37 data)\<rparr>,
                    rf_payload = payload\<rparr>))"

text \<open>The values the fields of a frame have in the code: the widths of their types.\<close>

definition in_i16 :: "int \<Rightarrow> bool" where
  "in_i16 i \<longleftrightarrow> - 32768 \<le> i \<and> i < 32768"

definition payload_typed :: "realtime_input_payload \<Rightarrow> bool" where
  "payload_typed p \<longleftrightarrow>
     (case p of
        RelativeMouse dx dy \<Rightarrow> in_i32 dx \<and> in_i32 dy
      | AbsoluteAnchor x y \<Rightarrow> in_i32 x \<and> in_i32 y
      | GamepadAxesPayload i lx ly rx ry lt rt \<Rightarrow>
          i < 256 \<and> list_all in_i16 [lx, ly, rx, ry] \<and> lt < 65536 \<and> rt < 65536
      | CursorVisual x y visible \<Rightarrow> in_i32 x \<and> in_i32 y)"

definition frame_typed :: "realtime_input_frame \<Rightarrow> bool" where
  "frame_typed f \<longleftrightarrow>
     rf_session_epoch f \<le> u64_max \<and> rf_sequence f \<le> u64_max \<and>
     ms_domain (rf_captured_at f) \<le> u64_max \<and> ms_value_us (rf_captured_at f) \<le> u64_max \<and>
     payload_typed (rf_payload f)"

lemma i32_roundtrip [simp]: "in_i32 i \<Longrightarrow> get_signed (put_signed 4 i) = i"
  by (rule get_put_signed) (simp_all add: in_i32_def)

lemma i16_roundtrip [simp]: "in_i16 i \<Longrightarrow> get_signed (put_signed 2 i) = i"
  by (rule get_put_signed) (simp_all add: in_i16_def)

lemma slice_append1 [simp]: "j \<le> length xs \<Longrightarrow> slice i j (xs @ ys) = slice i j xs"
  by (simp add: slice_def)

lemma slice_append2: "length xs \<le> i \<Longrightarrow> slice i j (xs @ ys) = slice (i - length xs) (j - length xs) ys"
  by (simp add: slice_def)

lemma slice_all [simp]: "length xs = j \<Longrightarrow> slice 0 j xs = xs"
  by (simp add: slice_def)

lemma be_bytes_1: "be_bytes (Suc 0) v = [v mod 256]"
  by simp

lemma slice_Cons: "0 < i \<Longrightarrow> slice i j (x # xs) = slice (i - 1) (j - 1) xs"
  by (cases i) (auto simp: slice_def)

lemmas field_simps_codec = slice_append2 slice_Cons nth_append from_be_be_bytes be_bytes_1

lemma decode_encode_payload:
  "payload_typed p \<Longrightarrow> decode_payload (payload_kind p) (encode_payload p) = Inr p"
  by (cases p)
    (simp_all add: payload_typed_def decode_payload_def field_simps_codec del: be_bytes.simps(2))

lemma length_encode_header: "length (encode_header f) = 37"
  by (simp add: encode_header_def del: be_bytes.simps(2))

lemma length_encode_payload: "length (encode_payload p) = kind_payload_size (payload_kind p)"
  by (cases p) (simp_all del: be_bytes.simps(2))

lemma kind_decode_code: "kind_decode (kind_code k) = Inr k"
  by (cases k) (simp_all add: kind_decode_def)

lemma kind_decode_Inr: "kind_decode v = Inr k \<Longrightarrow> v = kind_code k"
  by (auto simp: kind_decode_def split: if_splits)

lemma kind_sizes: "kind_code k < 256" "kind_payload_size k < 65536"
  by (cases k; simp)+

text \<open>The fields of an encoded frame, as the decoder finds them.\<close>

lemma header_fields:
  fixes f :: realtime_input_frame
  defines "h \<equiv> encode_header f @ encode_payload (rf_payload f)"
  shows "slice 0 2 h = be_bytes 2 (rf_protocol_version f)" "h ! 2 = kind_code (payload_kind (rf_payload f))"
    and "slice 3 5 h = be_bytes 2 (kind_payload_size (payload_kind (rf_payload f)))"
    and "slice 5 13 h = be_bytes 8 (rf_session_epoch f)" "slice 13 21 h = be_bytes 8 (rf_sequence f)"
    and "slice 21 29 h = be_bytes 8 (ms_domain (rf_captured_at f))"
    and "slice 29 37 h = be_bytes 8 (ms_value_us (rf_captured_at f))"
    and "drop 37 h = encode_payload (rf_payload f)"
    and "length h = 37 + kind_payload_size (payload_kind (rf_payload f))"
  by (simp_all add: h_def encode_header_def field_simps_codec length_encode_payload kind_sizes
      del: be_bytes.simps(2))

lemma decode_encode:
  assumes "rf_protocol_version f = input_protocol_version" and "frame_typed f"
  shows "realtime_decode (encode_header f @ encode_payload (rf_payload f)) = Inr f"
proof -
  have big: "n \<le> u64_max \<Longrightarrow> n mod 256 ^ 8 = n" for n :: nat by simp
  note F = header_fields [of f]
  show ?thesis
    unfolding realtime_decode_def F realtime_input_header_size_def Let_def kind_decode_code
    using assms kind_sizes(2) [of "payload_kind (rf_payload f)"]
      decode_encode_payload [of "rf_payload f"]
    by (simp add: from_be_be_bytes frame_typed_def big del: be_bytes.simps(2))
qed

lemma slice_join: "i \<le> j \<Longrightarrow> slice i j xs @ drop j xs = drop i xs"
  by (metis append_take_drop_id drop_drop le_add_diff_inverse2 slice_def)

lemma length_slice [simp]: "j \<le> length xs \<Longrightarrow> length (slice i j xs) = j - i"
  by (simp add: slice_def)

lemma bytes_slice [simp]: "bytes xs \<Longrightarrow> bytes (slice i j xs)"
  by (simp add: slice_def)

lemma bytes_nth: "bytes xs \<Longrightarrow> i < length xs \<Longrightarrow> xs ! i < 256"
  by (simp add: bytes_def)

lemma put_get_slice:
  "bytes xs \<Longrightarrow> j \<le> length xs \<Longrightarrow> n = j - i \<Longrightarrow> be_bytes n (from_be (slice i j xs)) = slice i j xs"
  "bytes xs \<Longrightarrow> j \<le> length xs \<Longrightarrow> n = j - i \<Longrightarrow> put_signed n (get_signed (slice i j xs)) = slice i j xs"
  by (auto intro: put_get put_get_signed)

lemma get_signed_range: "bytes bs \<Longrightarrow> - (256 ^ length bs) \<le> 2 * get_signed bs \<and> 2 * get_signed bs < 256 ^ length bs"
proof -
  assume "bytes bs"
  define v P where "v = from_be bs" and "P = (256::nat) ^ length bs"
  have v: "v < P" using from_be_less [OF \<open>bytes bs\<close>] by (simp add: v_def P_def)
  have get: "get_signed bs = (if 2 * v < P then int v else int v - int P)"
    by (simp add: get_signed_def to_signed_def v_def P_def)
  have "- int P \<le> 2 * get_signed bs \<and> 2 * get_signed bs < int P"
    unfolding get using v by auto
  then show ?thesis by (simp add: P_def)
qed

lemma slice_typed:
  "bytes xs \<Longrightarrow> i + 4 = j \<Longrightarrow> j \<le> length xs \<Longrightarrow> in_i32 (get_signed (slice i j xs))"
  "bytes xs \<Longrightarrow> i + 2 = j \<Longrightarrow> j \<le> length xs \<Longrightarrow> in_i16 (get_signed (slice i j xs))"
  "bytes xs \<Longrightarrow> i + 2 = j \<Longrightarrow> j \<le> length xs \<Longrightarrow> from_be (slice i j xs) < 65536"
  "bytes xs \<Longrightarrow> i + 8 = j \<Longrightarrow> j \<le> length xs \<Longrightarrow> from_be (slice i j xs) \<le> u64_max"
  using get_signed_range [of "slice i j xs"] from_be_less [of "slice i j xs"]
  by (auto simp: in_i32_def in_i16_def)

lemma slice_tail: "length xs = j \<Longrightarrow> i \<le> j \<Longrightarrow> slice i j xs = drop i xs"
  by (simp add: slice_def)

lemma encode_decode_payload:
  assumes "decode_payload kind data = Inr p" and "bytes data" and "length data = kind_payload_size kind"
  shows "encode_payload p = data \<and> payload_kind p = kind \<and> payload_typed p"
proof (cases kind)
  case RelativeMouseKind
  have "slice 0 4 data @ slice 4 8 data = data"
    using assms(3) RelativeMouseKind slice_join [of 0 4 data] by (simp add: slice_tail)
  then show ?thesis
    using assms RelativeMouseKind by (auto simp: decode_payload_def put_get_slice payload_typed_def slice_typed)
next
  case AbsoluteAnchorKind
  have "slice 0 4 data @ slice 4 8 data = data"
    using assms(3) AbsoluteAnchorKind slice_join [of 0 4 data] by (simp add: slice_tail)
  then show ?thesis
    using assms AbsoluteAnchorKind by (auto simp: decode_payload_def put_get_slice payload_typed_def slice_typed)
next
  case GamepadAxesKind
  have "slice 1 3 data @ slice 3 5 data @ slice 5 7 data @ slice 7 9 data @ slice 9 11 data @ slice 11 13 data = drop 1 data"
    using assms(3) GamepadAxesKind by (simp add: slice_join slice_tail)
  moreover have "data ! 0 # drop 1 data = data" using assms(3) GamepadAxesKind by (cases data) auto
  ultimately show ?thesis
    using assms GamepadAxesKind bytes_nth [of data 0]
    by (auto simp: decode_payload_def put_get_slice payload_typed_def slice_typed be_bytes_1 simp del: be_bytes.simps(2))
next
  case CursorVisualKind
  have "slice 0 4 data @ slice 4 8 data @ [data ! 8] = data"
  proof -
    have "drop 8 data = [data ! 8]" using assms(3) CursorVisualKind Cons_nth_drop_Suc [of 8 data] by simp
    then show ?thesis using slice_join [of 4 8 data] slice_join [of 0 4 data] by simp
  qed
  then show ?thesis
    using assms CursorVisualKind
    by (auto simp: decode_payload_def put_get_slice payload_typed_def slice_typed be_bytes_1
        split: if_splits simp del: be_bytes.simps(2))
qed

lemma encode_decode:
  assumes "realtime_decode data = Inr f" and "bytes data"
  shows "encode_header f @ encode_payload (rf_payload f) = data \<and>
    rf_protocol_version f = input_protocol_version \<and> frame_typed f"
proof -
  obtain kind payload where k: "kind_decode (data ! 2) = Inr kind"
      and p: "decode_payload kind (drop 37 data) = Inr payload"
      and len: "length data = 37 + kind_payload_size kind" and size: "from_be (slice 3 5 data) = kind_payload_size kind"
      and version: "from_be (slice 0 2 data) = input_protocol_version"
      and f: "f = \<lparr>rf_protocol_version = from_be (slice 0 2 data), rf_session_epoch = from_be (slice 5 13 data),
                    rf_sequence = from_be (slice 13 21 data),
                    rf_captured_at = \<lparr>ms_domain = from_be (slice 21 29 data),
                                      ms_value_us = from_be (slice 29 37 data)\<rparr>,
                    rf_payload = payload\<rparr>"
    using assms(1)
    by (auto simp: realtime_decode_def realtime_input_header_size_def Let_def split: if_splits sum.splits)
  have pay: "encode_payload payload = drop 37 data \<and> payload_kind payload = kind \<and> payload_typed payload"
    by (rule encode_decode_payload [OF p]) (use assms(2) len in simp_all)
  have byte: "be_bytes 1 (kind_code kind) = [data ! 2]"
    using kind_decode_Inr [OF k] kind_sizes(1) [of kind] by (simp add: be_bytes_1 del: be_bytes.simps(2))
  have "encode_header f @ encode_payload payload =
      slice 0 2 data @ [data ! 2] @ slice 3 5 data @ slice 5 13 data @ slice 13 21 data @ slice 21 29 data @
      slice 29 37 data @ drop 37 data"
    using pay byte assms(2) len
    by (simp add: encode_header_def f put_get_slice flip: size del: be_bytes.simps(2))
  also have "\<dots> = data"
    using len Cons_nth_drop_Suc [of 2 data] by (simp add: slice_join)
  finally show ?thesis
    using pay version assms(2) len by (simp add: f frame_typed_def slice_typed)
qed

text \<open>
  C31. The realtime format is a bijection. Every frame whose fields have the width of their types is
  decoded to itself, from as many bytes as its kind has; and every datagram the decoder accepts is
  the encoding of the frame it yields, so no two datagrams mean the same frame.
\<close>

theorem realtime_codec_bijective:
  assumes "rf_protocol_version f = input_protocol_version" and "frame_typed f" and "bytes data"
  shows "(\<exists>bs. realtime_encode f = Inr bs \<and> realtime_decode bs = Inr f \<and> bytes bs \<and>
      length bs = 37 + kind_payload_size (payload_kind (rf_payload f))) \<and>
    (\<forall>g. realtime_decode data = Inr g \<longrightarrow> realtime_encode g = Inr data)"
proof -
  have "bytes (encode_header f @ encode_payload (rf_payload f))"
    by (cases "rf_payload f") (simp_all add: encode_header_def del: be_bytes.simps(2))
  then have "\<exists>bs. realtime_encode f = Inr bs \<and> realtime_decode bs = Inr f \<and> bytes bs \<and>
      length bs = 37 + kind_payload_size (payload_kind (rf_payload f))"
    using decode_encode [OF assms(1,2)] assms(1) length_encode_header length_encode_payload
    by (auto simp: realtime_encode_def)
  moreover have "realtime_decode data = Inr g \<Longrightarrow> realtime_encode g = Inr data" for g
    using encode_decode [of data g] assms(3) by (simp add: realtime_encode_def)
  ultimately show ?thesis by blast
qed

definition example_axes :: realtime_input_frame where
  "example_axes =
     \<lparr>rf_protocol_version = 1, rf_session_epoch = 258, rf_sequence = 7,
      rf_captured_at = \<lparr>ms_domain = 3, ms_value_us = 70000\<rparr>,
      rf_payload = GamepadAxesPayload 2 (- 1) 300 (- 32768) 32767 65535 9\<rparr>"

lemma example_axes_facts:
  "rf_protocol_version example_axes = input_protocol_version" "frame_typed example_axes"
  "kind_payload_size (payload_kind (rf_payload example_axes)) = 13"
  by (simp_all add: example_axes_def frame_typed_def payload_typed_def in_i16_def)

theorem realtime_codec_bijective_witness:
  "\<exists>bs. realtime_encode example_axes = Inr bs \<and> realtime_decode bs = Inr example_axes \<and> length bs = 50"
  using realtime_codec_bijective [OF example_axes_facts(1,2), of "[]"] example_axes_facts(3) by auto

section \<open>Reliable input\<close>

definition max_reliable_input_frame :: usize where "max_reliable_input_frame = 4096"
definition max_text_commit_bytes :: usize where "max_text_commit_bytes = max_reliable_input_frame - 64"

text \<open>A text is its UTF-8 bytes.\<close>

definition validate_text_commit_size :: "reliable_input_frame \<Rightarrow> codec_error + unit" where
  "validate_text_commit_size frame =
     (case lf_event frame of
        TextCommitEvent t \<Rightarrow>
          if length t \<le> max_text_commit_bytes then Inr () else Inl (TextTooLong (length t))
      | _ \<Rightarrow> Inr ())"

text \<open>\<open>ser\<close> is what bincode makes of a frame, \<open>None\<close> beyond its limit.\<close>

definition reliable_encode ::
  "(reliable_input_frame \<Rightarrow> byte list option) \<Rightarrow> reliable_input_frame \<Rightarrow> codec_error + byte list" where
  "reliable_encode ser frame =
     (if lf_protocol_version frame \<noteq> input_protocol_version
      then Inl (UnsupportedVersion (lf_protocol_version frame))
      else case validate_text_commit_size frame of
        Inl e \<Rightarrow> Inl e
      | Inr _ \<Rightarrow>
          (case ser frame of
             None \<Rightarrow> Inl EncodingFailed
           | Some body \<Rightarrow>
               if max_reliable_input_frame < length body then Inl (BodyTooLarge (length body))
               else Inr (be_bytes 2 input_protocol_version @ body)))"

text \<open>\<open>de\<close> is what bincode reads: a frame and how many bytes it took.\<close>

definition reliable_decode ::
  "(byte list \<Rightarrow> (reliable_input_frame \<times> nat) option) \<Rightarrow> byte list \<Rightarrow> codec_error + reliable_input_frame" where
  "reliable_decode de data =
     (if length data < 2 \<or> max_reliable_input_frame + 2 < length data
      then Inl (FrameLengthMismatch (length data))
      else let outer = from_be (slice 0 2 data)
      in if outer \<noteq> input_protocol_version then Inl (UnsupportedVersion outer)
      else case de (drop 2 data) of
        None \<Rightarrow> Inl DecodingFailed
      | Some (frame, consumed) \<Rightarrow>
          if consumed \<noteq> length data - 2 then Inl (TrailingBytes consumed)
          else if lf_protocol_version frame \<noteq> input_protocol_version
          then Inl (BodyVersionMismatch (lf_protocol_version frame))
          else case validate_text_commit_size frame of
            Inl e \<Rightarrow> Inl e
          | Inr _ \<Rightarrow> Inr frame)"

text \<open>The framing is lossless if the serializer reads what it wrote and stops at the end of it.\<close>

lemma reliable_roundtrip:
  assumes "\<And>body. ser f = Some body \<Longrightarrow> de body = Some (f, length body)" and "reliable_encode ser f = Inr bs"
  shows "reliable_decode de bs = Inr f"
proof -
  obtain body where "ser f = Some body" "length body \<le> max_reliable_input_frame"
      "bs = be_bytes 2 input_protocol_version @ body" "lf_protocol_version f = input_protocol_version"
      "validate_text_commit_size f = Inr ()"
    using assms(2) by (auto simp: reliable_encode_def split: if_splits sum.splits option.splits)
  then show ?thesis
    using assms(1) by (simp add: reliable_decode_def slice_append2 from_be_be_bytes del: be_bytes.simps(2))
qed

section \<open>Control messages\<close>

definition frame_header_size :: usize where "frame_header_size = 5"
definition max_message_size :: usize where "max_message_size = 10 * 1024 * 1024"

text \<open>\<open>ser\<close> and \<open>de\<close> are \<open>serde_json\<close>; \<open>tag\<close> is the type tag of a message, which nothing reads.\<close>

definition message_encode ::
  "('m \<Rightarrow> byte list option) \<Rightarrow> ('m \<Rightarrow> u8) \<Rightarrow> 'm \<Rightarrow> codec_error + byte list" where
  "message_encode ser tag message =
     (case ser message of
        None \<Rightarrow> Inl EncodingFailed
      | Some payload \<Rightarrow>
          if max_message_size < length payload then Inl (MessageTooLarge (length payload))
          else Inr (be_bytes 4 (1 + length payload) @ be_bytes 1 (tag message) @ payload))"

definition message_decode :: "(byte list \<Rightarrow> 'm option) \<Rightarrow> byte list \<Rightarrow> codec_error + 'm" where
  "message_decode de data =
     (if length data < frame_header_size then Inl (FrameTooShort (length data))
      else if from_be (slice 0 4 data) \<noteq> length data - 4
      then Inl (FrameLengthMismatch (from_be (slice 0 4 data)))
      else case de (drop frame_header_size data) of None \<Rightarrow> Inl DecodingFailed | Some m \<Rightarrow> Inr m)"

text \<open>The type tag is read and dropped: it does not change what is decoded.\<close>

lemma type_tag_ignored:
  assumes "frame_header_size \<le> length data"
  shows "message_decode de (data[4 := tag]) = message_decode de data"
proof -
  have "take 4 (data[4 := tag]) = take 4 data" by (simp add: take_update_cancel)
  then show ?thesis using assms by (simp add: message_decode_def slice_def frame_header_size_def)
qed

definition message_decode_raw :: "(byte list \<Rightarrow> 'm option) \<Rightarrow> byte list \<Rightarrow> codec_error + 'm" where
  "message_decode_raw de data = (case de data of None \<Rightarrow> Inl DecodingFailed | Some m \<Rightarrow> Inr m)"

definition frame_message :: "('m \<Rightarrow> byte list option) \<Rightarrow> 'm \<Rightarrow> codec_error + byte list" where
  "frame_message ser message =
     (case ser message of
        None \<Rightarrow> Inl EncodingFailed
      | Some payload \<Rightarrow> Inr (be_bytes 4 (length payload mod 2 ^ 32) @ payload))"

lemma message_roundtrip:
  assumes "message_encode ser tag m = Inr bs" and "\<And>payload. ser m = Some payload \<Longrightarrow> de payload = Some m"
  shows "message_decode de bs = Inr m"
proof -
  obtain payload where "ser m = Some payload" "length payload \<le> max_message_size"
      "bs = be_bytes 4 (1 + length payload) @ be_bytes 1 (tag m) @ payload"
    using assms(1) by (auto simp: message_encode_def split: option.splits if_splits)
  then show ?thesis
    using assms(2) by (simp add: message_decode_def frame_header_size_def max_message_size_def
        from_be_be_bytes be_bytes_1 del: be_bytes.simps(2))
qed

record message_decoder =
  md_buffer :: "byte list"
  md_max_message_size :: usize

definition decoder_new :: message_decoder where
  "decoder_new = \<lparr>md_buffer = [], md_max_message_size = max_message_size\<rparr>"

definition decoder_with_max_size :: "usize \<Rightarrow> message_decoder \<Rightarrow> message_decoder" where
  "decoder_with_max_size max_size d = d\<lparr>md_max_message_size := max_size\<rparr>"

definition decoder_feed :: "byte list \<Rightarrow> message_decoder \<Rightarrow> message_decoder" where
  "decoder_feed data d = d\<lparr>md_buffer := md_buffer d @ data\<rparr>"

definition try_decode ::
  "(byte list \<Rightarrow> 'm option) \<Rightarrow> message_decoder \<Rightarrow> (codec_error + 'm option) \<times> message_decoder" where
  "try_decode de d =
     (let buffer = md_buffer d; len = from_be (slice 0 4 buffer)
      in if length buffer < 4 then (Inr None, d)
         else if md_max_message_size d < len then (Inl (MessageTooLarge len), d)
         else if length buffer < 4 + len then (Inr None, d)
         else let d = d\<lparr>md_buffer := drop (4 + len) buffer\<rparr>
              in (case message_decode_raw de (slice 4 (4 + len) buffer) of
                    Inl e \<Rightarrow> (Inl e, d) | Inr m \<Rightarrow> (Inr (Some m), d)))"

text \<open>What a client does after each read: take every complete message, until none is left or an error.\<close>

function decode_all ::
  "(byte list \<Rightarrow> 'm option) \<Rightarrow> message_decoder \<Rightarrow> 'm list \<times> codec_error option \<times> message_decoder" where
  "decode_all de d =
     (case try_decode de d of
        (Inl e, d') \<Rightarrow> ([], Some e, d')
      | (Inr None, d') \<Rightarrow> ([], None, d')
      | (Inr (Some m), d') \<Rightarrow> (let (ms, r) = decode_all de d' in (m # ms, r)))"
  by auto

lemma try_decode_shrinks:
  "try_decode de d = (Inr (Some m), d') \<Longrightarrow> length (md_buffer d') < length (md_buffer d)"
  by (auto simp: try_decode_def Let_def split: if_splits sum.splits)

termination decode_all
  by (relation "measure (\<lambda>(de, d). length (md_buffer d))") (auto dest: sym [THEN try_decode_shrinks])

declare decode_all.simps [simp del]

fun decode_chunks ::
  "(byte list \<Rightarrow> 'm option) \<Rightarrow> byte list list \<Rightarrow> message_decoder \<Rightarrow> 'm list \<times> codec_error option \<times> message_decoder" where
  "decode_chunks de [] d = ([], None, d)"
| "decode_chunks de (c # cs) d =
     (case decode_all de (decoder_feed c d) of
        (ms, Some e, d') \<Rightarrow> (ms, Some e, d')
      | (ms, None, d') \<Rightarrow> (let (ms', r) = decode_chunks de cs d' in (ms @ ms', r)))"

section \<open>Streams\<close>

lemma decoder_feed_feed: "decoder_feed b (decoder_feed a d) = decoder_feed (a @ b) d"
  by (simp add: decoder_feed_def)

lemma try_decode_feed:
  "try_decode de d = (Inr (Some m), d') \<Longrightarrow> try_decode de (decoder_feed c d) = (Inr (Some m), decoder_feed c d')"
  "try_decode de d = (Inl e, d') \<Longrightarrow> try_decode de (decoder_feed c d) = (Inl e, decoder_feed c d')"
  by (auto simp: try_decode_def decoder_feed_def Let_def split: if_splits sum.splits)

lemma decode_all_feed:
  "decode_all de d = (ms, e, d1) \<Longrightarrow>
     decode_all de (decoder_feed c d) =
       (case e of Some e \<Rightarrow> (ms, Some e, decoder_feed c d1)
        | None \<Rightarrow> (let (ms', r) = decode_all de (decoder_feed c d1) in (ms @ ms', r)))"
proof (induction de d arbitrary: ms e d1 rule: decode_all.induct)
  case (1 de d)
  obtain r d' where run: "try_decode de d = (r, d')" by fastforce
  show ?case
  proof (cases r)
    case (Inl err)
    then show ?thesis
      using 1(2) run try_decode_feed(2) [of de d err d' c]
      by (auto simp: decode_all.simps [of de d] decode_all.simps [of de "decoder_feed c d"])
  next
    case (Inr o1)
    show ?thesis
    proof (cases o1)
      case None
      then have "ms = []" "e = None" "d1 = d" using 1(2) run Inr
        by (auto simp: decode_all.simps [of de d] try_decode_def Let_def split: if_splits sum.splits)
      then show ?thesis by (simp add: Let_def split: prod.split)
    next
      case (Some m)
      obtain ms' e' d2 where rest: "decode_all de d' = (ms', e', d2)" by (metis prod_cases3)
      have m: "try_decode de d = (Inr (Some m), d')" using run Inr Some by simp
      have eq: "ms = m # ms'" "e = e'" "d1 = d2" using 1(2) m rest by (simp_all add: decode_all.simps [of de d])
      show ?thesis
        using "1.IH" [OF m [symmetric] refl refl rest] try_decode_feed(1) [OF m, of c]
        by (auto simp: decode_all.simps [of de "decoder_feed c d"] eq Let_def split: option.splits prod.splits)
    qed
  qed
qed

definition drained :: "(byte list \<Rightarrow> 'm option) \<Rightarrow> message_decoder \<Rightarrow> bool" where
  "drained de d \<longleftrightarrow> decode_all de d = ([], None, d)"

lemma decode_all_drains: "decode_all de d = (ms, None, d') \<Longrightarrow> drained de d'"
proof (induction de d arbitrary: ms d' rule: decode_all.induct)
  case (1 de d)
  obtain r d1 where run: "try_decode de d = (r, d1)" by fastforce
  show ?case
  proof (cases "\<exists>m. r = Inr (Some m)")
    case True
    then obtain m where m: "try_decode de d = (Inr (Some m), d1)" using run by blast
    then obtain ms' where "decode_all de d1 = (ms', None, d')"
      using "1.prems" by (auto simp: decode_all.simps [of de d] split: prod.splits)
    then show ?thesis using "1.IH" [OF m [symmetric] refl refl] by blast
  next
    case False
    then have "r = Inr None" "d' = d1" using "1.prems" run
      by (auto simp: decode_all.simps [of de d] split: sum.splits option.splits)
    moreover from this have "d1 = d"
      using run by (auto simp: try_decode_def Let_def split: if_splits sum.splits)
    ultimately show ?thesis using run unfolding drained_def by (subst decode_all.simps) simp
  qed
qed

lemma decode_chunks_concat:
  "drained de d \<Longrightarrow> decode_chunks de cs d = (ms, None, d') \<longleftrightarrow> decode_all de (decoder_feed (concat cs) d) = (ms, None, d')"
proof (induction cs arbitrary: d ms)
  case Nil
  have "decoder_feed [] d = d" by (simp add: decoder_feed_def)
  then show ?case using Nil by (simp add: drained_def)
next
  case (Cons c cs)
  obtain ms1 e1 d1 where one: "decode_all de (decoder_feed c d) = (ms1, e1, d1)" by (metis prod_cases3)
  note all = decode_all_feed [OF one, of "concat cs"]
  show ?case
  proof (cases e1)
    case (Some e)
    then show ?thesis using one all by (simp add: decoder_feed_feed)
  next
    case None
    then have "drained de d1" using decode_all_drains one by blast
    obtain ms2 e2 d2 where two: "decode_chunks de cs d1 = (ms2, e2, d2)" by (metis prod_cases3)
    obtain ms3 e3 d3 where three: "decode_all de (decoder_feed (concat cs) d1) = (ms3, e3, d3)" by (metis prod_cases3)
    have "decode_chunks de (c # cs) d = (ms1 @ ms2, e2, d2)" using one None two by simp
    moreover have "decode_all de (decoder_feed (concat (c # cs)) d) = (ms1 @ ms3, e3, d3)"
      using all None three by (simp add: decoder_feed_feed)
    moreover have "(ms2, e2, d2) = (x, None, d') \<longleftrightarrow> (ms3, e3, d3) = (x, None, d')" for x
      using Cons.IH [OF \<open>drained de d1\<close>, of x] two three by simp
    ultimately show ?thesis by (metis Pair_inject same_append_eq)
  qed
qed

text \<open>The stream of the given payloads, each behind its length.\<close>

definition stream_of :: "byte list list \<Rightarrow> byte list" where
  "stream_of ps = concat (map (\<lambda>p. be_bytes 4 (length p mod 2 ^ 32) @ p) ps)"

lemma decode_all_stream:
  assumes "list_all2 (\<lambda>p m. de p = Some m \<and> length p \<le> md_max_message_size d \<and> length p < 2 ^ 32) ps ms"
    and "md_buffer d = []"
  shows "decode_all de (decoder_feed (stream_of ps) d) = (ms, None, d)"
  using assms(1)
proof (induction ps arbitrary: ms)
  case Nil
  then show ?case using assms(2)
    by (subst decode_all.simps) (simp add: stream_of_def decoder_feed_def try_decode_def Let_def)
next
  case (Cons p ps)
  then obtain m ms' where ms: "ms = m # ms'" and p: "de p = Some m" "length p \<le> md_max_message_size d" "length p < 2 ^ 32"
      and rest: "list_all2 (\<lambda>p m. de p = Some m \<and> length p \<le> md_max_message_size d \<and> length p < 2 ^ 32) ps ms'"
    by (auto simp: list_all2_Cons1)
  have "try_decode de (decoder_feed (stream_of (p # ps)) d) = (Inr (Some m), decoder_feed (stream_of ps) d)"
    using p assms(2)
    by (simp add: try_decode_def stream_of_def decoder_feed_def message_decode_raw_def from_be_be_bytes
        slice_append2 Let_def del: be_bytes.simps(2))
  then show ?case using Cons.IH [OF rest] ms by (subst decode_all.simps) simp
qed

text \<open>
  C32. The streaming decoder does not depend on how the stream is cut. However a stream of framed
  messages is split into reads (in the middle of a length or of a body, several messages at once, or
  empty reads), the decoder yields exactly the messages, in order, reports no error and ends with an
  empty buffer; and only messages within the size limit are let through.
\<close>

theorem decoder_ignores_chunking:
  assumes "list_all2 (\<lambda>p m. de p = Some m \<and> length p \<le> max_message_size) ps ms"
    and "concat chunks = stream_of ps"
  shows "decode_chunks de chunks decoder_new = (ms, None, decoder_new)"
proof -
  have "drained de decoder_new"
    unfolding drained_def by (subst decode_all.simps) (simp add: decoder_new_def try_decode_def Let_def)
  moreover have "decode_all de (decoder_feed (stream_of ps) decoder_new) = (ms, None, decoder_new)"
    by (rule decode_all_stream)
      (use assms(1) in \<open>auto simp: decoder_new_def max_message_size_def elim!: list_all2_mono\<close>)
  ultimately show ?thesis using decode_chunks_concat assms(2) by metis
qed

lemma be_4: "be_bytes 4 v = [v div 16777216 mod 256, v div 65536 mod 256, v div 256 mod 256, v mod 256]"
proof -
  have "be_bytes (Suc (Suc (Suc (Suc 0)))) v =
      [v div 16777216 mod 256, v div 65536 mod 256, v div 256 mod 256, v mod 256]" by simp
  moreover have "(4::nat) = Suc (Suc (Suc (Suc 0)))" by simp
  ultimately show ?thesis by (simp only:)
qed

theorem decoder_ignores_chunking_witness:
  "decode_chunks Some [[0, 0], [], [0, 2, 65], [66, 0, 0, 0, 1, 67]] decoder_new = ([[65, 66], [67]], None, decoder_new)"
  using decoder_ignores_chunking [of Some "[[65, 66], [67]]" "[[65, 66], [67]]" "[[0, 0], [], [0, 2, 65], [66, 0, 0, 0, 1, 67]]"]
  by (simp add: stream_of_def max_message_size_def be_4)

end
