(* ===== verification/QosSender.thy ===== *)
theory QosSender
  imports NetCodec Maps
begin

text \<open>
  The sending side of a peer's transport (\<open>crates/rshare-net/src/qos.rs\<close>): the admission of realtime,
  reliable and emergency frames under one lock, the epochs it retires, the publisher of terminal
  releases, and the tasks that write the lanes to the QUIC connection. A producer call is one
  transition. A task runs from one \<open>await\<close> to the next: each stage it waits in is a state, and one
  poll of it one transition. What the QUIC library answers is an argument.
\<close>

section \<open>Channels and probes\<close>

definition reliable_capacity :: usize where "reliable_capacity = 256"
definition emergency_capacity :: usize where "emergency_capacity = 1"
definition telemetry_capacity :: usize where "telemetry_capacity = 32"

text \<open>A bounded \<open>tokio::sync::mpsc\<close> channel; \<open>mp_closed\<close> when the receiver is gone.\<close>

record 'a mpsc =
  mp_queue :: "'a list"
  mp_max :: usize
  mp_closed :: bool

datatype try_send_error = ChannelFull | ChannelClosed

definition mpsc_new :: "usize \<Rightarrow> 'a mpsc" where
  "mpsc_new capacity = \<lparr>mp_queue = [], mp_max = capacity, mp_closed = False\<rparr>"

definition mpsc_capacity :: "'a mpsc \<Rightarrow> usize" where
  "mpsc_capacity ch = mp_max ch - length (mp_queue ch)"

definition mpsc_try_send :: "'a \<Rightarrow> 'a mpsc \<Rightarrow> (try_send_error + unit) \<times> 'a mpsc" where
  "mpsc_try_send x ch =
     (if mp_closed ch then (Inl ChannelClosed, ch)
      else if mpsc_capacity ch = 0 then (Inl ChannelFull, ch)
      else (Inr (), ch\<lparr>mp_queue := mp_queue ch @ [x]\<rparr>))"

definition mpsc_recv :: "'a mpsc \<Rightarrow> 'a option \<times> 'a mpsc" where
  "mpsc_recv ch = (case mp_queue ch of [] \<Rightarrow> (None, ch) | x # xs \<Rightarrow> (Some x, ch\<lparr>mp_queue := xs\<rparr>))"

text \<open>The receiver is dropped: what is queued is dropped with it.\<close>

definition mpsc_close :: "'a mpsc \<Rightarrow> 'a mpsc" where
  "mpsc_close ch = ch\<lparr>mp_queue := [], mp_closed := True\<rparr>"

text \<open>\<open>fetch_add(1)\<close> on an \<open>AtomicU64\<close> wraps.\<close>

definition fetch_inc :: "u64 \<Rightarrow> u64" where
  "fetch_inc v = (v + 1) mod 2 ^ 64"

record queue_probe =
  qp_high_watermark :: u64
  qp_overwrites :: u64
  qp_overflows :: u64

definition probe_new :: queue_probe where
  "probe_new = \<lparr>qp_high_watermark = 0, qp_overwrites = 0, qp_overflows = 0\<rparr>"

definition observe_queued :: "usize \<Rightarrow> usize \<Rightarrow> queue_probe \<Rightarrow> queue_probe" where
  "observe_queued queued capacity p =
     p\<lparr>qp_high_watermark := max (qp_high_watermark p) (min queued capacity)\<rparr>"

definition probe_overwrite :: "queue_probe \<Rightarrow> queue_probe" where
  "probe_overwrite p = p\<lparr>qp_overwrites := fetch_inc (qp_overwrites p)\<rparr>"

definition probe_overflow :: "usize \<Rightarrow> queue_probe \<Rightarrow> queue_probe" where
  "probe_overflow capacity p =
     (let p = observe_queued capacity capacity p in p\<lparr>qp_overflows := fetch_inc (qp_overflows p)\<rparr>)"

record qos_queue_diagnostics =
  qd_capacity :: u64
  qd_high_watermark :: u64
  qd_overwrites :: u64
  qd_overflows :: u64

definition probe_snapshot :: "usize \<Rightarrow> queue_probe \<Rightarrow> qos_queue_diagnostics" where
  "probe_snapshot capacity p =
     \<lparr>qd_capacity = capacity, qd_high_watermark = qp_high_watermark p, qd_overwrites = qp_overwrites p,
      qd_overflows = qp_overflows p\<rparr>"

section \<open>The publisher of terminal releases\<close>

record peer_auth_context =
  pa_peer_id :: uuid
  pa_certificate_fingerprint :: string
  pa_control_connection_id :: uuid

record terminal_release_event =
  te_auth :: peer_auth_context
  te_epoch :: session_epoch
  te_reason :: release_all_reason

text \<open>
  Where the forwarding task is: waiting for a change, about to look at a value, in the middle of a
  send (whether a permit was handed to it, whether it saw a newer value, whether the publisher still
  lives), or over.
\<close>

datatype emitter_worker =
    EmitterWaiting
  | EmitterHas "terminal_release_event option"
  | EmitterSending terminal_release_event bool bool bool
  | EmitterOver

record terminal_release_emitter =
  em_target :: "terminal_release_event mpsc"
  em_latest :: "terminal_release_event option"
  em_version :: nat
  em_seen :: nat
  em_open :: bool
  em_auth :: "peer_auth_context option"
  em_highest :: "session_epoch option"
  em_coalescing :: bool
  em_pending :: bool
  em_probe :: queue_probe
  em_in_flight :: usize
  em_worker :: emitter_worker

definition emitter_new :: "terminal_release_event mpsc \<Rightarrow> terminal_release_emitter" where
  "emitter_new target =
     \<lparr>em_target = target, em_latest = None, em_version = 0, em_seen = 0, em_open = True, em_auth = None,
      em_highest = None, em_coalescing = False, em_pending = False, em_probe = probe_new,
      em_in_flight = 0, em_worker = EmitterWaiting\<rparr>"

text \<open>A permit handed to the waiting send is no longer available to others.\<close>

definition target_capacity :: "terminal_release_emitter \<Rightarrow> usize" where
  "target_capacity em =
     mpsc_capacity (em_target em) -
     (case em_worker em of EmitterSending _ permit _ _ \<Rightarrow> if permit then 1 else 0 | _ \<Rightarrow> 0)"

definition send_replace :: "terminal_release_event \<Rightarrow> terminal_release_emitter \<Rightarrow> terminal_release_emitter" where
  "send_replace event em = em\<lparr>em_latest := Some event, em_version := em_version em + 1\<rparr>"

definition emitter_emit :: "terminal_release_event \<Rightarrow> terminal_release_emitter \<Rightarrow> terminal_release_emitter" where
  "emitter_emit event em =
     (let auth = (case em_auth em of Some a \<Rightarrow> a | None \<Rightarrow> te_auth event);
          em = em\<lparr>em_auth := Some auth\<rparr>;
          max_cap = mp_max (em_target em)
      in if auth \<noteq> te_auth event \<or> (case em_highest em of Some h \<Rightarrow> te_epoch event \<le> h | None \<Rightarrow> False)
         then em
         else let em = em\<lparr>em_highest := Some (te_epoch event)\<rparr>
         in if em_coalescing em then
              let em = em\<lparr>em_probe := (if em_pending em then probe_overwrite (em_probe em) else em_probe em),
                          em_pending := True\<rparr>;
                  queued = max_cap - target_capacity em + em_in_flight em + 1
              in send_replace event (em\<lparr>em_probe := observe_queued queued (max_cap + 2) (em_probe em)\<rparr>)
            else
              let em = em\<lparr>em_probe := observe_queued (max_cap - target_capacity em + 1) max_cap (em_probe em)\<rparr>
              in case mpsc_try_send event (em_target em) of
                   (Inr _, target) \<Rightarrow> em\<lparr>em_target := target\<rparr>
                 | (Inl ChannelFull, _) \<Rightarrow>
                     send_replace event
                       (em\<lparr>em_coalescing := True, em_pending := True,
                           em_probe := observe_queued (max_cap + 1) (max_cap + 2) (em_probe em)\<rparr>)
                 | (Inl ChannelClosed, _) \<Rightarrow> em)"

definition emitter_diagnostics :: "terminal_release_emitter \<Rightarrow> qos_queue_diagnostics" where
  "emitter_diagnostics em = probe_snapshot (mp_max (em_target em) + 2) (em_probe em)"

text \<open>The task is over: the counters it leaves.\<close>

definition emitter_finish :: "terminal_release_emitter \<Rightarrow> terminal_release_emitter" where
  "emitter_finish em = em\<lparr>em_in_flight := 0, em_worker := EmitterOver\<rparr>"

definition take_latest :: "terminal_release_emitter \<Rightarrow> terminal_release_emitter" where
  "take_latest em = em\<lparr>em_seen := em_version em, em_worker := EmitterHas (em_latest em)\<rparr>"

text \<open>One poll of the task.\<close>

definition emitter_poll :: "terminal_release_emitter \<Rightarrow> terminal_release_emitter" where
  "emitter_poll em =
     (case em_worker em of
        EmitterWaiting \<Rightarrow>
          if em_version em \<noteq> em_seen em then take_latest em
          else if \<not> em_open em then emitter_finish em else em
      | EmitterHas ev \<Rightarrow>
          (let em = em\<lparr>em_pending := False\<rparr>
           in case ev of
                None \<Rightarrow> em\<lparr>em_worker := EmitterWaiting\<rparr>
              | Some event \<Rightarrow> em\<lparr>em_in_flight := 1, em_worker := EmitterSending event False False True\<rparr>)
      | EmitterSending event permit changed latest_open \<Rightarrow>
          if mp_closed (em_target em) then emitter_finish em
          else if permit \<or> 0 < mpsc_capacity (em_target em) then
            let em = em\<lparr>em_target := (em_target em)\<lparr>mp_queue := mp_queue (em_target em) @ [event]\<rparr>,
                        em_in_flight := 0\<rparr>
            in if changed \<or> (em_open em \<and> em_version em \<noteq> em_seen em) then take_latest em
               else if \<not> latest_open then emitter_finish em
               else em\<lparr>em_worker := EmitterWaiting\<rparr>
          else if latest_open \<and> em_version em \<noteq> em_seen em
          then em\<lparr>em_seen := em_version em, em_worker := EmitterSending event permit True latest_open\<rparr>
          else if latest_open \<and> \<not> em_open em
          then em\<lparr>em_worker := EmitterSending event permit changed False\<rparr>
          else em
      | EmitterOver \<Rightarrow> em)"

text \<open>The consumer takes an event; a send that waits gets the permit that becomes free.\<close>

definition emitter_consume ::
  "terminal_release_emitter \<Rightarrow> terminal_release_event option \<times> terminal_release_emitter" where
  "emitter_consume em =
     (case mpsc_recv (em_target em) of
        (None, _) \<Rightarrow> (None, em)
      | (Some event, target) \<Rightarrow>
          (Some event,
           em\<lparr>em_target := target,
              em_worker := (case em_worker em of
                  EmitterSending ev permit changed latest_open \<Rightarrow>
                    EmitterSending ev (permit \<or> mpsc_capacity (em_target em) = 0) changed latest_open
                | w \<Rightarrow> w)\<rparr>))"

section \<open>The transport of a peer\<close>

datatype transport_send_error =
    ReliableLaneFull | TelemetryLaneFull | LaneClosed | EmergencySlotFull | UnsupportedMessage

datatype realtime_send_outcome = RealtimeSent | RealtimeDroppedLatest

record sender_epoch_state =
  se_active :: "session_epoch option"
  se_retired_through :: "session_epoch option"

definition epoch_retired :: "session_epoch \<Rightarrow> sender_epoch_state \<Rightarrow> bool" where
  "epoch_retired epoch st = (case se_retired_through st of Some r \<Rightarrow> epoch \<le> r | None \<Rightarrow> False)"

definition retire :: "session_epoch \<Rightarrow> sender_epoch_state \<Rightarrow> sender_epoch_state" where
  "retire epoch st =
     (let st = (case se_retired_through st of
                  None \<Rightarrow> st\<lparr>se_retired_through := Some epoch\<rparr>
                | Some r \<Rightarrow> if r < epoch then st\<lparr>se_retired_through := Some epoch\<rparr> else st)
      in if se_active st = Some epoch then st\<lparr>se_active := None\<rparr> else st)"

text \<open>The reliable writer between two polls, and the emergency writer.\<close>

datatype reliable_writer =
    WriterIdle
  | WriterOpening reliable_input_frame
  | WriterPreface reliable_input_frame
  | WriterWriting reliable_input_frame
  | WriterOver

datatype emergency_writer = EmergencyIdle | EmergencyWriting reliable_input_frame | EmergencyOver

record peer_transport =
  pt_auth :: peer_auth_context
  pt_connected :: bool
  pt_closed_with :: "string list"
  pt_realtime_capacity_bytes :: usize
  pt_datagram_tx_dropped :: u64
  pt_reliable :: "reliable_input_frame mpsc"
  pt_emergency :: "reliable_input_frame mpsc"
  pt_epochs :: sender_epoch_state
  pt_cancelled :: "session_epoch option"
  pt_cancel_version :: nat
  pt_emitter :: terminal_release_emitter
  pt_emergency_reserved :: bool
  pt_write_started :: u64
  pt_write_completed :: u64
  pt_realtime_probe :: queue_probe
  pt_reliable_probe :: queue_probe
  pt_emergency_probe :: queue_probe
  pt_writer :: reliable_writer
  pt_writer_seen :: nat
  pt_stream :: bool
  pt_emergency_writer :: emergency_writer

definition transport_new :: "peer_auth_context \<Rightarrow> usize \<Rightarrow> terminal_release_emitter \<Rightarrow> peer_transport" where
  "transport_new auth realtime_capacity emitter =
     \<lparr>pt_auth = auth, pt_connected = True, pt_closed_with = [],
      pt_realtime_capacity_bytes = realtime_capacity, pt_datagram_tx_dropped = 0,
      pt_reliable = mpsc_new reliable_capacity, pt_emergency = mpsc_new emergency_capacity,
      pt_epochs = \<lparr>se_active = None, se_retired_through = None\<rparr>, pt_cancelled = None,
      pt_cancel_version = 0, pt_emitter = emitter, pt_emergency_reserved = False,
      pt_write_started = 0, pt_write_completed = 0, pt_realtime_probe = probe_new,
      pt_reliable_probe = probe_new, pt_emergency_probe = probe_new, pt_writer = WriterIdle,
      pt_writer_seen = 0, pt_stream = False, pt_emergency_writer = EmergencyIdle\<rparr>"

definition is_tombstoned :: "session_epoch \<Rightarrow> peer_transport \<Rightarrow> bool" where
  "is_tombstoned epoch t = epoch_retired epoch (pt_epochs t)"

definition retire_epoch_locked :: "session_epoch \<Rightarrow> peer_transport \<Rightarrow> peer_transport" where
  "retire_epoch_locked epoch t = t\<lparr>pt_epochs := retire epoch (pt_epochs t)\<rparr>"

definition cancel_reliable_through_locked :: "session_epoch \<Rightarrow> peer_transport \<Rightarrow> peer_transport" where
  "cancel_reliable_through_locked epoch t =
     (if (case pt_cancelled t of None \<Rightarrow> True | Some c \<Rightarrow> c < epoch)
      then t\<lparr>pt_cancelled := Some epoch, pt_cancel_version := pt_cancel_version t + 1\<rparr> else t)"

definition close_connection :: "string \<Rightarrow> peer_transport \<Rightarrow> peer_transport" where
  "close_connection why t =
     (if pt_connected t then t\<lparr>pt_closed_with := pt_closed_with t @ [why]\<rparr> else t)"

definition emit_terminal :: "session_epoch \<Rightarrow> release_all_reason \<Rightarrow> peer_transport \<Rightarrow> peer_transport" where
  "emit_terminal epoch reason t =
     t\<lparr>pt_emitter := emitter_emit \<lparr>te_auth = pt_auth t, te_epoch = epoch, te_reason = reason\<rparr> (pt_emitter t)\<rparr>"

definition fail_emergency_locked :: "reliable_input_frame \<Rightarrow> peer_transport \<Rightarrow> peer_transport" where
  "fail_emergency_locked frame t =
     emit_terminal (lf_session_epoch frame)
       (case lf_event frame of ReleaseAllEvent reason \<Rightarrow> reason | _ \<Rightarrow> BackendFailure)
       (close_connection ''emergency input slot unavailable'' (retire_epoch_locked (lf_session_epoch frame) t))"

definition fail_future_emergency_locked :: "session_epoch \<Rightarrow> peer_transport \<Rightarrow> peer_transport" where
  "fail_future_emergency_locked active t =
     emit_terminal active BackendFailure
       (close_connection ''future emergency epoch mismatch''
         (cancel_reliable_through_locked active (retire_epoch_locked active t)))"

definition is_release_all :: "reliable_input_event \<Rightarrow> bool" where
  "is_release_all e = (case e of ReleaseAllEvent _ \<Rightarrow> True | _ \<Rightarrow> False)"

definition enqueue_emergency_locked ::
  "reliable_input_frame \<Rightarrow> peer_transport \<Rightarrow> (transport_send_error + unit) \<times> peer_transport" where
  "enqueue_emergency_locked frame t =
     (if \<not> is_release_all (lf_event frame) then (Inl UnsupportedMessage, t)
      else let cap = mp_max (pt_emergency t)
      in if pt_emergency_reserved t
         then (Inl EmergencySlotFull,
               fail_emergency_locked frame (t\<lparr>pt_emergency_probe := probe_overflow cap (pt_emergency_probe t)\<rparr>))
         else let t = t\<lparr>pt_emergency_reserved := True,
                       pt_emergency_probe :=
                         observe_queued (cap - mpsc_capacity (pt_emergency t) + 1) cap (pt_emergency_probe t)\<rparr>
         in case mpsc_try_send frame (pt_emergency t) of
              (Inr _, ch) \<Rightarrow> (Inr (), t\<lparr>pt_emergency := ch\<rparr>)
            | (Inl ChannelFull, _) \<Rightarrow>
                (Inl EmergencySlotFull,
                 (\<lambda>t. t\<lparr>pt_emergency_probe := probe_overflow cap (pt_emergency_probe t)\<rparr>)
                   (fail_emergency_locked frame t))
            | (Inl ChannelClosed, _) \<Rightarrow> (Inl LaneClosed, fail_emergency_locked frame t))"

definition fail_reliable_frame ::
  "reliable_input_frame \<Rightarrow> peer_transport \<Rightarrow> (transport_send_error + unit) \<times> peer_transport" where
  "fail_reliable_frame frame t =
     enqueue_emergency_locked (frame\<lparr>lf_event := ReleaseAllEvent BackendFailure\<rparr>)
       (cancel_reliable_through_locked (lf_session_epoch frame)
         (retire_epoch_locked (lf_session_epoch frame) t))"

section \<open>Sending\<close>

datatype datagram_answer = DatagramOk | DatagramConnectionLost | DatagramRefused

definition try_send_realtime ::
  "usize \<Rightarrow> datagram_answer \<Rightarrow> realtime_input_frame \<Rightarrow> peer_transport
     \<Rightarrow> (transport_send_error + realtime_send_outcome) \<times> peer_transport" where
  "try_send_realtime space answer frame t =
     (if is_tombstoned (rf_session_epoch frame) t then (Inr RealtimeDroppedLatest, t)
      else if \<not> pt_connected t then (Inr RealtimeDroppedLatest, t)
      else case realtime_encode frame of
        Inl _ \<Rightarrow> (Inl UnsupportedMessage, t)
      | Inr encoded \<Rightarrow>
          (let cap = pt_realtime_capacity_bytes t;
               t = t\<lparr>pt_realtime_probe :=
                       observe_queued (cap - space + length encoded) cap (pt_realtime_probe t)\<rparr>;
               t = (if space < length encoded
                    then t\<lparr>pt_realtime_probe := probe_overwrite (pt_realtime_probe t),
                           pt_datagram_tx_dropped := fetch_inc (pt_datagram_tx_dropped t)\<rparr>
                    else t)
           in case answer of
                DatagramOk \<Rightarrow> (Inr RealtimeSent, t)
              | DatagramConnectionLost \<Rightarrow> (Inl LaneClosed, t)
              | DatagramRefused \<Rightarrow> (Inl UnsupportedMessage, t)))"

definition enqueue_reliable_locked ::
  "reliable_input_frame \<Rightarrow> peer_transport \<Rightarrow> (transport_send_error + unit) \<times> peer_transport" where
  "enqueue_reliable_locked frame t =
     (let cap = mp_max (pt_reliable t);
          t = t\<lparr>pt_reliable_probe :=
                  observe_queued (cap - mpsc_capacity (pt_reliable t) + 1) cap (pt_reliable_probe t)\<rparr>
      in case mpsc_try_send frame (pt_reliable t) of
           (Inr _, ch) \<Rightarrow> (Inr (), t\<lparr>pt_reliable := ch\<rparr>)
         | (Inl ChannelFull, _) \<Rightarrow>
             (case fail_reliable_frame frame
                     (t\<lparr>pt_reliable_probe := probe_overflow cap (pt_reliable_probe t)\<rparr>) of
                (Inl e, t) \<Rightarrow> (Inl e, t)
              | (Inr _, t) \<Rightarrow> (Inl ReliableLaneFull, t))
         | (Inl ChannelClosed, _) \<Rightarrow> (Inl LaneClosed, snd (fail_reliable_frame frame t)))"

definition is_enter :: "reliable_input_event \<Rightarrow> bool" where
  "is_enter e = (case e of EnterEvent _ _ _ \<Rightarrow> True | _ \<Rightarrow> False)"

definition try_send_reliable_input ::
  "reliable_input_frame \<Rightarrow> peer_transport \<Rightarrow> (transport_send_error + unit) \<times> peer_transport" where
  "try_send_reliable_input frame t =
     (let epoch = lf_session_epoch frame; st = pt_epochs t
      in if is_enter (lf_event frame) then
           if se_active st \<noteq> None \<or> epoch_retired epoch st then (Inl UnsupportedMessage, t)
           else enqueue_reliable_locked frame (t\<lparr>pt_epochs := st\<lparr>se_active := Some epoch\<rparr>\<rparr>)
         else if is_release_all (lf_event frame) then
           if se_active st \<noteq> Some epoch then (Inl UnsupportedMessage, t)
           else enqueue_emergency_locked frame
                  (cancel_reliable_through_locked epoch (t\<lparr>pt_epochs := retire epoch st\<rparr>))
         else
           if se_active st \<noteq> Some epoch \<or> epoch_retired epoch st then (Inl UnsupportedMessage, t)
           else enqueue_reliable_locked frame t)"

definition try_send_emergency ::
  "reliable_input_frame \<Rightarrow> peer_transport \<Rightarrow> (transport_send_error + unit) \<times> peer_transport" where
  "try_send_emergency frame t =
     (let epoch = lf_session_epoch frame
      in if \<not> is_release_all (lf_event frame) then (Inl UnsupportedMessage, t)
         else if epoch_retired epoch (pt_epochs t) then (Inl UnsupportedMessage, t)
         else if (case se_active (pt_epochs t) of Some a \<Rightarrow> a \<noteq> epoch | None \<Rightarrow> False)
         then (Inl UnsupportedMessage, fail_future_emergency_locked (the (se_active (pt_epochs t))) t)
         else enqueue_emergency_locked frame
                (cancel_reliable_through_locked epoch (retire_epoch_locked epoch t)))"

definition try_send_telemetry ::
  "'m \<Rightarrow> 'm mpsc \<times> queue_probe \<Rightarrow> (transport_send_error + unit) \<times> 'm mpsc \<times> queue_probe" where
  "try_send_telemetry frame s =
     (let (ch, probe) = s; cap = mp_max ch;
          probe = observe_queued (cap - mpsc_capacity ch + 1) cap probe
      in case mpsc_try_send frame ch of
           (Inr _, ch) \<Rightarrow> (Inr (), ch, probe)
         | (Inl ChannelFull, _) \<Rightarrow> (Inl TelemetryLaneFull, ch, probe_overflow cap probe)
         | (Inl ChannelClosed, _) \<Rightarrow> (Inl LaneClosed, ch, probe))"

section \<open>The writers\<close>

text \<open>What the operation a writer waits for has answered when it is polled.\<close>

datatype io_answer = IoPending | IoOk | IoErr | IoConnectionClosed

datatype transport_obs =
    RealtimeResult realtime_input_frame "transport_send_error + realtime_send_outcome"
  | ReliableResult reliable_input_frame "transport_send_error + unit"
  | EmergencyResult reliable_input_frame "transport_send_error + unit"
  | WroteReliable reliable_input_frame
  | WroteEmergency reliable_input_frame
  | ResetStream
  | Released terminal_release_event

text \<open>The check of the cancellation marks the value as seen.\<close>

definition frame_cancelled :: "session_epoch \<Rightarrow> peer_transport \<Rightarrow> bool" where
  "frame_cancelled epoch t = (case pt_cancelled t of Some c \<Rightarrow> epoch \<le> c | None \<Rightarrow> False)"

definition mark_seen :: "peer_transport \<Rightarrow> peer_transport" where
  "mark_seen t = t\<lparr>pt_writer_seen := pt_cancel_version t\<rparr>"

definition fail_reliable_writer_frame :: "reliable_input_frame \<Rightarrow> peer_transport \<Rightarrow> peer_transport" where
  "fail_reliable_writer_frame frame t =
     (let t = (if se_active (pt_epochs t) = Some (lf_session_epoch frame) \<and>
                  \<not> epoch_retired (lf_session_epoch frame) (pt_epochs t)
               then snd (fail_reliable_frame frame t) else t)
      in t\<lparr>pt_writer := WriterOver\<rparr>)"

definition next_frame :: "peer_transport \<Rightarrow> peer_transport" where
  "next_frame t = t\<lparr>pt_writer := WriterIdle\<rparr>"

definition reset_cancelled_reliable_stream :: "peer_transport \<Rightarrow> transport_obs list \<times> peer_transport" where
  "reset_cancelled_reliable_stream t =
     ((if pt_stream t then [ResetStream] else []), next_frame (t\<lparr>pt_stream := False\<rparr>))"

text \<open>Encoding and the start of the write; a frame that cannot be encoded ends the writer.\<close>

definition start_write ::
  "(reliable_input_frame \<Rightarrow> byte list option) \<Rightarrow> reliable_input_frame \<Rightarrow> peer_transport
     \<Rightarrow> transport_obs list \<times> peer_transport" where
  "start_write ser frame t =
     (case reliable_encode ser frame of
        Inl _ \<Rightarrow> ([], fail_reliable_writer_frame frame t)
      | Inr _ \<Rightarrow> ([], t\<lparr>pt_write_started := fetch_inc (pt_write_started t), pt_writer := WriterWriting frame\<rparr>))"

text \<open>A frame taken from the lane.\<close>

definition writer_recv ::
  "(reliable_input_frame \<Rightarrow> byte list option) \<Rightarrow> peer_transport \<Rightarrow> transport_obs list \<times> peer_transport" where
  "writer_recv ser t =
     (case mpsc_recv (pt_reliable t) of
        (None, _) \<Rightarrow> ([], t)
      | (Some frame, ch) \<Rightarrow>
          (let t = mark_seen (t\<lparr>pt_reliable := ch\<rparr>); epoch = lf_session_epoch frame
           in if frame_cancelled epoch t then ([], t)
              else if epoch_retired epoch (pt_epochs t) then ([], t)
              else if \<not> pt_stream t then ([], t\<lparr>pt_writer := WriterOpening frame\<rparr>)
              else start_write ser frame t))"

text \<open>A cancellation not seen yet comes before the answer of the operation.\<close>

definition cancelled_now :: "session_epoch \<Rightarrow> peer_transport \<Rightarrow> bool" where
  "cancelled_now epoch t \<longleftrightarrow> pt_cancel_version t \<noteq> pt_writer_seen t \<and> frame_cancelled epoch t"

definition writer_poll ::
  "(reliable_input_frame \<Rightarrow> byte list option) \<Rightarrow> io_answer \<Rightarrow> peer_transport
     \<Rightarrow> transport_obs list \<times> peer_transport" where
  "writer_poll ser answer t =
     (case pt_writer t of
        WriterIdle \<Rightarrow> writer_recv ser t
      | WriterOpening frame \<Rightarrow>
          (let epoch = lf_session_epoch frame; now = cancelled_now epoch t; t = mark_seen t
           in if now then ([], next_frame t)
              else case answer of
                IoOk \<Rightarrow>
                  if frame_cancelled epoch t then reset_cancelled_reliable_stream (t\<lparr>pt_stream := True\<rparr>)
                  else ([], t\<lparr>pt_stream := True, pt_writer := WriterPreface frame\<rparr>)
              | IoErr \<Rightarrow>
                  if frame_cancelled epoch t then ([], next_frame t)
                  else ([], fail_reliable_writer_frame frame t)
              | _ \<Rightarrow> ([], t))
      | WriterPreface frame \<Rightarrow>
          (let epoch = lf_session_epoch frame; now = cancelled_now epoch t; t = mark_seen t
           in if now then reset_cancelled_reliable_stream t
              else case answer of
                IoOk \<Rightarrow>
                  if frame_cancelled epoch t then reset_cancelled_reliable_stream t
                  else start_write ser frame t
              | IoErr \<Rightarrow>
                  if frame_cancelled epoch t then reset_cancelled_reliable_stream t
                  else ([ResetStream], fail_reliable_writer_frame frame t)
              | _ \<Rightarrow> ([], t))
      | WriterWriting frame \<Rightarrow>
          (let epoch = lf_session_epoch frame; now = cancelled_now epoch t; t = mark_seen t
           in if now then reset_cancelled_reliable_stream t
              else case answer of
                IoOk \<Rightarrow>
                  if frame_cancelled epoch t then reset_cancelled_reliable_stream t
                  else ([WroteReliable frame],
                        next_frame (t\<lparr>pt_write_completed := fetch_inc (pt_write_completed t)\<rparr>))
              | IoErr \<Rightarrow>
                  if frame_cancelled epoch t then reset_cancelled_reliable_stream t
                  else ([ResetStream],
                        fail_reliable_writer_frame frame
                          (t\<lparr>pt_write_completed := fetch_inc (pt_write_completed t)\<rparr>))
              | IoConnectionClosed \<Rightarrow> ([], fail_reliable_writer_frame frame t)
              | IoPending \<Rightarrow> ([], t))
      | WriterOver \<Rightarrow> ([], t\<lparr>pt_reliable := mpsc_close (pt_reliable t)\<rparr>))"

text \<open>
  The emergency writer writes one frame on a stream of its own; the reservation is given back when
  that is done. A failure is the end of it.
\<close>

definition emergency_poll ::
  "(reliable_input_frame \<Rightarrow> byte list option) \<Rightarrow> io_answer \<Rightarrow> peer_transport
     \<Rightarrow> transport_obs list \<times> peer_transport" where
  "emergency_poll ser answer t =
     (case pt_emergency_writer t of
        EmergencyIdle \<Rightarrow>
          (case mpsc_recv (pt_emergency t) of
             (None, _) \<Rightarrow> ([], t)
           | (Some frame, ch) \<Rightarrow>
               ([], t\<lparr>pt_emergency := ch, pt_emergency_writer := EmergencyWriting frame\<rparr>))
      | EmergencyWriting frame \<Rightarrow>
          (if answer = IoPending then ([], t)
           else if answer = IoOk \<and> \<not> isl (reliable_encode ser frame)
           then ([WroteEmergency frame],
                 t\<lparr>pt_emergency_reserved := False, pt_emergency_writer := EmergencyIdle\<rparr>)
           else ([], (fail_emergency_locked frame t)
                       \<lparr>pt_emergency_writer := EmergencyOver,
                        pt_emergency := mpsc_close (pt_emergency t)\<rparr>))
      | EmergencyOver \<Rightarrow> ([], t))"

section \<open>The registry of connections\<close>

text \<open>A registered peer is its authentication and what else the caller keeps with it.\<close>

type_synonym 'p connection_registry = "(uuid, peer_auth_context \<times> 'p) hash_map"

definition registry_insert ::
  "uuid \<Rightarrow> peer_auth_context \<times> 'p \<Rightarrow> 'p connection_registry
     \<Rightarrow> (peer_auth_context \<times> 'p) option \<times> 'p connection_registry" where
  "registry_insert device_id peer reg = (hm_get reg device_id, hm_put device_id peer reg)"

definition registry_peer :: "uuid \<Rightarrow> 'p connection_registry \<Rightarrow> (peer_auth_context \<times> 'p) option" where
  "registry_peer device_id reg = hm_get reg device_id"

definition registry_remove_if_generation ::
  "uuid \<Rightarrow> uuid \<Rightarrow> 'p connection_registry
     \<Rightarrow> (peer_auth_context \<times> 'p) option \<times> 'p connection_registry" where
  "registry_remove_if_generation device_id connection_id reg =
     (case hm_get reg device_id of
        Some peer \<Rightarrow>
          if pa_control_connection_id (fst peer) = connection_id
          then (Some peer, hm_del device_id reg) else (None, reg)
      | None \<Rightarrow> (None, reg))"

end
