(* ===== verification/QosEmitter.thy ===== *)
theory QosEmitter
  imports QosSender "HOL-Library.Sublist"
begin

text \<open>
  The publisher of terminal releases as a machine of its own: events are emitted, the forwarding task
  is polled, the consumer takes events, and either end may go away. The events on their way form a
  line whose epochs increase; the line is what the notion of cumulative release rests on.
\<close>

datatype emitter_call =
    EmitCall terminal_release_event
  | PollCall
  | ConsumeCall
  | CloseTargetCall
  | DropEmitterCall

definition emitter_step ::
  "terminal_release_emitter \<Rightarrow> emitter_call \<Rightarrow> terminal_release_event list \<times> terminal_release_emitter" where
  "emitter_step em c =
     (case c of
        EmitCall event \<Rightarrow> ([], if em_open em then emitter_emit event em else em)
      | PollCall \<Rightarrow> ([], emitter_poll em)
      | ConsumeCall \<Rightarrow>
          (case emitter_consume em of (Some event, em) \<Rightarrow> ([event], em) | (None, em) \<Rightarrow> ([], em))
      | CloseTargetCall \<Rightarrow> ([], em\<lparr>em_target := mpsc_close (em_target em)\<rparr>)
      | DropEmitterCall \<Rightarrow> ([], em\<lparr>em_open := False\<rparr>))"

text \<open>The events not delivered yet, in the order in which they will be.\<close>

definition in_hand :: "terminal_release_emitter \<Rightarrow> terminal_release_event list" where
  "in_hand em =
     (case em_worker em of
        EmitterHas (Some event) \<Rightarrow> [event] | EmitterSending event _ _ _ \<Rightarrow> [event] | _ \<Rightarrow> [])"

definition saw_newer :: "emitter_worker \<Rightarrow> bool" where
  "saw_newer w = (case w of EmitterSending _ _ changed _ \<Rightarrow> changed | _ \<Rightarrow> False)"

definition newer :: "terminal_release_emitter \<Rightarrow> terminal_release_event list" where
  "newer em =
     (if em_version em \<noteq> em_seen em \<or> saw_newer (em_worker em)
      then (case em_latest em of Some event \<Rightarrow> [event] | None \<Rightarrow> []) else [])"

definition line :: "terminal_release_emitter \<Rightarrow> terminal_release_event list" where
  "line em = mp_queue (em_target em) @ in_hand em @ newer em"

text \<open>No change is left to see and none will come.\<close>

definition run_dry :: "terminal_release_emitter \<Rightarrow> bool" where
  "run_dry em \<longleftrightarrow> \<not> em_open em \<and> em_version em = em_seen em"

definition worker_ok :: "terminal_release_emitter \<Rightarrow> bool" where
  "worker_ok em =
     (case em_worker em of
        EmitterWaiting \<Rightarrow> True
      | EmitterHas ev \<Rightarrow> ev \<noteq> None \<and> em_coalescing em
      | EmitterSending _ _ changed latest_open \<Rightarrow>
          em_coalescing em \<and> (changed \<longrightarrow> em_version em \<noteq> 0) \<and> (latest_open \<or> run_dry em)
      | EmitterOver \<Rightarrow> mp_closed (em_target em) \<or> run_dry em)"

definition emitter_ok :: "terminal_release_emitter \<Rightarrow> bool" where
  "emitter_ok em \<longleftrightarrow>
     em_seen em \<le> em_version em \<and>
     (em_version em = 0 \<or> em_latest em \<noteq> None \<and> em_coalescing em) \<and>
     worker_ok em \<and>
     (\<forall>ev\<in>set (line em). em_auth em = Some (te_auth ev))"

lemmas line_defs = line_def in_hand_def newer_def saw_newer_def
lemma worker_ok_auth [simp]: "worker_ok (em\<lparr>em_auth := a\<rparr>) = worker_ok em"
  by (cases "em_worker em") (simp_all add: worker_ok_def run_dry_def)

lemmas emitter_ok_defs = emitter_ok_def worker_ok_def run_dry_def

text \<open>
  What was delivered and the line: the epochs increase, none is above the highest one accepted, and as
  long as the consumer is there the last one is the highest.
\<close>

definition in_order :: "terminal_release_event list \<Rightarrow> terminal_release_emitter \<Rightarrow> bool" where
  "in_order delivered em \<longleftrightarrow>
     sorted_wrt (<) (map te_epoch (delivered @ line em)) \<and>
     (\<forall>ev\<in>set (delivered @ line em). \<exists>h. em_highest em = Some h \<and> te_epoch ev \<le> h) \<and>
     (\<forall>h. em_highest em = Some h \<longrightarrow> \<not> mp_closed (em_target em) \<longrightarrow>
        delivered @ line em \<noteq> [] \<and> te_epoch (last (delivered @ line em)) = h)"

lemma in_order_same:
  "in_order delivered em \<Longrightarrow> delivered' @ line em' = delivered @ line em \<Longrightarrow> em_highest em' = em_highest em \<Longrightarrow>
     mp_closed (em_target em') = mp_closed (em_target em) \<Longrightarrow> in_order delivered' em'"
  unfolding in_order_def by simp

lemma in_order_newest:
  assumes "in_order delivered em" and "\<forall>h. em_highest em = Some h \<longrightarrow> h < te_epoch ev"
    and "em_highest em' = Some (te_epoch ev)" and "line em' = part @ [ev]" and "\<exists>rest. line em = part @ rest"
  shows "in_order delivered em'"
proof -
  obtain rest where rest: "line em = part @ rest" using assms(5) by blast
  have "te_epoch x < te_epoch ev" if "x \<in> set (delivered @ part)" for x
  proof -
    have "x \<in> set (delivered @ line em)" using that unfolding rest by auto
    then obtain h where "em_highest em = Some h" "te_epoch x \<le> h" using assms(1) unfolding in_order_def by blast
    then show ?thesis using assms(2) by fastforce
  qed
  then show ?thesis
    using assms(1,3,4) unfolding in_order_def rest by (auto simp: sorted_wrt_append less_imp_le)
qed

lemma subseq_set: "subseq xs ys \<Longrightarrow> set xs \<subseteq> set ys"
  by (induction rule: list_emb.induct) auto

lemma sorted_wrt_subseq: "subseq xs ys \<Longrightarrow> sorted_wrt P ys \<Longrightarrow> sorted_wrt P xs"
  by (induction rule: list_emb.induct) (auto dest: subseq_set)

lemma in_order_closed:
  assumes "in_order delivered em" and "mp_closed (em_target em')" and "em_highest em' = em_highest em"
    and sub: "subseq (line em') (line em)"
  shows "in_order delivered em'"
proof -
  have "subseq (map te_epoch (delivered @ line em')) (map te_epoch (delivered @ line em))"
    using sub by (intro subseq_map) (simp add: subseq_append')
  moreover have "set (line em') \<subseteq> set (line em)" by (rule subseq_set [OF sub])
  ultimately show ?thesis
    using assms(1-3) sorted_wrt_subseq unfolding in_order_def by (auto; blast)
qed

text \<open>An event that is accepted: it replaces the latest value, or goes to the consumer directly.\<close>

definition accepts :: "terminal_release_event \<Rightarrow> terminal_release_emitter \<Rightarrow> bool" where
  "accepts ev em \<longleftrightarrow>
     (\<forall>a. em_auth em = Some a \<longrightarrow> a = te_auth ev) \<and> (\<forall>h. em_highest em = Some h \<longrightarrow> h < te_epoch ev)"

lemma emitter_emit_refused:
  "\<not> accepts ev em \<Longrightarrow>
     emitter_emit ev em = em\<lparr>em_auth := Some (case em_auth em of Some a \<Rightarrow> a | None \<Rightarrow> te_auth ev)\<rparr>"
  by (cases "em_auth em"; cases "em_highest em") (auto simp: accepts_def emitter_emit_def Let_def)

definition accepted_by :: "terminal_release_event \<Rightarrow> terminal_release_emitter \<Rightarrow> terminal_release_emitter" where
  "accepted_by ev em = em\<lparr>em_auth := Some (te_auth ev), em_highest := Some (te_epoch ev)\<rparr>"

lemma emitter_emit_accepted:
  "accepts ev em \<Longrightarrow> emitter_emit ev em =
     (let em = accepted_by ev em; max_cap = mp_max (em_target em)
      in if em_coalescing em then
           let em = em\<lparr>em_probe := (if em_pending em then probe_overwrite (em_probe em) else em_probe em),
                       em_pending := True\<rparr>;
               queued = max_cap - target_capacity em + em_in_flight em + 1
           in send_replace ev (em\<lparr>em_probe := observe_queued queued (max_cap + 2) (em_probe em)\<rparr>)
         else
           let em = em\<lparr>em_probe := observe_queued (max_cap - target_capacity em + 1) max_cap (em_probe em)\<rparr>
           in case mpsc_try_send ev (em_target em) of
                (Inr _, target) \<Rightarrow> em\<lparr>em_target := target\<rparr>
              | (Inl ChannelFull, _) \<Rightarrow>
                  send_replace ev
                    (em\<lparr>em_coalescing := True, em_pending := True,
                        em_probe := observe_queued (max_cap + 1) (max_cap + 2) (em_probe em)\<rparr>)
              | (Inl ChannelClosed, _) \<Rightarrow> em)"
  by (cases "em_auth em"; cases "em_highest em")
    (auto simp: accepts_def accepted_by_def emitter_emit_def Let_def target_capacity_def mpsc_try_send_def)

text \<open>The fields of the result, the counters aside.\<close>

lemma emitter_emit_fields:
  assumes "accepts ev em"
  defines "direct \<equiv> \<not> em_coalescing em \<and> \<not> mp_closed (em_target em) \<and> 0 < mpsc_capacity (em_target em)"
    and "gone \<equiv> \<not> em_coalescing em \<and> mp_closed (em_target em)"
  shows "em_target (emitter_emit ev em) =
           (if direct then (em_target em)\<lparr>mp_queue := mp_queue (em_target em) @ [ev]\<rparr> else em_target em)"
    and "em_latest (emitter_emit ev em) = (if direct \<or> gone then em_latest em else Some ev)"
    and "em_version (emitter_emit ev em) = (if direct \<or> gone then em_version em else em_version em + 1)"
    and "em_coalescing (emitter_emit ev em) = (if direct \<or> gone then em_coalescing em else True)"
    and "em_seen (emitter_emit ev em) = em_seen em" and "em_open (emitter_emit ev em) = em_open em"
    and "em_worker (emitter_emit ev em) = em_worker em"
    and "em_auth (emitter_emit ev em) = Some (te_auth ev)"
    and "em_highest (emitter_emit ev em) = Some (te_epoch ev)"
  unfolding emitter_emit_accepted [OF assms(1)] Let_def direct_def gone_def
  by (simp_all add: accepted_by_def mpsc_try_send_def send_replace_def)

lemma emitter_emit_step:
  assumes "emitter_ok em" and "em_open em"
  shows "emitter_ok (emitter_emit ev em) \<and> (in_order delivered em \<longrightarrow> in_order delivered (emitter_emit ev em))"
proof (cases "accepts ev em")
  case False
  let ?a = "case em_auth em of Some a \<Rightarrow> a | None \<Rightarrow> te_auth ev"
  have line: "line (em\<lparr>em_auth := a\<rparr>) = line em" for a by (simp add: line_def in_hand_def newer_def)
  have "in_order delivered (em\<lparr>em_auth := a\<rparr>) = in_order delivered em" for a
    unfolding in_order_def line by simp
  moreover have "emitter_ok (em\<lparr>em_auth := Some ?a\<rparr>)"
    using assms(1) unfolding emitter_ok_def line by (auto split: option.splits)
  ultimately show ?thesis unfolding emitter_emit_refused [OF False] by simp
next
  case True
  then have new: "\<forall>h. em_highest em = Some h \<longrightarrow> h < te_epoch ev" and
    auth: "\<forall>x\<in>set (line em). te_auth x = te_auth ev"
    using assms(1) by (auto simp: accepts_def emitter_ok_def)
  note fields = emitter_emit_fields [OF True]
  let ?em = "emitter_emit ev em"
  show ?thesis
  proof (cases "em_coalescing em")
    case coalescing: True
    have same: "em_target ?em = em_target em" "em_latest ?em = Some ev" "em_version ?em = em_version em + 1"
      "em_coalescing ?em = True" using coalescing fields by simp_all
    have "em_seen em \<le> em_version em" using assms(1) unfolding emitter_ok_def by blast
    then have line2: "line ?em = (mp_queue (em_target em) @ in_hand em) @ [ev]"
      using same fields(5,7) by (simp add: line_def in_hand_def newer_def)
    have "worker_ok ?em"
      using assms unfolding emitter_ok_defs same fields(5-7) by (auto split: emitter_worker.split)
    then have "emitter_ok ?em"
      using auth \<open>em_seen em \<le> em_version em\<close> unfolding emitter_ok_def line2 same fields(5-8)
      by (auto simp: line_def)
    moreover have "in_order delivered ?em" if "in_order delivered em"
      by (rule in_order_newest [OF that new _ line2]) (simp_all add: fields line_def)
    ultimately show ?thesis by blast
  next
    case direct: False
    then have idle: "em_version em = 0" "em_seen em = 0" "em_worker em = EmitterWaiting \<or> em_worker em = EmitterOver"
      using assms(1) unfolding emitter_ok_defs by (auto split: emitter_worker.splits)
    have hand: "in_hand em = []" using idle(3) by (auto simp: in_hand_def)
    have none: "newer em = []" using idle by (auto simp: newer_def saw_newer_def)
    have line0: "line em = mp_queue (em_target em)"
      unfolding line_def hand none by simp
    have line2: "line ?em = mp_queue (em_target em) @ (if mp_closed (em_target em) then [] else [ev])"
      using idle direct unfolding line_defs fields by auto
    have highest: "em_highest ?em = Some (te_epoch ev)" "mp_closed (em_target ?em) = mp_closed (em_target em)"
      using fields by simp_all
    have "worker_ok ?em"
      using assms idle(3) direct unfolding emitter_ok_defs fields by auto
    then have "emitter_ok ?em"
      using auth idle(1,2) direct unfolding emitter_ok_def line2 line0 fields by auto
    moreover have "in_order delivered ?em" if "in_order delivered em"
    proof (cases "mp_closed (em_target em)")
      case closed: True
      have "\<exists>h. Some (te_epoch ev) = Some h \<and> te_epoch x \<le> h" if "x \<in> set (delivered @ line em)" for x
        using \<open>in_order delivered em\<close> that new unfolding in_order_def by fastforce
      then show ?thesis
        using that closed highest line2 line0 unfolding in_order_def by auto
    next
      case False
      then show ?thesis
        by (intro in_order_newest [OF that new highest(1), of "mp_queue (em_target em)"])
          (simp_all add: line0 line2)
    qed
    ultimately show ?thesis by blast
  qed
qed

text \<open>A poll that does not end the task keeps the line as it is.\<close>

lemma emitter_poll_line:
  assumes "emitter_ok em"
  shows "(line (emitter_poll em) = line em \<or>
            mp_closed (em_target em) \<and> subseq (line (emitter_poll em)) (line em)) \<and>
         mp_closed (em_target (emitter_poll em)) = mp_closed (em_target em) \<and>
         em_highest (emitter_poll em) = em_highest em \<and> em_auth (emitter_poll em) = em_auth em"
proof (cases "em_worker em")
  case EmitterWaiting
  have "em_latest em \<noteq> None" if "em_version em \<noteq> em_seen em"
    using assms that unfolding emitter_ok_def by auto
  then show ?thesis
    using EmitterWaiting
    by (cases "em_version em = em_seen em")
      (auto simp: emitter_poll_def take_latest_def emitter_finish_def line_defs)
next
  case (EmitterHas x2)
  then obtain ev where "x2 = Some ev" using assms by (auto simp: emitter_ok_defs)
  then show ?thesis
    using EmitterHas by (simp add: emitter_poll_def line_defs)
next
  case (EmitterSending ev permit changed latest_open)
  show ?thesis
  proof (cases "mp_closed (em_target em)")
    case True
    have run: "emitter_poll em = emitter_finish em" using EmitterSending True by (simp add: emitter_poll_def)
    have "subseq (line (emitter_finish em)) (line em)"
      using EmitterSending by (auto simp: emitter_finish_def line_defs intro!: list_emb_append_mono)
    then show ?thesis using True unfolding run by (simp add: emitter_finish_def)
  next
    case False
    have "em_latest em \<noteq> None" if "changed \<or> em_version em \<noteq> em_seen em"
      using assms that EmitterSending unfolding emitter_ok_defs by auto
    moreover have "run_dry em" if "\<not> latest_open"
      using assms that EmitterSending unfolding emitter_ok_def worker_ok_def by simp
    ultimately show ?thesis
      using EmitterSending False
      by (cases changed; cases latest_open; cases "em_version em = em_seen em")
        (auto simp: emitter_poll_def emitter_finish_def take_latest_def line_defs run_dry_def Let_def)
  qed
next
  case EmitterOver
  then show ?thesis by (simp add: emitter_poll_def)
qed

lemma emitter_poll_step:
  assumes "emitter_ok em"
  shows "emitter_ok (emitter_poll em) \<and> (in_order delivered em \<longrightarrow> in_order delivered (emitter_poll em))"
proof
  note keeps = emitter_poll_line [OF assms]
  have "set (line (emitter_poll em)) \<subseteq> set (line em)" using keeps by (auto dest: subseq_set)
  moreover have "worker_ok (emitter_poll em) \<and> em_seen (emitter_poll em) \<le> em_version (emitter_poll em) \<and>
      (em_version (emitter_poll em) = 0 \<or>
         em_latest (emitter_poll em) \<noteq> None \<and> em_coalescing (emitter_poll em))"
    using assms
    by (cases "em_worker em")
      (auto simp: emitter_ok_defs emitter_poll_def take_latest_def emitter_finish_def Let_def split: option.split)
  ultimately show "emitter_ok (emitter_poll em)"
    using assms keeps unfolding emitter_ok_def by auto
  show "in_order delivered em \<longrightarrow> in_order delivered (emitter_poll em)"
    using keeps in_order_same [of delivered em delivered "emitter_poll em"]
      in_order_closed [of delivered em "emitter_poll em"] by metis
qed

text \<open>What the consumer takes is the head of the line.\<close>

lemma emitter_consume_step:
  assumes "emitter_ok em" and "emitter_consume em = (Some ev, em')"
  shows "emitter_ok em' \<and> (in_order delivered em \<longrightarrow> in_order (delivered @ [ev]) em')"
proof -
  have line: "line em = ev # line em'" and rest: "em_highest em' = em_highest em" "em_auth em' = em_auth em"
    "mp_closed (em_target em') = mp_closed (em_target em)" "em_seen em' = em_seen em" "em_version em' = em_version em"
    "em_latest em' = em_latest em" "em_coalescing em' = em_coalescing em"
    using assms(2) unfolding emitter_consume_def mpsc_recv_def
    by (auto simp: line_defs split: list.splits emitter_worker.splits)
  have "worker_ok em'"
    using assms unfolding emitter_consume_def mpsc_recv_def emitter_ok_def
    by (cases "em_worker em") (auto simp: worker_ok_def run_dry_def split: list.splits)
  then have "emitter_ok em'" using assms(1) unfolding emitter_ok_def rest line by auto
  then show ?thesis
    using in_order_same [of delivered em "delivered @ [ev]" em'] line rest by auto
qed

text \<open>The consumer goes away with what is queued; the publisher goes away.\<close>

lemma close_target_step:
  assumes "emitter_ok em"
  defines "em' \<equiv> em\<lparr>em_target := mpsc_close (em_target em)\<rparr>"
  shows "emitter_ok em' \<and> (in_order delivered em \<longrightarrow> in_order delivered em')"
proof -
  have "subseq (line em') (line em)"
    unfolding em'_def line_def in_hand_def newer_def mpsc_close_def by (simp add: subseq_drop_many)
  moreover from this have "set (line em') \<subseteq> set (line em)" by (auto dest: subseq_set)
  moreover have "worker_ok em'"
    using assms(1) unfolding em'_def emitter_ok_defs
    by (cases "em_worker em") (auto simp: mpsc_close_def)
  ultimately show ?thesis
    using assms(1) in_order_closed [of delivered em em'] unfolding em'_def emitter_ok_def
    by (auto simp: mpsc_close_def)
qed

lemma drop_emitter_step:
  assumes "emitter_ok em"
  shows "emitter_ok (em\<lparr>em_open := False\<rparr>) \<and>
    (in_order delivered em \<longrightarrow> in_order delivered (em\<lparr>em_open := False\<rparr>))"
proof -
  have line: "line (em\<lparr>em_open := False\<rparr>) = line em" by (simp add: line_defs)
  have "worker_ok (em\<lparr>em_open := False\<rparr>)"
    using assms by (cases "em_worker em") (auto simp: emitter_ok_defs)
  then show ?thesis
    using assms unfolding emitter_ok_def in_order_def line by simp
qed

definition carries_on ::
  "terminal_release_emitter \<Rightarrow> terminal_release_event list \<Rightarrow> terminal_release_emitter \<Rightarrow> bool" where
  "carries_on em os em' \<longleftrightarrow> (\<forall>delivered. in_order delivered em \<longrightarrow> in_order (delivered @ os) em')"

lemma emitter_step_ok:
  assumes "emitter_ok em"
  shows "emitter_ok (snd (emitter_step em c)) \<and> carries_on em (fst (emitter_step em c)) (snd (emitter_step em c))"
  unfolding carries_on_def
proof (cases c)
  case (EmitCall ev)
  then show "emitter_ok (snd (emitter_step em c)) \<and> (\<forall>delivered. in_order delivered em \<longrightarrow>
      in_order (delivered @ fst (emitter_step em c)) (snd (emitter_step em c)))"
    using assms emitter_emit_step [OF assms] by (auto simp: emitter_step_def)
next
  case PollCall
  then show "emitter_ok (snd (emitter_step em c)) \<and> (\<forall>delivered. in_order delivered em \<longrightarrow>
      in_order (delivered @ fst (emitter_step em c)) (snd (emitter_step em c)))"
    using emitter_poll_step [OF assms] by (auto simp: emitter_step_def)
next
  case ConsumeCall
  show "emitter_ok (snd (emitter_step em c)) \<and> (\<forall>delivered. in_order delivered em \<longrightarrow>
      in_order (delivered @ fst (emitter_step em c)) (snd (emitter_step em c)))"
  proof (cases "emitter_consume em")
    case (Pair got em')
    then show ?thesis
    proof (cases got)
      case None
      then have "em' = em" using Pair by (auto simp: emitter_consume_def split: prod.splits option.splits)
      then show ?thesis using ConsumeCall None Pair assms by (simp add: emitter_step_def)
    next
      case (Some ev)
      then show ?thesis
        using ConsumeCall Pair emitter_consume_step [OF assms] by (simp add: emitter_step_def)
    qed
  qed
next
  case CloseTargetCall
  then show "emitter_ok (snd (emitter_step em c)) \<and> (\<forall>delivered. in_order delivered em \<longrightarrow>
      in_order (delivered @ fst (emitter_step em c)) (snd (emitter_step em c)))"
    using close_target_step [OF assms] by (auto simp: emitter_step_def)
next
  case DropEmitterCall
  then show "emitter_ok (snd (emitter_step em c)) \<and> (\<forall>delivered. in_order delivered em \<longrightarrow>
      in_order (delivered @ fst (emitter_step em c)) (snd (emitter_step em c)))"
    using drop_emitter_step [OF assms] by (auto simp: emitter_step_def)
qed

interpretation publisher: emitting_machine emitter_step emitter_ok "\<lambda>_. True" carries_on
proof unfold_locales
  show "emitter_ok (snd (emitter_step em c))" if "emitter_ok em" for em c
    using emitter_step_ok [OF that] by blast
  show "carries_on em (fst (emitter_step em c)) (snd (emitter_step em c))" if "emitter_ok em" for em c
    using emitter_step_ok [OF that] by blast
qed (auto simp: carries_on_def)

lemma emitter_new_ok:
  "emitter_ok (emitter_new (mpsc_new n)) \<and> in_order [] (emitter_new (mpsc_new n))"
  by (simp add: emitter_ok_defs in_order_def line_defs emitter_new_def mpsc_new_def)

text \<open>
  C36. The consumer of terminal releases sees strictly increasing epochs, whatever is emitted and
  however the forwarding task, the consumer and the ends of the channel are scheduled. Once the
  queue is empty, the task waits with nothing new to see and the consumer is still there, the last
  epoch it took is the highest one published: coalescing skips notifications, never the high water.
\<close>

theorem terminal_releases_cumulative:
  assumes "run emitter_step (emitter_new (mpsc_new n)) calls = (taken, em)"
  shows "sorted_wrt (<) (map te_epoch taken) \<and>
    (mp_queue (em_target em) = [] \<longrightarrow> em_worker em = EmitterWaiting \<longrightarrow> em_version em = em_seen em \<longrightarrow>
     \<not> mp_closed (em_target em) \<longrightarrow>
     em_highest em = (if taken = [] then None else Some (te_epoch (last taken))))"
proof -
  have "carries_on (emitter_new (mpsc_new n)) taken em"
    using publisher.run_rel [of "emitter_new (mpsc_new n)" calls] emitter_new_ok assms by simp
  then have order: "in_order taken em"
    using emitter_new_ok unfolding carries_on_def by fastforce
  moreover have "line em = []" if "mp_queue (em_target em) = []" "em_worker em = EmitterWaiting" "em_version em = em_seen em"
    using that by (simp add: line_defs)
  ultimately show ?thesis
    unfolding in_order_def by (cases "em_highest em") (auto simp: sorted_wrt_append)
qed

text \<open>Three releases over a channel of one place: the second waits for room and the third overwrites it.\<close>

definition some_release :: "session_epoch \<Rightarrow> terminal_release_event" where
  "some_release e =
     \<lparr>te_auth = \<lparr>pa_peer_id = 1, pa_certificate_fingerprint = ''fp'', pa_control_connection_id = 2\<rparr>,
      te_epoch = e, te_reason = BackendFailure\<rparr>"

definition some_calls :: "emitter_call list" where
  "some_calls =
     [EmitCall (some_release 1), EmitCall (some_release 2), EmitCall (some_release 3), PollCall, PollCall,
      ConsumeCall, PollCall, ConsumeCall]"

lemma terminal_releases_cumulative_witness:
  "map te_epoch (fst (run emitter_step (emitter_new (mpsc_new 1)) some_calls)) = [1, 3] \<and>
   em_highest (snd (run emitter_step (emitter_new (mpsc_new 1)) some_calls)) = Some 3"
proof -
  let ?r = "run emitter_step (emitter_new (mpsc_new 1)) some_calls"
  have run: "map te_epoch (fst ?r) = [1, 3]" "mp_queue (em_target (snd ?r)) = []"
    "em_worker (snd ?r) = EmitterWaiting" "em_version (snd ?r) = em_seen (snd ?r)" "\<not> mp_closed (em_target (snd ?r))"
    by (simp_all add: some_calls_def some_release_def emitter_step_def emitter_emit_def emitter_poll_def
        emitter_consume_def emitter_new_def mpsc_new_def mpsc_try_send_def mpsc_recv_def mpsc_capacity_def
        target_capacity_def send_replace_def take_latest_def emitter_finish_def probe_overwrite_def
        observe_queued_def probe_new_def fetch_inc_def Let_def)
  have "em_highest (snd ?r) = (if fst ?r = [] then None else Some (te_epoch (last (fst ?r))))"
    using terminal_releases_cumulative [of 1 some_calls "fst ?r" "snd ?r"] run(2-5) by simp
  moreover have "te_epoch (last (fst ?r)) = last (map te_epoch (fst ?r))" using run(1) by (cases "fst ?r") (auto simp: last_map)
  ultimately show ?thesis using run(1) by auto
qed

end
