(* ===== verification/QosSpec.thy ===== *)
theory QosSpec
  imports QosEmitter
begin

text \<open>
  The transport as a machine of its producer calls and the polls of its tasks, and what it promises:
  a retired epoch is fenced off, its release is never lost, and the reliable lane keeps the order.
\<close>

datatype transport_call =
    RealtimeCall usize datagram_answer realtime_input_frame
  | ReliableCall reliable_input_frame
  | EmergencyCall reliable_input_frame
  | WriterCall io_answer
  | EmergencyWriterCall io_answer
  | ReleaseTaskCall
  | ReleaseConsumeCall

definition transport_step ::
  "(reliable_input_frame \<Rightarrow> byte list option) \<Rightarrow> peer_transport \<Rightarrow> transport_call
     \<Rightarrow> transport_obs list \<times> peer_transport" where
  "transport_step ser t c =
     (case c of
        RealtimeCall space answer frame \<Rightarrow>
          (case try_send_realtime space answer frame t of (r, t) \<Rightarrow> ([RealtimeResult frame r], t))
      | ReliableCall frame \<Rightarrow>
          (case try_send_reliable_input frame t of (r, t) \<Rightarrow> ([ReliableResult frame r], t))
      | EmergencyCall frame \<Rightarrow>
          (case try_send_emergency frame t of (r, t) \<Rightarrow> ([EmergencyResult frame r], t))
      | WriterCall answer \<Rightarrow> writer_poll ser answer t
      | EmergencyWriterCall answer \<Rightarrow> emergency_poll ser answer t
      | ReleaseTaskCall \<Rightarrow> ([], t\<lparr>pt_emitter := emitter_poll (pt_emitter t)\<rparr>)
      | ReleaseConsumeCall \<Rightarrow>
          (case emitter_consume (pt_emitter t) of
             (Some event, em) \<Rightarrow> ([Released event], t\<lparr>pt_emitter := em\<rparr>)
           | (None, em) \<Rightarrow> ([], t\<lparr>pt_emitter := em\<rparr>)))"

section \<open>The invariant\<close>

text \<open>The one emergency frame on its way, if there is one.\<close>

definition emergency_frames :: "peer_transport \<Rightarrow> reliable_input_frame list" where
  "emergency_frames t =
     (case pt_emergency_writer t of EmergencyWriting frame \<Rightarrow> [frame] | _ \<Rightarrow> []) @ mp_queue (pt_emergency t)"

definition slot_ok :: "peer_transport \<Rightarrow> bool" where
  "slot_ok t \<longleftrightarrow>
     mp_max (pt_emergency t) = 1 \<and>
     length (emergency_frames t) \<le> 1 \<and>
     (pt_emergency_reserved t \<longleftrightarrow> emergency_frames t \<noteq> [] \<or> pt_emergency_writer t = EmergencyOver) \<and>
     (mp_closed (pt_emergency t) \<longleftrightarrow> pt_emergency_writer t = EmergencyOver) \<and>
     (\<forall>f\<in>set (emergency_frames t). is_release_all (lf_event f) \<and> is_tombstoned (lf_session_epoch f) t)"

definition epochs_ok :: "peer_transport \<Rightarrow> bool" where
  "epochs_ok t \<longleftrightarrow>
     pt_cancelled t = se_retired_through (pt_epochs t) \<and>
     (\<forall>a. se_active (pt_epochs t) = Some a \<longrightarrow> \<not> is_tombstoned a t)"

definition release_ok :: "peer_transport \<Rightarrow> bool" where
  "release_ok t \<longleftrightarrow>
     emitter_ok (pt_emitter t) \<and> em_open (pt_emitter t) \<and> em_auth (pt_emitter t) \<in> {None, Some (pt_auth t)}"

definition transport_ok :: "peer_transport \<Rightarrow> bool" where
  "transport_ok t \<longleftrightarrow> slot_ok t \<and> epochs_ok t \<and> release_ok t"

text \<open>A release through the epoch or a later one is on its way, was written, or was published.\<close>

definition covers :: "transport_obs list \<Rightarrow> peer_transport \<Rightarrow> session_epoch \<Rightarrow> bool" where
  "covers os t e \<longleftrightarrow>
     (\<exists>f. (f \<in> set (emergency_frames t) \<or> WroteEmergency f \<in> set os) \<and> is_release_all (lf_event f) \<and>
          e \<le> lf_session_epoch f) \<or>
     (\<exists>h. em_highest (pt_emitter t) = Some h \<and> e \<le> h)"

text \<open>What the steps that retire and release leave alone, and what they only add to.\<close>

definition settles :: "peer_transport \<Rightarrow> peer_transport \<Rightarrow> bool" where
  "settles t t' \<longleftrightarrow>
     pt_reliable t' = pt_reliable t \<and> pt_writer t' = pt_writer t \<and>
     carries_on (pt_emitter t) [] (pt_emitter t') \<and>
     (\<forall>e. is_tombstoned e t \<longrightarrow> is_tombstoned e t') \<and>
     (\<forall>os e. covers os t e \<longrightarrow> covers os t' e)"

lemma settles_refl [simp]: "settles t t"
  by (simp add: settles_def carries_on_def)

lemma settles_trans [trans]: "settles t t' \<Longrightarrow> settles t' t'' \<Longrightarrow> settles t t''"
  unfolding settles_def carries_on_def by simp

section \<open>Retiring and releasing\<close>

lemma tombstoned_mono: "is_tombstoned e t \<Longrightarrow> d \<le> e \<Longrightarrow> is_tombstoned d t"
  by (auto simp: is_tombstoned_def epoch_retired_def split: option.splits)

abbreviation retire_both :: "session_epoch \<Rightarrow> peer_transport \<Rightarrow> peer_transport" where
  "retire_both e t \<equiv> cancel_reliable_through_locked e (retire_epoch_locked e t)"

lemmas retire_defs = cancel_reliable_through_locked_def retire_epoch_locked_def retire_def

lemma retire_both_fields [simp]:
  "pt_auth (retire_both e t) = pt_auth t" "pt_emitter (retire_both e t) = pt_emitter t"
  "pt_emergency (retire_both e t) = pt_emergency t" "pt_reliable (retire_both e t) = pt_reliable t"
  "pt_emergency_writer (retire_both e t) = pt_emergency_writer t" "pt_writer (retire_both e t) = pt_writer t"
  "pt_emergency_reserved (retire_both e t) = pt_emergency_reserved t"
  "emergency_frames (retire_both e t) = emergency_frames t"
  by (simp_all add: retire_defs emergency_frames_def)

lemma retire_both_tombstones: "is_tombstoned d (retire_both e t) \<longleftrightarrow> is_tombstoned d t \<or> d \<le> e"
  by (auto simp: retire_defs is_tombstoned_def epoch_retired_def Let_def split: option.splits)

lemma retire_both_active:
  "se_active (pt_epochs (retire_both e t)) =
     (if se_active (pt_epochs t) = Some e then None else se_active (pt_epochs t))"
  by (auto simp: retire_defs Let_def split: option.splits)

lemma retire_both_cancelled:
  "pt_cancelled t = se_retired_through (pt_epochs t) \<Longrightarrow>
     pt_cancelled (retire_both e t) = se_retired_through (pt_epochs (retire_both e t))"
  by (auto simp: retire_defs Let_def split: option.splits)

lemma retire_both_ok:
  assumes "transport_ok t" and "se_active (pt_epochs t) \<in> {None, Some e}"
  shows "transport_ok (retire_both e t)" and "settles t (retire_both e t)"
proof -
  have "epochs_ok (retire_both e t)"
    using assms retire_both_cancelled [of t e]
    unfolding transport_ok_def epochs_ok_def retire_both_active by auto
  then show "transport_ok (retire_both e t)"
    using assms(1) unfolding transport_ok_def slot_ok_def release_ok_def
    by (auto simp: retire_both_tombstones)
  show "settles t (retire_both e t)"
    by (simp add: settles_def carries_on_def covers_def retire_both_tombstones)
qed

lemma retire_again:
  assumes "transport_ok t" and "is_tombstoned e t"
  shows "retire_epoch_locked e t = t"
  using assms
  by (auto simp: retire_epoch_locked_def retire_def transport_ok_def epochs_ok_def is_tombstoned_def
      epoch_retired_def Let_def split: option.splits)

lemma close_connection_fields [simp]:
  "pt_auth (close_connection w t) = pt_auth t" "pt_emitter (close_connection w t) = pt_emitter t"
  "pt_emergency (close_connection w t) = pt_emergency t" "pt_reliable (close_connection w t) = pt_reliable t"
  "pt_emergency_writer (close_connection w t) = pt_emergency_writer t"
  "pt_writer (close_connection w t) = pt_writer t" "pt_epochs (close_connection w t) = pt_epochs t"
  "pt_emergency_reserved (close_connection w t) = pt_emergency_reserved t"
  "pt_cancelled (close_connection w t) = pt_cancelled t"
  by (simp_all add: close_connection_def)

text \<open>Only these fields matter to the invariant.\<close>

lemma same_fields:
  assumes "pt_auth t' = pt_auth t" "pt_emergency t' = pt_emergency t" "pt_epochs t' = pt_epochs t"
    "pt_emergency_writer t' = pt_emergency_writer t" "pt_cancelled t' = pt_cancelled t"
    "pt_emergency_reserved t' = pt_emergency_reserved t"
  shows "emergency_frames t' = emergency_frames t" and "is_tombstoned e t' = is_tombstoned e t"
    and "slot_ok t' = slot_ok t" and "epochs_ok t' = epochs_ok t"
    and "pt_emitter t' = pt_emitter t \<Longrightarrow> transport_ok t' = transport_ok t"
    and "pt_emitter t' = pt_emitter t \<Longrightarrow> covers os t' e = covers os t e"
  using assms
  by (simp_all add: emergency_frames_def is_tombstoned_def slot_ok_def epochs_ok_def transport_ok_def release_ok_def
      covers_def)

text \<open>A published release.\<close>

lemma emitted_highest:
  assumes "em_auth em \<in> {None, Some (te_auth ev)}"
  shows "\<exists>h. em_highest (emitter_emit ev em) = Some h \<and> te_epoch ev \<le> h"
    and "em_highest em = Some h' \<Longrightarrow> \<exists>h. em_highest (emitter_emit ev em) = Some h \<and> h' \<le> h"
    and "em_auth (emitter_emit ev em) = Some (te_auth ev)" and "em_open (emitter_emit ev em) = em_open em"
proof -
  consider "accepts ev em"
    | h where "\<not> accepts ev em" "em_highest em = Some h" "te_epoch ev \<le> h"
    using assms by (fastforce simp: accepts_def)
  then have "(\<exists>h. em_highest (emitter_emit ev em) = Some h \<and> te_epoch ev \<le> h) \<and>
      (em_highest em = Some h' \<longrightarrow> (\<exists>h. em_highest (emitter_emit ev em) = Some h \<and> h' \<le> h)) \<and>
      em_auth (emitter_emit ev em) = Some (te_auth ev) \<and> em_open (emitter_emit ev em) = em_open em"
  proof cases
    case 1
    then show ?thesis using emitter_emit_fields [OF 1] by (auto simp: accepts_def less_imp_le)
  next
    case 2
    then show ?thesis using assms by (auto simp: emitter_emit_refused)
  qed
  then show "\<exists>h. em_highest (emitter_emit ev em) = Some h \<and> te_epoch ev \<le> h"
    and "em_highest em = Some h' \<Longrightarrow> \<exists>h. em_highest (emitter_emit ev em) = Some h \<and> h' \<le> h"
    and "em_auth (emitter_emit ev em) = Some (te_auth ev)" and "em_open (emitter_emit ev em) = em_open em"
    by blast+
qed

lemma emit_terminal_ok:
  assumes "transport_ok t"
  shows "transport_ok (emit_terminal e reason t)" and "settles t (emit_terminal e reason t)"
    and "\<exists>h. em_highest (pt_emitter (emit_terminal e reason t)) = Some h \<and> e \<le> h"
    and "em_highest (pt_emitter t) = Some h' \<Longrightarrow>
      \<exists>h. em_highest (pt_emitter (emit_terminal e reason t)) = Some h \<and> h' \<le> h"
proof -
  let ?ev = "\<lparr>te_auth = pt_auth t, te_epoch = e, te_reason = reason\<rparr>"
  let ?t = "emit_terminal e reason t"
  have em: "pt_emitter ?t = emitter_emit ?ev (pt_emitter t)" by (simp add: emit_terminal_def)
  have fields: "pt_auth ?t = pt_auth t" "pt_emergency ?t = pt_emergency t" "pt_epochs ?t = pt_epochs t"
    "pt_emergency_writer ?t = pt_emergency_writer t" "pt_cancelled ?t = pt_cancelled t"
    "pt_emergency_reserved ?t = pt_emergency_reserved t" "pt_reliable ?t = pt_reliable t" "pt_writer ?t = pt_writer t"
    by (simp_all add: emit_terminal_def)
  note same = same_fields [OF fields(1-6)]
  have pre: "emitter_ok (pt_emitter t)" "em_open (pt_emitter t)" "em_auth (pt_emitter t) \<in> {None, Some (te_auth ?ev)}"
    using assms by (auto simp: transport_ok_def release_ok_def)
  note high = emitted_highest [OF pre(3)]
  have step: "emitter_ok (pt_emitter ?t)" "carries_on (pt_emitter t) [] (pt_emitter ?t)"
    using emitter_emit_step [OF pre(1,2)] unfolding em carries_on_def by auto
  show "transport_ok ?t"
    using assms step(1) high(3,4) pre(2) unfolding transport_ok_def same release_ok_def fields em by simp
  show "settles t ?t"
    unfolding settles_def using step(2) high(2) fields(7,8)
    by (auto simp: same(1,2) covers_def em; meson order_trans)
  show "\<exists>h. em_highest (pt_emitter ?t) = Some h \<and> e \<le> h" using high(1) by (simp add: em)
  show "\<exists>h. em_highest (pt_emitter ?t) = Some h \<and> h' \<le> h" if "em_highest (pt_emitter t) = Some h'"
    using high(2) [OF that] by (simp add: em)
qed

lemma fail_emergency_ok:
  assumes "transport_ok t" and "is_tombstoned (lf_session_epoch frame) t"
  shows "transport_ok (fail_emergency_locked frame t)" and "settles t (fail_emergency_locked frame t)"
    and "\<exists>h. em_highest (pt_emitter (fail_emergency_locked frame t)) = Some h \<and> lf_session_epoch frame \<le> h"
    and "em_highest (pt_emitter t) = Some h' \<Longrightarrow>
      \<exists>h. em_highest (pt_emitter (fail_emergency_locked frame t)) = Some h \<and> h' \<le> h"
proof -
  define t1 where "t1 = close_connection ''emergency input slot unavailable'' t"
  have same: "transport_ok t1 = transport_ok t" "settles t t1"
    unfolding settles_def carries_on_def
    using same_fields [of t1 t] by (simp_all add: t1_def)
  have eq: "fail_emergency_locked frame t =
      emit_terminal (lf_session_epoch frame) (case lf_event frame of ReleaseAllEvent r \<Rightarrow> r | _ \<Rightarrow> BackendFailure) t1"
    unfolding fail_emergency_locked_def retire_again [OF assms] t1_def ..
  have ok: "transport_ok t1" using assms(1) same(1) by simp
  show "transport_ok (fail_emergency_locked frame t)"
    unfolding eq by (rule emit_terminal_ok [OF ok])
  show "settles t (fail_emergency_locked frame t)"
    unfolding eq using settles_trans [OF same(2)] emit_terminal_ok [OF ok] by blast
  show "\<exists>h. em_highest (pt_emitter (fail_emergency_locked frame t)) = Some h \<and> lf_session_epoch frame \<le> h"
    unfolding eq by (rule emit_terminal_ok [OF ok])
  show "\<exists>h. em_highest (pt_emitter (fail_emergency_locked frame t)) = Some h \<and> h' \<le> h"
    if "em_highest (pt_emitter t) = Some h'"
    unfolding eq by (rule emit_terminal_ok [OF ok]) (simp add: t1_def that)
qed

text \<open>An admitted release ends in the lane or at the publisher.\<close>

lemma probe_fields:
  "transport_ok (t\<lparr>pt_emergency_probe := p\<rparr>) = transport_ok t"
  "settles t (t\<lparr>pt_emergency_probe := p\<rparr>)"
  "transport_ok (t\<lparr>pt_reliable_probe := p\<rparr>) = transport_ok t"
  "settles t (t\<lparr>pt_reliable_probe := p\<rparr>)"
  unfolding settles_def carries_on_def
  using same_fields [of "t\<lparr>pt_emergency_probe := p\<rparr>" t] same_fields [of "t\<lparr>pt_reliable_probe := p\<rparr>" t] by simp_all

lemma enqueue_emergency_free:
  assumes "transport_ok t" and "is_tombstoned (lf_session_epoch frame) t" and "is_release_all (lf_event frame)"
    and "\<not> pt_emergency_reserved t"
  defines "t' \<equiv> snd (enqueue_emergency_locked frame t)"
  shows "transport_ok t'" and "settles t t'" and "covers os t' (lf_session_epoch frame)"
    and "pt_epochs t' = pt_epochs t"
proof -
  let ?p = "observe_queued (mp_max (pt_emergency t) - mpsc_capacity (pt_emergency t) + 1) (mp_max (pt_emergency t))
    (pt_emergency_probe t)"
  have free: "mp_max (pt_emergency t) = 1" "emergency_frames t = []" "\<not> mp_closed (pt_emergency t)"
    "mp_queue (pt_emergency t) = []" "pt_emergency_writer t = EmergencyIdle"
    using assms(1,4) by (cases "pt_emergency_writer t"; auto simp: transport_ok_def slot_ok_def emergency_frames_def)+
  have eq: "t' = t\<lparr>pt_emergency_reserved := True, pt_emergency_probe := ?p,
      pt_emergency := (pt_emergency t)\<lparr>mp_queue := [frame]\<rparr>\<rparr>"
    unfolding t'_def enqueue_emergency_locked_def mpsc_try_send_def mpsc_capacity_def Let_def
    using free assms(3,4) by simp
  have frames: "emergency_frames t' = [frame]" using free unfolding eq by (simp add: emergency_frames_def)
  have tomb: "is_tombstoned e t' = is_tombstoned e t" for e unfolding eq by (simp add: is_tombstoned_def)
  have "slot_ok t'" unfolding slot_ok_def frames tomb using free assms(2,3) unfolding eq by simp
  moreover have "epochs_ok t'" "release_ok t'"
    using assms(1) tomb unfolding transport_ok_def epochs_ok_def release_ok_def by (simp_all add: eq)
  ultimately show "transport_ok t'" unfolding transport_ok_def by blast
  show "settles t t'"
    unfolding settles_def tomb covers_def frames free(2) carries_on_def by (auto simp: eq)
  show "covers os t' (lf_session_epoch frame)" unfolding covers_def frames using assms(3) by auto
  show "pt_epochs t' = pt_epochs t" unfolding eq by simp
qed

lemma emit_terminal_active [simp]: "pt_epochs (emit_terminal e r t) = pt_epochs t"
  by (simp add: emit_terminal_def)

lemma enqueue_emergency_taken:
  assumes "transport_ok t" and "is_tombstoned (lf_session_epoch frame) t" and "is_release_all (lf_event frame)"
    and "pt_emergency_reserved t"
  defines "t' \<equiv> snd (enqueue_emergency_locked frame t)"
  shows "transport_ok t'" and "settles t t'" and "covers os t' (lf_session_epoch frame)"
    and "pt_epochs t' = pt_epochs t"
proof -
  define t1 where
    "t1 = t\<lparr>pt_emergency_probe := probe_overflow (mp_max (pt_emergency t)) (pt_emergency_probe t)\<rparr>"
  have eq: "t' = fail_emergency_locked frame t1"
    unfolding t'_def enqueue_emergency_locked_def t1_def using assms(3,4) by simp
  have pre: "transport_ok t1" "is_tombstoned (lf_session_epoch frame) t1" "settles t t1"
    using assms(1,2) unfolding t1_def by (simp_all add: probe_fields is_tombstoned_def)
  show "transport_ok t'" unfolding eq by (rule fail_emergency_ok [OF pre(1,2)])
  show "settles t t'" unfolding eq using settles_trans [OF pre(3)] fail_emergency_ok [OF pre(1,2)] by blast
  show "covers os t' (lf_session_epoch frame)"
    unfolding eq covers_def using fail_emergency_ok(3) [OF pre(1,2)] by blast
  show "pt_epochs t' = pt_epochs t"
    unfolding eq fail_emergency_locked_def retire_again [OF pre(1,2)] by (simp add: t1_def)
qed

text \<open>Retiring an epoch and releasing it: what every failure and every release comes to.\<close>

definition retire_and_release :: "reliable_input_frame \<Rightarrow> peer_transport \<Rightarrow> peer_transport" where
  "retire_and_release frame t = snd (enqueue_emergency_locked frame (retire_both (lf_session_epoch frame) t))"

definition covered :: "transport_obs list \<Rightarrow> peer_transport \<Rightarrow> bool" where
  "covered os t \<longleftrightarrow> (\<forall>e. is_tombstoned e t \<longrightarrow> covers os t e)"

lemma release_settles:
  assumes "transport_ok t" and "is_release_all (lf_event frame)"
    and "se_active (pt_epochs t) \<in> {None, Some (lf_session_epoch frame)}"
  defines "t' \<equiv> retire_and_release frame t"
  shows "transport_ok t'" and "settles t t'" and "covered os t \<Longrightarrow> covered os t'"
    and "se_active (pt_epochs t') = None"
proof -
  let ?e = "lf_session_epoch frame"
  let ?t = "retire_both ?e t"
  have pre: "transport_ok ?t" "settles t ?t" "is_tombstoned ?e ?t"
    using retire_both_ok [OF assms(1,3)] by (simp_all add: retire_both_tombstones)
  have post: "transport_ok t' \<and> settles ?t t' \<and> covers os t' ?e \<and> pt_epochs t' = pt_epochs ?t" for os
    unfolding t'_def retire_and_release_def
    using enqueue_emergency_free [OF pre(1,3) assms(2)] enqueue_emergency_taken [OF pre(1,3) assms(2)] by blast
  show "transport_ok t'" using post by blast
  show settled: "settles t t'" using settles_trans [OF pre(2)] post by blast
  show "covered os t'" if "covered os t"
    unfolding covered_def
  proof (intro allI impI)
    fix d assume "is_tombstoned d t'"
    then have "is_tombstoned d t \<or> d \<le> ?e"
      using post retire_both_tombstones unfolding is_tombstoned_def by metis
    moreover have "covers os t' d" if "is_tombstoned d t"
      using that \<open>covered os t\<close> settled unfolding covered_def settles_def by blast
    moreover have "covers os t' d" if "d \<le> ?e"
      using post [of os] that unfolding covers_def by (meson order_trans)
    ultimately show "covers os t' d" by blast
  qed
  show "se_active (pt_epochs t') = None"
    using post assms(3) by (auto simp: retire_both_active)
qed

lemma fail_reliable_frame_release:
  "snd (fail_reliable_frame frame t) =
     retire_and_release (frame\<lparr>lf_event := ReleaseAllEvent BackendFailure\<rparr>) t"
  by (simp add: fail_reliable_frame_def retire_and_release_def)

section \<open>The steps\<close>

text \<open>What a step is allowed to do; \<open>os\<close> is what it shows.\<close>

definition fresh :: "peer_transport \<Rightarrow> transport_obs \<Rightarrow> bool" where
  "fresh t ob =
     (case ob of
        WroteReliable f \<Rightarrow> \<not> is_tombstoned (lf_session_epoch f) t
      | ReliableResult f r \<Rightarrow> isl r \<or> \<not> is_tombstoned (lf_session_epoch f) t
      | EmergencyResult f r \<Rightarrow> isl r \<or> \<not> is_tombstoned (lf_session_epoch f) t
      | RealtimeResult f r \<Rightarrow> r \<noteq> Inr RealtimeSent \<or> \<not> is_tombstoned (rf_session_epoch f) t
      | _ \<Rightarrow> True)"

definition releases :: "transport_obs list \<Rightarrow> terminal_release_event list" where
  "releases os = concat (map (\<lambda>ob. case ob of Released ev \<Rightarrow> [ev] | _ \<Rightarrow> []) os)"

definition written :: "transport_obs list \<Rightarrow> reliable_input_frame list" where
  "written os = concat (map (\<lambda>ob. case ob of WroteReliable f \<Rightarrow> [f] | _ \<Rightarrow> []) os)"

definition accepted :: "transport_obs list \<Rightarrow> reliable_input_frame list" where
  "accepted os =
     concat (map (\<lambda>ob. case ob of
       ReliableResult f r \<Rightarrow> if isl r \<or> is_release_all (lf_event f) then [] else [f] | _ \<Rightarrow> []) os)"

definition writer_frame :: "peer_transport \<Rightarrow> reliable_input_frame list" where
  "writer_frame t =
     (case pt_writer t of
        WriterOpening f \<Rightarrow> [f] | WriterPreface f \<Rightarrow> [f] | WriterWriting f \<Rightarrow> [f] | _ \<Rightarrow> [])"

text \<open>The frames written, the one in hand and the ones queued are the accepted ones, in order.\<close>

definition lane_order :: "transport_obs list \<Rightarrow> peer_transport \<Rightarrow> bool" where
  "lane_order os t \<longleftrightarrow> subseq (written os @ writer_frame t @ mp_queue (pt_reliable t)) (accepted os)"

definition proceeds :: "peer_transport \<Rightarrow> transport_obs list \<Rightarrow> peer_transport \<Rightarrow> bool" where
  "proceeds t os t' \<longleftrightarrow>
     (\<forall>ob\<in>set os. fresh t ob) \<and>
     (\<forall>e. is_tombstoned e t \<longrightarrow> is_tombstoned e t') \<and>
     (\<forall>before. covered before t \<longrightarrow> covered (before @ os) t') \<and>
     (\<forall>before. lane_order before t \<longrightarrow> lane_order (before @ os) t') \<and>
     carries_on (pt_emitter t) (releases os) (pt_emitter t')"

lemma obs_append [simp]:
  "releases (os @ os') = releases os @ releases os'" "written (os @ os') = written os @ written os'"
  "accepted (os @ os') = accepted os @ accepted os'"
  by (simp_all add: releases_def written_def accepted_def)

lemma fresh_back: "fresh t' ob \<Longrightarrow> (\<forall>e. is_tombstoned e t \<longrightarrow> is_tombstoned e t') \<Longrightarrow> fresh t ob"
  unfolding fresh_def by (cases ob) auto

lemma proceeds_nil: "proceeds t [] t"
  by (simp add: proceeds_def carries_on_def releases_def)

lemma proceeds_comp: "proceeds t os t' \<Longrightarrow> proceeds t' os' t'' \<Longrightarrow> proceeds t (os @ os') t''"
  unfolding proceeds_def carries_on_def by (auto intro: fresh_back)

text \<open>A step that settles shows nothing about releases.\<close>

lemma covered_more: "covered os t \<Longrightarrow> covered (os @ os') t"
  unfolding covered_def covers_def by fastforce

lemma settles_proceeds:
  assumes "settles t t'" and "\<And>os. covered os t \<Longrightarrow> covered os t'" and "\<forall>ob\<in>set os. fresh t ob"
    and "written os = []" and "accepted os = []" and "releases os = []"
  shows "proceeds t os t'"
  using assms covered_more unfolding proceeds_def settles_def lane_order_def writer_frame_def by simp

text \<open>A step of the lane: what the invariant reads stays, frames move forward or are dropped.\<close>

lemma lane_step:
  assumes "transport_ok t" and "pt_auth t' = pt_auth t" "pt_emergency t' = pt_emergency t"
    "pt_epochs t' = pt_epochs t" "pt_emergency_writer t' = pt_emergency_writer t" "pt_cancelled t' = pt_cancelled t"
    "pt_emergency_reserved t' = pt_emergency_reserved t" "pt_emitter t' = pt_emitter t"
    and "subseq (written os @ writer_frame t' @ mp_queue (pt_reliable t')) (writer_frame t @ mp_queue (pt_reliable t) @ accepted os)"
    and "\<forall>ob\<in>set os. fresh t ob" and "releases os = []"
  shows "transport_ok t' \<and> proceeds t os t'"
proof
  note same = same_fields [OF assms(2-7)]
  show "transport_ok t'" using assms(1,8) same(5) by simp
  have "covered (before @ os) t'" if "covered before t" for before
    using covered_more [OF that] same(2) same(6) [OF assms(8)] unfolding covered_def by simp
  moreover have "lane_order (before @ os) t'" if "lane_order before t" for before
  proof -
    have "subseq (written before @ written os @ writer_frame t' @ mp_queue (pt_reliable t'))
        (written before @ writer_frame t @ mp_queue (pt_reliable t) @ accepted os)"
      using assms(9) by (simp add: subseq_append')
    also have "subseq \<dots> (accepted before @ accepted os)"
      using that list_emb_append_mono [of "(=)"] unfolding lane_order_def by fastforce
    finally show ?thesis by (simp add: lane_order_def)
  qed
  ultimately show "proceeds t os t'"
    using assms(8,10,11) same(2) by (simp add: proceeds_def carries_on_def)
qed

lemma realtime_step:
  assumes "transport_ok t" and "try_send_realtime space answer frame t = (r, t')"
  shows "transport_ok t' \<and> proceeds t [RealtimeResult frame r] t'"
proof (rule lane_step [OF assms(1)])
  show "pt_auth t' = pt_auth t" "pt_emergency t' = pt_emergency t" "pt_epochs t' = pt_epochs t"
    "pt_emergency_writer t' = pt_emergency_writer t" "pt_cancelled t' = pt_cancelled t"
    "pt_emergency_reserved t' = pt_emergency_reserved t" "pt_emitter t' = pt_emitter t"
    using assms(2)
    by (auto simp: try_send_realtime_def Let_def split: if_splits sum.splits datagram_answer.splits)
  have "pt_reliable t' = pt_reliable t" "pt_writer t' = pt_writer t"
    using assms(2)
    by (auto simp: try_send_realtime_def Let_def split: if_splits sum.splits datagram_answer.splits)
  then show "subseq (written [RealtimeResult frame r] @ writer_frame t' @ mp_queue (pt_reliable t'))
      (writer_frame t @ mp_queue (pt_reliable t) @ accepted [RealtimeResult frame r])"
    by (simp add: written_def accepted_def writer_frame_def)
  show "\<forall>ob\<in>set [RealtimeResult frame r]. fresh t ob"
    using assms(2) by (auto simp: try_send_realtime_def fresh_def split: if_splits)
qed (simp add: releases_def)

text \<open>Entering an epoch that is not retired.\<close>

lemma enter_ok:
  assumes "transport_ok t" and "\<not> is_tombstoned e t"
  defines "t' \<equiv> t\<lparr>pt_epochs := (pt_epochs t)\<lparr>se_active := Some e\<rparr>\<rparr>"
  shows "transport_ok t'" and "settles t t'" and "covered os t' = covered os t"
    and "is_tombstoned d t' = is_tombstoned d t"
proof -
  have tomb: "is_tombstoned d t' = is_tombstoned d t" for d
    by (simp add: t'_def is_tombstoned_def epoch_retired_def)
  have frames: "emergency_frames t' = emergency_frames t" by (simp add: t'_def emergency_frames_def)
  show "transport_ok t'"
    using assms(1,2) unfolding transport_ok_def slot_ok_def epochs_ok_def release_ok_def frames tomb
    by (simp add: t'_def)
  have cov: "covers os t' e = covers os t e" for os e
    unfolding covers_def frames by (simp add: t'_def)
  show "settles t t'" unfolding settles_def cov tomb by (simp add: t'_def carries_on_def)
  show "covered os t' = covered os t" unfolding covered_def tomb cov ..
  show "is_tombstoned d t' = is_tombstoned d t" by (rule tomb)
qed

lemma enqueue_reliable_step:
  assumes "transport_ok t" and "se_active (pt_epochs t) = Some (lf_session_epoch frame)"
    and "\<not> is_release_all (lf_event frame)" and "enqueue_reliable_locked frame t = (r, t')"
  shows "transport_ok t' \<and> proceeds t [ReliableResult frame r] t'"
proof -
  have fresh: "fresh t (ReliableResult frame r)"
    using assms(1,2) by (simp add: fresh_def transport_ok_def epochs_ok_def)
  let ?frame = "frame\<lparr>lf_event := ReleaseAllEvent BackendFailure\<rparr>"
  have failed: "transport_ok (retire_and_release ?frame t1) \<and> proceeds t [ReliableResult frame (Inl e)] (retire_and_release ?frame t1)"
    if "transport_ok t1" "settles t t1" "pt_epochs t1 = pt_epochs t" "\<And>os. covered os t1 = covered os t" for t1 e
  proof
    have pre: "is_release_all (lf_event ?frame)" "se_active (pt_epochs t1) \<in> {None, Some (lf_session_epoch ?frame)}"
      using assms(2) that(3) by (simp_all add: is_release_all_def)
    note post = release_settles [OF that(1) pre]
    show "transport_ok (retire_and_release ?frame t1)" by (rule post(1))
    show "proceeds t [ReliableResult frame (Inl e)] (retire_and_release ?frame t1)"
    proof (rule settles_proceeds)
      show "settles t (retire_and_release ?frame t1)" by (rule settles_trans [OF that(2) post(2)])
      show "covered os (retire_and_release ?frame t1)" if "covered os t" for os
        using post(3) that \<open>\<And>os. covered os t1 = covered os t\<close> by simp
    qed (simp_all add: written_def accepted_def releases_def fresh_def)
  qed
  let ?cap = "mp_max (pt_reliable t)"
  let ?p = "observe_queued (?cap - mpsc_capacity (pt_reliable t) + 1) ?cap (pt_reliable_probe t)"
  have probed: "transport_ok (t\<lparr>pt_reliable_probe := q\<rparr>)" "settles t (t\<lparr>pt_reliable_probe := q\<rparr>)"
    "covered os (t\<lparr>pt_reliable_probe := q\<rparr>) = covered os t" for q os
    using assms(1) probe_fields same_fields [of "t\<lparr>pt_reliable_probe := q\<rparr>" t] by (simp_all add: covered_def)
  consider "mp_closed (pt_reliable t)" | "\<not> mp_closed (pt_reliable t)" "mpsc_capacity (pt_reliable t) = 0"
    | "\<not> mp_closed (pt_reliable t)" "mpsc_capacity (pt_reliable t) \<noteq> 0" by blast
  then show ?thesis
  proof cases
    case 1
    then have "t' = retire_and_release ?frame (t\<lparr>pt_reliable_probe := ?p\<rparr>)" "r = Inl LaneClosed"
      using assms(4) by (auto simp: enqueue_reliable_locked_def Let_def mpsc_try_send_def fail_reliable_frame_release)
    then show ?thesis using failed [OF probed(1,2) _ probed(3)] by simp
  next
    case 2
    then have "t' = retire_and_release ?frame (t\<lparr>pt_reliable_probe := probe_overflow ?cap ?p\<rparr>)" "isl r"
      using assms(4) fail_reliable_frame_release [of frame "t\<lparr>pt_reliable_probe := probe_overflow ?cap ?p\<rparr>"]
      by (auto simp: enqueue_reliable_locked_def Let_def mpsc_try_send_def split: prod.splits sum.splits)
    then show ?thesis using failed [OF probed(1,2) _ probed(3)] by (cases r) simp_all
  next
    case 3
    then have "t' = t\<lparr>pt_reliable_probe := ?p, pt_reliable := (pt_reliable t)\<lparr>mp_queue := mp_queue (pt_reliable t) @ [frame]\<rparr>\<rparr>"
      "r = Inr ()"
      using assms(4) by (auto simp: enqueue_reliable_locked_def Let_def mpsc_try_send_def)
    then show ?thesis
      using fresh assms(1,3)
      by (intro lane_step) (simp_all add: written_def accepted_def writer_frame_def releases_def)
  qed
qed

lemma refused_step: "isl r \<Longrightarrow> proceeds t [ReliableResult frame r] t" "isl r' \<Longrightarrow> proceeds t [EmergencyResult frame r'] t"
  by (auto intro!: settles_proceeds simp: fresh_def written_def accepted_def releases_def)

lemma released_step:
  assumes "transport_ok t" and "is_release_all (lf_event frame)" and "\<not> is_tombstoned (lf_session_epoch frame) t"
    and "se_active (pt_epochs t) \<in> {None, Some (lf_session_epoch frame)}"
    and "os = [ReliableResult frame r] \<or> os = [EmergencyResult frame r]"
  shows "transport_ok (retire_and_release frame t) \<and> proceeds t os (retire_and_release frame t)"
proof
  note post = release_settles [OF assms(1,2,4)]
  show "transport_ok (retire_and_release frame t)" by (rule post(1))
  have "(\<forall>ob\<in>set os. fresh t ob) \<and> written os = [] \<and> accepted os = [] \<and> releases os = []"
    using assms(2,3,5) by (elim disjE) (simp_all add: fresh_def written_def accepted_def releases_def)
  then show "proceeds t os (retire_and_release frame t)"
    by (intro settles_proceeds post(2,3)) simp_all
qed

lemma reliable_step:
  assumes "transport_ok t" and "try_send_reliable_input frame t = (r, t')"
  shows "transport_ok t' \<and> proceeds t [ReliableResult frame r] t'"
proof -
  let ?e = "lf_session_epoch frame"
  let ?entered = "t\<lparr>pt_epochs := (pt_epochs t)\<lparr>se_active := Some ?e\<rparr>\<rparr>"
  note run = assms(2) [unfolded try_send_reliable_input_def Let_def]
  have kinds: "is_enter (lf_event frame) \<Longrightarrow> \<not> is_release_all (lf_event frame)"
    by (cases "lf_event frame") (simp_all add: is_enter_def is_release_all_def)
  consider "r = Inl UnsupportedMessage" "t' = t"
    | "is_enter (lf_event frame)" "se_active (pt_epochs t) = None" "\<not> is_tombstoned ?e t"
        "enqueue_reliable_locked frame ?entered = (r, t')"
    | "is_release_all (lf_event frame)" "se_active (pt_epochs t) = Some ?e" "t' = retire_and_release frame t"
    | "\<not> is_release_all (lf_event frame)" "se_active (pt_epochs t) = Some ?e" "enqueue_reliable_locked frame t = (r, t')"
  proof (cases "is_enter (lf_event frame)")
    case True
    show ?thesis
    proof (cases "se_active (pt_epochs t) \<noteq> None \<or> epoch_retired ?e (pt_epochs t)")
      case refused: True
      then show ?thesis using run that(1) unfolding if_P [OF True] if_P [OF refused] by simp
    next
      case False
      then show ?thesis using run that(2) True unfolding if_P [OF True] if_not_P [OF False] is_tombstoned_def by simp
    qed
  next
    case other: False
    show ?thesis
    proof (cases "is_release_all (lf_event frame)")
      case True
      show ?thesis
      proof (cases "se_active (pt_epochs t) = Some ?e")
        case active: True
        then have "t' = retire_and_release frame t"
          using run other True unfolding retire_and_release_def retire_epoch_locked_def by simp
        then show ?thesis using that(3) True active by blast
      next
        case False
        then show ?thesis using run other True that(1) by simp
      qed
    next
      case False
      show ?thesis
      proof (cases "se_active (pt_epochs t) \<noteq> Some ?e \<or> epoch_retired ?e (pt_epochs t)")
        case True
        then show ?thesis
          using run that(1) unfolding if_not_P [OF other] if_not_P [OF False] if_P [OF True] by simp
      next
        case active: False
        then show ?thesis
          using run that(4) False unfolding if_not_P [OF other] if_not_P [OF False] if_not_P [OF active] by blast
      qed
    qed
  qed
  then show ?thesis
  proof cases
    case 1
    then show ?thesis using assms(1) refused_step(1) [of r] by simp
  next
    case 2
    note entered = enter_ok [OF assms(1) 2(3)]
    have "transport_ok t'" "proceeds ?entered [ReliableResult frame r] t'"
      using enqueue_reliable_step [OF entered(1) _ kinds [OF 2(1)] 2(4)] by simp_all
    moreover have "proceeds t [] ?entered"
      using entered(2,3) by (intro settles_proceeds) (simp_all add: written_def accepted_def releases_def)
    ultimately show ?thesis using proceeds_comp [of t "[]" ?entered] by simp
  next
    case 3
    have "\<not> is_tombstoned ?e t" using assms(1) 3(2) by (simp add: transport_ok_def epochs_ok_def)
    then show ?thesis unfolding 3(3) using 3(2) by (intro released_step [OF assms(1) 3(1)]) simp_all
  next
    case 4
    then show ?thesis using enqueue_reliable_step [OF assms(1)] by simp
  qed
qed

lemma fail_future_ok:
  assumes "transport_ok t" and "se_active (pt_epochs t) = Some a"
  defines "t' \<equiv> fail_future_emergency_locked a t"
  shows "transport_ok t'" and "settles t t'" and "covered os t \<Longrightarrow> covered os t'"
proof -
  let ?t = "close_connection ''future emergency epoch mismatch'' (retire_both a t)"
  have pre: "transport_ok (retire_both a t)" "settles t (retire_both a t)"
    using retire_both_ok [OF assms(1)] assms(2) by simp_all
  have ok: "transport_ok ?t" and settled: "settles t ?t"
    using pre same_fields [of ?t "retire_both a t"] unfolding settles_def carries_on_def by simp_all
  have eq: "t' = emit_terminal a BackendFailure ?t" by (simp add: t'_def fail_future_emergency_locked_def)
  show "transport_ok t'" unfolding eq by (rule emit_terminal_ok [OF ok])
  show st: "settles t t'" unfolding eq using settles_trans [OF settled] emit_terminal_ok [OF ok] by blast
  have tomb: "is_tombstoned d t' \<longleftrightarrow> is_tombstoned d t \<or> d \<le> a" for d
    using retire_both_tombstones [of d a t] unfolding eq by (simp add: is_tombstoned_def)
  obtain h where "em_highest (pt_emitter t') = Some h" "a \<le> h" using emit_terminal_ok(3) [OF ok] unfolding eq by blast
  then have "covers os t' d" if "d \<le> a" for d using that by (auto simp: covers_def)
  then show "covered os t'" if "covered os t"
    using that st tomb unfolding covered_def settles_def by blast
qed

lemma emergency_step:
  assumes "transport_ok t" and "try_send_emergency frame t = (r, t')"
  shows "transport_ok t' \<and> proceeds t [EmergencyResult frame r] t'"
proof -
  let ?e = "lf_session_epoch frame"
  note run = assms(2) [unfolded try_send_emergency_def Let_def]
  consider "isl r" "t' = t"
    | a where "isl r" "se_active (pt_epochs t) = Some a" "t' = fail_future_emergency_locked a t"
    | "is_release_all (lf_event frame)" "\<not> is_tombstoned ?e t" "se_active (pt_epochs t) \<in> {None, Some ?e}"
        "t' = retire_and_release frame t"
  proof (cases "\<not> is_release_all (lf_event frame) \<or> epoch_retired ?e (pt_epochs t)")
    case True
    then have "(Inl UnsupportedMessage, t) = (r, t')"
      using run by (cases "is_release_all (lf_event frame)") simp_all
    then show ?thesis using that(1) by auto
  next
    case False
    show ?thesis
    proof (cases "se_active (pt_epochs t)")
      case None
      then have "t' = retire_and_release frame t" using run False by (simp add: retire_and_release_def)
      then show ?thesis using that(3) False None unfolding is_tombstoned_def by blast
    next
      case (Some a)
      show ?thesis
      proof (cases "a = ?e")
        case True
        then have "t' = retire_and_release frame t" using run False Some by (simp add: retire_and_release_def)
        then show ?thesis using that(3) False Some True unfolding is_tombstoned_def by blast
      next
        case other: False
        then have "r = Inl UnsupportedMessage" "t' = fail_future_emergency_locked a t" using run False Some by simp_all
        then show ?thesis using that(2) Some by simp
      qed
    qed
  qed
  then show ?thesis
  proof cases
    case 1
    then show ?thesis using assms(1) refused_step(2) [of r] by simp
  next
    case 2
    then show ?thesis
      using fail_future_ok [OF assms(1) 2(2)]
      by (auto intro!: settles_proceeds simp: fresh_def written_def accepted_def releases_def)
  next
    case 3
    show ?thesis unfolding 3(4) by (intro released_step [OF assms(1) 3(1-3)]) simp
  qed
qed

section \<open>The writers\<close>

text \<open>A frame the reliable writer fails on.\<close>

lemma fail_writer_ok:
  assumes "transport_ok t"
  shows "transport_ok (fail_reliable_writer_frame frame t) \<and> proceeds t [] (fail_reliable_writer_frame frame t)"
proof -
  let ?frame = "frame\<lparr>lf_event := ReleaseAllEvent BackendFailure\<rparr>"
  have over: "transport_ok (t1\<lparr>pt_writer := WriterOver\<rparr>) \<and> proceeds t1 [] (t1\<lparr>pt_writer := WriterOver\<rparr>)"
    if "transport_ok t1" for t1
    using that by (intro lane_step) (simp_all add: written_def accepted_def releases_def writer_frame_def subseq_drop_many)
  show ?thesis
  proof (cases "se_active (pt_epochs t) = Some (lf_session_epoch frame) \<and> \<not> epoch_retired (lf_session_epoch frame) (pt_epochs t)")
    case True
    let ?t = "retire_and_release ?frame t"
    have "is_release_all (lf_event ?frame)" "se_active (pt_epochs t) \<in> {None, Some (lf_session_epoch ?frame)}"
      using True by (simp_all add: is_release_all_def)
    note post = release_settles [OF assms this]
    have "proceeds t [] ?t" using post(2,3) by (intro settles_proceeds) (simp_all add: written_def accepted_def releases_def)
    then have "proceeds t ([] @ []) (?t\<lparr>pt_writer := WriterOver\<rparr>)"
      using over [OF post(1)] by (blast intro: proceeds_comp)
    then show ?thesis
      using True over [OF post(1)] by (simp add: fail_reliable_writer_frame_def fail_reliable_frame_release)
  next
    case False
    then have "fail_reliable_writer_frame frame t = t\<lparr>pt_writer := WriterOver\<rparr>"
      unfolding fail_reliable_writer_frame_def Let_def by (simp only: if_False)
    then show ?thesis using over [OF assms] by simp
  qed
qed

lemma cancelled_tombstoned: "transport_ok t \<Longrightarrow> frame_cancelled e t = is_tombstoned e t"
  by (simp add: transport_ok_def epochs_ok_def frame_cancelled_def is_tombstoned_def epoch_retired_def)

lemma writer_failed_step:
  assumes "transport_ok t" and "transport_ok t1 \<and> proceeds t os t1"
  shows "transport_ok (fail_reliable_writer_frame frame t1) \<and> proceeds t os (fail_reliable_writer_frame frame t1)"
  using fail_writer_ok [of t1 frame] assms(2) proceeds_comp [of t os t1 "[]"] by simp

text \<open>The steps of the reliable writer that do not fail.\<close>

definition same_core :: "peer_transport \<Rightarrow> peer_transport \<Rightarrow> bool" where
  "same_core t t' \<longleftrightarrow>
     pt_auth t' = pt_auth t \<and> pt_emergency t' = pt_emergency t \<and> pt_epochs t' = pt_epochs t \<and>
     pt_emergency_writer t' = pt_emergency_writer t \<and> pt_cancelled t' = pt_cancelled t \<and>
     pt_emergency_reserved t' = pt_emergency_reserved t \<and> pt_emitter t' = pt_emitter t"

definition lane :: "peer_transport \<Rightarrow> reliable_input_frame list" where
  "lane t = writer_frame t @ mp_queue (pt_reliable t)"

lemma writer_moves:
  assumes "transport_ok t" and "same_core t t'" and "subseq (written os @ lane t') (lane t)"
    and "\<forall>ob\<in>set os. fresh t ob" and "releases os = []" and "accepted os = []"
  shows "transport_ok t' \<and> proceeds t os t'"
  using assms lane_step [of t t' os] unfolding same_core_def lane_def by simp

lemmas writer_eval = mark_seen_def next_frame_def same_core_def lane_def writer_frame_def written_def accepted_def
  releases_def fresh_def

lemma reset_step:
  assumes "transport_ok t" and "same_core t t1" and "lane t1 = lane t"
    and "reset_cancelled_reliable_stream t1 = (os, t')"
  shows "transport_ok t' \<and> proceeds t os t'"
proof (rule writer_moves [OF assms(1)])
  have t': "t' = next_frame (t1\<lparr>pt_stream := False\<rparr>)" and os: "os = [] \<or> os = [ResetStream]"
    using assms(4) by (auto simp: reset_cancelled_reliable_stream_def)
  show "same_core t t'" using assms(2) unfolding t' by (simp add: same_core_def next_frame_def)
  have "subseq (lane t') (lane t)" unfolding assms(3) [symmetric] t' by (simp add: writer_eval subseq_drop_many)
  then show "subseq (written os @ lane t') (lane t)" using os by (auto simp: written_def)
  show "\<forall>ob\<in>set os. fresh t ob" "releases os = []" "accepted os = []" using os by (auto simp: writer_eval)
qed

lemma start_write_step:
  assumes "transport_ok t" and "same_core t t1" and "subseq (frame # mp_queue (pt_reliable t1)) (lane t)"
    and "subseq (lane t1) (lane t)" and "start_write ser frame t1 = (os, t')"
  shows "transport_ok t' \<and> proceeds t os t'"
proof (cases "reliable_encode ser frame")
  case (Inl e)
  have "transport_ok t1 \<and> proceeds t [] t1"
    using assms(4) by (intro writer_moves [OF assms(1,2)]) (simp_all add: writer_eval)
  moreover have "os = []" "t' = fail_reliable_writer_frame frame t1"
    using assms(5) Inl by (simp_all add: start_write_def)
  ultimately show ?thesis using writer_failed_step [OF assms(1)] by blast
next
  case (Inr bytes)
  then have eq: "os = []" "t' = t1\<lparr>pt_write_started := fetch_inc (pt_write_started t1), pt_writer := WriterWriting frame\<rparr>"
    using assms(5) by (simp_all add: start_write_def)
  show ?thesis unfolding eq using assms(2,3) by (intro writer_moves [OF assms(1)]) (simp_all add: writer_eval)
qed

lemma fail_step:
  assumes "transport_ok t" and "same_core t t1" and "lane t1 = lane t" and "os = [] \<or> os = [ResetStream]"
  shows "transport_ok (fail_reliable_writer_frame frame t1) \<and> proceeds t os (fail_reliable_writer_frame frame t1)"
proof -
  have "transport_ok t1 \<and> proceeds t os t1"
    using assms(3,4) by (intro writer_moves [OF assms(1,2)]) (auto simp: written_def accepted_def releases_def fresh_def)
  then show ?thesis by (rule writer_failed_step [OF assms(1)])
qed

lemma subseq_tail: "subseq xs (x # xs)"
  by (rule list_emb_Cons) simp

lemma writer_stays:
  assumes "transport_ok t" and "same_core t t'" and "subseq (lane t') (lane t)"
  shows "transport_ok t' \<and> proceeds t [] t'"
  using assms by (intro writer_moves) (simp_all add: written_def accepted_def releases_def)

lemma writer_recv_step:
  assumes "transport_ok t" and "pt_writer t = WriterIdle" and "writer_recv ser t = (os, t')"
  shows "transport_ok t' \<and> proceeds t os t'"
proof (cases "mp_queue (pt_reliable t)")
  case Nil
  then show ?thesis using assms proceeds_nil by (auto simp: writer_recv_def mpsc_recv_def)
next
  case (Cons frame rest)
  let ?t = "mark_seen (t\<lparr>pt_reliable := (pt_reliable t)\<lparr>mp_queue := rest\<rparr>\<rparr>)"
  have moved: "same_core t ?t" "lane t = frame # rest" "lane ?t = rest" "mp_queue (pt_reliable ?t) = rest"
    using assms(2) Cons by (simp_all add: writer_eval)
  consider "(os, t') = ([], ?t)" | "(os, t') = ([], ?t\<lparr>pt_writer := WriterOpening frame\<rparr>)"
    | "start_write ser frame ?t = (os, t')"
    using assms(3) [unfolded writer_recv_def mpsc_recv_def Cons list.case option.case prod.case Let_def]
    by (simp only: split: if_splits)
  then show ?thesis
  proof cases
    case 1
    then show ?thesis
      using writer_stays [OF assms(1) moved(1)] moved by (simp add: subseq_tail)
  next
    case 2
    have "same_core t t'" "lane t' = lane t" using 2 moved by (simp_all add: writer_eval)
    then show ?thesis
      using 2 writer_stays [OF assms(1)] by simp
  next
    case 3
    show ?thesis by (rule start_write_step [OF assms(1) moved(1) _ _ 3]) (simp_all add: moved subseq_tail)
  qed
qed

lemma writer_poll_step:
  assumes "transport_ok t" and "writer_poll ser answer t = (os, t')"
  shows "transport_ok t' \<and> proceeds t os t'"
proof (cases "pt_writer t")
  let ?t = "mark_seen t"
  have seen: "same_core t ?t" "lane ?t = lane t" by (simp_all add: writer_eval)
  {
    case WriterIdle
    then show ?thesis using assms writer_recv_step by (simp add: writer_poll_def)
  next
    case (WriterOpening frame)
    then have lanes: "subseq (lane (next_frame ?t)) (lane t)" "lane (?t\<lparr>pt_stream := True\<rparr>) = lane t"
      "lane (?t\<lparr>pt_stream := True, pt_writer := WriterPreface frame\<rparr>) = lane t"
      "same_core t (next_frame ?t)" "same_core t (?t\<lparr>pt_stream := True\<rparr>)"
      "same_core t (?t\<lparr>pt_stream := True, pt_writer := WriterPreface frame\<rparr>)"
      by (simp_all add: writer_eval list_emb_Cons)
    consider "(os, t') = ([], next_frame ?t)"
      | "reset_cancelled_reliable_stream (?t\<lparr>pt_stream := True\<rparr>) = (os, t')"
      | "(os, t') = ([], ?t\<lparr>pt_stream := True, pt_writer := WriterPreface frame\<rparr>)"
      | "(os, t') = ([], fail_reliable_writer_frame frame ?t)" | "(os, t') = ([], ?t)"
      using assms(2) [unfolded writer_poll_def WriterOpening reliable_writer.case Let_def]
      by (simp only: split: if_splits io_answer.splits) metis+
    then show ?thesis
    proof cases
      case 1
      then show ?thesis using writer_stays [OF assms(1) lanes(4,1)] by simp
    next
      case 2
      then show ?thesis using reset_step [OF assms(1) lanes(5,2)] by blast
    next
      case 3
      then show ?thesis using writer_stays [OF assms(1) lanes(6)] lanes(3) by simp
    next
      case 4
      then show ?thesis using fail_step [OF assms(1) seen, of "[]" frame] by simp
    next
      case 5
      then show ?thesis using writer_stays [OF assms(1) seen(1)] seen(2) by simp
    qed
  next
    case (WriterPreface frame)
    consider "reset_cancelled_reliable_stream ?t = (os, t')" | "start_write ser frame ?t = (os, t')"
      | "(os, t') = ([ResetStream], fail_reliable_writer_frame frame ?t)" | "(os, t') = ([], ?t)"
      using assms(2) [unfolded writer_poll_def WriterPreface reliable_writer.case Let_def]
      by (simp only: split: if_splits io_answer.splits) metis+
    then show ?thesis
    proof cases
      case 1
      then show ?thesis using reset_step [OF assms(1) seen] by blast
    next
      case 2
      show ?thesis
        by (rule start_write_step [OF assms(1) seen(1) _ _ 2]) (use WriterPreface in \<open>simp_all add: writer_eval\<close>)
    next
      case 3
      then show ?thesis using fail_step [OF assms(1) seen, of "[ResetStream]" frame] by simp
    next
      case 4
      then show ?thesis using writer_stays [OF assms(1) seen(1)] seen(2) by simp
    qed
  next
    case (WriterWriting frame)
    let ?done = "?t\<lparr>pt_write_completed := fetch_inc (pt_write_completed ?t)\<rparr>"
    have done_lane: "same_core t ?done" "lane ?done = lane t" "same_core t (next_frame ?done)"
      "lane t = frame # lane (next_frame ?done)"
      using WriterWriting by (simp_all add: writer_eval)
    consider "reset_cancelled_reliable_stream ?t = (os, t')"
      | "(os, t') = ([WroteReliable frame], next_frame ?done)" "\<not> frame_cancelled (lf_session_epoch frame) ?t"
      | "(os, t') = ([ResetStream], fail_reliable_writer_frame frame ?done)"
      | "(os, t') = ([], fail_reliable_writer_frame frame ?t)" | "(os, t') = ([], ?t)"
      using assms(2) [unfolded writer_poll_def WriterWriting reliable_writer.case Let_def]
      by (simp only: split: if_splits io_answer.splits) metis+
    then show ?thesis
    proof cases
      case 1
      then show ?thesis using reset_step [OF assms(1) seen] by blast
    next
      case 2
      have "\<not> is_tombstoned (lf_session_epoch frame) t"
        using 2(2) cancelled_tombstoned [OF assms(1), of "lf_session_epoch frame"]
        by (simp add: frame_cancelled_def mark_seen_def)
      then show ?thesis
        using 2(1) writer_moves [OF assms(1) done_lane(3), of "[WroteReliable frame]"] done_lane(4)
        by (simp add: written_def accepted_def releases_def fresh_def)
    next
      case 3
      then show ?thesis using fail_step [OF assms(1) done_lane(1,2), of "[ResetStream]" frame] by simp
    next
      case 4
      then show ?thesis using fail_step [OF assms(1) seen, of "[]" frame] by simp
    next
      case 5
      then show ?thesis using writer_stays [OF assms(1) seen(1)] seen(2) by simp
    qed
  next
    case WriterOver
    let ?over = "t\<lparr>pt_reliable := mpsc_close (pt_reliable t)\<rparr>"
    have "(os, t') = ([], ?over)" using assms(2) WriterOver by (simp add: writer_poll_def)
    moreover have "same_core t ?over" "lane ?over = []" using WriterOver by (simp_all add: writer_eval mpsc_close_def)
    ultimately show ?thesis using writer_stays [OF assms(1), of ?over] by simp
  }
qed

text \<open>The emergency writer takes the frame, writes it, or publishes its release when it cannot.\<close>

lemma emergency_poll_step:
  assumes "transport_ok t" and "emergency_poll ser answer t = (os, t')"
  shows "transport_ok t' \<and> proceeds t os t'"
proof (cases "pt_emergency_writer t")
  case EmergencyIdle
  show ?thesis
  proof (cases "mp_queue (pt_emergency t)")
    case Nil
    then show ?thesis
      using assms EmergencyIdle proceeds_nil by (simp add: emergency_poll_def mpsc_recv_def)
  next
    case (Cons frame rest)
    have eq: "os = []"
      "t' = t\<lparr>pt_emergency := (pt_emergency t)\<lparr>mp_queue := rest\<rparr>, pt_emergency_writer := EmergencyWriting frame\<rparr>"
      using assms(2) EmergencyIdle Cons by (simp_all add: emergency_poll_def mpsc_recv_def)
    have frames: "emergency_frames t' = emergency_frames t"
      using EmergencyIdle Cons unfolding eq by (simp add: emergency_frames_def)
    have tomb: "is_tombstoned d t' = is_tombstoned d t" for d unfolding eq by (simp add: is_tombstoned_def)
    have "transport_ok t'"
      using assms(1) EmergencyIdle
      unfolding transport_ok_def slot_ok_def epochs_ok_def release_ok_def frames tomb by (simp add: eq)
    moreover have "settles t t'"
      unfolding settles_def covers_def frames tomb carries_on_def by (simp add: eq)
    moreover have "covered before t'" if "covered before t" for before
      using that unfolding covered_def covers_def frames tomb by (simp add: eq)
    ultimately show ?thesis
      unfolding eq(1) by (auto intro!: settles_proceeds simp: written_def accepted_def releases_def)
  qed
next
  case (EmergencyWriting frame)
  have slot: "emergency_frames t = [frame]" "mp_queue (pt_emergency t) = []" "is_release_all (lf_event frame)"
    "is_tombstoned (lf_session_epoch frame) t" "pt_emergency_reserved t"
    using assms(1) EmergencyWriting by (auto simp: transport_ok_def slot_ok_def emergency_frames_def)
  consider "(os, t') = ([], t)"
    | "(os, t') = ([WroteEmergency frame],
          t\<lparr>pt_emergency_reserved := False, pt_emergency_writer := EmergencyIdle\<rparr>)"
    | "(os, t') = ([], (fail_emergency_locked frame t)
          \<lparr>pt_emergency_writer := EmergencyOver,
            pt_emergency := mpsc_close (pt_emergency t)\<rparr>)"
    using assms(2) [unfolded emergency_poll_def EmergencyWriting emergency_writer.case Let_def]
    by (simp only: split: if_splits)
  then show ?thesis
  proof cases
    case 1
    then show ?thesis using assms(1) proceeds_nil by simp
  next
    case 2
    then have eq: "os = [WroteEmergency frame]"
      "t' = t\<lparr>pt_emergency_reserved := False, pt_emergency_writer := EmergencyIdle\<rparr>" by simp_all
    have frames: "emergency_frames t' = []" using slot(2) unfolding eq by (simp add: emergency_frames_def)
    have tomb: "is_tombstoned d t' = is_tombstoned d t" for d unfolding eq by (simp add: is_tombstoned_def)
    have "transport_ok t'"
      using assms(1) EmergencyWriting
      unfolding transport_ok_def slot_ok_def epochs_ok_def release_ok_def frames tomb by (simp add: eq)
    moreover have "covered (before @ os) t'" if "covered before t" for before
      using that unfolding covered_def covers_def frames slot(1) tomb by (auto simp: eq)
    ultimately show ?thesis
      unfolding proceeds_def tomb carries_on_def lane_order_def
      by (simp add: eq fresh_def written_def accepted_def releases_def writer_frame_def)
  next
    case 3
    let ?t = "fail_emergency_locked frame t"
    have eq: "os = []"
      "t' = ?t\<lparr>pt_emergency_writer := EmergencyOver, pt_emergency := mpsc_close (pt_emergency t)\<rparr>"
      using 3 by simp_all
    note failed = fail_emergency_ok [OF assms(1) slot(4)]
    have frames: "emergency_frames t' = []" unfolding eq by (simp add: emergency_frames_def mpsc_close_def)
    have tomb: "is_tombstoned d t' = is_tombstoned d t" for d
      unfolding eq fail_emergency_locked_def retire_again [OF assms(1) slot(4)] by (simp add: is_tombstoned_def)
    have same: "is_tombstoned d ?t = is_tombstoned d t" for d
      unfolding fail_emergency_locked_def retire_again [OF assms(1) slot(4)] by (simp add: is_tombstoned_def)
    have reserved: "pt_emergency_reserved ?t" "pt_emergency ?t = pt_emergency t"
      using slot(5) by (simp_all add: fail_emergency_locked_def emit_terminal_def retire_epoch_locked_def)
    have "transport_ok t'"
      using failed(1) reserved
      unfolding transport_ok_def slot_ok_def epochs_ok_def release_ok_def frames tomb same
      by (simp add: eq mpsc_close_def)
    moreover have "covers before t' d" if "covers before t d" for before d
    proof -
      have same: "em_highest (pt_emitter t') = em_highest (pt_emitter ?t)" unfolding eq by simp
      obtain h where h: "em_highest (pt_emitter t') = Some h" "lf_session_epoch frame \<le> h"
        using failed(3) same by metis
      have "h' \<le> h" if "em_highest (pt_emitter t) = Some h'" for h' using failed(4) [OF that] h same by auto
      then show ?thesis
        using \<open>covers before t d\<close> h unfolding covers_def frames slot(1) by fastforce
    qed
    then have "covered before t'" if "covered before t" for before
      using that tomb unfolding covered_def by blast
    ultimately show ?thesis
      using failed(2) unfolding proceeds_def settles_def tomb carries_on_def lane_order_def
      by (simp add: eq written_def accepted_def releases_def writer_frame_def)
  qed
next
  case EmergencyOver
  then show ?thesis using assms proceeds_nil by (simp add: emergency_poll_def)
qed

section \<open>The machine\<close>

text \<open>A step of the forwarding task or of the consumer of releases.\<close>

lemma emitter_moves:
  assumes "transport_ok t" and "emitter_ok em" and "em_open em = em_open (pt_emitter t)"
    and "em_auth em = em_auth (pt_emitter t)" and "em_highest em = em_highest (pt_emitter t)"
    and "carries_on (pt_emitter t) (releases os) em" and "os = [] \<or> os = [Released ev]"
  shows "transport_ok (t\<lparr>pt_emitter := em\<rparr>) \<and> proceeds t os (t\<lparr>pt_emitter := em\<rparr>)"
proof
  let ?t = "t\<lparr>pt_emitter := em\<rparr>"
  have same: "emergency_frames ?t = emergency_frames t" "\<And>e. is_tombstoned e ?t = is_tombstoned e t"
    "slot_ok ?t = slot_ok t" "epochs_ok ?t = epochs_ok t"
    using same_fields [of ?t t] by simp_all
  show "transport_ok ?t" using assms(1-4) unfolding transport_ok_def same release_ok_def by simp
  have "covered (before @ os) ?t" if "covered before t" for before
    using covered_more [OF that, of os] assms(5) unfolding covered_def covers_def same by simp
  moreover have "lane_order (before @ os) ?t = lane_order before t" for before
    using assms(7) by (auto simp: lane_order_def written_def accepted_def writer_frame_def)
  ultimately show "proceeds t os ?t"
    using assms(6,7) unfolding proceeds_def same by (auto simp: fresh_def)
qed

lemma emitter_poll_keeps: "em_open (emitter_poll em) = em_open em" "em_auth (emitter_poll em) = em_auth em"
    "em_highest (emitter_poll em) = em_highest em"
  by (cases "em_worker em";
      simp add: emitter_poll_def take_latest_def emitter_finish_def Let_def split: option.split)+

lemma emitter_consume_keeps: "emitter_consume em = (got, em') \<Longrightarrow>
    em_open em' = em_open em \<and> em_auth em' = em_auth em \<and> em_highest em' = em_highest em"
  by (auto simp: emitter_consume_def split: prod.splits option.splits)

lemma transport_step_ok:
  assumes "transport_ok t"
  shows "transport_ok (snd (transport_step ser t c)) \<and>
    proceeds t (fst (transport_step ser t c)) (snd (transport_step ser t c))"
proof (cases c)
  case (RealtimeCall space answer frame)
  then show ?thesis using realtime_step [OF assms] by (simp add: transport_step_def split: prod.split)
next
  case (ReliableCall frame)
  then show ?thesis using reliable_step [OF assms] by (simp add: transport_step_def split: prod.split)
next
  case (EmergencyCall frame)
  then show ?thesis using emergency_step [OF assms] by (simp add: transport_step_def split: prod.split)
next
  case (WriterCall answer)
  then show ?thesis
    using writer_poll_step [OF assms, of ser answer "fst (writer_poll ser answer t)" "snd (writer_poll ser answer t)"]
    by (simp add: transport_step_def)
next
  case (EmergencyWriterCall answer)
  then show ?thesis
    using emergency_poll_step [OF assms, of ser answer "fst (emergency_poll ser answer t)"
        "snd (emergency_poll ser answer t)"]
    by (simp add: transport_step_def)
next
  case ReleaseTaskCall
  have ok: "emitter_ok (pt_emitter t)" using assms by (simp add: transport_ok_def release_ok_def)
  have "carries_on (pt_emitter t) [] (emitter_poll (pt_emitter t))"
    using emitter_step_ok [OF ok, of PollCall] by (simp add: emitter_step_def)
  then show ?thesis
    using ReleaseTaskCall emitter_poll_step [OF ok] emitter_poll_keeps [of "pt_emitter t"]
      emitter_moves [OF assms, of "emitter_poll (pt_emitter t)" "[]"]
    by (simp add: transport_step_def releases_def)
next
  case ReleaseConsumeCall
  have ok: "emitter_ok (pt_emitter t)" using assms by (simp add: transport_ok_def release_ok_def)
  obtain got em where got: "emitter_consume (pt_emitter t) = (got, em)" by fastforce
  have keeps: "em_open em = em_open (pt_emitter t)" "em_auth em = em_auth (pt_emitter t)"
    "em_highest em = em_highest (pt_emitter t)" using emitter_consume_keeps [OF got] by simp_all
  have next_em: "emitter_ok em" "carries_on (pt_emitter t) (case got of Some ev \<Rightarrow> [ev] | None \<Rightarrow> []) em"
    using emitter_step_ok [OF ok, of ConsumeCall] got by (cases got; simp add: emitter_step_def)+
  show ?thesis
  proof (cases got)
    case None
    then show ?thesis
      using ReleaseConsumeCall got next_em emitter_moves [OF assms next_em(1) keeps, of "[]"]
      by (simp add: transport_step_def releases_def)
  next
    case (Some ev)
    then show ?thesis
      using ReleaseConsumeCall got next_em emitter_moves [OF assms next_em(1) keeps, of "[Released ev]"]
      by (simp add: transport_step_def releases_def)
  qed
qed

interpretation transport: emitting_machine "transport_step ser" transport_ok "\<lambda>_. True" proceeds for ser
proof unfold_locales
  show "transport_ok (snd (transport_step ser t c))" if "transport_ok t" for t c
    using transport_step_ok [OF that] by blast
  show "proceeds t (fst (transport_step ser t c)) (snd (transport_step ser t c))" if "transport_ok t" for t c
    using transport_step_ok [OF that] by blast
qed (auto intro: proceeds_nil proceeds_comp)

text \<open>The transport as it is made, with a fresh publisher over a channel for \<open>n\<close> releases.\<close>

definition fresh_transport :: "peer_auth_context \<Rightarrow> usize \<Rightarrow> usize \<Rightarrow> peer_transport" where
  "fresh_transport auth capacity n = transport_new auth capacity (emitter_new (mpsc_new n))"

lemma fresh_transport_ok:
  "transport_ok (fresh_transport auth capacity n)" "covered [] (fresh_transport auth capacity n)"
  "lane_order [] (fresh_transport auth capacity n)" "in_order [] (pt_emitter (fresh_transport auth capacity n))"
  using emitter_new_ok [of n]
  by (simp_all add: fresh_transport_def transport_new_def transport_ok_def slot_ok_def epochs_ok_def release_ok_def
      emergency_frames_def is_tombstoned_def epoch_retired_def mpsc_new_def emergency_capacity_def covered_def
      lane_order_def written_def writer_frame_def accepted_def emitter_new_def)

lemma fresh_transport_run:
  assumes "run (transport_step ser) (fresh_transport auth capacity n) calls = (os, t)"
  shows "transport_ok t" and "covered os t" and "lane_order os t" and "in_order (releases os) (pt_emitter t)"
proof -
  show "transport_ok t"
    using transport.run_inv [of "fresh_transport auth capacity n" calls ser] fresh_transport_ok assms by simp
  have "proceeds (fresh_transport auth capacity n) os t"
    using transport.run_rel [of "fresh_transport auth capacity n" calls ser] fresh_transport_ok assms by simp
  then show "covered os t" "lane_order os t" "in_order (releases os) (pt_emitter t)"
    using fresh_transport_ok unfolding proceeds_def carries_on_def by fastforce+
qed

section \<open>A small history\<close>

text \<open>A peer, frames of one epoch, a serialiser, and the transport they are sent on.\<close>

definition some_peer :: peer_auth_context where
  "some_peer = \<lparr>pa_peer_id = 1, pa_certificate_fingerprint = ''fp'', pa_control_connection_id = 2\<rparr>"

definition some_frame :: "session_epoch \<Rightarrow> reliable_input_event \<Rightarrow> reliable_input_frame" where
  "some_frame e ev =
     \<lparr>lf_protocol_version = 1, lf_session_epoch = e, lf_sequence = 1,
      lf_captured_at = \<lparr>ms_domain = 0, ms_value_us = 0\<rparr>, lf_event = ev\<rparr>"

definition some_ser :: "reliable_input_frame \<Rightarrow> byte list option" where
  "some_ser frame = Some [1]"

definition some_transport :: peer_transport where
  "some_transport = fresh_transport some_peer 1024 4"

definition enter_call :: transport_call where
  "enter_call = ReliableCall (some_frame 5 (EnterEvent ''d'' 0 0))"

definition release_call :: transport_call where
  "release_call = ReliableCall (some_frame 5 (ReleaseAllEvent BackendFailure))"

definition text_call :: transport_call where
  "text_call = ReliableCall (some_frame 5 (TextCommitEvent ''a''))"

lemmas transport_eval = some_transport_def fresh_transport_def transport_new_def some_frame_def some_ser_def
  enter_call_def release_call_def text_call_def transport_step_def
  try_send_reliable_input_def enqueue_reliable_locked_def enqueue_emergency_locked_def is_enter_def is_release_all_def
  retire_def cancel_reliable_through_locked_def epoch_retired_def is_tombstoned_def mpsc_new_def mpsc_try_send_def
  mpsc_recv_def mpsc_capacity_def reliable_capacity_def emergency_capacity_def writer_poll_def writer_recv_def
  start_write_def reliable_encode_def validate_text_commit_size_def emergency_poll_def frame_cancelled_def mark_seen_def
  cancelled_now_def next_frame_def reset_cancelled_reliable_stream_def emitter_new_def Let_def
  max_text_commit_bytes_def max_reliable_input_frame_def

section \<open>The promises\<close>

text \<open>
  C33. An epoch that was retired stays fenced off. Whatever is sent and polled afterwards, no reliable
  frame of it is written, no frame of it is admitted to the reliable lane, the emergency slot or the
  datagrams, and the epoch stays retired; frames already queued or half written are given up.
\<close>

theorem retired_epoch_fenced:
  assumes "run (transport_step ser) (fresh_transport auth capacity n) before = (os, t)"
    and "is_tombstoned e t"
    and "run (transport_step ser) t after = (os', t')"
  shows "is_tombstoned e t' \<and>
    (\<forall>f. lf_session_epoch f \<le> e \<longrightarrow>
       WroteReliable f \<notin> set os' \<and> ReliableResult f (Inr ()) \<notin> set os' \<and>
       EmergencyResult f (Inr ()) \<notin> set os') \<and>
    (\<forall>f. rf_session_epoch f \<le> e \<longrightarrow> RealtimeResult f (Inr RealtimeSent) \<notin> set os')"
proof -
  have "proceeds t os' t'"
    using transport.run_rel [of t after ser] fresh_transport_run(1) [OF assms(1)] assms(3) by simp
  then have fresh: "\<forall>ob\<in>set os'. fresh t ob" and tomb: "is_tombstoned e t'"
    using assms(2) unfolding proceeds_def by auto
  have "is_tombstoned d t" if "d \<le> e" for d using tombstoned_mono [OF assms(2) that] .
  then show ?thesis using tomb fresh by (fastforce simp: fresh_def)
qed

text \<open>The frame the writer opens a stream for is given up once its epoch is released.\<close>

lemma retired_epoch_fenced_witness:
  "let t = snd (run (transport_step some_ser) some_transport [enter_call, WriterCall IoPending, release_call]);
       os = fst (run (transport_step some_ser) t [WriterCall IoOk, text_call])
   in pt_writer t = WriterOpening (some_frame 5 (EnterEvent ''d'' 0 0)) \<and> is_tombstoned 5 t \<and>
      WroteReliable (some_frame 5 (EnterEvent ''d'' 0 0)) \<notin> set os \<and>
      ReliableResult (some_frame 5 (TextCommitEvent ''a'')) (Inr ()) \<notin> set os"
proof -
  let ?r = "run (transport_step some_ser) some_transport [enter_call, WriterCall IoPending, release_call]"
  have retired: "pt_writer (snd ?r) = WriterOpening (some_frame 5 (EnterEvent ''d'' 0 0))" "is_tombstoned 5 (snd ?r)"
    by (simp_all add: transport_eval)
  have "run (transport_step some_ser) (fresh_transport some_peer 1024 4) [enter_call, WriterCall IoPending, release_call]
      = (fst ?r, snd ?r)" by (simp add: some_transport_def)
  note fenced = retired_epoch_fenced [OF this retired(2) prod.collapse [symmetric], of "[WriterCall IoOk, text_call]"]
  have "lf_session_epoch (some_frame 5 ev) \<le> 5" for ev by (simp add: some_frame_def)
  then show ?thesis unfolding Let_def using fenced retired by blast
qed

text \<open>
  C34. No release is lost. When the emergency slot is free again or its writer is gone, the forwarding
  task is at rest and the queue of releases is empty while its consumer is there, then for every
  retired epoch a release of it or of a later one was written to the peer or taken by the consumer.
\<close>

theorem retired_epoch_released:
  assumes "run (transport_step ser) (fresh_transport auth capacity n) calls = (os, t)"
    and "is_tombstoned e t" and "emergency_frames t = []"
    and "mp_queue (em_target (pt_emitter t)) = []" and "em_worker (pt_emitter t) = EmitterWaiting"
    and "em_version (pt_emitter t) = em_seen (pt_emitter t)" and "\<not> mp_closed (em_target (pt_emitter t))"
  shows "(\<exists>f. WroteEmergency f \<in> set os \<and> is_release_all (lf_event f) \<and> e \<le> lf_session_epoch f) \<or>
    (\<exists>ev. Released ev \<in> set os \<and> e \<le> te_epoch ev)"
proof -
  note reached = fresh_transport_run [OF assms(1)]
  have "line (pt_emitter t) = []" using assms(4-6) by (simp add: line_defs)
  then have last: "releases os \<noteq> [] \<and> te_epoch (last (releases os)) = h"
    if "em_highest (pt_emitter t) = Some h" for h
    using reached(4) that assms(7) unfolding in_order_def by simp
  have taken: "Released ev \<in> set os" if "ev \<in> set (releases os)" for ev
    using that by (auto simp: releases_def split: transport_obs.splits)
  have "covers os t e" using reached(2) assms(2) unfolding covered_def by blast
  then show ?thesis
    using last taken last_in_set unfolding covers_def assms(3) by fastforce
qed

lemma retired_epoch_released_witness:
  "let (os, t) = run (transport_step some_ser) some_transport
         [enter_call, release_call, EmergencyWriterCall IoPending, EmergencyWriterCall IoOk]
   in is_tombstoned 5 t \<and>
      ((\<exists>f. WroteEmergency f \<in> set os \<and> is_release_all (lf_event f) \<and> 5 \<le> lf_session_epoch f) \<or>
       (\<exists>ev. Released ev \<in> set os \<and> 5 \<le> te_epoch ev))"
proof -
  let ?calls = "[enter_call, release_call, EmergencyWriterCall IoPending, EmergencyWriterCall IoOk]"
  let ?r = "run (transport_step some_ser) some_transport ?calls"
  have rest: "is_tombstoned 5 (snd ?r)" "emergency_frames (snd ?r) = []"
    "mp_queue (em_target (pt_emitter (snd ?r))) = []" "em_worker (pt_emitter (snd ?r)) = EmitterWaiting"
    "em_version (pt_emitter (snd ?r)) = em_seen (pt_emitter (snd ?r))"
    "\<not> mp_closed (em_target (pt_emitter (snd ?r)))"
    by (simp_all add: transport_eval emergency_frames_def)
  have "run (transport_step some_ser) (fresh_transport some_peer 1024 4) ?calls = (fst ?r, snd ?r)"
    by (simp add: some_transport_def)
  from retired_epoch_released [OF this rest] rest(1) show ?thesis by (simp add: case_prod_beta)
qed

text \<open>
  C35. The reliable lane keeps the order: what was written to the stream is what was admitted, in the
  order of admission, each frame at most once; only frames of failed or retired epochs are missing.
\<close>

theorem reliable_lane_keeps_order:
  assumes "run (transport_step ser) (fresh_transport auth capacity n) calls = (os, t)"
  shows "subseq (written os) (accepted os)"
proof -
  have "subseq (written os) (written os @ writer_frame t @ mp_queue (pt_reliable t))"
    by (rule prefix_imp_subseq) simp
  then show ?thesis
    using fresh_transport_run(3) [OF assms] subseq_order.order_trans unfolding lane_order_def by blast
qed

lemma reliable_lane_keeps_order_witness:
  "let os = fst (run (transport_step some_ser) some_transport
         [enter_call, text_call, WriterCall IoPending, WriterCall IoOk, WriterCall IoOk, WriterCall IoOk,
          WriterCall IoPending, WriterCall IoOk])
   in written os = [some_frame 5 (EnterEvent ''d'' 0 0), some_frame 5 (TextCommitEvent ''a'')] \<and>
      subseq (written os) (accepted os)"
proof -
  let ?calls = "[enter_call, text_call, WriterCall IoPending, WriterCall IoOk, WriterCall IoOk, WriterCall IoOk,
    WriterCall IoPending, WriterCall IoOk]"
  let ?r = "run (transport_step some_ser) some_transport ?calls"
  have "written (fst ?r) = [some_frame 5 (EnterEvent ''d'' 0 0), some_frame 5 (TextCommitEvent ''a'')]"
    by (simp add: transport_eval written_def)
  moreover have "run (transport_step some_ser) (fresh_transport some_peer 1024 4) ?calls = (fst ?r, snd ?r)"
    by (simp add: some_transport_def)
  from reliable_lane_keeps_order [OF this] have "subseq (written (fst ?r)) (accepted (fst ?r))" .
  ultimately show ?thesis unfolding Let_def by blast
qed

end
