(* ===== verification/FileService.thy ===== *)
theory FileService
  imports FileTransfer QosSender
begin

text \<open>
  The service behind file drops (\<open>crates/rshare-net/src/file_transfer.rs\<close>): the offers that wait for
  the user, the transfers that run, the bytes they reserve and publish, and the history. Each method
  locks the jobs once or twice; it is one function on the state. The clock, the free disk space and
  fresh identifiers are arguments. A reason keeps which message of the source it is; texts a peer
  sends are \<open>Said\<close>.
\<close>

section \<open>Data\<close>

datatype file_error =
    UserCancelled | UserRejected | NoSuchTransfer | NoSuchOffer | PeerDisconnected | TooManyTransfers
  | DuplicateTransfer | PeerStagingFull | StagingFull | FolderQuotaFull | PeerFolderQuotaFull | DiskFull
  | SourceCount | PeerNotConnected | TransferUnsupported | FolderDropUnsupported | NoFolderResolver
  | BadFirstSequence | TooManyOffers | PeerTooManyOffers | InboxOverflow
  | RemoteCancelled file_error
  | InvalidManifest manifest_error
  | ConnectionReplaced | SendTimeout | SendFailed transport_send_error | TransferTimeout | TransferClosed
  | RemoteRefused file_error | BadAcknowledgement | NoManifest | NoDropPoint | DropPointGone
  | DropPointNotFolder | NoReceiveFolder | BadChunkOrder | ChunkOutOfRange | IntegrityFailed
  | BadTransferState | Incomplete | DestinationExists | PublishFailed | SymbolicLink | UnreadableSource
  | NotRegularFile | SourceChanged | IoFailed
  | Said ustring

text \<open>
  \<open>chars().take(240)\<close> of a reason: only a text a peer sent can be longer, alone or behind a prefix of
  five characters (or of nine, for a refusal).
\<close>

fun cut_reason :: "nat \<Rightarrow> file_error \<Rightarrow> file_error" where
  "cut_reason n (Said t) = Said (take n t)"
| "cut_reason n (RemoteCancelled r) = RemoteCancelled (cut_reason (n - 5) r)"
| "cut_reason n (RemoteRefused r) = RemoteRefused (cut_reason (n - 9) r)"
| "cut_reason n r = r"

datatype file_transfer_body =
    Offer "file_entry list"
  | Accepted
  | Chunk u32 u64 "byte list"
  | FileEnd u32 "byte list"
  | Received
  | Complete
  | Completed
  | CancelTransfer file_error
  | OfferToFolder "file_entry list" folder_drop_point

record file_transfer_packet =
  fp_transfer_id :: uuid
  fp_sequence :: u64
  fp_body :: file_transfer_body

record file_transfer_snapshot =
  sn_id :: uuid
  sn_peer_id :: uuid
  sn_incoming :: bool
  sn_status :: file_transfer_status
  sn_entries :: "file_entry list"
  sn_entry_count :: usize
  sn_total_bytes :: u64
  sn_transferred_bytes :: u64
  sn_destination :: "ustring option"
  sn_error :: "file_error option"

text \<open>The versions a registered peer has announced.\<close>

record peer_versions =
  pv_folder_drop :: u16
  pv_file_transfer :: u16

type_synonym registered_peer = "peer_auth_context \<times> peer_versions"

record file_job =
  jb_snapshot :: file_transfer_snapshot
  jb_generation :: uuid
  jb_reserved_bytes :: u64
  jb_inbox :: "file_transfer_packet mpsc"
  jb_cancel :: "file_error option"

record pending_offer =
  po_peer :: registered_peer
  po_packet :: file_transfer_packet
  po_snapshot :: file_transfer_snapshot
  po_expires_at :: nat

record file_jobs =
  jo_active :: "(uuid, file_job) hash_map"
  jo_pending :: "(uuid, pending_offer) hash_map"
  jo_history :: "file_transfer_snapshot list"
  jo_reserved_bytes :: u64
  jo_reserved_by_peer :: "(uuid, u64) hash_map"
  jo_published_bytes :: u64
  jo_published_by_peer :: "(uuid, u64) hash_map"

record file_transfer_service =
  fv_jobs :: file_jobs
  fv_rejections :: "(registered_peer \<times> file_transfer_packet) mpsc"
  fv_has_resolver :: bool

definition max_active :: usize where "max_active = 4"
definition history_limit :: usize where "history_limit = 64"
definition max_global_reserved_bytes :: u64 where "max_global_reserved_bytes = 8 * 1024 * 1024 * 1024"
definition max_peer_reserved_bytes :: u64 where "max_peer_reserved_bytes = 4 * 1024 * 1024 * 1024"
definition max_published_bytes :: u64 where "max_published_bytes = 32 * 1024 * 1024 * 1024"
definition max_peer_published_bytes :: u64 where "max_peer_published_bytes = 8 * 1024 * 1024 * 1024"
definition min_free_bytes :: u64 where "min_free_bytes = 256 * 1024 * 1024"
definition max_pending_offers :: usize where "max_pending_offers = 32"
definition max_pending_offers_per_peer :: usize where "max_pending_offers_per_peer = 4"
definition pending_offer_ttl :: nat where "pending_offer_ttl = 30000"

definition sat_add :: "u64 \<Rightarrow> u64 \<Rightarrow> u64" where
  "sat_add a b = min (a + b) u64_max"

definition amount :: "(uuid, u64) hash_map \<Rightarrow> uuid \<Rightarrow> u64" where
  "amount m peer = (case hm_get m peer of Some n \<Rightarrow> n | None \<Rightarrow> 0)"

section \<open>Helpers\<close>

definition service_new :: "u64 \<Rightarrow> bool \<Rightarrow> file_transfer_service" where
  "service_new directory_bytes has_resolver =
     \<lparr>fv_jobs =
        \<lparr>jo_active = [], jo_pending = [], jo_history = [], jo_reserved_bytes = 0, jo_reserved_by_peer = [],
         jo_published_bytes = directory_bytes, jo_published_by_peer = []\<rparr>,
      fv_rejections = mpsc_new 16, fv_has_resolver = has_resolver\<rparr>"

definition prune_pending :: "nat \<Rightarrow> file_jobs \<Rightarrow> file_jobs" where
  "prune_pending now js = js\<lparr>jo_pending := hm_retain (\<lambda>_ offer. now < po_expires_at offer) (jo_pending js)\<rparr>"

text \<open>\<open>push_back\<close>, then \<open>pop_front\<close> while there are more than 64.\<close>

definition push_history :: "file_transfer_snapshot list \<Rightarrow> file_jobs \<Rightarrow> file_jobs" where
  "push_history snaps js =
     (let h = jo_history js @ snaps in js\<lparr>jo_history := drop (length h - history_limit) h\<rparr>)"

definition reject :: "registered_peer \<Rightarrow> file_transfer_packet \<Rightarrow> file_transfer_service \<Rightarrow> file_transfer_service" where
  "reject peer packet s = s\<lparr>fv_rejections := snd (mpsc_try_send (peer, packet) (fv_rejections s))\<rparr>"

definition peer_of :: "registered_peer \<Rightarrow> uuid" where
  "peer_of peer = pa_peer_id (fst peer)"

definition generation_of_peer :: "registered_peer \<Rightarrow> uuid" where
  "generation_of_peer peer = pa_control_connection_id (fst peer)"

definition new_snapshot :: "uuid \<Rightarrow> uuid \<Rightarrow> bool \<Rightarrow> file_transfer_status \<Rightarrow> file_transfer_snapshot" where
  "new_snapshot tid peer incoming status =
     \<lparr>sn_id = tid, sn_peer_id = peer, sn_incoming = incoming, sn_status = status, sn_entries = [],
      sn_entry_count = 0, sn_total_bytes = 0, sn_transferred_bytes = 0, sn_destination = None, sn_error = None\<rparr>"

section \<open>The methods\<close>

definition service_snapshots :: "nat \<Rightarrow> file_jobs \<Rightarrow> file_transfer_snapshot list \<times> file_jobs" where
  "service_snapshots now js =
     (let js = prune_pending now js
      in (sort_key sn_id (map (jb_snapshot \<circ> snd) (jo_active js)) @
          sort_key sn_id (map (po_snapshot \<circ> snd) (jo_pending js)) @ rev (jo_history js), js))"

definition record_folder_drag_failure :: "uuid \<Rightarrow> uuid \<Rightarrow> file_error \<Rightarrow> file_jobs \<Rightarrow> file_jobs" where
  "record_folder_drag_failure fresh_id peer_id err js =
     push_history [(new_snapshot fresh_id peer_id False TransferFailed)\<lparr>sn_error := Some err\<rparr>] js"

text \<open>The value of the cancellation watch of a job is replaced.\<close>

definition cancel_job :: "uuid \<Rightarrow> file_error \<Rightarrow> file_jobs \<Rightarrow> file_jobs" where
  "cancel_job tid reason js =
     (case hm_get (jo_active js) tid of
        Some job \<Rightarrow> js\<lparr>jo_active := hm_put tid (job\<lparr>jb_cancel := Some reason\<rparr>) (jo_active js)\<rparr>
      | None \<Rightarrow> js)"

definition cancel_transfer ::
  "nat \<Rightarrow> uuid \<Rightarrow> file_transfer_service \<Rightarrow> (file_error + unit) \<times> file_transfer_service" where
  "cancel_transfer now tid s =
     (let js = prune_pending now (fv_jobs s); s = s\<lparr>fv_jobs := js\<rparr>
      in if hm_get (jo_active js) tid \<noteq> None then (Inr (), s\<lparr>fv_jobs := cancel_job tid UserCancelled js\<rparr>)
         else case hm_get (jo_pending js) tid of
           Some offer \<Rightarrow>
             (Inr (),
              (reject (po_peer offer)
                 \<lparr>fp_transfer_id = tid, fp_sequence = fp_sequence (po_packet offer),
                  fp_body = CancelTransfer UserRejected\<rparr> s)
              \<lparr>fv_jobs :=
                 push_history
                   [(po_snapshot offer)\<lparr>sn_status := TransferCancelled, sn_error := Some UserRejected\<rparr>]
                   (js\<lparr>jo_pending := hm_del tid (jo_pending js)\<rparr>)\<rparr>)
         | None \<Rightarrow>
             if \<exists>h\<in>set (jo_history js). sn_id h = tid then (Inr (), s) else (Inl NoSuchTransfer, s))"

text \<open>A reservation: the quota that refuses it, or the jobs with the bytes set aside.\<close>

definition reserve_bytes :: "u64 option \<Rightarrow> uuid \<Rightarrow> u64 \<Rightarrow> file_jobs \<Rightarrow> file_error + file_jobs" where
  "reserve_bytes free peer n js =
     (if max_peer_reserved_bytes < n \<or>
         max_peer_reserved_bytes < sat_add (amount (jo_reserved_by_peer js) peer) n
      then Inl PeerStagingFull
      else if max_global_reserved_bytes < sat_add (jo_reserved_bytes js) n then Inl StagingFull
      else if max_published_bytes < sat_add (sat_add (jo_published_bytes js) (jo_reserved_bytes js)) n
      then Inl FolderQuotaFull
      else if max_peer_published_bytes <
              sat_add (sat_add (amount (jo_published_by_peer js) peer) (amount (jo_reserved_by_peer js) peer)) n
      then Inl PeerFolderQuotaFull
      else if \<not> (case free of Some f \<Rightarrow> sat_add n min_free_bytes \<le> f | None \<Rightarrow> False) then Inl DiskFull
      else Inr (js\<lparr>jo_reserved_bytes := sat_add (jo_reserved_bytes js) n,
                  jo_reserved_by_peer :=
                    hm_put peer (sat_add (amount (jo_reserved_by_peer js) peer) n) (jo_reserved_by_peer js)\<rparr>))"

definition register_job ::
  "u64 option \<Rightarrow> uuid \<Rightarrow> registered_peer \<Rightarrow> bool \<Rightarrow> u64 \<Rightarrow> file_jobs \<Rightarrow> file_error + file_jobs" where
  "register_job free tid peer incoming reserved js =
     (if max_active \<le> length (jo_active js) then Inl TooManyTransfers
      else if hm_get (jo_active js) tid \<noteq> None \<or> (\<exists>h\<in>set (jo_history js). sn_id h = tid) then Inl DuplicateTransfer
      else case (if incoming \<and> 0 < reserved then reserve_bytes free (peer_of peer) reserved js else Inr js) of
        Inl e \<Rightarrow> Inl e
      | Inr js \<Rightarrow>
          Inr (js\<lparr>jo_active :=
                hm_put tid
                  \<lparr>jb_snapshot = new_snapshot tid (peer_of peer) incoming Preparing,
                   jb_generation = generation_of_peer peer, jb_reserved_bytes = reserved,
                   jb_inbox = mpsc_new 4, jb_cancel = None\<rparr> (jo_active js)\<rparr>))"

text \<open>
  Approving an offer locks the jobs for each of its three parts: the offer is taken, it is registered
  (or the peer is told why not), and a refusal is recorded. Other calls may come in between.
\<close>

definition approve_take ::
  "nat \<Rightarrow> uuid \<Rightarrow> file_transfer_service \<Rightarrow> (file_error + pending_offer) \<times> file_transfer_service" where
  "approve_take now tid s =
     (let js = prune_pending now (fv_jobs s)
      in case hm_get (jo_pending js) tid of
           None \<Rightarrow> (Inl NoSuchOffer, s\<lparr>fv_jobs := js\<rparr>)
         | Some offer \<Rightarrow> (Inr offer, s\<lparr>fv_jobs := js\<lparr>jo_pending := hm_del tid (jo_pending js)\<rparr>\<rparr>))"

definition approve_register ::
  "u64 option \<Rightarrow> uuid \<Rightarrow> pending_offer \<Rightarrow> file_transfer_service
     \<Rightarrow> (file_error + registered_peer \<times> file_transfer_packet) \<times> file_transfer_service" where
  "approve_register free tid offer s =
     (case register_job free tid (po_peer offer) True (sn_total_bytes (po_snapshot offer)) (fv_jobs s) of
        Inr js \<Rightarrow> (Inr (po_peer offer, po_packet offer), s\<lparr>fv_jobs := js\<rparr>)
      | Inl reason \<Rightarrow>
          (Inl reason,
           reject (po_peer offer) \<lparr>fp_transfer_id = tid, fp_sequence = 0, fp_body = CancelTransfer reason\<rparr> s))"

definition approve_record :: "pending_offer \<Rightarrow> file_error \<Rightarrow> file_transfer_service \<Rightarrow> file_transfer_service" where
  "approve_record offer reason s =
     s\<lparr>fv_jobs :=
       push_history [(po_snapshot offer)\<lparr>sn_status := TransferFailed, sn_error := Some reason\<rparr>] (fv_jobs s)\<rparr>"

definition approve_incoming ::
  "nat \<Rightarrow> u64 option \<Rightarrow> uuid \<Rightarrow> file_transfer_service
     \<Rightarrow> (file_error + registered_peer \<times> file_transfer_packet) \<times> file_transfer_service" where
  "approve_incoming now free tid s =
     (case approve_take now tid s of
        (Inl e, s) \<Rightarrow> (Inl e, s)
      | (Inr offer, s) \<Rightarrow>
          (case approve_register free tid offer s of
             (Inr r, s) \<Rightarrow> (Inr r, s)
           | (Inl reason, s) \<Rightarrow> (Inl reason, approve_record offer reason s)))"

definition service_disconnect :: "nat \<Rightarrow> uuid \<Rightarrow> uuid \<Rightarrow> file_jobs \<Rightarrow> file_jobs" where
  "service_disconnect now peer generation js =
     (let js = prune_pending now js;
          mine = (\<lambda>offer. peer_of (po_peer offer) = peer \<and> generation_of_peer (po_peer offer) = generation);
          gone = filter (\<lambda>e. mine (snd e)) (jo_pending js);
          js = push_history
                 (map (\<lambda>e. (po_snapshot (snd e))
                    \<lparr>sn_status := TransferCancelled, sn_error := Some PeerDisconnected\<rparr>) gone)
                 (js\<lparr>jo_pending := hm_retain (\<lambda>_ offer. \<not> mine offer) (jo_pending js)\<rparr>)
      in js\<lparr>jo_active :=
           map (\<lambda>(tid, job).
             (tid, if sn_peer_id (jb_snapshot job) = peer \<and> jb_generation job = generation
                  then job\<lparr>jb_cancel := Some PeerDisconnected\<rparr> else job)) (jo_active js)\<rparr>)"

definition start_send ::
  "peer_versions connection_registry \<Rightarrow> uuid \<Rightarrow> uuid \<Rightarrow> usize \<Rightarrow> bool \<Rightarrow> file_jobs
     \<Rightarrow> (file_error + registered_peer \<times> file_transfer_snapshot) \<times> file_jobs" where
  "start_send reg fresh_id peer_id n_paths to_folder js =
     (if n_paths = 0 \<or> max_file_entries < n_paths then (Inl SourceCount, js)
      else case registry_peer peer_id reg of
        None \<Rightarrow> (Inl PeerNotConnected, js)
      | Some peer \<Rightarrow>
          if pv_file_transfer (snd peer) \<noteq> 1 then (Inl TransferUnsupported, js)
          else if to_folder \<and> pv_folder_drop (snd peer) \<noteq> 1 then (Inl FolderDropUnsupported, js)
          else case register_job None fresh_id peer False 0 js of
            Inl e \<Rightarrow> (Inl e, js)
          | Inr js \<Rightarrow> (Inr (peer, new_snapshot fresh_id (peer_of peer) False Preparing), js))"

text \<open>The clock is read again for the time at which the offer expires.\<close>

definition queue_pending_offer ::
  "nat \<Rightarrow> uuid \<Rightarrow> registered_peer \<Rightarrow> file_transfer_packet \<Rightarrow> file_entry list \<Rightarrow> u64 \<Rightarrow> file_jobs
     \<Rightarrow> (file_error + unit) \<times> file_jobs" where
  "queue_pending_offer now tid peer packet entries tot js =
     (let js = prune_pending now js
      in if hm_get (jo_active js) tid \<noteq> None \<or> hm_get (jo_pending js) tid \<noteq> None \<or>
            (\<exists>h\<in>set (jo_history js). sn_id h = tid)
         then (Inl DuplicateTransfer, js)
         else if max_pending_offers \<le> length (jo_pending js) then (Inl TooManyOffers, js)
         else if max_pending_offers_per_peer \<le>
                 length (filter (\<lambda>e. peer_of (po_peer (snd e)) = peer_of peer) (jo_pending js))
         then (Inl PeerTooManyOffers, js)
         else (Inr (), js\<lparr>jo_pending :=
                hm_put tid
                  \<lparr>po_peer = peer, po_packet = packet,
                   po_snapshot = (new_snapshot tid (peer_of peer) True Waiting)
                     \<lparr>sn_entries := take 8 entries, sn_entry_count := length entries, sn_total_bytes := tot\<rparr>,
                   po_expires_at = now + pending_offer_ttl\<rparr> (jo_pending js)\<rparr>))"

text \<open>What \<open>receive\<close> does with the two kinds of packets that are not for a running transfer.\<close>

definition offered_entries :: "file_transfer_body \<Rightarrow> file_entry list option" where
  "offered_entries body = (case body of Offer es \<Rightarrow> Some es | OfferToFolder es _ \<Rightarrow> Some es | _ \<Rightarrow> None)"

definition is_folder_offer :: "file_transfer_body \<Rightarrow> bool" where
  "is_folder_offer body = (case body of OfferToFolder _ _ \<Rightarrow> True | _ \<Rightarrow> False)"

definition receive_offer ::
  "(ustring \<Rightarrow> ustring) \<Rightarrow> nat \<Rightarrow> registered_peer \<Rightarrow> file_transfer_packet \<Rightarrow> file_entry list
     \<Rightarrow> file_transfer_service \<Rightarrow> file_transfer_service" where
  "receive_offer lower now peer packet entries s =
     (let (result, s) =
        (case validate_manifest lower entries of
           Inl e \<Rightarrow> (Inl (InvalidManifest e), s)
         | Inr tot \<Rightarrow>
             if is_folder_offer (fp_body packet) \<and> (pv_folder_drop (snd peer) \<noteq> 1 \<or> \<not> fv_has_resolver s)
             then (Inl NoFolderResolver, s)
             else if fp_sequence packet \<noteq> 0 then (Inl BadFirstSequence, s)
             else (case queue_pending_offer now (fp_transfer_id packet) peer packet entries tot (fv_jobs s) of
                     (r, js) \<Rightarrow> (r, s\<lparr>fv_jobs := js\<rparr>)))
      in case result of
           Inr _ \<Rightarrow> s
         | Inl e \<Rightarrow>
             reject peer
               \<lparr>fp_transfer_id = fp_transfer_id packet, fp_sequence = fp_sequence packet, fp_body = CancelTransfer e\<rparr> s)"

definition receive_packet ::
  "(ustring \<Rightarrow> ustring) \<Rightarrow> peer_versions connection_registry \<Rightarrow> nat \<Rightarrow> uuid \<Rightarrow> uuid \<Rightarrow> file_transfer_packet
     \<Rightarrow> file_transfer_service \<Rightarrow> file_transfer_service" where
  "receive_packet lower reg now peer_id generation packet s =
     (case registry_peer peer_id reg of
        None \<Rightarrow> s
      | Some peer \<Rightarrow>
          if generation_of_peer peer \<noteq> generation \<or> pv_file_transfer (snd peer) \<noteq> 1 then s
          else case offered_entries (fp_body packet) of
            Some entries \<Rightarrow> receive_offer lower now peer packet entries s
          | None \<Rightarrow>
              let js = fv_jobs s; tid = fp_transfer_id packet;
                  cancelled = (case fp_body packet of CancelTransfer r \<Rightarrow> Some (RemoteCancelled (cut_reason 240 r)) | _ \<Rightarrow> None);
                  offer = (case hm_get (jo_pending js) tid of
                             Some offer \<Rightarrow>
                               if peer_of (po_peer offer) = peer_id \<and> generation_of_peer (po_peer offer) = generation
                               then Some offer else None
                           | None \<Rightarrow> None)
              in case (cancelled, offer) of
                   (Some reason, Some offer) \<Rightarrow>
                     s\<lparr>fv_jobs :=
                       push_history [(po_snapshot offer)\<lparr>sn_status := TransferCancelled, sn_error := Some reason\<rparr>]
                         (js\<lparr>jo_pending := hm_del tid (jo_pending js)\<rparr>)\<rparr>
                 | _ \<Rightarrow>
                     (case hm_get (jo_active js) tid of
                        None \<Rightarrow> s
                      | Some job \<Rightarrow>
                          if sn_peer_id (jb_snapshot job) \<noteq> peer_id \<or> jb_generation job \<noteq> generation then s
                          else case cancelled of
                            Some reason \<Rightarrow> s\<lparr>fv_jobs := cancel_job tid reason js\<rparr>
                          | None \<Rightarrow>
                              (case mpsc_try_send packet (jb_inbox job) of
                                 (Inr _, ch) \<Rightarrow>
                                   s\<lparr>fv_jobs := js\<lparr>jo_active := hm_put tid (job\<lparr>jb_inbox := ch\<rparr>) (jo_active js)\<rparr>\<rparr>
                               | (Inl _, _) \<Rightarrow> s\<lparr>fv_jobs := cancel_job tid InboxOverflow js\<rparr>)))"

definition update_job ::
  "uuid \<Rightarrow> (file_transfer_snapshot \<Rightarrow> file_transfer_snapshot) \<Rightarrow> file_jobs \<Rightarrow> file_jobs" where
  "update_job tid f js =
     (case hm_get (jo_active js) tid of
        Some job \<Rightarrow> js\<lparr>jo_active := hm_put tid (job\<lparr>jb_snapshot := f (jb_snapshot job)\<rparr>) (jo_active js)\<rparr>
      | None \<Rightarrow> js)"

text \<open>The reservation is given back; what a receive published counts from then on.\<close>

definition unreserve :: "file_job \<Rightarrow> file_jobs \<Rightarrow> file_jobs" where
  "unreserve job js =
     (if jb_reserved_bytes job = 0 then js
      else let peer = sn_peer_id (jb_snapshot job);
               js = js\<lparr>jo_reserved_bytes := jo_reserved_bytes js - jb_reserved_bytes job\<rparr>
      in case hm_get (jo_reserved_by_peer js) peer of
           None \<Rightarrow> js
         | Some reserved \<Rightarrow>
             let left = reserved - jb_reserved_bytes job
             in js\<lparr>jo_reserved_by_peer :=
                  (if left = 0 then hm_del peer (jo_reserved_by_peer js)
                   else hm_put peer left (jo_reserved_by_peer js))\<rparr>)"

definition count_published :: "file_transfer_snapshot \<Rightarrow> file_jobs \<Rightarrow> file_jobs" where
  "count_published snap js =
     js\<lparr>jo_published_bytes := sat_add (jo_published_bytes js) (sn_total_bytes snap),
        jo_published_by_peer :=
          hm_put (sn_peer_id snap) (sat_add (amount (jo_published_by_peer js) (sn_peer_id snap)) (sn_total_bytes snap))
            (jo_published_by_peer js)\<rparr>"

definition finish_job ::
  "uuid \<Rightarrow> file_transfer_status \<Rightarrow> file_error option \<Rightarrow> file_jobs \<Rightarrow> file_jobs" where
  "finish_job tid status err js =
     (case hm_get (jo_active js) tid of
        None \<Rightarrow> js
      | Some job \<Rightarrow>
          let js = unreserve job (js\<lparr>jo_active := hm_del tid (jo_active js)\<rparr>);
              snap = (jb_snapshot job)\<lparr>sn_status := status, sn_error := err\<rparr>
          in push_history [snap]
               (if status = TransferCompleted \<and> sn_incoming snap then count_published snap js else js))"

end
