(* ===== verification/FileSession.thy ===== *)
theory FileSession
  imports FileService
begin

text \<open>
  The two ends of one file drop (\<open>Session\<close> in \<open>crates/rshare-net/src/file_transfer.rs\<close>). The receiver
  goes from one \<open>await\<close> to the next: its phase is what it waits for, and the answer of the file
  system or of the lane is an argument of the step. The sender is straight code over an exchange
  of one packet for one acknowledgement; what it exchanges with is an argument. The hash is an
  argument too; files hold the bytes written to them.
\<close>

definition file_chunk_bytes :: usize where "file_chunk_bytes = 64 * 1024"

section \<open>The receiver\<close>

datatype rx_phase =
    RxStart file_transfer_packet
  | RxResolving bool "file_entry list" u64
  | RxPreparing
  | RxAccepting
  | RxWaiting
  | RxAcking
  | RxCommitting
  | RxPublishing
  | RxCompleting
  | RxFailing file_error bool
  | RxOver

text \<open>
  The entries still to come with their place in the manifest (directories are skipped), the sequence
  number expected next, the bytes of the file being received, and the files done.
\<close>

record rx_session =
  rx_phase :: rx_phase
  rx_into_folder :: bool
  rx_files :: "(nat \<times> file_entry) list"
  rx_sequence :: u64
  rx_data :: "byte list"
  rx_staged :: "(ustring \<times> byte list) list"

definition files_of :: "file_entry list \<Rightarrow> (nat \<times> file_entry) list" where
  "files_of entries = filter (\<lambda>(_, e). \<not> fe_directory e) (enumerate 0 entries)"

definition rx_new :: "file_transfer_packet \<Rightarrow> rx_session" where
  "rx_new packet =
     \<lparr>rx_phase = RxStart packet, rx_into_folder = False, rx_files = [], rx_sequence = 0, rx_data = [],
      rx_staged = []\<rparr>"

text \<open>The place for the files is there; the tree of the manifest is prepared next.\<close>

definition rx_begin :: "bool \<Rightarrow> file_entry list \<Rightarrow> rx_session \<Rightarrow> rx_session" where
  "rx_begin into_folder entries rx =
     rx\<lparr>rx_phase := RxPreparing, rx_into_folder := into_folder, rx_files := files_of entries, rx_sequence := 0\<rparr>"

text \<open>A packet of a running transfer.\<close>

definition rx_packet ::
  "(byte list \<Rightarrow> byte list) \<Rightarrow> file_transfer_packet \<Rightarrow> rx_session \<Rightarrow> file_error + rx_session" where
  "rx_packet sha packet rx =
     (case rx_files rx of
        [] \<Rightarrow>
          if fp_sequence packet \<noteq> rx_sequence rx \<or> fp_body packet \<noteq> Complete then Inl Incomplete
          else Inr (rx\<lparr>rx_phase := RxCommitting\<rparr>)
      | (index, entry) # rest \<Rightarrow>
          if fp_sequence packet \<noteq> rx_sequence rx then Inl BadChunkOrder
          else case fp_body packet of
            Chunk file_index at d \<Rightarrow>
              if file_index \<noteq> index \<or> at \<noteq> length (rx_data rx) \<or> d = [] \<or> file_chunk_bytes < length d \<or>
                 fe_size entry < length (rx_data rx) + length d
              then Inl ChunkOutOfRange
              else Inr (rx\<lparr>rx_data := rx_data rx @ d, rx_phase := RxAcking\<rparr>)
          | FileEnd file_index digest \<Rightarrow>
              if file_index \<noteq> index \<or> length (rx_data rx) \<noteq> fe_size entry \<or> sha (rx_data rx) \<noteq> digest
              then Inl IntegrityFailed
              else Inr (rx\<lparr>rx_staged := rx_staged rx @ [(fe_path entry, rx_data rx)], rx_data := [],
                           rx_files := rest, rx_phase := RxAcking\<rparr>)
          | _ \<Rightarrow> Inl BadTransferState)"

text \<open>An acknowledgement was written; the next packet carries the next number.\<close>

definition rx_acked :: "rx_session \<Rightarrow> rx_session" where
  "rx_acked rx = rx\<lparr>rx_sequence := rx_sequence rx + 1, rx_phase := RxWaiting\<rparr>"

subsection \<open>The session in the service\<close>

datatype session_answer = AnswerPending | AnswerOk | AnswerErr file_error

datatype session_obs =
    SentPacket uuid file_transfer_packet
  | Published uuid "(ustring \<times> byte list) list"
  | PartlyPublished uuid "(ustring \<times> byte list) list"

definition cancel_of :: "uuid \<Rightarrow> file_transfer_service \<Rightarrow> file_error option" where
  "cancel_of tid s =
     (case hm_get (jo_active (fv_jobs s)) tid of Some job \<Rightarrow> jb_cancel job | None \<Rightarrow> None)"

text \<open>The outcome of \<open>write\<close>: still waiting, an error, or written.\<close>

definition session_write ::
  "peer_versions connection_registry \<Rightarrow> registered_peer \<Rightarrow> bool \<Rightarrow> file_error option \<Rightarrow> session_answer
     \<Rightarrow> (file_error + unit) option" where
  "session_write reg peer terminal cancelled answer =
     (case registry_peer (peer_of peer) reg of
        None \<Rightarrow> Some (Inl PeerDisconnected)
      | Some current \<Rightarrow>
          if generation_of_peer current \<noteq> generation_of_peer peer then Some (Inl ConnectionReplaced)
          else case (if terminal then None else cancelled) of
            Some reason \<Rightarrow> Some (Inl reason)
          | None \<Rightarrow>
              (case answer of AnswerPending \<Rightarrow> None | AnswerOk \<Rightarrow> Some (Inr ()) | AnswerErr e \<Rightarrow> Some (Inl e)))"

definition rx_fail :: "uuid \<Rightarrow> file_error \<Rightarrow> rx_session \<Rightarrow> file_transfer_service \<Rightarrow> rx_session" where
  "rx_fail tid reason rx s = rx\<lparr>rx_phase := RxFailing reason (cancel_of tid s \<noteq> None)\<rparr>"

definition update_service ::
  "uuid \<Rightarrow> (file_transfer_snapshot \<Rightarrow> file_transfer_snapshot) \<Rightarrow> file_transfer_service \<Rightarrow> file_transfer_service" where
  "update_service tid f s = s\<lparr>fv_jobs := update_job tid f (fv_jobs s)\<rparr>"

definition finish_service ::
  "uuid \<Rightarrow> file_transfer_status \<Rightarrow> file_error option \<Rightarrow> file_transfer_service \<Rightarrow> file_transfer_service" where
  "finish_service tid status err s = s\<lparr>fv_jobs := finish_job tid status err (fv_jobs s)\<rparr>"

text \<open>A packet that waits in the inbox of the job.\<close>

definition take_packet ::
  "uuid \<Rightarrow> file_transfer_service \<Rightarrow> file_transfer_packet option \<times> file_transfer_service" where
  "take_packet tid s =
     (case hm_get (jo_active (fv_jobs s)) tid of
        None \<Rightarrow> (None, s)
      | Some job \<Rightarrow>
          (case mpsc_recv (jb_inbox job) of
             (None, _) \<Rightarrow> (None, s)
           | (Some packet, ch) \<Rightarrow>
               (Some packet,
                s\<lparr>fv_jobs := (fv_jobs s)
                    \<lparr>jo_active := hm_put tid (job\<lparr>jb_inbox := ch\<rparr>) (jo_active (fv_jobs s))\<rparr>\<rparr>)))"

definition the_packet :: "uuid \<Rightarrow> u64 \<Rightarrow> file_transfer_body \<Rightarrow> file_transfer_packet" where
  "the_packet tid sequence body = \<lparr>fp_transfer_id = tid, fp_sequence = sequence, fp_body = body\<rparr>"

definition rx_start ::
  "(ustring \<Rightarrow> ustring) \<Rightarrow> uuid \<Rightarrow> file_transfer_packet \<Rightarrow> rx_session \<Rightarrow> file_transfer_service \<Rightarrow> rx_session" where
  "rx_start lower tid packet rx s =
     (case cancel_of tid s of
        Some reason \<Rightarrow> rx_fail tid reason rx s
      | None \<Rightarrow>
          (case offered_entries (fp_body packet) of
             None \<Rightarrow> rx_fail tid NoManifest rx s
           | Some entries \<Rightarrow>
               (case validate_manifest lower entries of
                  Inl e \<Rightarrow> rx_fail tid (InvalidManifest e) rx s
                | Inr tot \<Rightarrow>
                    if is_folder_offer (fp_body packet) \<and> \<not> fv_has_resolver s then rx_fail tid NoFolderResolver rx s
                    else rx\<lparr>rx_phase := RxResolving (is_folder_offer (fp_body packet)) entries tot\<rparr>)))"

text \<open>The folder is resolved and the staging directory made; a cancellation is not seen before that.\<close>

definition rx_resolve ::
  "session_answer \<Rightarrow> uuid \<Rightarrow> bool \<Rightarrow> file_entry list \<Rightarrow> u64 \<Rightarrow> rx_session \<Rightarrow> file_transfer_service
     \<Rightarrow> rx_session \<times> file_transfer_service" where
  "rx_resolve answer tid into_folder entries tot rx s =
     (case answer of
        AnswerPending \<Rightarrow> (rx, s)
      | AnswerErr e \<Rightarrow> (rx_fail tid e rx s, s)
      | AnswerOk \<Rightarrow>
          (rx_begin into_folder entries rx,
           update_service tid
             (\<lambda>sn. sn\<lparr>sn_entries := take 8 entries, sn_entry_count := length entries,
                     sn_total_bytes := tot, sn_status := Transferring\<rparr>) s))"

text \<open>The directories of the manifest are created; a cancellation is looked for before each.\<close>

definition rx_prepare :: "session_answer \<Rightarrow> uuid \<Rightarrow> rx_session \<Rightarrow> file_transfer_service \<Rightarrow> rx_session" where
  "rx_prepare answer tid rx s =
     (case cancel_of tid s of
        Some reason \<Rightarrow> rx_fail tid reason rx s
      | None \<Rightarrow>
          (case answer of
             AnswerPending \<Rightarrow> rx
           | AnswerErr e \<Rightarrow> rx_fail tid e rx s
           | AnswerOk \<Rightarrow> rx\<lparr>rx_phase := RxAccepting\<rparr>))"

definition chunk_size :: "file_transfer_packet \<Rightarrow> u64" where
  "chunk_size packet = (case fp_body packet of Chunk _ _ d \<Rightarrow> length d | _ \<Rightarrow> 0)"

text \<open>The next packet, unless the transfer is cancelled or nothing came for thirty seconds.\<close>

definition rx_next ::
  "(byte list \<Rightarrow> byte list) \<Rightarrow> session_answer \<Rightarrow> uuid \<Rightarrow> rx_session \<Rightarrow> file_transfer_service
     \<Rightarrow> rx_session \<times> file_transfer_service" where
  "rx_next sha answer tid rx s =
     (case cancel_of tid s of
        Some reason \<Rightarrow> (rx_fail tid reason rx s, s)
      | None \<Rightarrow>
          (case take_packet tid s of
             (None, s) \<Rightarrow> (case answer of AnswerErr e \<Rightarrow> (rx_fail tid e rx s, s) | _ \<Rightarrow> (rx, s))
           | (Some packet, s) \<Rightarrow>
               (case rx_packet sha packet rx of
                  Inl e \<Rightarrow> (rx_fail tid e rx s, s)
                | Inr rx' \<Rightarrow>
                    (case answer of
                       AnswerErr e \<Rightarrow> (rx_fail tid e rx s, s)
                     | _ \<Rightarrow>
                         (rx', if chunk_size packet = 0 then s
                               else update_service tid
                                 (\<lambda>sn. sn\<lparr>sn_transferred_bytes := sn_transferred_bytes sn + chunk_size packet\<rparr>) s)))))"

text \<open>Everything has arrived: does the place exist already (for a folder drop nothing is asked)?\<close>

definition name_destination :: "uuid \<Rightarrow> ustring \<Rightarrow> file_transfer_service \<Rightarrow> file_transfer_service" where
  "name_destination tid destination = update_service tid (\<lambda>sn. sn\<lparr>sn_destination := Some destination\<rparr>)"

definition rx_commit ::
  "session_answer \<Rightarrow> uuid \<Rightarrow> ustring \<Rightarrow> rx_session \<Rightarrow> file_transfer_service
     \<Rightarrow> rx_session \<times> file_transfer_service" where
  "rx_commit answer tid destination rx s =
     (case (if rx_into_folder rx then AnswerOk else answer) of
        AnswerPending \<Rightarrow> (rx, s)
      | AnswerErr e \<Rightarrow> (rx_fail tid e rx s, s)
      | AnswerOk \<Rightarrow>
          (case cancel_of tid s of
             Some reason \<Rightarrow> (rx_fail tid reason rx s, s)
           | None \<Rightarrow>
               (rx\<lparr>rx_phase := RxPublishing\<rparr>,
                if rx_into_folder rx then name_destination tid destination s else s)))"

text \<open>
  The staged tree is renamed into place, which no cancellation stops. Into a folder each item of its
  top level is renamed on its own: when one fails, those \<open>moved\<close> before it stay. (An item whose name is
  taken is given another; the paths are the ones of the manifest.)
\<close>

definition moved_files :: "ustring list \<Rightarrow> (ustring \<times> byte list) list \<Rightarrow> (ustring \<times> byte list) list" where
  "moved_files moved = filter (\<lambda>f. hd (split_on (cp CHR ''/'') (fst f)) \<in> set moved)"

definition rx_publish ::
  "session_answer \<Rightarrow> uuid \<Rightarrow> ustring \<Rightarrow> ustring list \<Rightarrow> rx_session \<Rightarrow> file_transfer_service
     \<Rightarrow> session_obs list \<times> rx_session \<times> file_transfer_service" where
  "rx_publish answer tid destination moved rx s =
     (case answer of
        AnswerPending \<Rightarrow> ([], rx, s)
      | AnswerErr e \<Rightarrow>
          (if rx_into_folder rx then [PartlyPublished tid (moved_files moved (rx_staged rx))] else [],
           rx_fail tid e rx s, s)
      | AnswerOk \<Rightarrow>
          ([Published tid (rx_staged rx)], rx\<lparr>rx_phase := RxCompleting\<rparr>,
           finish_service tid TransferCompleted None (name_destination tid destination s)))"

text \<open>A receive that completed is finished once more when its task returns.\<close>

definition rx_poll ::
  "(ustring \<Rightarrow> ustring) \<Rightarrow> (byte list \<Rightarrow> byte list) \<Rightarrow> peer_versions connection_registry \<Rightarrow> session_answer
     \<Rightarrow> uuid \<Rightarrow> registered_peer \<Rightarrow> ustring \<Rightarrow> ustring list \<Rightarrow> rx_session \<Rightarrow> file_transfer_service
     \<Rightarrow> session_obs list \<times> rx_session \<times> file_transfer_service" where
  "rx_poll lower sha reg answer tid peer destination moved rx s =
     (let sent = (\<lambda>sequence body. [SentPacket (peer_of peer) (the_packet tid sequence body)])
      in case rx_phase rx of
           RxStart packet \<Rightarrow> ([], rx_start lower tid packet rx s, s)
         | RxResolving into_folder entries tot \<Rightarrow> ([], rx_resolve answer tid into_folder entries tot rx s)
         | RxPreparing \<Rightarrow> ([], rx_prepare answer tid rx s, s)
         | RxAccepting \<Rightarrow>
             (case session_write reg peer False (cancel_of tid s) answer of
                None \<Rightarrow> ([], rx, s)
              | Some (Inl e) \<Rightarrow> ([], rx_fail tid e rx s, s)
              | Some (Inr _) \<Rightarrow> (sent 0 Accepted, rx_acked rx, s))
         | RxWaiting \<Rightarrow> ([], rx_next sha answer tid rx s)
         | RxAcking \<Rightarrow>
             (case session_write reg peer False (cancel_of tid s) answer of
                None \<Rightarrow> ([], rx, s)
              | Some (Inl e) \<Rightarrow> ([], rx_fail tid e rx s, s)
              | Some (Inr _) \<Rightarrow> (sent (rx_sequence rx) Received, rx_acked rx, s))
         | RxCommitting \<Rightarrow> ([], rx_commit answer tid destination rx s)
         | RxPublishing \<Rightarrow> rx_publish answer tid destination moved rx s
         | RxCompleting \<Rightarrow>
             (let over = (rx\<lparr>rx_phase := RxOver\<rparr>, finish_service tid TransferCompleted None s)
              in case session_write reg peer True None answer of
                   None \<Rightarrow> ([], rx, s)
                 | Some (Inl _) \<Rightarrow> ([], over)
                 | Some (Inr _) \<Rightarrow> (sent (rx_sequence rx) Completed, over))
         | RxFailing reason cancelled \<Rightarrow>
             (let over = (rx\<lparr>rx_phase := RxOver\<rparr>,
                          finish_service tid (if cancelled then TransferCancelled else TransferFailed) (Some reason) s)
              in case session_write reg peer True None answer of
                   None \<Rightarrow> ([], rx, s)
                 | Some (Inl _) \<Rightarrow> ([], over)
                 | Some (Inr _) \<Rightarrow> (sent 0 (CancelTransfer reason), over))
         | RxOver \<Rightarrow> ([], rx, s))"

section \<open>The sender\<close>

text \<open>
  A source as the sender finds it: its entry, whether it has become a symbolic link, what opening it
  gives (the flag is whether it is a regular file) and the results of reading it.
\<close>

record drop_source =
  ds_entry :: file_entry
  ds_symlink :: bool
  ds_open :: "file_error + bool"
  ds_reads :: "(file_error + byte list) list"

text \<open>One packet is written and the next one received is the answer.\<close>

type_synonym 's file_link = "u64 \<Rightarrow> file_transfer_body \<Rightarrow> 's \<Rightarrow> (file_error + file_transfer_packet) \<times> 's"

definition exchange ::
  "'s file_link \<Rightarrow> u64 \<Rightarrow> file_transfer_body \<Rightarrow> file_transfer_body \<Rightarrow> 's \<Rightarrow> (file_error + unit) \<times> 's" where
  "exchange link sequence body expected s =
     (case link sequence body s of
        (Inl e, s) \<Rightarrow> (Inl e, s)
      | (Inr reply, s) \<Rightarrow>
          (case fp_body reply of
             CancelTransfer reason \<Rightarrow> (Inl (RemoteRefused reason), s)
           | _ \<Rightarrow>
               if fp_sequence reply \<noteq> sequence \<or> fp_body reply \<noteq> expected then (Inl BadAcknowledgement, s)
               else (Inr (), s)))"

text \<open>The chunks of one file; the result is what was read, and the next sequence number.\<close>

fun send_chunks ::
  "'s file_link \<Rightarrow> nat \<Rightarrow> u64 \<Rightarrow> byte list \<Rightarrow> u64 \<Rightarrow> (file_error + byte list) list
     \<Rightarrow> 's \<times> file_transfer_snapshot \<Rightarrow> (file_error + byte list \<times> u64) \<times> 's \<times> file_transfer_snapshot" where
  "send_chunks link index fsize acc sequence [] st = (Inr (acc, sequence), st)"
| "send_chunks link index fsize acc sequence (Inl e # reads) st = (Inl e, st)"
| "send_chunks link index fsize acc sequence (Inr d # reads) (s, sn) =
     (if d = [] then (Inr (acc, sequence), s, sn)
      else if fsize < length acc + length d then (Inl SourceChanged, s, sn)
      else case exchange link sequence (Chunk index (length acc) d) Received s of
        (Inl e, s) \<Rightarrow> (Inl e, s, sn)
      | (Inr _, s) \<Rightarrow>
          send_chunks link index fsize (acc @ d) (sequence + 1) reads
            (s, sn\<lparr>sn_transferred_bytes := sn_transferred_bytes sn + length d\<rparr>))"

definition send_file ::
  "(byte list \<Rightarrow> byte list) \<Rightarrow> 's file_link \<Rightarrow> nat \<Rightarrow> drop_source \<Rightarrow> u64 \<Rightarrow> 's \<times> file_transfer_snapshot
     \<Rightarrow> (file_error + u64) \<times> 's \<times> file_transfer_snapshot" where
  "send_file sha link index src sequence st =
     (if ds_symlink src then (Inl SymbolicLink, st)
      else case ds_open src of
        Inl e \<Rightarrow> (Inl e, st)
      | Inr regular \<Rightarrow>
          if \<not> regular then (Inl NotRegularFile, st)
          else case send_chunks link index (fe_size (ds_entry src)) [] sequence (ds_reads src) st of
            (Inl e, st) \<Rightarrow> (Inl e, st)
          | (Inr (d, sequence), s, sn) \<Rightarrow>
              if length d \<noteq> fe_size (ds_entry src) then (Inl SourceChanged, s, sn)
              else case exchange link sequence (FileEnd index (sha d)) Received s of
                (Inl e, s) \<Rightarrow> (Inl e, s, sn)
              | (Inr _, s) \<Rightarrow> (Inr (sequence + 1), s, sn))"

fun send_files ::
  "(byte list \<Rightarrow> byte list) \<Rightarrow> 's file_link \<Rightarrow> (nat \<times> drop_source) list \<Rightarrow> u64 \<Rightarrow> 's \<times> file_transfer_snapshot
     \<Rightarrow> (file_error + u64) \<times> 's \<times> file_transfer_snapshot" where
  "send_files sha link [] sequence st = (Inr sequence, st)"
| "send_files sha link ((index, src) # srcs) sequence st =
     (if fe_directory (ds_entry src) then send_files sha link srcs sequence st
      else case send_file sha link index src sequence st of
        (Inl e, st) \<Rightarrow> (Inl e, st)
      | (Inr sequence, st) \<Rightarrow> send_files sha link srcs sequence st)"

definition send_session ::
  "(ustring \<Rightarrow> ustring) \<Rightarrow> (byte list \<Rightarrow> byte list) \<Rightarrow> 's file_link \<Rightarrow> drop_source list \<Rightarrow> folder_drop_point option
     \<Rightarrow> 's \<times> file_transfer_snapshot \<Rightarrow> (file_error + unit) \<times> 's \<times> file_transfer_snapshot" where
  "send_session lower sha link sources drop_point st =
     (let (s, sn) = st; entries = map ds_entry sources
      in case validate_manifest lower entries of
           Inl e \<Rightarrow> (Inl (InvalidManifest e), s, sn)
         | Inr tot \<Rightarrow>
             (let sn = sn\<lparr>sn_entries := take 8 entries, sn_entry_count := length entries, sn_total_bytes := tot,
                          sn_status := Waiting\<rparr>;
                  offer = (case drop_point of Some p \<Rightarrow> OfferToFolder entries p | None \<Rightarrow> Offer entries)
              in case exchange link 0 offer Accepted s of
                   (Inl e, s) \<Rightarrow> (Inl e, s, sn)
                 | (Inr _, s) \<Rightarrow>
                     (case send_files sha link (enumerate 0 sources) 1 (s, sn\<lparr>sn_status := Transferring\<rparr>) of
                        (Inl e, st) \<Rightarrow> (Inl e, st)
                      | (Inr sequence, s, sn) \<Rightarrow>
                          (case exchange link sequence Complete Completed s of (r, s) \<Rightarrow> (r, s, sn)))))"

end
