(* ===== verification/FileExchange.thy ===== *)
theory FileExchange
  imports FileSession
begin

text \<open>
  The two ends of a file drop put together: the sender's session on one side, the service, the user's
  approval and the receiver's session on the other.
\<close>

text \<open>One poll of the receiver's session in which nothing fails, and the packets it sends.\<close>

type_synonym receiver_side = "rx_session option \<times> file_transfer_service \<times> session_obs list"

record drop_link =
  dl_lower :: "ustring \<Rightarrow> ustring"
  dl_sha :: "byte list \<Rightarrow> byte list"
  dl_registry :: "peer_versions connection_registry"
  dl_peer :: registered_peer
  dl_tid :: uuid
  dl_now :: nat
  dl_free :: "u64 option"
  dl_destination :: ustring

definition side_poll :: "drop_link \<Rightarrow> receiver_side \<Rightarrow> receiver_side" where
  "side_poll dl side =
     (case side of
        (None, s, os) \<Rightarrow> (None, s, os)
      | (Some rx, s, os) \<Rightarrow>
          (case rx_poll (dl_lower dl) (dl_sha dl) (dl_registry dl) AnswerOk (dl_tid dl) (dl_peer dl)
                  (dl_destination dl) [] rx s of
             (sent, rx, s) \<Rightarrow> (Some rx, s, os @ sent)))"

text \<open>A packet arrives; an offer is approved by the user.\<close>

definition side_receive :: "drop_link \<Rightarrow> file_transfer_packet \<Rightarrow> receiver_side \<Rightarrow> receiver_side" where
  "side_receive dl packet side =
     (let (rx, s, os) = side;
          s = receive_packet (dl_lower dl) (dl_registry dl) (dl_now dl) (peer_of (dl_peer dl))
                (generation_of_peer (dl_peer dl)) packet s
      in case rx of
           Some rx \<Rightarrow> (Some rx, s, os)
         | None \<Rightarrow>
             (case approve_incoming (dl_now dl) (dl_free dl) (dl_tid dl) s of
                (Inl _, s) \<Rightarrow> (None, s, os)
              | (Inr (_, packet), s) \<Rightarrow> (Some (rx_new packet), s, os)))"

definition last_sent :: "session_obs list \<Rightarrow> file_transfer_packet option" where
  "last_sent os =
     fold (\<lambda>ob r. case ob of SentPacket _ p \<Rightarrow> Some p | _ \<Rightarrow> r) os None"

text \<open>The lane delivers the packet, the receiver is polled until it waits again, and its answer returns.\<close>

definition side_link :: "drop_link \<Rightarrow> receiver_side file_link" where
  "side_link dl sequence body side =
     (case side_poll dl (side_poll dl (side_poll dl (side_poll dl (side_receive dl (the_packet (dl_tid dl) sequence body) side)))) of
        (rx, s, os) \<Rightarrow>
          ((case last_sent os of Some p \<Rightarrow> Inr p | None \<Rightarrow> Inl TransferTimeout), rx, s, os))"

section \<open>A running transfer\<close>

definition side_ok :: "drop_link \<Rightarrow> bool" where
  "side_ok dl \<longleftrightarrow>
     registry_peer (peer_of (dl_peer dl)) (dl_registry dl) = Some (dl_peer dl) \<and>
     pv_file_transfer (snd (dl_peer dl)) = 1"

definition running :: "drop_link \<Rightarrow> file_transfer_service \<Rightarrow> bool" where
  "running dl s \<longleftrightarrow>
     hm_wf (jo_active (fv_jobs s)) \<and>
     (\<exists>job. hm_get (jo_active (fv_jobs s)) (dl_tid dl) = Some job \<and>
        sn_peer_id (jb_snapshot job) = peer_of (dl_peer dl) \<and> jb_generation job = generation_of_peer (dl_peer dl) \<and>
        jb_cancel job = None \<and> jb_inbox job = mpsc_new 4)"

text \<open>What the exchange leaves alone.\<close>

definition quota_state :: "file_transfer_service \<Rightarrow> u64 \<times> u64" where
  "quota_state s = (jo_published_bytes (fv_jobs s), jo_reserved_bytes (fv_jobs s))"

lemma running_cancel: "running dl s \<Longrightarrow> cancel_of (dl_tid dl) s = None"
  by (auto simp: running_def cancel_of_def)

lemma running_update:
  assumes "running dl s" and "\<And>sn. sn_peer_id (f sn) = sn_peer_id sn"
  shows "running dl (update_service (dl_tid dl) f s)"
  using assms by (auto simp: running_def update_service_def update_job_def hm.get_put hm.wf_put)

lemma running_take: "running dl s \<Longrightarrow> take_packet (dl_tid dl) s = (None, s)"
  by (auto simp: running_def take_packet_def mpsc_recv_def mpsc_new_def)

text \<open>A packet that arrives is taken by the next poll.\<close>

lemma deliver:
  fixes sequence :: u64
  assumes "side_ok dl" and "running dl s" and "offered_entries body = None" and "\<And>r. body \<noteq> CancelTransfer r"
  defines "packet \<equiv> the_packet (dl_tid dl) sequence body"
  defines "s1 \<equiv> receive_packet (dl_lower dl) (dl_registry dl) (dl_now dl) (peer_of (dl_peer dl))
    (generation_of_peer (dl_peer dl)) packet s"
  shows "cancel_of (dl_tid dl) s1 = None"
    and "\<exists>s2. take_packet (dl_tid dl) s1 = (Some packet, s2) \<and> running dl s2 \<and> quota_state s2 = quota_state s"
proof -
  obtain job where job: "hm_wf (jo_active (fv_jobs s))" "hm_get (jo_active (fv_jobs s)) (dl_tid dl) = Some job"
    "sn_peer_id (jb_snapshot job) = peer_of (dl_peer dl)" "jb_generation job = generation_of_peer (dl_peer dl)"
    "jb_cancel job = None" "jb_inbox job = mpsc_new 4"
    using assms(2) unfolding running_def by blast
  let ?job = "job\<lparr>jb_inbox := (mpsc_new 4)\<lparr>mp_queue := [packet]\<rparr>\<rparr>"
  have plain: "(case body of CancelTransfer r \<Rightarrow> Some (RemoteCancelled (cut_reason 240 r)) | _ \<Rightarrow> None) = None"
    using assms(4) by (cases body) auto
  have s1: "s1 = s\<lparr>fv_jobs := (fv_jobs s)\<lparr>jo_active := hm_put (dl_tid dl) ?job (jo_active (fv_jobs s))\<rparr>\<rparr>"
    using assms(1,3) job plain
    unfolding s1_def receive_packet_def side_ok_def packet_def the_packet_def Let_def
    by (simp add: mpsc_try_send_def mpsc_capacity_def mpsc_new_def)
  show "cancel_of (dl_tid dl) s1 = None" using job by (simp add: s1 cancel_of_def hm.get_put)
  let ?s2 = "s1\<lparr>fv_jobs := (fv_jobs s1)\<lparr>jo_active :=
      hm_put (dl_tid dl) (?job\<lparr>jb_inbox := mpsc_new 4\<rparr>) (jo_active (fv_jobs s1))\<rparr>\<rparr>"
  have "take_packet (dl_tid dl) s1 = (Some packet, ?s2)"
    using job by (simp add: s1 take_packet_def hm.get_put mpsc_recv_def mpsc_new_def)
  moreover have "running dl ?s2" using job by (auto simp: running_def s1 hm.get_put hm.wf_put)
  moreover have "quota_state ?s2 = quota_state s" by (simp add: s1 quota_state_def)
  ultimately show "\<exists>s2. take_packet (dl_tid dl) s1 = (Some packet, s2) \<and> running dl s2 \<and> quota_state s2 = quota_state s"
    by blast
qed

lemma quota_update: "quota_state (update_service tid f s) = quota_state s"
  by (simp add: quota_state_def update_service_def update_job_def split: option.split)

lemma write_ok: "side_ok dl \<Longrightarrow> session_write (dl_registry dl) (dl_peer dl) b None AnswerOk = Some (Inr ())"
  by (simp add: side_ok_def session_write_def)

lemma side_poll_idle:
  assumes "side_ok dl" and "running dl s" and "rx_phase rx = RxWaiting"
  shows "side_poll dl (Some rx, s, os) = (Some rx, s, os)"
  using assms running_take [OF assms(2)] running_cancel [OF assms(2)]
  by (simp add: side_poll_def rx_poll_def rx_next_def)

text \<open>A packet that is accepted is acknowledged under its number.\<close>

lemma exchange_packet:
  assumes "side_ok dl" and "running dl s" and "offered_entries body = None" and "\<And>r. body \<noteq> CancelTransfer r"
    and "rx_phase rx = RxWaiting" and "rx_packet (dl_sha dl) (the_packet (dl_tid dl) (rx_sequence rx) body) rx = Inr rx'"
    and "rx_phase rx' = RxAcking" and "rx_sequence rx' = rx_sequence rx"
  shows "\<exists>s' os'. side_link dl (rx_sequence rx) body (Some rx, s, os) =
      (Inr (the_packet (dl_tid dl) (rx_sequence rx) Received), Some (rx_acked rx'), s', os') \<and>
      running dl s' \<and> quota_state s' = quota_state s"
proof -
  let ?packet = "the_packet (dl_tid dl) (rx_sequence rx) body"
  let ?s1 = "receive_packet (dl_lower dl) (dl_registry dl) (dl_now dl) (peer_of (dl_peer dl))
    (generation_of_peer (dl_peer dl)) ?packet s"
  obtain s2 where s2: "take_packet (dl_tid dl) ?s1 = (Some ?packet, s2)" "running dl s2" "quota_state s2 = quota_state s"
    using deliver(2) [OF assms(1-4)] by blast
  have "\<exists>s3. rx_next (dl_sha dl) AnswerOk (dl_tid dl) rx ?s1 = (rx', s3) \<and> running dl s3 \<and> quota_state s3 = quota_state s"
    using deliver(1) [OF assms(1-4)] s2 assms(6) running_update [OF s2(2)] quota_update
    by (simp add: rx_next_def)
  then obtain s3 where s3: "rx_next (dl_sha dl) AnswerOk (dl_tid dl) rx ?s1 = (rx', s3)" "running dl s3"
    "quota_state s3 = quota_state s" by blast
  have 1: "side_poll dl (side_receive dl ?packet (Some rx, s, os)) = (Some rx', s3, os)"
    using s3(1) assms(5) by (simp add: side_receive_def side_poll_def rx_poll_def)
  have 2: "side_poll dl (Some rx', s3, os) =
      (Some (rx_acked rx'), s3, os @ [SentPacket (peer_of (dl_peer dl)) (the_packet (dl_tid dl) (rx_sequence rx) Received)])"
    using assms(7,8) running_cancel [OF s3(2)] write_ok [OF assms(1)] by (simp add: side_poll_def rx_poll_def)
  have 3: "side_poll dl (Some (rx_acked rx'), s3, os') = (Some (rx_acked rx'), s3, os')" for os'
    by (rule side_poll_idle [OF assms(1) s3(2)]) (simp add: rx_acked_def)
  show ?thesis unfolding side_link_def 1 2 3 using s3(2,3) by (simp add: last_sent_def)
qed

section \<open>Sending the files\<close>

definition source_content :: "drop_source \<Rightarrow> byte list" where
  "source_content src = concat (map (\<lambda>r. case r of Inr d \<Rightarrow> d | Inl _ \<Rightarrow> []) (ds_reads src))"

text \<open>A source that is what its entry says while it is read, in pieces of at most 64 KiB.\<close>

definition readable :: "drop_source \<Rightarrow> bool" where
  "readable src \<longleftrightarrow>
     fe_directory (ds_entry src) \<or>
     \<not> ds_symlink src \<and> ds_open src = Inr True \<and>
     (\<forall>r\<in>set (ds_reads src). case r of Inr d \<Rightarrow> d \<noteq> [] \<and> length d \<le> file_chunk_bytes | Inl _ \<Rightarrow> False) \<and>
     length (source_content src) = fe_size (ds_entry src)"

lemma exchange_ok:
  assumes "link sequence body s = (Inr (the_packet tid sequence expected), s')" and "\<And>r. expected \<noteq> CancelTransfer r"
  shows "exchange link sequence body expected s = (Inr (), s')"
  using assms by (cases expected) (auto simp: exchange_def the_packet_def)

lemma send_chunks_ok:
  assumes "side_ok dl" and "running dl s" and "rx_phase rx = RxWaiting" and "rx_files rx = (index, entry) # rest"
    and "\<forall>r\<in>set reads. case r of Inr d \<Rightarrow> d \<noteq> [] \<and> length d \<le> file_chunk_bytes | Inl _ \<Rightarrow> False"
    and "length (rx_data rx) + length (concat (map (\<lambda>r. case r of Inr d \<Rightarrow> d | Inl _ \<Rightarrow> []) reads)) \<le> fe_size entry"
  shows "\<exists>s' os' sn'.
    send_chunks (side_link dl) index (fe_size entry) (rx_data rx) (rx_sequence rx) reads ((Some rx, s, os), sn) =
      (Inr (rx_data rx @ concat (map (\<lambda>r. case r of Inr d \<Rightarrow> d | Inl _ \<Rightarrow> []) reads), rx_sequence rx + length reads),
       (Some (rx\<lparr>rx_data := rx_data rx @ concat (map (\<lambda>r. case r of Inr d \<Rightarrow> d | Inl _ \<Rightarrow> []) reads),
                  rx_sequence := rx_sequence rx + length reads\<rparr>), s', os'), sn') \<and>
    running dl s' \<and> quota_state s' = quota_state s"
  using assms(2-6)
proof (induction reads arbitrary: rx s os sn)
  case Nil
  then show ?case by simp
next
  case (Cons r reads)
  then obtain d where d: "r = Inr d" "d \<noteq> []" "length d \<le> file_chunk_bytes"
    by (cases r) auto
  let ?rx = "rx\<lparr>rx_data := rx_data rx @ d, rx_phase := RxAcking\<rparr>"
  let ?body = "Chunk index (length (rx_data rx)) d"
  have fits: "length (rx_data rx) + length d \<le> fe_size entry" using Cons.prems(5) d(1) by simp
  have step: "rx_packet (dl_sha dl) (the_packet (dl_tid dl) (rx_sequence rx) ?body) rx = Inr ?rx"
    using Cons.prems(3) d fits by (simp add: rx_packet_def the_packet_def)
  have kinds: "offered_entries ?body = None" "\<And>r. ?body \<noteq> CancelTransfer r"
    and acking: "rx_phase ?rx = RxAcking" "rx_sequence ?rx = rx_sequence rx"
    by (simp_all add: offered_entries_def)
  obtain s1 os1 where one: "side_link dl (rx_sequence rx) ?body (Some rx, s, os) =
      (Inr (the_packet (dl_tid dl) (rx_sequence rx) Received), Some (rx_acked ?rx), s1, os1)"
    "running dl s1" "quota_state s1 = quota_state s"
    using exchange_packet [OF assms(1) Cons.prems(1) kinds Cons.prems(2) step acking, of os] by blast
  have ack: "exchange (side_link dl) (rx_sequence rx) ?body Received (Some rx, s, os) = (Inr (), Some (rx_acked ?rx), s1, os1)"
    using one(1) by (intro exchange_ok) simp_all
  have prems: "rx_phase (rx_acked ?rx) = RxWaiting" "rx_files (rx_acked ?rx) = (index, entry) # rest"
    "rx_data (rx_acked ?rx) = rx_data rx @ d" "rx_sequence (rx_acked ?rx) = rx_sequence rx + 1"
    using Cons.prems(3) by (simp_all add: rx_acked_def)
  have small: "length (rx_data (rx_acked ?rx)) +
      length (concat (map (\<lambda>r. case r of Inr d \<Rightarrow> d | Inl _ \<Rightarrow> []) reads)) \<le> fe_size entry"
    using Cons.prems(5) d(1) prems(3) by simp
  have rest_ok: "\<forall>r\<in>set reads. case r of Inr d \<Rightarrow> d \<noteq> [] \<and> length d \<le> file_chunk_bytes | Inl _ \<Rightarrow> False"
    using Cons.prems(4) by simp
  let ?sn = "sn\<lparr>sn_transferred_bytes := sn_transferred_bytes sn + length d\<rparr>"
  obtain s' os' sn' where IH: "send_chunks (side_link dl) index (fe_size entry) (rx_data rx @ d) (rx_sequence rx + 1) reads
      ((Some (rx_acked ?rx), s1, os1), ?sn) =
      (Inr ((rx_data rx @ d) @ concat (map (\<lambda>r. case r of Inr d \<Rightarrow> d | Inl _ \<Rightarrow> []) reads), rx_sequence rx + 1 + length reads),
       (Some ((rx_acked ?rx)\<lparr>rx_data := (rx_data rx @ d) @ concat (map (\<lambda>r. case r of Inr d \<Rightarrow> d | Inl _ \<Rightarrow> []) reads),
                  rx_sequence := rx_sequence rx + 1 + length reads\<rparr>), s', os'), sn')"
    "running dl s'" "quota_state s' = quota_state s1"
    using Cons.IH [OF one(2) prems(1,2) rest_ok small, of os1 ?sn] unfolding prems by blast
  have "(rx_acked ?rx)\<lparr>rx_data := x, rx_sequence := y\<rparr> = rx\<lparr>rx_data := x, rx_sequence := y\<rparr>" for x y
    using Cons.prems(2) by (simp add: rx_acked_def)
  then show ?case
    using IH one(3) ack d fits by simp
qed

lemma send_file_ok:
  assumes "side_ok dl" and "running dl s" and "rx_phase rx = RxWaiting" and "rx_files rx = (index, ds_entry src) # rest"
    and "rx_data rx = []" and "readable src" and "\<not> fe_directory (ds_entry src)"
  shows "\<exists>s' os' sn' n.
    send_file (dl_sha dl) (side_link dl) index src (rx_sequence rx) ((Some rx, s, os), sn) =
      (Inr n, (Some (rx\<lparr>rx_files := rest, rx_sequence := n,
         rx_staged := rx_staged rx @ [(fe_path (ds_entry src), source_content src)]\<rparr>), s', os'), sn') \<and>
    running dl s' \<and> quota_state s' = quota_state s"
proof -
  have src: "\<not> ds_symlink src" "ds_open src = Inr True" "length (source_content src) = fe_size (ds_entry src)"
    "\<forall>r\<in>set (ds_reads src). case r of Inr d \<Rightarrow> d \<noteq> [] \<and> length d \<le> file_chunk_bytes | Inl _ \<Rightarrow> False"
    using assms(6,7) unfolding readable_def by auto
  let ?n = "rx_sequence rx + length (ds_reads src)"
  let ?rx = "rx\<lparr>rx_data := source_content src, rx_sequence := ?n\<rparr>"
  have fits: "length (rx_data rx) + length (concat (map (\<lambda>r. case r of Inr d \<Rightarrow> d | Inl _ \<Rightarrow> []) (ds_reads src)))
      \<le> fe_size (ds_entry src)"
    using src(3) assms(5) unfolding source_content_def by simp
  obtain s1 os1 sn1 where chunks: "send_chunks (side_link dl) index (fe_size (ds_entry src)) [] (rx_sequence rx) (ds_reads src)
      ((Some rx, s, os), sn) = (Inr (source_content src, ?n), (Some ?rx, s1, os1), sn1)"
    "running dl s1" "quota_state s1 = quota_state s"
    using send_chunks_ok [OF assms(1-4) src(4) fits, of os sn] assms(5) unfolding source_content_def by auto
  let ?body = "FileEnd index (dl_sha dl (source_content src))"
  let ?rx2 = "?rx\<lparr>rx_staged := rx_staged rx @ [(fe_path (ds_entry src), source_content src)], rx_data := [],
    rx_files := rest, rx_phase := RxAcking\<rparr>"
  have step: "rx_packet (dl_sha dl) (the_packet (dl_tid dl) (rx_sequence ?rx) ?body) ?rx = Inr ?rx2"
    using assms(4) src(3) by (simp add: rx_packet_def the_packet_def)
  have kinds: "offered_entries ?body = None" "\<And>r. ?body \<noteq> CancelTransfer r"
    and waiting: "rx_phase ?rx = RxWaiting"
    and acking: "rx_phase ?rx2 = RxAcking" "rx_sequence ?rx2 = rx_sequence ?rx"
    using assms(3) by (simp_all add: offered_entries_def)
  obtain s2 os2 where two: "side_link dl (rx_sequence ?rx) ?body (Some ?rx, s1, os1) =
      (Inr (the_packet (dl_tid dl) (rx_sequence ?rx) Received), Some (rx_acked ?rx2), s2, os2)"
    "running dl s2" "quota_state s2 = quota_state s1"
    using exchange_packet [OF assms(1) chunks(2) kinds waiting step acking, of os1] by blast
  have ack: "exchange (side_link dl) ?n ?body Received (Some ?rx, s1, os1) = (Inr (), Some (rx_acked ?rx2), s2, os2)"
    using two(1) by (intro exchange_ok) simp_all
  have "rx_acked ?rx2 = rx\<lparr>rx_files := rest, rx_sequence := ?n + 1,
      rx_staged := rx_staged rx @ [(fe_path (ds_entry src), source_content src)]\<rparr>"
    using assms(3,5) by (simp add: rx_acked_def)
  then show ?thesis using src chunks ack two(2,3) by (simp add: send_file_def)
qed

text \<open>What arrives: the regular files with their content, in the order of the manifest.\<close>

definition delivered_files :: "drop_source list \<Rightarrow> (ustring \<times> byte list) list" where
  "delivered_files sources =
     map (\<lambda>src. (fe_path (ds_entry src), source_content src)) (filter (\<lambda>src. \<not> fe_directory (ds_entry src)) sources)"

definition files_from :: "(nat \<times> drop_source) list \<Rightarrow> (nat \<times> file_entry) list" where
  "files_from srcs = filter (\<lambda>(_, e). \<not> fe_directory e) (map (\<lambda>(i, src). (i, ds_entry src)) srcs)"

lemma send_files_ok:
  assumes "side_ok dl" and "running dl s" and "rx_phase rx = RxWaiting" and "rx_files rx = files_from srcs"
    and "rx_data rx = []" and "\<forall>x\<in>set srcs. readable (snd x)"
  shows "\<exists>s' os' sn' n.
    send_files (dl_sha dl) (side_link dl) srcs (rx_sequence rx) ((Some rx, s, os), sn) =
      (Inr n, (Some (rx\<lparr>rx_files := [], rx_sequence := n,
         rx_staged := rx_staged rx @ delivered_files (map snd srcs)\<rparr>), s', os'), sn') \<and>
    running dl s' \<and> quota_state s' = quota_state s"
  using assms(2-6)
proof (induction srcs arbitrary: rx s os sn)
  case Nil
  then have "rx\<lparr>rx_files := [], rx_sequence := rx_sequence rx, rx_staged := rx_staged rx\<rparr> = rx"
    by (simp add: files_from_def)
  then show ?case using Nil by (simp add: delivered_files_def)
next
  case (Cons x srcs)
  obtain index src where x: "x = (index, src)" by fastforce
  show ?case
  proof (cases "fe_directory (ds_entry src)")
    case True
    then have "rx_files rx = files_from srcs" using Cons.prems(3) x by (simp add: files_from_def)
    then show ?thesis
      using Cons.IH [OF Cons.prems(1,2) _ Cons.prems(4)] Cons.prems(5) True x by (simp add: delivered_files_def)
  next
    case False
    then have files: "rx_files rx = (index, ds_entry src) # files_from srcs"
      using Cons.prems(3) x by (simp add: files_from_def)
    have "readable src" using Cons.prems(5) x by simp
    then obtain s1 os1 sn1 n where one: "send_file (dl_sha dl) (side_link dl) index src (rx_sequence rx) ((Some rx, s, os), sn) =
        (Inr n, (Some (rx\<lparr>rx_files := files_from srcs, rx_sequence := n,
           rx_staged := rx_staged rx @ [(fe_path (ds_entry src), source_content src)]\<rparr>), s1, os1), sn1)"
      "running dl s1" "quota_state s1 = quota_state s"
      using send_file_ok [OF assms(1) Cons.prems(1,2) files Cons.prems(4) _ False] by blast
    let ?rx = "rx\<lparr>rx_files := files_from srcs, rx_sequence := n,
       rx_staged := rx_staged rx @ [(fe_path (ds_entry src), source_content src)]\<rparr>"
    obtain s' os' sn' m where rest: "send_files (dl_sha dl) (side_link dl) srcs n ((Some ?rx, s1, os1), sn1) =
        (Inr m, (Some (?rx\<lparr>rx_files := [], rx_sequence := m,
           rx_staged := rx_staged ?rx @ delivered_files (map snd srcs)\<rparr>), s', os'), sn')"
      "running dl s'" "quota_state s' = quota_state s1"
      using Cons.IH [OF one(2), of ?rx os1 sn1] Cons.prems(2,4,5) by auto
    then show ?thesis using one(1,3) False x by (simp add: delivered_files_def)
  qed
qed

section \<open>Offer and commit\<close>

definition the_offer :: "file_entry list \<Rightarrow> folder_drop_point option \<Rightarrow> file_transfer_body" where
  "the_offer entries drop_point = (case drop_point of Some p \<Rightarrow> OfferToFolder entries p | None \<Rightarrow> Offer entries)"

text \<open>The service has room for the transfer: a place, a fresh identifier, and the bytes.\<close>

definition has_room :: "drop_link \<Rightarrow> u64 \<Rightarrow> folder_drop_point option \<Rightarrow> file_transfer_service \<Rightarrow> bool" where
  "has_room dl tot drop_point s \<longleftrightarrow>
     (let js = fv_jobs s; waiting = hm_retain (\<lambda>_ offer. dl_now dl < po_expires_at offer) (jo_pending js)
      in hm_wf (jo_active js) \<and> hm_wf (jo_pending js) \<and>
         length (jo_active js) < max_active \<and> hm_get (jo_active js) (dl_tid dl) = None \<and>
         hm_get waiting (dl_tid dl) = None \<and> (\<forall>h\<in>set (jo_history js). sn_id h \<noteq> dl_tid dl) \<and>
         length waiting < max_pending_offers \<and>
         length (filter (\<lambda>e. peer_of (po_peer (snd e)) = peer_of (dl_peer dl)) waiting) < max_pending_offers_per_peer \<and>
         (tot = 0 \<or> (\<exists>js'. reserve_bytes (dl_free dl) (peer_of (dl_peer dl)) tot js = Inr js')) \<and>
         (drop_point \<noteq> None \<longrightarrow> pv_folder_drop (snd (dl_peer dl)) = 1 \<and> fv_has_resolver s))"

lemma offered_the_offer: "offered_entries (the_offer es p) = Some es"
  "is_folder_offer (the_offer es p) = (p \<noteq> None)"
  by (cases p; simp add: the_offer_def offered_entries_def is_folder_offer_def)+

lemma reserve_other: "reserve_bytes free peer n js = Inr js' \<Longrightarrow>
    reserve_bytes free peer n (js\<lparr>jo_pending := p\<rparr>) = Inr (js'\<lparr>jo_pending := p\<rparr>)"
  by (auto simp: reserve_bytes_def split: if_splits)

lemma reserve_fields: "reserve_bytes free peer n js = Inr js' \<Longrightarrow>
    jo_active js' = jo_active js \<and> jo_history js' = jo_history js \<and> jo_pending js' = jo_pending js"
  by (auto simp: reserve_bytes_def split: if_splits)

text \<open>The offer is queued, and approved at once.\<close>

lemma offer_queued:
  assumes "side_ok dl" and "has_room dl tot drop_point s" and "validate_manifest (dl_lower dl) entries = Inr tot"
  defines "packet \<equiv> the_packet (dl_tid dl) 0 (the_offer entries drop_point)"
  shows "\<exists>js offer.
    receive_packet (dl_lower dl) (dl_registry dl) (dl_now dl) (peer_of (dl_peer dl)) (generation_of_peer (dl_peer dl))
      packet s = s\<lparr>fv_jobs := js\<rparr> \<and>
    js = (fv_jobs s)\<lparr>jo_pending := hm_put (dl_tid dl) offer (hm_retain (\<lambda>_ offer. dl_now dl < po_expires_at offer) (jo_pending (fv_jobs s)))\<rparr> \<and>
    po_peer offer = dl_peer dl \<and> po_packet offer = packet \<and> sn_total_bytes (po_snapshot offer) = tot \<and>
    dl_now dl < po_expires_at offer"
proof -
  let ?waiting = "hm_retain (\<lambda>_ offer. dl_now dl < po_expires_at offer) (jo_pending (fv_jobs s))"
  let ?offer = "\<lparr>po_peer = dl_peer dl, po_packet = packet,
     po_snapshot = (new_snapshot (dl_tid dl) (peer_of (dl_peer dl)) True Waiting)
       \<lparr>sn_entries := take 8 entries, sn_entry_count := length entries, sn_total_bytes := tot\<rparr>,
     po_expires_at = dl_now dl + pending_offer_ttl\<rparr>"
  have room: "hm_get (jo_active (fv_jobs s)) (dl_tid dl) = None" "hm_get ?waiting (dl_tid dl) = None"
    "\<not> (\<exists>h\<in>set (jo_history (fv_jobs s)). sn_id h = dl_tid dl)" "\<not> max_pending_offers \<le> length ?waiting"
    "\<not> max_pending_offers_per_peer \<le> length (filter (\<lambda>e. peer_of (po_peer (snd e)) = peer_of (dl_peer dl)) ?waiting)"
    "drop_point \<noteq> None \<longrightarrow> pv_folder_drop (snd (dl_peer dl)) = 1 \<and> fv_has_resolver s"
    using assms(2) unfolding has_room_def Let_def by auto
  have queued: "queue_pending_offer (dl_now dl) (dl_tid dl) (dl_peer dl) packet entries tot (fv_jobs s) =
      (Inr (), (fv_jobs s)\<lparr>jo_pending := hm_put (dl_tid dl) ?offer ?waiting\<rparr>)"
    using room(1-5) unfolding queue_pending_offer_def prune_pending_def Let_def by simp
  have packet: "fp_transfer_id packet = dl_tid dl" "fp_sequence packet = 0" "fp_body packet = the_offer entries drop_point"
    by (simp_all add: packet_def the_packet_def)
  have "receive_offer (dl_lower dl) (dl_now dl) (dl_peer dl) packet entries s =
      s\<lparr>fv_jobs := (fv_jobs s)\<lparr>jo_pending := hm_put (dl_tid dl) ?offer ?waiting\<rparr>\<rparr>"
    using room(6) queued assms(3) unfolding receive_offer_def packet offered_the_offer by auto
  then have "receive_packet (dl_lower dl) (dl_registry dl) (dl_now dl) (peer_of (dl_peer dl))
      (generation_of_peer (dl_peer dl)) packet s =
      s\<lparr>fv_jobs := (fv_jobs s)\<lparr>jo_pending := hm_put (dl_tid dl) ?offer ?waiting\<rparr>\<rparr>"
    using assms(1) unfolding receive_packet_def side_ok_def packet offered_the_offer by simp
  then show ?thesis by (intro exI [of _ "(fv_jobs s)\<lparr>jo_pending := hm_put (dl_tid dl) ?offer ?waiting\<rparr>"] exI [of _ ?offer])
      (simp add: pending_offer_ttl_def)
qed

lemma offer_approved:
  assumes "has_room dl tot drop_point s" and "po_peer offer = dl_peer dl" and "sn_total_bytes (po_snapshot offer) = tot"
    and "dl_now dl < po_expires_at offer"
    and "js = (fv_jobs s)\<lparr>jo_pending := hm_put (dl_tid dl) offer (hm_retain (\<lambda>_ offer. dl_now dl < po_expires_at offer) (jo_pending (fv_jobs s)))\<rparr>"
  shows "\<exists>s1. approve_incoming (dl_now dl) (dl_free dl) (dl_tid dl) (s\<lparr>fv_jobs := js\<rparr>) =
      (Inr (dl_peer dl, po_packet offer), s1) \<and> running dl s1 \<and> fv_has_resolver s1 = fv_has_resolver s"
proof -
  let ?waiting = "hm_retain (\<lambda>_ offer. dl_now dl < po_expires_at offer) (jo_pending (fv_jobs s))"
  have wf: "hm_wf (jo_active (fv_jobs s))" "hm_wf ?waiting"
    and room: "\<not> max_active \<le> length (jo_active (fv_jobs s))" "hm_get (jo_active (fv_jobs s)) (dl_tid dl) = None"
      "\<not> (\<exists>h\<in>set (jo_history (fv_jobs s)). sn_id h = dl_tid dl)"
      "tot = 0 \<or> (\<exists>js'. reserve_bytes (dl_free dl) (peer_of (dl_peer dl)) tot (fv_jobs s) = Inr js')"
    using assms(1) hm_wf_retain unfolding has_room_def Let_def by auto
  define p where "p = hm_retain (\<lambda>_ offer. dl_now dl < po_expires_at offer) (jo_pending js)"
  define q where "q = hm_del (dl_tid dl) p"
  have get: "hm_get p (dl_tid dl) = Some offer"
    using wf(2) assms(4) by (simp add: p_def assms(5) hm_get_retain hm.wf_put hm.get_put)
  have take: "approve_take (dl_now dl) (dl_tid dl) (s\<lparr>fv_jobs := js\<rparr>) =
      (Inr offer, s\<lparr>fv_jobs := (fv_jobs s)\<lparr>jo_pending := q\<rparr>\<rparr>)"
  proof -
    have "prune_pending (dl_now dl) js = (fv_jobs s)\<lparr>jo_pending := p\<rparr>"
      unfolding p_def prune_pending_def by (simp add: assms(5))
    then show ?thesis using get by (simp add: approve_take_def q_def Let_def)
  qed
  obtain js' where reserved: "(if True \<and> 0 < tot then reserve_bytes (dl_free dl) (peer_of (dl_peer dl)) tot
        ((fv_jobs s)\<lparr>jo_pending := q\<rparr>) else Inr ((fv_jobs s)\<lparr>jo_pending := q\<rparr>)) = Inr js'"
    "jo_active js' = jo_active (fv_jobs s)"
    using room(4) reserve_other reserve_fields by (cases "tot = 0") fastforce+
  let ?job = "\<lparr>jb_snapshot = new_snapshot (dl_tid dl) (peer_of (dl_peer dl)) True Preparing,
      jb_generation = generation_of_peer (dl_peer dl), jb_reserved_bytes = tot, jb_inbox = mpsc_new 4, jb_cancel = None\<rparr>"
  let ?s1 = "s\<lparr>fv_jobs := js'\<lparr>jo_active := hm_put (dl_tid dl) ?job (jo_active js')\<rparr>\<rparr>"
  have "register_job (dl_free dl) (dl_tid dl) (dl_peer dl) True tot ((fv_jobs s)\<lparr>jo_pending := q\<rparr>) =
      Inr (js'\<lparr>jo_active := hm_put (dl_tid dl) ?job (jo_active js')\<rparr>)"
    using room(1-3) unfolding register_job_def reserved(1) by simp
  then have "approve_register (dl_free dl) (dl_tid dl) offer (s\<lparr>fv_jobs := (fv_jobs s)\<lparr>jo_pending := q\<rparr>\<rparr>) =
      (Inr (dl_peer dl, po_packet offer), ?s1)"
    by (simp add: approve_register_def assms(2,3))
  then have "approve_incoming (dl_now dl) (dl_free dl) (dl_tid dl) (s\<lparr>fv_jobs := js\<rparr>) = (Inr (dl_peer dl, po_packet offer), ?s1)"
    by (simp add: approve_incoming_def take)
  moreover have "running dl ?s1"
    using wf(1) by (auto simp: running_def reserved(2) hm.wf_put hm.get_put new_snapshot_def)
  ultimately show ?thesis by force
qed

text \<open>The whole exchange of the offer: the receiver now waits for the first packet.\<close>

lemma offer_exchanged:
  assumes "side_ok dl" and "has_room dl tot drop_point s" and "validate_manifest (dl_lower dl) entries = Inr tot"
  shows "\<exists>s' os' rx.
    exchange (side_link dl) 0 (the_offer entries drop_point) Accepted (None, s, []) = (Inr (), Some rx, s', os') \<and>
    running dl s' \<and> rx_phase rx = RxWaiting \<and> rx_sequence rx = 1 \<and> rx_files rx = files_of entries \<and>
    rx_data rx = [] \<and> rx_staged rx = []"
proof -
  let ?packet = "the_packet (dl_tid dl) 0 (the_offer entries drop_point)"
  obtain js offer where queued: "receive_packet (dl_lower dl) (dl_registry dl) (dl_now dl) (peer_of (dl_peer dl))
      (generation_of_peer (dl_peer dl)) ?packet s = s\<lparr>fv_jobs := js\<rparr>"
    "js = (fv_jobs s)\<lparr>jo_pending := hm_put (dl_tid dl) offer (hm_retain (\<lambda>_ offer. dl_now dl < po_expires_at offer) (jo_pending (fv_jobs s)))\<rparr>"
    "po_peer offer = dl_peer dl" "po_packet offer = ?packet" "sn_total_bytes (po_snapshot offer) = tot"
    "dl_now dl < po_expires_at offer"
    using offer_queued [OF assms] by blast
  obtain s1 where approved: "approve_incoming (dl_now dl) (dl_free dl) (dl_tid dl) (s\<lparr>fv_jobs := js\<rparr>) =
      (Inr (dl_peer dl, ?packet), s1)" "running dl s1" "fv_has_resolver s1 = fv_has_resolver s"
    using offer_approved [OF assms(2) queued(3,5,6,2)] queued(4) by auto
  have started: "side_receive dl ?packet (None, s, []) = (Some (rx_new ?packet), s1, [])"
    by (simp add: side_receive_def queued(1) approved(1))
  have resolver: "is_folder_offer (the_offer entries drop_point) \<longrightarrow> fv_has_resolver s1"
    using assms(2) approved(3) by (simp add: offered_the_offer has_room_def Let_def)
  define upd where "upd sn = sn\<lparr>sn_entries := take 8 entries, sn_entry_count := length entries, sn_total_bytes := tot,
    sn_status := Transferring\<rparr>" for sn :: file_transfer_snapshot
  let ?s2 = "update_service (dl_tid dl) upd s1"
  have run2: "running dl ?s2" by (rule running_update [OF approved(2)]) (simp add: upd_def)
  let ?folder = "is_folder_offer (the_offer entries drop_point)"
  let ?rx = "(rx_begin ?folder entries (rx_new ?packet))\<lparr>rx_phase := RxAccepting\<rparr>"
  have 1: "side_poll dl (Some (rx_new ?packet), s1, []) =
      (Some ((rx_new ?packet)\<lparr>rx_phase := RxResolving ?folder entries tot\<rparr>), s1, [])"
    using running_cancel [OF approved(2)] assms(3) resolver
    by (auto simp: side_poll_def rx_poll_def rx_new_def rx_start_def the_packet_def offered_the_offer(1))
  have 2: "side_poll dl (Some ((rx_new ?packet)\<lparr>rx_phase := RxResolving ?folder entries tot\<rparr>), s1, []) =
      (Some (rx_begin ?folder entries (rx_new ?packet)), ?s2, [])"
    by (simp add: side_poll_def rx_poll_def rx_resolve_def rx_begin_def upd_def [abs_def])
  have 3: "side_poll dl (Some (rx_begin ?folder entries (rx_new ?packet)), ?s2, []) = (Some ?rx, ?s2, [])"
    using running_cancel [OF run2] by (simp add: side_poll_def rx_poll_def rx_prepare_def rx_begin_def)
  have 4: "side_poll dl (Some ?rx, ?s2, []) =
      (Some (rx_acked ?rx), ?s2, [SentPacket (peer_of (dl_peer dl)) (the_packet (dl_tid dl) 0 Accepted)])"
    using running_cancel [OF run2] write_ok [OF assms(1)] by (simp add: side_poll_def rx_poll_def rx_begin_def)
  have "side_link dl 0 (the_offer entries drop_point) (None, s, []) =
      (Inr (the_packet (dl_tid dl) 0 Accepted), Some (rx_acked ?rx), ?s2,
       [SentPacket (peer_of (dl_peer dl)) (the_packet (dl_tid dl) 0 Accepted)])"
    unfolding side_link_def started 1 2 3 4 by (simp add: last_sent_def)
  then have "exchange (side_link dl) 0 (the_offer entries drop_point) Accepted (None, s, []) =
      (Inr (), Some (rx_acked ?rx), ?s2, [SentPacket (peer_of (dl_peer dl)) (the_packet (dl_tid dl) 0 Accepted)])"
    by (intro exchange_ok) simp_all
  then show ?thesis
    using run2 by (intro exI conjI) (assumption | simp add: rx_acked_def rx_begin_def rx_new_def)+
qed

text \<open>A transfer that is finished leaves the running ones, and its snapshot is the last of the history.\<close>

lemma finished_job:
  assumes "running dl s"
  shows "hm_get (jo_active (fv_jobs (finish_service (dl_tid dl) status err s))) (dl_tid dl) = None"
    and "jo_history (fv_jobs (finish_service (dl_tid dl) status err s)) \<noteq> []"
    and "sn_status (last (jo_history (fv_jobs (finish_service (dl_tid dl) status err s)))) = status"
    and "sn_error (last (jo_history (fv_jobs (finish_service (dl_tid dl) status err s)))) = err"
proof -
  let ?s = "finish_service (dl_tid dl) status err s"
  obtain job where job: "hm_wf (jo_active (fv_jobs s))" "hm_get (jo_active (fv_jobs s)) (dl_tid dl) = Some job"
    using assms unfolding running_def by auto
  let ?snap = "(jb_snapshot job)\<lparr>sn_status := status, sn_error := err\<rparr>"
  have "hm_get (jo_active (fv_jobs ?s)) (dl_tid dl) = None"
    "\<exists>h. jo_history (fv_jobs ?s) = drop (length (h @ [?snap]) - history_limit) (h @ [?snap])"
    using job by (simp_all add: finish_service_def finish_job_def Let_def push_history_def unreserve_def count_published_def
        hm.get_del split: option.splits) blast+
  then obtain h where h: "hm_get (jo_active (fv_jobs ?s)) (dl_tid dl) = None"
    "jo_history (fv_jobs ?s) = drop (length (h @ [?snap]) - history_limit) (h @ [?snap])" by blast
  have kept: "length (xs @ [y]) - history_limit < length (xs @ [y])" for xs and y :: file_transfer_snapshot
    by (simp add: history_limit_def)
  have "last (jo_history (fv_jobs ?s)) = ?snap" and "jo_history (fv_jobs ?s) \<noteq> []"
    unfolding h(2) last_drop [OF kept] using kept [of h] by (simp_all add: drop_eq_Nil)
  then show "hm_get (jo_active (fv_jobs ?s)) (dl_tid dl) = None" "jo_history (fv_jobs ?s) \<noteq> []"
    "sn_status (last (jo_history (fv_jobs ?s))) = status" "sn_error (last (jo_history (fv_jobs ?s))) = err"
    using h(1) by simp_all
qed

lemma finish_again: "hm_get (jo_active (fv_jobs s)) tid = None \<Longrightarrow> finish_service tid status err s = s"
  by (simp add: finish_service_def finish_job_def)

text \<open>The last packet: what was staged is published and the job is done.\<close>

lemma complete_exchanged:
  assumes "side_ok dl" and "running dl s" and "rx_phase rx = RxWaiting" and "rx_files rx = []"
  shows "\<exists>rx' s' os'.
    exchange (side_link dl) (rx_sequence rx) Complete Completed (Some rx, s, os) = (Inr (), rx', s', os') \<and>
    Published (dl_tid dl) (rx_staged rx) \<in> set os' \<and> hm_get (jo_active (fv_jobs s')) (dl_tid dl) = None \<and>
    jo_history (fv_jobs s') \<noteq> [] \<and>
    sn_status (last (jo_history (fv_jobs s'))) = TransferCompleted \<and>
    sn_error (last (jo_history (fv_jobs s'))) = None"
proof -
  let ?packet = "the_packet (dl_tid dl) (rx_sequence rx) Complete"
  let ?s1 = "receive_packet (dl_lower dl) (dl_registry dl) (dl_now dl) (peer_of (dl_peer dl))
    (generation_of_peer (dl_peer dl)) ?packet s"
  have plain: "offered_entries Complete = None" "\<And>r. Complete \<noteq> CancelTransfer r" by (simp_all add: offered_entries_def)
  obtain s2 where s2: "take_packet (dl_tid dl) ?s1 = (Some ?packet, s2)" "running dl s2"
    using deliver(2) [OF assms(1,2) plain] by blast
  have none: "cancel_of (dl_tid dl) ?s1 = None" by (rule deliver(1) [OF assms(1,2) plain])
  let ?rx = "rx\<lparr>rx_phase := RxCommitting\<rparr>"
  have step: "rx_packet (dl_sha dl) ?packet rx = Inr ?rx" using assms(4) by (simp add: rx_packet_def the_packet_def)
  have 1: "side_poll dl (side_receive dl ?packet (Some rx, s, os)) = (Some ?rx, s2, os)"
    using none s2(1) step assms(3)
    by (simp add: side_receive_def side_poll_def rx_poll_def rx_next_def chunk_size_def the_packet_def)
  define s3 where "s3 = (if rx_into_folder rx then name_destination (dl_tid dl) (dl_destination dl) s2 else s2)"
  let ?named = "name_destination (dl_tid dl) (dl_destination dl)"
  let ?s4 = "finish_service (dl_tid dl) TransferCompleted None (?named s3)"
  have named: "running dl (?named s)" if "running dl s" for s
    unfolding name_destination_def by (rule running_update [OF that]) simp
  have "running dl (?named s3)" using named s2(2) by (simp add: s3_def)
  note ended = finished_job [OF this, of TransferCompleted None]
  have 2: "side_poll dl (Some ?rx, s2, os) = (Some (rx\<lparr>rx_phase := RxPublishing\<rparr>), s3, os)"
    using running_cancel [OF s2(2)] by (simp add: side_poll_def rx_poll_def rx_commit_def s3_def)
  have 3: "side_poll dl (Some (rx\<lparr>rx_phase := RxPublishing\<rparr>), s3, os) =
      (Some (rx\<lparr>rx_phase := RxCompleting\<rparr>), ?s4, os @ [Published (dl_tid dl) (rx_staged rx)])"
    by (simp add: side_poll_def rx_poll_def rx_publish_def)
  have 4: "side_poll dl (Some (rx\<lparr>rx_phase := RxCompleting\<rparr>), ?s4, os') =
      (Some (rx\<lparr>rx_phase := RxOver\<rparr>), ?s4,
       os' @ [SentPacket (peer_of (dl_peer dl)) (the_packet (dl_tid dl) (rx_sequence rx) Completed)])" for os'
    using write_ok [OF assms(1), of True] finish_again [OF ended(1)] by (simp add: side_poll_def rx_poll_def)
  have link: "side_link dl (rx_sequence rx) Complete (Some rx, s, os) =
      (Inr (the_packet (dl_tid dl) (rx_sequence rx) Completed), Some (rx\<lparr>rx_phase := RxOver\<rparr>), ?s4,
       (os @ [Published (dl_tid dl) (rx_staged rx)]) @
       [SentPacket (peer_of (dl_peer dl)) (the_packet (dl_tid dl) (rx_sequence rx) Completed)])"
    unfolding side_link_def 1 2 3 4 by (simp add: last_sent_def)
  have "exchange (side_link dl) (rx_sequence rx) Complete Completed (Some rx, s, os) =
      (Inr (), Some (rx\<lparr>rx_phase := RxOver\<rparr>), ?s4, (os @ [Published (dl_tid dl) (rx_staged rx)]) @
       [SentPacket (peer_of (dl_peer dl)) (the_packet (dl_tid dl) (rx_sequence rx) Completed)])"
    using link by (intro exchange_ok) simp_all
  then show ?thesis using ended by (intro exI conjI) (assumption | simp)+
qed

lemma files_from_enumerate: "files_from (enumerate n sources) = filter (\<lambda>(_, e). \<not> fe_directory e) (enumerate n (map ds_entry sources))"
proof -
  have "map (\<lambda>(i, src). (i, ds_entry src)) (enumerate n sources) = enumerate n (map ds_entry sources)"
    by (induction sources arbitrary: n) auto
  then show ?thesis by (simp add: files_from_def)
qed

section \<open>The round trip\<close>

text \<open>
  C21. A file drop arrives. If the peer is registered with a version that speaks file transfer, the
  service has room for the transfer and every source is what its entry says, then the sender's
  session ends without an error, the receiver publishes exactly the regular files of the drop with
  their contents, in the order of the manifest, and the job ends in the history as completed. The
  packets pass through the service, the user's approval, the job's inbox and the receiver's checks of
  number, offset, size and hash.
\<close>

theorem file_drop_roundtrip:
  assumes "side_ok dl" and "validate_manifest (dl_lower dl) (map ds_entry sources) = Inr tot"
    and "has_room dl tot drop_point s" and "\<forall>src\<in>set sources. readable src"
    and "send_session (dl_lower dl) (dl_sha dl) (side_link dl) sources drop_point ((None, s, []), sn) =
      (result, (rx, s', os), sn')"
  shows "result = Inr () \<and> Published (dl_tid dl) (delivered_files sources) \<in> set os \<and>
    hm_get (jo_active (fv_jobs s')) (dl_tid dl) = None \<and>
    sn_status (last (jo_history (fv_jobs s'))) = TransferCompleted"
proof -
  let ?entries = "map ds_entry sources"
  obtain s1 os1 rx1 where one: "exchange (side_link dl) 0 (the_offer ?entries drop_point) Accepted (None, s, []) =
      (Inr (), Some rx1, s1, os1)"
    "running dl s1" "rx_phase rx1 = RxWaiting" "rx_sequence rx1 = 1" "rx_files rx1 = files_of ?entries"
    "rx_data rx1 = []" "rx_staged rx1 = []"
    using offer_exchanged [OF assms(1,3,2)] by blast
  let ?sn = "sn\<lparr>sn_entries := take 8 ?entries, sn_entry_count := length ?entries, sn_total_bytes := tot,
     sn_status := Transferring\<rparr>"
  have files: "rx_files rx1 = files_from (enumerate 0 sources)"
    unfolding one(5) files_of_def files_from_enumerate ..
  have good: "\<forall>x\<in>set (enumerate 0 sources). readable (snd x)"
    using assms(4) by (auto simp: in_set_enumerate_eq)
  obtain s2 os2 sn2 n where two: "send_files (dl_sha dl) (side_link dl) (enumerate 0 sources) 1 ((Some rx1, s1, os1), ?sn) =
      (Inr n, (Some (rx1\<lparr>rx_files := [], rx_sequence := n,
         rx_staged := delivered_files sources\<rparr>), s2, os2), sn2)" "running dl s2"
    using send_files_ok [OF assms(1) one(2,3) files one(6) good, of os1 ?sn] one(4,7) by auto
  let ?rx = "rx1\<lparr>rx_files := [], rx_sequence := n, rx_staged := delivered_files sources\<rparr>"
  obtain rx3 s3 os3 where three: "exchange (side_link dl) n Complete Completed (Some ?rx, s2, os2) = (Inr (), rx3, s3, os3)"
    "Published (dl_tid dl) (delivered_files sources) \<in> set os3" "hm_get (jo_active (fv_jobs s3)) (dl_tid dl) = None"
    "sn_status (last (jo_history (fv_jobs s3))) = TransferCompleted"
    using complete_exchanged [OF assms(1) two(2), of ?rx os2] one(3) by auto
  have "send_session (dl_lower dl) (dl_sha dl) (side_link dl) sources drop_point ((None, s, []), sn) =
      (Inr (), (rx3, s3, os3), sn2)"
    using one(1) two(1) three(1) unfolding send_session_def the_offer_def by (simp add: assms(2))
  then show ?thesis using assms(5) three(2-4) by simp
qed

text \<open>A drop of a folder with one file of three bytes, read in two pieces.\<close>

definition some_link :: drop_link where
  "some_link =
     (let peer = (\<lparr>pa_peer_id = 1, pa_certificate_fingerprint = ''fp'', pa_control_connection_id = 2\<rparr>,
                  \<lparr>pv_folder_drop = 0, pv_file_transfer = 1\<rparr>)
      in \<lparr>dl_lower = (\<lambda>p. p), dl_sha = (\<lambda>d. [length d]), dl_registry = [(1, peer)], dl_peer = peer, dl_tid = 7,
          dl_now = 0, dl_free = Some (1024 ^ 3), dl_destination = ustr ''in''\<rparr>)"

definition some_sources :: "drop_source list" where
  "some_sources =
     [\<lparr>ds_entry = \<lparr>fe_path = ustr ''a'', fe_size = 0, fe_directory = True\<rparr>, ds_symlink = False,
       ds_open = Inr False, ds_reads = []\<rparr>,
      \<lparr>ds_entry = \<lparr>fe_path = ustr ''a/b'', fe_size = 3, fe_directory = False\<rparr>, ds_symlink = False,
       ds_open = Inr True, ds_reads = [Inr [1, 2], Inr [3]]\<rparr>]"

lemma some_manifest: "validate_manifest (\<lambda>p. p) (map ds_entry some_sources) = Inr 3"
  by (simp add: some_sources_def validate_manifest_def max_file_entries_def check_entry_def checked_u64_def
      max_transfer_bytes_def utf8_len_def utf8_width_def ustr_def cp_def unsafe_part_def trim_def
      is_whitespace_def is_control_def reserved_stem_def part_stem_def ascii_upper_def
      has_conflict_def slash_prefixes_def hm_get_def hm_put_def hm_del_def)

lemma file_drop_roundtrip_witness:
  "\<exists>rx s' os sn'.
     send_session (dl_lower some_link) (dl_sha some_link) (side_link some_link) some_sources None
       ((None, service_new 0 False, []), new_snapshot 7 1 False Preparing) = (Inr (), (rx, s', os), sn') \<and>
     Published 7 [(ustr ''a/b'', [1, 2, 3])] \<in> set os"
proof -
  have ok: "side_ok some_link"
    by (simp add: side_ok_def some_link_def registry_peer_def peer_of_def hm_get_def Let_def)
  have manifest: "validate_manifest (dl_lower some_link) (map ds_entry some_sources) = Inr 3"
    using some_manifest by (simp add: some_link_def Let_def)
  have room: "has_room some_link 3 None (service_new 0 False)"
    by (simp add: has_room_def service_new_def some_link_def Let_def max_active_def max_pending_offers_def
        max_pending_offers_per_peer_def hm_retain_def reserve_bytes_def max_peer_reserved_bytes_def sat_add_def amount_def
        max_global_reserved_bytes_def max_published_bytes_def max_peer_published_bytes_def min_free_bytes_def)
  have sources: "\<forall>src\<in>set some_sources. readable src"
    by (simp add: some_sources_def readable_def source_content_def file_chunk_bytes_def)
  have files: "delivered_files some_sources = [(ustr ''a/b'', [1, 2, 3])]" "dl_tid some_link = 7"
    by (simp_all add: delivered_files_def some_sources_def source_content_def some_link_def Let_def)
  obtain result rx s' os sn' where run: "send_session (dl_lower some_link) (dl_sha some_link) (side_link some_link)
      some_sources None ((None, service_new 0 False, []), new_snapshot 7 1 False Preparing) = (result, (rx, s', os), sn')"
    by (metis prod_cases3)
  show ?thesis using file_drop_roundtrip [OF ok manifest room sources run] run unfolding files by blast
qed

end
