(* ===== verification/FileQuota.thy ===== *)
theory FileQuota
  imports FileSession
begin

text \<open>
  The books of the file service: what is reserved is what the running transfers reserve, what is
  published was reserved before, and no quota is exceeded by any call.
\<close>

section \<open>Sums over a map\<close>

definition weight :: "('v \<Rightarrow> nat) \<Rightarrow> ('k, 'v) hash_map \<Rightarrow> nat" where
  "weight w m = sum_list (map (w \<circ> snd) m)"

definition weight_at :: "('v \<Rightarrow> nat) \<Rightarrow> ('k, 'v) hash_map \<Rightarrow> 'k \<Rightarrow> nat" where
  "weight_at w m k = (case hm_get m k of Some v \<Rightarrow> w v | None \<Rightarrow> 0)"

lemma weight_del: "hm_wf m \<Longrightarrow> weight w (hm_del k m) + weight_at w m k = weight w m"
proof (induction m)
  case (Cons e m)
  have "k \<notin> fst ` set m \<Longrightarrow> filter (\<lambda>e. fst e \<noteq> k) m = m" by (induction m) auto
  then show ?case
    using Cons by (cases "fst e = k")
      (auto simp: weight_def weight_at_def hm_del_def hm_get_def hm_wf_def map_of_eq_None_iff split: option.splits)
qed (simp add: weight_def weight_at_def hm_del_def)

lemma weight_put: "hm_wf m \<Longrightarrow> weight w (hm_put k v m) + weight_at w m k = weight w m + w v"
  using weight_del [of m w k] by (simp add: weight_def hm_put_def)

lemma weight_same: "hm_wf m \<Longrightarrow> hm_get m k = Some v \<Longrightarrow> w v' = w v \<Longrightarrow> weight w (hm_put k v' m) = weight w m"
  using weight_put [of m w k v'] by (simp add: weight_at_def)

lemma weight_new: "hm_wf m \<Longrightarrow> hm_get m k = None \<Longrightarrow> weight w (hm_put k v m) = weight w m + w v"
  using weight_put [of m w k v] by (simp add: weight_at_def)

lemma weight_gone: "hm_wf m \<Longrightarrow> hm_get m k = Some v \<Longrightarrow> weight w (hm_del k m) + w v = weight w m"
  using weight_del [of m w k] by (simp add: weight_at_def)

lemma weight_map: "(\<And>v. w (f v) = w v) \<Longrightarrow> weight w (map (\<lambda>(k, v). (k, f v)) m) = weight w m"
  by (induction m) (auto simp: weight_def)

lemma map_fst_values: "map fst (map (\<lambda>(k, v). (k, f v)) m) = map fst m"
  by (induction m) auto

section \<open>The books\<close>

definition peer_share :: "uuid \<Rightarrow> file_job \<Rightarrow> u64" where
  "peer_share peer job = (if sn_peer_id (jb_snapshot job) = peer then jb_reserved_bytes job else 0)"

text \<open>An incoming transfer announces nothing or what it reserved; an outgoing one reserves nothing.\<close>

definition job_fits :: "file_job \<Rightarrow> bool" where
  "job_fits job \<longleftrightarrow>
     (if sn_incoming (jb_snapshot job) then sn_total_bytes (jb_snapshot job) \<in> {0, jb_reserved_bytes job}
      else jb_reserved_bytes job = 0)"

definition reserved_ok :: "file_jobs \<Rightarrow> bool" where
  "reserved_ok js \<longleftrightarrow>
     hm_wf (jo_active js) \<and> hm_wf (jo_reserved_by_peer js) \<and> hm_wf (jo_published_by_peer js) \<and>
     jo_reserved_bytes js = weight jb_reserved_bytes (jo_active js) \<and>
     (\<forall>p. amount (jo_reserved_by_peer js) p = weight (peer_share p) (jo_active js)) \<and>
     (\<forall>e\<in>set (jo_active js). job_fits (snd e))"

text \<open>The quotas; \<open>p0\<close> is what the folder held when the service started.\<close>

definition quotas_ok :: "u64 \<Rightarrow> file_jobs \<Rightarrow> bool" where
  "quotas_ok p0 js \<longleftrightarrow>
     jo_reserved_bytes js \<le> max_global_reserved_bytes \<and>
     jo_published_bytes js + jo_reserved_bytes js \<le> max max_published_bytes p0 \<and>
     (\<forall>p. amount (jo_reserved_by_peer js) p \<le> max_peer_reserved_bytes \<and>
          amount (jo_published_by_peer js) p + amount (jo_reserved_by_peer js) p \<le> max_peer_published_bytes)"

definition counts_ok :: "file_jobs \<Rightarrow> bool" where
  "counts_ok js \<longleftrightarrow>
     hm_wf (jo_pending js) \<and>
     length (jo_active js) \<le> max_active \<and> length (jo_pending js) \<le> max_pending_offers \<and>
     length (jo_history js) \<le> history_limit \<and>
     (\<forall>p. length (filter (\<lambda>e. peer_of (po_peer (snd e)) = p) (jo_pending js)) \<le> max_pending_offers_per_peer)"

definition jobs_ok :: "u64 \<Rightarrow> file_jobs \<Rightarrow> bool" where
  "jobs_ok p0 js \<longleftrightarrow> reserved_ok js \<and> quotas_ok p0 js \<and> counts_ok js"

lemmas limit_defs = max_active_def history_limit_def max_global_reserved_bytes_def max_peer_reserved_bytes_def
  max_published_bytes_def max_peer_published_bytes_def max_pending_offers_def max_pending_offers_per_peer_def

subsection \<open>Offers and history\<close>

lemma filter_filter_le: "length (filter p (filter q xs)) \<le> length (filter p xs)"
  by (induction xs) auto

lemma fewer_pending:
  assumes "jobs_ok p0 js"
  shows "jobs_ok p0 (js\<lparr>jo_pending := filter q (jo_pending js)\<rparr>)"
proof -
  have counts: "counts_ok js" using assms by (simp add: jobs_ok_def)
  have "length (filter p (filter q (jo_pending js))) \<le> k" if "length (filter p (jo_pending js)) \<le> k" for p k
    using order_trans [OF filter_filter_le that] .
  moreover have "length (filter q (jo_pending js)) \<le> max_pending_offers"
    using counts length_filter_le order_trans unfolding counts_ok_def by meson
  moreover have "hm_wf (filter q (jo_pending js))"
    using counts by (simp add: counts_ok_def hm_wf_def distinct_map_filter_fst)
  ultimately have "counts_ok (js\<lparr>jo_pending := filter q (jo_pending js)\<rparr>)"
    using counts unfolding counts_ok_def by (simp del: filter_filter)
  then show ?thesis using assms by (auto simp: jobs_ok_def reserved_ok_def quotas_ok_def)
qed

lemma prune_ok: "jobs_ok p0 js \<Longrightarrow> jobs_ok p0 (prune_pending now js)"
  using fewer_pending [of p0 js] by (simp add: prune_pending_def hm_retain_def)

lemma pending_del_ok: "jobs_ok p0 js \<Longrightarrow> jobs_ok p0 (js\<lparr>jo_pending := hm_del tid (jo_pending js)\<rparr>)"
  using fewer_pending [of p0 js] by (simp add: hm_del_def)

lemma push_history_ok: "jobs_ok p0 js \<Longrightarrow> jobs_ok p0 (push_history snaps js)"
  by (auto simp: push_history_def Let_def jobs_ok_def reserved_ok_def quotas_ok_def counts_ok_def)

lemma pending_put_ok:
  assumes "jobs_ok p0 js" and "hm_get (jo_pending js) tid = None" and "length (jo_pending js) < max_pending_offers"
    and "length (filter (\<lambda>e. peer_of (po_peer (snd e)) = peer_of (po_peer offer)) (jo_pending js)) < max_pending_offers_per_peer"
  shows "jobs_ok p0 (js\<lparr>jo_pending := hm_put tid offer (jo_pending js)\<rparr>)"
proof -
  have wf: "hm_wf (jo_pending js)" using assms(1) by (simp add: jobs_ok_def counts_ok_def)
  have new: "hm_put tid offer (jo_pending js) = (tid, offer) # jo_pending js"
  proof -
    have "filter (\<lambda>e. fst e \<noteq> tid) (jo_pending js) = jo_pending js"
      using assms(2) by (auto simp: hm_get_def map_of_eq_None_iff filter_id_conv image_iff)
    then show ?thesis by (simp add: hm_put_def hm_del_def)
  qed
  have "hm_wf (hm_put tid offer (jo_pending js))" by (rule hm.wf_put [OF wf])
  then show ?thesis
    using assms(1,3,4) unfolding new jobs_ok_def reserved_ok_def quotas_ok_def counts_ok_def by auto
qed

lemma queue_ok:
  assumes "jobs_ok p0 js"
  shows "jobs_ok p0 (snd (queue_pending_offer now tid peer packet entries tot js))"
proof -
  let ?js = "prune_pending now js"
  have ok: "jobs_ok p0 ?js" by (rule prune_ok [OF assms])
  then show ?thesis
    by (auto simp: queue_pending_offer_def Let_def intro!: pending_put_ok)
qed

subsection \<open>Jobs\<close>

text \<open>A change of a job that the books do not see.\<close>

definition same_books :: "file_job \<Rightarrow> file_job \<Rightarrow> bool" where
  "same_books job job' \<longleftrightarrow>
     jb_reserved_bytes job' = jb_reserved_bytes job \<and>
     sn_peer_id (jb_snapshot job') = sn_peer_id (jb_snapshot job) \<and>
     sn_incoming (jb_snapshot job') = sn_incoming (jb_snapshot job) \<and>
     (sn_total_bytes (jb_snapshot job') = sn_total_bytes (jb_snapshot job) \<or>
      sn_total_bytes (jb_snapshot job') = jb_reserved_bytes job \<or> \<not> sn_incoming (jb_snapshot job))"

lemma change_job_ok:
  assumes "jobs_ok p0 js" and "hm_get (jo_active js) tid = Some job" and "same_books job job'"
  shows "jobs_ok p0 (js\<lparr>jo_active := hm_put tid job' (jo_active js)\<rparr>)"
proof -
  have wf: "hm_wf (jo_active js)" using assms(1) by (simp add: jobs_ok_def reserved_ok_def)
  have w: "weight jb_reserved_bytes (hm_put tid job' (jo_active js)) = weight jb_reserved_bytes (jo_active js)"
    "weight (peer_share p) (hm_put tid job' (jo_active js)) = weight (peer_share p) (jo_active js)" for p
    using weight_same [OF wf assms(2)] assms(3) by (simp_all add: same_books_def peer_share_def)
  have len: "length (hm_put tid job' (jo_active js)) = length (jo_active js)"
    using hm.length_put [OF wf, of tid job'] assms(2) by simp
  have old: "(tid, job) \<in> set (jo_active js)" using hm.get_entries [OF wf] assms(2) by simp
  have all: "\<forall>e\<in>set (jo_active js). job_fits (snd e)"
    using assms(1) unfolding jobs_ok_def reserved_ok_def by blast
  then have "job_fits job" using old by force
  then have "job_fits job'" using assms(3) by (auto simp: same_books_def job_fits_def split: if_splits)
  then have "\<forall>e\<in>set (hm_put tid job' (jo_active js)). job_fits (snd e)"
    using all unfolding hm_put_def hm_del_def by simp
  then show ?thesis
    using assms(1) hm.wf_put [OF wf, of tid job'] w len
    unfolding jobs_ok_def reserved_ok_def quotas_ok_def counts_ok_def by auto
qed

lemma cancel_job_ok: "jobs_ok p0 js \<Longrightarrow> jobs_ok p0 (cancel_job tid reason js)"
  by (auto simp: cancel_job_def same_books_def intro!: change_job_ok split: option.split)

lemma update_job_ok:
  assumes "jobs_ok p0 js" and "\<And>job. hm_get (jo_active js) tid = Some job \<Longrightarrow>
      same_books job (job\<lparr>jb_snapshot := f (jb_snapshot job)\<rparr>)"
  shows "jobs_ok p0 (update_job tid f js)"
  using assms change_job_ok [OF assms(1)] by (auto simp: update_job_def split: option.split)

subsection \<open>Reserving and giving back\<close>

lemma amount_put: "hm_wf m \<Longrightarrow> amount (hm_put k v m) p = (if p = k then v else amount m p)"
  by (simp add: amount_def hm.get_put)

lemma amount_del: "hm_wf m \<Longrightarrow> amount (hm_del k m) p = (if p = k then 0 else amount m p)"
  by (simp add: amount_def hm.get_del)

lemma sat_add_small: "sat_add a b \<le> n \<Longrightarrow> n < u64_max \<Longrightarrow> sat_add a b = a + b \<and> a + b \<le> n"
  by (auto simp: sat_add_def min_def split: if_splits)

text \<open>What a granted reservation says; the sums did not saturate.\<close>

lemma reserve_granted:
  assumes "reserve_bytes free peer n js = Inr js'"
  shows "js' = js\<lparr>jo_reserved_bytes := jo_reserved_bytes js + n,
      jo_reserved_by_peer := hm_put peer (amount (jo_reserved_by_peer js) peer + n) (jo_reserved_by_peer js)\<rparr>"
    and "amount (jo_reserved_by_peer js) peer + n \<le> max_peer_reserved_bytes"
    and "jo_reserved_bytes js + n \<le> max_global_reserved_bytes"
    and "jo_published_bytes js + jo_reserved_bytes js + n \<le> max_published_bytes"
    and "amount (jo_published_by_peer js) peer + amount (jo_reserved_by_peer js) peer + n \<le> max_peer_published_bytes"
proof -
  note limits = sat_add_small [where n = max_peer_reserved_bytes] sat_add_small [where n = max_global_reserved_bytes]
    sat_add_small [where n = max_published_bytes] sat_add_small [where n = max_peer_published_bytes]
  have small: "max_peer_reserved_bytes < u64_max" "max_global_reserved_bytes < u64_max" "max_published_bytes < u64_max"
    "max_peer_published_bytes < u64_max" by (simp_all add: limit_defs)
  have checks: "sat_add (amount (jo_reserved_by_peer js) peer) n \<le> max_peer_reserved_bytes"
    "sat_add (jo_reserved_bytes js) n \<le> max_global_reserved_bytes"
    "sat_add (sat_add (jo_published_bytes js) (jo_reserved_bytes js)) n \<le> max_published_bytes"
    "sat_add (sat_add (amount (jo_published_by_peer js) peer) (amount (jo_reserved_by_peer js) peer)) n \<le> max_peer_published_bytes"
    "js' = js\<lparr>jo_reserved_bytes := sat_add (jo_reserved_bytes js) n,
      jo_reserved_by_peer := hm_put peer (sat_add (amount (jo_reserved_by_peer js) peer) n) (jo_reserved_by_peer js)\<rparr>"
    using assms by (auto simp: reserve_bytes_def not_less split: if_splits)
  note sums = limits(1) [OF checks(1) small(1)] limits(2) [OF checks(2) small(2)] limits(3) [OF checks(3) small(3)]
    limits(4) [OF checks(4) small(4)]
  have "sat_add a b \<le> k" if "sat_add a b + c \<le> k" for a b c k :: nat using that by simp
  then have inner: "sat_add (jo_published_bytes js) (jo_reserved_bytes js) \<le> max_published_bytes"
    "sat_add (amount (jo_published_by_peer js) peer) (amount (jo_reserved_by_peer js) peer) \<le> max_peer_published_bytes"
    using sums(3,4) by blast+
  note inner = limits(3) [OF inner(1) small(3)] limits(4) [OF inner(2) small(4)]
  show "js' = js\<lparr>jo_reserved_bytes := jo_reserved_bytes js + n,
      jo_reserved_by_peer := hm_put peer (amount (jo_reserved_by_peer js) peer + n) (jo_reserved_by_peer js)\<rparr>"
    using checks(5) sums(1,2) by simp
  show "amount (jo_reserved_by_peer js) peer + n \<le> max_peer_reserved_bytes" using sums(1) by simp
  show "jo_reserved_bytes js + n \<le> max_global_reserved_bytes" using sums(2) by simp
  show "jo_published_bytes js + jo_reserved_bytes js + n \<le> max_published_bytes" using sums(3) inner(1) by simp
  show "amount (jo_published_by_peer js) peer + amount (jo_reserved_by_peer js) peer + n \<le> max_peer_published_bytes"
    using sums(4) inner(2) by simp
qed

text \<open>A new job enters the books with its reservation.\<close>

lemma enter_job_ok:
  assumes "jobs_ok p0 js" and "hm_get (jo_active js) tid = None" and "length (jo_active js) < max_active"
    and "job_fits job" and "sn_peer_id (jb_snapshot job) = peer"
    and "jb_reserved_bytes job = 0 \<and> js' = js \<or> reserve_bytes free peer (jb_reserved_bytes job) js = Inr js'"
  shows "jobs_ok p0 (js'\<lparr>jo_active := hm_put tid job (jo_active js')\<rparr>)"
proof -
  let ?n = "jb_reserved_bytes job"
  have wf: "hm_wf (jo_active js)" "hm_wf (jo_reserved_by_peer js)"
    using assms(1) by (simp_all add: jobs_ok_def reserved_ok_def)
  have grown: "jo_reserved_bytes js' = jo_reserved_bytes js + ?n"
    "amount (jo_reserved_by_peer js') p = amount (jo_reserved_by_peer js) p + (if p = peer then ?n else 0)"
    "hm_wf (jo_reserved_by_peer js')" "jo_active js' = jo_active js" "jo_pending js' = jo_pending js"
    "jo_history js' = jo_history js" "jo_published_bytes js' = jo_published_bytes js"
    "jo_published_by_peer js' = jo_published_by_peer js" for p
    using assms(6) wf(2) by (auto simp: amount_put hm.wf_put dest!: reserve_granted(1))
  have quota: "quotas_ok p0 js" using assms(1) by (simp add: jobs_ok_def)
  have "quotas_ok p0 js'"
  proof (cases "?n = 0")
    case True
    then show ?thesis using quota grown by (auto simp: quotas_ok_def)
  next
    case False
    then show ?thesis
      using assms(6) reserve_granted(2-5) [of free peer ?n js js'] quota grown unfolding quotas_ok_def by auto
  qed
  moreover have "weight (peer_share p) (hm_put tid job (jo_active js)) =
      weight (peer_share p) (jo_active js) + (if p = peer then ?n else 0)" for p
    using weight_new [OF wf(1) assms(2), of "peer_share p" job] assms(5) by (auto simp: peer_share_def)
  moreover have "weight jb_reserved_bytes (hm_put tid job (jo_active js)) = weight jb_reserved_bytes (jo_active js) + ?n"
    by (rule weight_new [OF wf(1) assms(2)])
  moreover have "length (hm_put tid job (jo_active js)) = Suc (length (jo_active js))"
    using hm.length_put [OF wf(1), of tid job] assms(2) by simp
  moreover have "\<forall>e\<in>set (hm_put tid job (jo_active js)). job_fits (snd e)"
    using assms(1,4) unfolding jobs_ok_def reserved_ok_def hm_put_def hm_del_def by simp
  ultimately show ?thesis
    using assms(1,3) hm.wf_put [OF wf(1), of tid job] grown
    unfolding jobs_ok_def reserved_ok_def quotas_ok_def counts_ok_def by auto
qed

lemma register_ok:
  assumes "jobs_ok p0 js" and "register_job free tid peer incoming n js = Inr js'" and "\<not> incoming \<longrightarrow> n = 0"
  shows "jobs_ok p0 js' \<and> hm_get (jo_active js) tid = None \<and>
    (\<exists>job. hm_get (jo_active js') tid = Some job \<and> jb_reserved_bytes job = n \<and>
       sn_incoming (jb_snapshot job) = incoming \<and> jb_cancel job = None) \<and>
    (\<forall>k. k \<noteq> tid \<longrightarrow> hm_get (jo_active js') k = hm_get (jo_active js) k) \<and>
    jo_pending js' = jo_pending js"
proof -
  let ?job = "\<lparr>jb_snapshot = new_snapshot tid (peer_of peer) incoming Preparing,
     jb_generation = generation_of_peer peer, jb_reserved_bytes = n, jb_inbox = mpsc_new 4, jb_cancel = None\<rparr>"
  obtain js1 where js1: "(if incoming \<and> 0 < n then reserve_bytes free (peer_of peer) n js else Inr js) = Inr js1"
    and js': "js' = js1\<lparr>jo_active := hm_put tid ?job (jo_active js1)\<rparr>"
    and free_place: "hm_get (jo_active js) tid = None" "length (jo_active js) < max_active"
    using assms(2) by (auto simp: register_job_def not_le split: if_splits sum.splits)
  have from_js: "n = 0 \<and> js1 = js \<or> reserve_bytes free (peer_of peer) n js = Inr js1"
    using js1 assms(3) by (auto split: if_splits)
  have "jobs_ok p0 js'"
    unfolding js' using enter_job_ok [OF assms(1) free_place, of ?job "peer_of peer" js1 free] from_js assms(3)
    by (auto simp: job_fits_def new_snapshot_def)
  moreover have same: "jo_active js1 = jo_active js" "jo_pending js1 = jo_pending js"
    using from_js by (auto dest!: reserve_granted(1))
  moreover have "hm_wf (jo_active js)" using assms(1) by (simp add: jobs_ok_def reserved_ok_def)
  ultimately show ?thesis using free_place by (simp add: js' hm.get_put new_snapshot_def)
qed


text \<open>What is given back, and what counts as published, when a job ends.\<close>

lemma unreserve_fields:
  assumes "hm_wf (jo_reserved_by_peer js)"
  shows "jo_reserved_bytes (unreserve job js) = jo_reserved_bytes js - jb_reserved_bytes job"
    and "amount (jo_reserved_by_peer (unreserve job js)) p =
      amount (jo_reserved_by_peer js) p - peer_share p job"
    and "hm_wf (jo_reserved_by_peer (unreserve job js))"
    and "jo_active (unreserve job js) = jo_active js" "jo_pending (unreserve job js) = jo_pending js"
    and "jo_history (unreserve job js) = jo_history js"
    and "jo_published_bytes (unreserve job js) = jo_published_bytes js"
    and "jo_published_by_peer (unreserve job js) = jo_published_by_peer js"
  using assms
  by (auto simp: unreserve_def Let_def peer_share_def amount_del amount_put hm.wf_del hm.wf_put split: option.splits)
    (auto simp: amount_def)

lemma sat_add_le: "sat_add a b \<le> a + b"
  by (simp add: sat_add_def)

lemma count_published_fields:
  assumes "hm_wf (jo_published_by_peer js)" and "sn_total_bytes sn \<le> n"
  shows "jo_published_bytes (count_published sn js) \<le> jo_published_bytes js + n"
    and "amount (jo_published_by_peer (count_published sn js)) p \<le>
      amount (jo_published_by_peer js) p + (if sn_peer_id sn = p then n else 0)"
    and "hm_wf (jo_published_by_peer (count_published sn js))"
    and "jo_reserved_by_peer (count_published sn js) = jo_reserved_by_peer js"
    and "jo_active (count_published sn js) = jo_active js" "jo_pending (count_published sn js) = jo_pending js"
    and "jo_history (count_published sn js) = jo_history js"
    and "jo_reserved_bytes (count_published sn js) = jo_reserved_bytes js"
  using assms order_trans [OF sat_add_le add_left_mono [OF assms(2)]]
  by (simp_all add: count_published_def amount_put hm.wf_put)

lemma push_history_fields [simp]:
  "jo_active (push_history snaps js) = jo_active js" "jo_pending (push_history snaps js) = jo_pending js"
  by (simp_all add: push_history_def Let_def)

lemma finish_fields:
  assumes "hm_wf (jo_reserved_by_peer js)"
  shows "jo_active (finish_job tid status err js) = hm_del tid (jo_active js)"
    and "jo_pending (finish_job tid status err js) = jo_pending js"
proof -
  have "hm_del tid (jo_active js) = jo_active js" if "hm_get (jo_active js) tid = None"
    using that unfolding hm_del_def filter_id_conv by (auto simp: hm_get_def map_of_eq_None_iff image_iff)
  then show "jo_active (finish_job tid status err js) = hm_del tid (jo_active js)"
    and "jo_pending (finish_job tid status err js) = jo_pending js"
    using assms
    by (auto simp: finish_job_def Let_def unreserve_fields(4,5) count_published_def split: option.splits)
qed

text \<open>The books after a job left: its reservation is free, and at most that much was published.\<close>

lemma end_job_ok:
  assumes "jobs_ok p0 js" and "hm_get (jo_active js) tid = Some job"
    and "jo_active js' = hm_del tid (jo_active js)" "jo_pending js' = jo_pending js" "jo_history js' = jo_history js"
    and "hm_wf (jo_reserved_by_peer js')" "hm_wf (jo_published_by_peer js')"
    and "jo_reserved_bytes js' = jo_reserved_bytes js - jb_reserved_bytes job"
    and "\<And>p. amount (jo_reserved_by_peer js') p = amount (jo_reserved_by_peer js) p - peer_share p job"
    and "jo_published_bytes js' \<le> jo_published_bytes js + jb_reserved_bytes job"
    and "\<And>p. amount (jo_published_by_peer js') p \<le> amount (jo_published_by_peer js) p + peer_share p job"
  shows "jobs_ok p0 js'"
proof -
  have reserved: "reserved_ok js" and quota: "quotas_ok p0 js" and counts: "counts_ok js"
    using assms(1) by (simp_all add: jobs_ok_def)
  then have wf: "hm_wf (jo_active js)" by (simp add: reserved_ok_def)
  have gone: "weight jb_reserved_bytes (hm_del tid (jo_active js)) + jb_reserved_bytes job = jo_reserved_bytes js"
    "weight (peer_share p) (hm_del tid (jo_active js)) + peer_share p job = amount (jo_reserved_by_peer js) p" for p
    using reserved weight_gone [OF wf assms(2)] by (simp_all add: reserved_ok_def)
  have "\<forall>e\<in>set (hm_del tid (jo_active js)). job_fits (snd e)"
    using reserved by (auto simp: reserved_ok_def hm_del_def)
  moreover have "amount (jo_reserved_by_peer js') p = weight (peer_share p) (hm_del tid (jo_active js))" for p
    using assms(9) [of p] gone(2) [of p] by linarith
  ultimately have "reserved_ok js'"
    using assms(3,6-8) gone(1) hm.wf_del [OF wf] unfolding reserved_ok_def by simp
  moreover have "quotas_ok p0 js'"
  proof -
    have "jo_published_bytes js' + jo_reserved_bytes js' \<le> jo_published_bytes js + jo_reserved_bytes js"
      and "jo_reserved_bytes js' \<le> jo_reserved_bytes js"
      using assms(8,10) gone(1) by linarith+
    moreover have "amount (jo_published_by_peer js') p + amount (jo_reserved_by_peer js') p \<le>
        amount (jo_published_by_peer js) p + amount (jo_reserved_by_peer js) p"
      and "amount (jo_reserved_by_peer js') p \<le> amount (jo_reserved_by_peer js) p" for p
      using assms(9) [of p] assms(11) [of p] gone(2) [of p] by linarith+
    ultimately show ?thesis using quota unfolding quotas_ok_def by (meson order_trans)
  qed
  moreover have "length (hm_del tid (jo_active js)) \<le> length (jo_active js)" by (simp add: hm_del_def)
  then have "counts_ok js'" using counts unfolding counts_ok_def assms(3-5) by simp
  ultimately show ?thesis by (simp add: jobs_ok_def)
qed

lemma finish_ok:
  assumes "jobs_ok p0 js"
  shows "jobs_ok p0 (finish_job tid status err js)"
proof (cases "hm_get (jo_active js) tid")
  case None
  then show ?thesis using assms by (simp add: finish_job_def)
next
  case (Some job)
  let ?snap = "(jb_snapshot job)\<lparr>sn_status := status, sn_error := err\<rparr>"
  let ?js = "js\<lparr>jo_active := hm_del tid (jo_active js)\<rparr>"
  have wf: "hm_wf (jo_active js)" "hm_wf (jo_reserved_by_peer ?js)" "hm_wf (jo_published_by_peer (unreserve job ?js))"
    and fits: "\<forall>e\<in>set (jo_active js). job_fits (snd e)"
    using assms unreserve_fields(8) [of ?js] by (simp_all add: jobs_ok_def reserved_ok_def)
  note un = unreserve_fields [OF wf(2), of job]
  have "(tid, job) \<in> set (jo_active js)" using Some hm.get_entries [OF wf(1)] by simp
  then have "job_fits job" using fits by force
  then have small: "sn_incoming ?snap \<Longrightarrow> sn_total_bytes ?snap \<le> jb_reserved_bytes job"
    by (auto simp: job_fits_def)
  have "jobs_ok p0 (unreserve job ?js)"
    by (rule end_job_ok [OF assms Some]) (use un wf(3) in simp_all)
  moreover have "jobs_ok p0 (count_published ?snap (unreserve job ?js))" if "sn_incoming ?snap"
  proof -
    note co = count_published_fields [OF wf(3) small [OF that]]
    have "amount (jo_published_by_peer (count_published ?snap (unreserve job ?js))) p \<le>
        amount (jo_published_by_peer (unreserve job ?js)) p + peer_share p job" for p
      using co(2) [of p] by (simp add: peer_share_def)
    then show ?thesis by (intro end_job_ok [OF assms Some]) (use un co(1,3-8) in simp_all)
  qed
  ultimately show ?thesis
    using Some by (auto simp: finish_job_def Let_def intro!: push_history_ok)
qed

end
