(* ===== verification/FileMachine.thy ===== *)
theory FileMachine
  imports FileQuota
begin

text \<open>
  The file service as a machine: its calls in any order, from any thread, and the polls of the tasks
  it has spawned. What the service promises to its user: the quotas hold, and only what was approved
  is published.
\<close>

section \<open>The machine\<close>

datatype sender_change =
    SenderManifest "file_entry list" u64
  | SenderTransferring
  | SenderChunk u64

definition apply_change :: "sender_change \<Rightarrow> file_transfer_snapshot \<Rightarrow> file_transfer_snapshot" where
  "apply_change c sn =
     (case c of
        SenderManifest entries tot \<Rightarrow>
          sn\<lparr>sn_entries := take 8 entries, sn_entry_count := length entries, sn_total_bytes := tot,
             sn_status := Waiting\<rparr>
      | SenderTransferring \<Rightarrow> sn\<lparr>sn_status := Transferring\<rparr>
      | SenderChunk n \<Rightarrow> sn\<lparr>sn_transferred_bytes := sn_transferred_bytes sn + n\<rparr>)"

text \<open>
  Each call is one stretch of code under the lock: approving an offer is three calls. A sender's task
  shows by the changes it makes to its snapshot, the packets it takes and its end.
\<close>

datatype file_call =
    SnapshotsCall nat
  | DragFailureCall uuid uuid file_error
  | CancelCall nat uuid
  | ApproveTakeCall nat uuid
  | ApproveRegisterCall nat "u64 option"
  | ApproveRecordCall nat
  | DisconnectCall nat uuid uuid
  | SendCall "peer_versions connection_registry" uuid uuid usize bool
  | ReceiveCall "peer_versions connection_registry" nat uuid uuid file_transfer_packet
  | ReceiverPoll "peer_versions connection_registry" session_answer ustring "ustring list" nat
  | SenderUpdate uuid sender_change
  | SenderTake uuid
  | SenderFinish uuid file_transfer_status "file_error option"

datatype file_obs = Approved uuid file_transfer_packet | FromSession session_obs

text \<open>A receiver's task: the transfer, its peer, the offer it was spawned with, and where it is.\<close>

record receiver_task =
  rt_tid :: uuid
  rt_peer :: registered_peer
  rt_offer :: file_transfer_packet
  rt_session :: rx_session

text \<open>
  The offers taken out of the queue and not yet registered, those refused and not yet recorded, and
  the tasks in the order they were spawned, the finished ones too.
\<close>

record file_machine =
  fm_service :: file_transfer_service
  fm_taken :: "(uuid \<times> pending_offer) list"
  fm_refused :: "(pending_offer \<times> file_error) list"
  fm_tasks :: "receiver_task list"

definition file_machine_new :: "u64 \<Rightarrow> bool \<Rightarrow> file_machine" where
  "file_machine_new directory_bytes has_resolver =
     \<lparr>fm_service = service_new directory_bytes has_resolver, fm_taken = [], fm_refused = [], fm_tasks = []\<rparr>"

definition with_jobs :: "(file_jobs \<Rightarrow> file_jobs) \<Rightarrow> file_machine \<Rightarrow> file_machine" where
  "with_jobs f m = m\<lparr>fm_service := (fm_service m)\<lparr>fv_jobs := f (fv_jobs (fm_service m))\<rparr>\<rparr>"

definition is_outgoing :: "uuid \<Rightarrow> file_machine \<Rightarrow> bool" where
  "is_outgoing tid m \<longleftrightarrow>
     (case hm_get (jo_active (fv_jobs (fm_service m))) tid of
        Some job \<Rightarrow> \<not> sn_incoming (jb_snapshot job)
      | None \<Rightarrow> False)"

definition approve_step :: "nat \<Rightarrow> u64 option \<Rightarrow> file_machine \<Rightarrow> file_obs list \<times> file_machine" where
  "approve_step i free m =
     (if i < length (fm_taken m)
      then let (tid, offer) = fm_taken m ! i; m = m\<lparr>fm_taken := remove_nth i (fm_taken m)\<rparr>
           in case approve_register free tid offer (fm_service m) of
                (Inr (peer, packet), s) \<Rightarrow>
                  ([Approved tid packet],
                   m\<lparr>fm_service := s,
                     fm_tasks := fm_tasks m @
                       [\<lparr>rt_tid = tid, rt_peer = peer, rt_offer = packet, rt_session = rx_new packet\<rparr>]\<rparr>)
              | (Inl reason, s) \<Rightarrow> ([], m\<lparr>fm_service := s, fm_refused := (offer, reason) # fm_refused m\<rparr>)
      else ([], m))"

definition poll_step ::
  "(ustring \<Rightarrow> ustring) \<Rightarrow> (byte list \<Rightarrow> byte list) \<Rightarrow> peer_versions connection_registry \<Rightarrow> session_answer
     \<Rightarrow> ustring \<Rightarrow> ustring list \<Rightarrow> nat \<Rightarrow> file_machine \<Rightarrow> file_obs list \<times> file_machine" where
  "poll_step lower sha reg answer destination moved i m =
     (if i < length (fm_tasks m)
      then let task = fm_tasks m ! i
           in case rx_poll lower sha reg answer (rt_tid task) (rt_peer task) destination moved (rt_session task)
                     (fm_service m) of
                (os, rx, s) \<Rightarrow>
                  (map FromSession os,
                   m\<lparr>fm_service := s, fm_tasks := (fm_tasks m)[i := task\<lparr>rt_session := rx\<rparr>]\<rparr>)
      else ([], m))"

definition file_step ::
  "(ustring \<Rightarrow> ustring) \<Rightarrow> (byte list \<Rightarrow> byte list) \<Rightarrow> file_machine \<Rightarrow> file_call
     \<Rightarrow> file_obs list \<times> file_machine" where
  "file_step lower sha m c =
     (case c of
        SnapshotsCall now \<Rightarrow> ([], with_jobs (\<lambda>js. snd (service_snapshots now js)) m)
      | DragFailureCall fresh_id peer e \<Rightarrow> ([], with_jobs (record_folder_drag_failure fresh_id peer e) m)
      | CancelCall now tid \<Rightarrow> ([], m\<lparr>fm_service := snd (cancel_transfer now tid (fm_service m))\<rparr>)
      | ApproveTakeCall now tid \<Rightarrow>
          (case approve_take now tid (fm_service m) of
             (Inl _, s) \<Rightarrow> ([], m\<lparr>fm_service := s\<rparr>)
           | (Inr offer, s) \<Rightarrow> ([], m\<lparr>fm_service := s, fm_taken := (tid, offer) # fm_taken m\<rparr>))
      | ApproveRegisterCall i free \<Rightarrow> approve_step i free m
      | ApproveRecordCall i \<Rightarrow>
          (if i < length (fm_refused m)
           then ([], m\<lparr>fm_service := (case fm_refused m ! i of (offer, e) \<Rightarrow> approve_record offer e (fm_service m)),
                       fm_refused := remove_nth i (fm_refused m)\<rparr>)
           else ([], m))
      | DisconnectCall now peer generation \<Rightarrow> ([], with_jobs (service_disconnect now peer generation) m)
      | SendCall reg fresh_id peer n to_folder \<Rightarrow>
          ([], with_jobs (\<lambda>js. snd (start_send reg fresh_id peer n to_folder js)) m)
      | ReceiveCall reg now peer generation packet \<Rightarrow>
          ([], m\<lparr>fm_service := receive_packet lower reg now peer generation packet (fm_service m)\<rparr>)
      | ReceiverPoll reg answer destination moved i \<Rightarrow> poll_step lower sha reg answer destination moved i m
      | SenderUpdate tid change \<Rightarrow>
          ([], if is_outgoing tid m then with_jobs (update_job tid (apply_change change)) m else m)
      | SenderTake tid \<Rightarrow>
          ([], if is_outgoing tid m then m\<lparr>fm_service := snd (take_packet tid (fm_service m))\<rparr> else m)
      | SenderFinish tid status e \<Rightarrow>
          ([], if is_outgoing tid m then with_jobs (finish_job tid status e) m else m))"

section \<open>What a step leaves of the running transfers\<close>

definition manifest_total :: "(ustring \<Rightarrow> ustring) \<Rightarrow> file_transfer_packet \<Rightarrow> u64 option" where
  "manifest_total lower offer =
     (case offered_entries (fp_body offer) of
        None \<Rightarrow> None
      | Some entries \<Rightarrow> (case validate_manifest lower entries of Inl _ \<Rightarrow> None | Inr tot \<Rightarrow> Some tot))"

text \<open>A queued offer carries a valid manifest and its total.\<close>

definition offer_ok :: "(ustring \<Rightarrow> ustring) \<Rightarrow> pending_offer \<Rightarrow> bool" where
  "offer_ok lower offer \<longleftrightarrow> manifest_total lower (po_packet offer) = Some (sn_total_bytes (po_snapshot offer))"

definition reserves :: "file_jobs \<Rightarrow> uuid \<Rightarrow> u64 \<Rightarrow> bool" where
  "reserves js tid n \<longleftrightarrow>
     (\<exists>job. hm_get (jo_active js) tid = Some job \<and> sn_incoming (jb_snapshot job) \<and> jb_reserved_bytes job = n)"

text \<open>A step that ends no transfer: the books stay right, what is reserved stays, new offers are valid.\<close>

definition offers_kept :: "(ustring \<Rightarrow> ustring) \<Rightarrow> file_jobs \<Rightarrow> file_jobs \<Rightarrow> bool" where
  "offers_kept lower js js' \<longleftrightarrow> (\<forall>e\<in>set (jo_pending js'). e \<in> set (jo_pending js) \<or> offer_ok lower (snd e))"

definition calm :: "(ustring \<Rightarrow> ustring) \<Rightarrow> u64 \<Rightarrow> file_jobs \<Rightarrow> file_jobs \<Rightarrow> bool" where
  "calm lower p0 js js' \<longleftrightarrow>
     (jobs_ok p0 js \<longrightarrow> jobs_ok p0 js' \<and> (\<forall>tid n. reserves js tid n \<longrightarrow> reserves js' tid n)) \<and>
     offers_kept lower js js'"

lemma offers_kept_subset: "set (jo_pending js') \<subseteq> set (jo_pending js) \<Longrightarrow> offers_kept lower js js'"
  by (auto simp: offers_kept_def)

lemma calm_refl [simp]: "calm lower p0 js js"
  by (simp add: calm_def offers_kept_def)

lemma calm_trans [trans]: "calm lower p0 js js' \<Longrightarrow> calm lower p0 js' js'' \<Longrightarrow> calm lower p0 js js''"
  unfolding calm_def offers_kept_def by blast

lemma calm_pending:
  assumes "jobs_ok p0 js \<Longrightarrow> jobs_ok p0 js'" and "jo_active js' = jo_active js"
    and "set (jo_pending js') \<subseteq> set (jo_pending js)"
  shows "calm lower p0 js js'"
  using assms offers_kept_subset unfolding calm_def reserves_def by auto

lemma calm_prune: "calm lower p0 js (prune_pending now js)"
  by (rule calm_pending [OF prune_ok]) (auto simp: prune_pending_def hm_retain_def)

lemma calm_history: "calm lower p0 js (push_history snaps js)"
  by (rule calm_pending [OF push_history_ok]) auto

lemma calm_unqueue: "calm lower p0 js (js\<lparr>jo_pending := hm_del tid (jo_pending js)\<rparr>)"
  by (rule calm_pending [OF pending_del_ok]) (auto simp: hm_del_def)

lemma calm_job:
  assumes "hm_get (jo_active js) tid = Some job" and "same_books job job'"
  shows "calm lower p0 js (js\<lparr>jo_active := hm_put tid job' (jo_active js)\<rparr>)"
proof -
  let ?js = "js\<lparr>jo_active := hm_put tid job' (jo_active js)\<rparr>"
  have "reserves ?js k n" if "jobs_ok p0 js" and "reserves js k n" for k n
  proof -
    have "hm_wf (jo_active js)" using that(1) by (simp add: jobs_ok_def reserved_ok_def)
    then show ?thesis using that(2) assms by (auto simp: reserves_def hm.get_put same_books_def)
  qed
  then show ?thesis using change_job_ok [OF _ assms] by (simp add: calm_def offers_kept_def)
qed

lemma same_books_simps [simp]:
  "same_books job (job\<lparr>jb_cancel := c\<rparr>)" "same_books job (job\<lparr>jb_inbox := ch\<rparr>)"
  by (simp_all add: same_books_def)

lemma calm_cancel: "calm lower p0 js (cancel_job tid reason js)"
  by (auto simp: cancel_job_def intro!: calm_job split: option.split)

lemma calm_update:
  assumes "\<And>job. hm_get (jo_active js) tid = Some job \<Longrightarrow> same_books job (job\<lparr>jb_snapshot := f (jb_snapshot job)\<rparr>)"
  shows "calm lower p0 js (update_job tid f js)"
  using assms by (auto simp: update_job_def intro!: calm_job split: option.split)

lemma calm_register:
  assumes "register_job free tid peer incoming n js = Inr js'" and "\<not> incoming \<longrightarrow> n = 0"
  shows "calm lower p0 js js'"
    and "jobs_ok p0 js \<Longrightarrow> incoming \<Longrightarrow> reserves js' tid n"
    and "jobs_ok p0 js \<Longrightarrow> \<not> reserves js tid k"
proof -
  have "jobs_ok p0 js' \<and> (\<forall>k n. reserves js k n \<longrightarrow> reserves js' k n) \<and> (incoming \<longrightarrow> reserves js' tid n) \<and>
      \<not> reserves js tid k" if "jobs_ok p0 js"
  proof -
    from register_ok [OF that assms] obtain job where
      "jobs_ok p0 js'" "hm_get (jo_active js) tid = None" "hm_get (jo_active js') tid = Some job"
      "jb_reserved_bytes job = n" "sn_incoming (jb_snapshot job) = incoming"
      and others: "\<forall>k. k \<noteq> tid \<longrightarrow> hm_get (jo_active js') k = hm_get (jo_active js) k"
      by blast
    moreover have "reserves js' k n" if "reserves js k n" for k n
      using that others \<open>hm_get (jo_active js) tid = None\<close> unfolding reserves_def by (cases "k = tid") auto
    ultimately show ?thesis by (auto simp: reserves_def)
  qed
  moreover have "jo_pending js' = jo_pending js"
    using assms(1) by (auto simp: register_job_def reserve_bytes_def split: if_splits sum.splits)
  then have "offers_kept lower js js'" by (simp add: offers_kept_def)
  ultimately show "calm lower p0 js js'" "jobs_ok p0 js \<Longrightarrow> incoming \<Longrightarrow> reserves js' tid n"
    "jobs_ok p0 js \<Longrightarrow> \<not> reserves js tid k"
    unfolding calm_def by blast+
qed

lemma calm_disconnect: "calm lower p0 js (service_disconnect now peer generation js)"
proof -
  let ?f = "\<lambda>job. if sn_peer_id (jb_snapshot job) = peer \<and> jb_generation job = generation
    then job\<lparr>jb_cancel := Some PeerDisconnected\<rparr> else job"
  have all: "calm lower p0 js (js\<lparr>jo_active := map (\<lambda>(tid, job). (tid, ?f job)) (jo_active js)\<rparr>)" for js
  proof -
    let ?m = "map (\<lambda>(tid, job). (tid, ?f job)) (jo_active js)"
    have same: "weight jb_reserved_bytes ?m = weight jb_reserved_bytes (jo_active js)"
      "weight (peer_share p) ?m = weight (peer_share p) (jo_active js)" "hm_wf ?m = hm_wf (jo_active js)" for p
      by (rule weight_map, simp add: peer_share_def)+ (simp only: hm_wf_def map_fst_values)
    have "hm_get ?m k = map_option ?f (hm_get (jo_active js) k)" for k
      by (simp add: hm_get_def map_of_map)
    moreover have "sn_incoming (jb_snapshot (?f job)) = sn_incoming (jb_snapshot job)"
      "jb_reserved_bytes (?f job) = jb_reserved_bytes job" for job by simp_all
    ultimately have kept: "reserves (js\<lparr>jo_active := ?m\<rparr>) k n" if "reserves js k n" for k n
      using that unfolding reserves_def by (metis (no_types, lifting) file_jobs.select_convs(1) file_jobs.update_convs(1)
          file_jobs.surjective option.map(2))
    have "\<forall>e\<in>set ?m. job_fits (snd e)" if "\<forall>e\<in>set (jo_active js). job_fits (snd e)"
    proof -
      have "job_fits (?f job) = job_fits job" for job by (simp add: job_fits_def)
      then show ?thesis using that by (simp add: split_beta del: if_split)
    qed
    then have "reserved_ok js \<Longrightarrow> reserved_ok (js\<lparr>jo_active := ?m\<rparr>)"
      by (simp add: reserved_ok_def same)
    moreover have "quotas_ok p0 (js\<lparr>jo_active := ?m\<rparr>) = quotas_ok p0 js"
      "counts_ok (js\<lparr>jo_active := ?m\<rparr>) = counts_ok js" by (simp_all add: quotas_ok_def counts_ok_def)
    ultimately show ?thesis using kept unfolding calm_def offers_kept_def jobs_ok_def by simp
  qed
  let ?js = "prune_pending now js"
  let ?mine = "\<lambda>offer. peer_of (po_peer offer) = peer \<and> generation_of_peer (po_peer offer) = generation"
  have "calm lower p0 ?js (?js\<lparr>jo_pending := hm_retain (\<lambda>_ offer. \<not> ?mine offer) (jo_pending ?js)\<rparr>)"
    by (rule calm_pending) (auto simp: hm_retain_def fewer_pending)
  then have "calm lower p0 js (?js\<lparr>jo_pending := hm_retain (\<lambda>_ offer. \<not> ?mine offer) (jo_pending ?js)\<rparr>)"
    using calm_trans [OF calm_prune] by blast
  then show ?thesis
    unfolding service_disconnect_def Let_def using calm_trans [OF _ calm_trans [OF calm_history all]] by blast
qed

lemma calm_queue:
  assumes "offered_entries (fp_body packet) = Some entries" and "validate_manifest lower entries = Inr tot"
  shows "calm lower p0 js (snd (queue_pending_offer now tid peer packet entries tot js))"
proof -
  let ?q = "snd (queue_pending_offer now tid peer packet entries tot js)"
  have "jo_active ?q = jo_active js" and "e \<in> set (jo_pending ?q) \<Longrightarrow> e \<in> set (jo_pending js) \<or> offer_ok lower (snd e)" for e
    using assms
    by (auto simp: queue_pending_offer_def Let_def prune_pending_def hm_retain_def hm_put_def hm_del_def offer_ok_def
          manifest_total_def
        split: if_splits)
  moreover have "jobs_ok p0 js \<Longrightarrow> jobs_ok p0 ?q" by (rule queue_ok)
  ultimately show ?thesis unfolding calm_def offers_kept_def reserves_def by metis
qed

text \<open>The methods of the service.\<close>

abbreviation calm_service ::
  "(ustring \<Rightarrow> ustring) \<Rightarrow> u64 \<Rightarrow> file_transfer_service \<Rightarrow> file_transfer_service \<Rightarrow> bool" where
  "calm_service lower p0 s s' \<equiv> calm lower p0 (fv_jobs s) (fv_jobs s')"

lemma reject_jobs [simp]: "fv_jobs (reject peer packet s) = fv_jobs s"
  by (simp add: reject_def)

lemma calm_cancel_transfer: "calm_service lower p0 s (snd (cancel_transfer now tid s))"
proof -
  let ?js = "prune_pending now (fv_jobs s)"
  have prune: "calm lower p0 (fv_jobs s) ?js" by (rule calm_prune)
  show ?thesis
    unfolding cancel_transfer_def Let_def
    by (auto intro: prune calm_trans [OF prune calm_cancel]
        calm_trans [OF prune calm_trans [OF calm_unqueue calm_history]] split: option.split)
qed

lemma calm_start_send: "calm lower p0 js (snd (start_send reg fresh_id peer n to_folder js))"
  by (auto simp: start_send_def split: option.split sum.split dest!: calm_register(1))

lemma calm_receive: "calm_service lower p0 s (receive_packet lower reg now peer generation packet s)"
proof -
  have offer: "calm_service lower p0 s (receive_offer lower now p packet entries s)"
    if "offered_entries (fp_body packet) = Some entries" for p entries
  proof (cases "validate_manifest lower entries")
    case (Inr tot)
    obtain r js where "queue_pending_offer now (fp_transfer_id packet) p packet entries tot (fv_jobs s) = (r, js)"
      by fastforce
    then show ?thesis
      using calm_queue [OF that Inr, of p0 "fv_jobs s" now "fp_transfer_id packet" p] Inr
      by (auto simp: receive_offer_def Let_def split: sum.split)
  qed (simp add: receive_offer_def)
  show ?thesis
    unfolding receive_packet_def Let_def
    by (auto intro!: offer calm_trans [OF calm_unqueue calm_history] calm_cancel calm_job split: option.split sum.split
        prod.split)
qed

end
