(* ===== verification/FileSpec.thy ===== *)
theory FileSpec
  imports FileMachine "HOL-Library.Multiset" "HOL-Library.Sublist"
begin

text \<open>
  What the file service promises, whatever its peers send and however its tasks interleave: every
  publication uses up one approval and holds exactly the files the approved manifest declared, and
  the quotas hold as long as no identifier is approved twice.
\<close>

section \<open>The ledger of approvals\<close>

definition same_file :: "nat \<times> file_entry \<Rightarrow> ustring \<times> byte list \<Rightarrow> bool" where
  "same_file e f \<longleftrightarrow> fst f = fe_path (snd e) \<and> length (snd f) = fe_size (snd e)"

text \<open>The files are the ones of a valid manifest, in its order, each as long as it says.\<close>

definition declared ::
  "(ustring \<Rightarrow> ustring) \<Rightarrow> file_transfer_packet \<Rightarrow> (ustring \<times> byte list) list \<Rightarrow> bool" where
  "declared lower offer files \<longleftrightarrow>
     manifest_total lower offer \<noteq> None \<and>
     (case offered_entries (fp_body offer) of
        None \<Rightarrow> False
      | Some entries \<Rightarrow> list_all2 same_file (files_of entries) files)"

text \<open>
  The abstract service: a ledger of approvals not used yet. An approval adds one; a publication needs
  one of its transfer that declares its files, and uses it up, also when it stops half way; an approval
  may lapse at any time.
\<close>

inductive ledger ::
  "(ustring \<Rightarrow> ustring) \<Rightarrow> (uuid \<times> file_transfer_packet) multiset \<Rightarrow> file_obs list
     \<Rightarrow> (uuid \<times> file_transfer_packet) multiset \<Rightarrow> bool" for lower where
  ledger_end: "ledger lower K [] K"
| ledger_lapse: "ledger lower K os K' \<Longrightarrow> ledger lower (add_mset x K) os K'"
| ledger_approve: "ledger lower (add_mset (tid, offer) K) os K' \<Longrightarrow> ledger lower K (Approved tid offer # os) K'"
| ledger_publish: "declared lower offer files \<Longrightarrow> ledger lower K os K' \<Longrightarrow>
    ledger lower (add_mset (tid, offer) K) (FromSession (Published tid files) # os) K'"
| ledger_part: "declared lower offer files \<Longrightarrow> subseq part files \<Longrightarrow> ledger lower K os K' \<Longrightarrow>
    ledger lower (add_mset (tid, offer) K) (FromSession (PartlyPublished tid part) # os) K'"
| ledger_sent: "ledger lower K os K' \<Longrightarrow> ledger lower K (FromSession (SentPacket peer p) # os) K'"

lemma ledger_append: "ledger lower K os K1 \<Longrightarrow> ledger lower K1 os' K2 \<Longrightarrow> ledger lower K (os @ os') K2"
  by (induction rule: ledger.induct) (auto intro: ledger.intros)

lemma ledger_less: "ledger lower (D + K) [] K"
  by (induction D) (auto intro: ledger.intros)

section \<open>A receiver's task\<close>

definition live :: "rx_session \<Rightarrow> bool" where
  "live rx \<longleftrightarrow> rx_phase rx \<noteq> RxCompleting \<and> rx_phase rx \<noteq> RxOver"

text \<open>Nothing was published yet, and it still can be.\<close>

definition offering :: "rx_session \<Rightarrow> bool" where
  "offering rx \<longleftrightarrow> live rx \<and> (case rx_phase rx of RxFailing _ _ \<Rightarrow> False | _ \<Rightarrow> True)"

definition staged_bytes :: "rx_session \<Rightarrow> nat" where
  "staged_bytes rx = sum_list (map (length \<circ> snd) (rx_staged rx)) + length (rx_data rx)"

text \<open>The files staged are the first of the manifest, and the one being received is not too long.\<close>

definition progress :: "file_entry list \<Rightarrow> rx_session \<Rightarrow> bool" where
  "progress entries rx \<longleftrightarrow>
     (\<exists>fin. files_of entries = fin @ rx_files rx \<and> list_all2 same_file fin (rx_staged rx)) \<and>
     (case rx_files rx of [] \<Rightarrow> rx_data rx = [] | e # _ \<Rightarrow> length (rx_data rx) \<le> fe_size (snd e))"

definition phase_ok :: "file_transfer_packet \<Rightarrow> file_entry list \<Rightarrow> u64 \<Rightarrow> rx_session \<Rightarrow> bool" where
  "phase_ok offer entries tot rx \<longleftrightarrow>
     (case rx_phase rx of
        RxStart p \<Rightarrow> p = offer \<and> rx_staged rx = [] \<and> rx_data rx = []
      | RxResolving _ es n \<Rightarrow> es = entries \<and> n = tot \<and> rx_staged rx = [] \<and> rx_data rx = []
      | RxFailing _ _ \<Rightarrow> staged_bytes rx \<le> tot
      | RxCompleting \<Rightarrow> True
      | RxOver \<Rightarrow> True
      | RxCommitting \<Rightarrow> progress entries rx \<and> rx_files rx = []
      | RxPublishing \<Rightarrow> progress entries rx \<and> rx_files rx = []
      | _ \<Rightarrow> progress entries rx)"

definition session_ok :: "(ustring \<Rightarrow> ustring) \<Rightarrow> file_transfer_packet \<Rightarrow> rx_session \<Rightarrow> bool" where
  "session_ok lower offer rx \<longleftrightarrow>
     (\<exists>entries tot. offered_entries (fp_body offer) = Some entries \<and> validate_manifest lower entries = Inr tot \<and>
        phase_ok offer entries tot rx)"

lemma manifest_total_iff:
  "manifest_total lower offer = Some n \<longleftrightarrow>
     (\<exists>entries. offered_entries (fp_body offer) = Some entries \<and> validate_manifest lower entries = Inr n)"
  by (auto simp: manifest_total_def split: option.splits sum.splits)

lemma sum_files_of: "sum_list (map (\<lambda>e. fe_size (snd e)) (files_of entries)) \<le> sum_list (map fe_size entries)"
proof -
  have "sum_list (map (\<lambda>e. fe_size (snd e)) (filter p (enumerate n entries))) \<le> sum_list (map fe_size entries)" for p n
    by (induction entries arbitrary: n) (auto simp: le_SucI add_le_mono intro: trans_le_add2)
  then show ?thesis by (simp add: files_of_def)
qed

lemma staged_sizes: "list_all2 same_file es files \<Longrightarrow> sum_list (map (length \<circ> snd) files) = sum_list (map (\<lambda>e. fe_size (snd e)) es)"
  by (induction rule: list_all2_induct) (auto simp: same_file_def)

lemma progress_bytes:
  assumes "progress entries rx" and "validate_manifest lower entries = Inr tot"
  shows "staged_bytes rx \<le> tot"
proof -
  obtain fin where fin: "files_of entries = fin @ rx_files rx" "list_all2 same_file fin (rx_staged rx)"
    using assms(1) by (auto simp: progress_def)
  have "length (rx_data rx) \<le> sum_list (map (\<lambda>e. fe_size (snd e)) (rx_files rx))"
    using assms(1) by (auto simp: progress_def split: list.splits)
  moreover have "sum_list (map fe_size entries) = tot"
    using assms(2) check_entries_result [OF hm_wf_Nil] unfolding validate_manifest_run by fastforce
  ultimately show ?thesis
    using staged_sizes [OF fin(2)] sum_files_of [of entries] by (simp add: staged_bytes_def fin(1))
qed

text \<open>A packet of a running transfer.\<close>

lemma rx_packet_progress:
  assumes "progress entries rx" and "rx_packet sha packet rx = Inr rx'"
  shows "progress entries rx' \<and>
    (rx_phase rx' = RxCommitting \<and> rx_files rx' = [] \<or> rx_phase rx' = RxAcking)"
proof (cases "rx_files rx")
  case Nil
  then show ?thesis using assms by (auto simp: rx_packet_def progress_def split: if_splits)
next
  case (Cons e rest)
  obtain i entry where e: "e = (i, entry)" by fastforce
  obtain fin where fin: "files_of entries = fin @ e # rest" "list_all2 same_file fin (rx_staged rx)"
    using assms(1) Cons by (auto simp: progress_def)
  have seq: "fp_sequence packet = rx_sequence rx" using assms(2) Cons e by (auto simp: rx_packet_def split: if_splits)
  consider
    (chunk) d where "rx' = rx\<lparr>rx_data := rx_data rx @ d, rx_phase := RxAcking\<rparr>"
      "length (rx_data rx) + length d \<le> fe_size entry"
  | (filed) "rx' = rx\<lparr>rx_staged := rx_staged rx @ [(fe_path entry, rx_data rx)], rx_data := [],
      rx_files := rest, rx_phase := RxAcking\<rparr>" "length (rx_data rx) = fe_size entry"
    using assms(2) Cons e seq by (cases "fp_body packet") (auto simp: rx_packet_def split: if_splits)
  then show ?thesis
  proof cases
    case chunk
    then show ?thesis using fin Cons e by (auto simp: progress_def)
  next
    case filed
    then have "list_all2 same_file (fin @ [e]) (rx_staged rx')" 
      using fin(2) by (simp add: list_all2_appendI same_file_def e)
    then show ?thesis using fin(1) filed by (auto simp: progress_def split: list.split intro: exI [of _ "fin @ [e]"])
  qed
qed

lemma phase_bytes: "phase_ok offer entries tot rx \<Longrightarrow> validate_manifest lower entries = Inr tot \<Longrightarrow> live rx \<Longrightarrow>
    staged_bytes rx \<le> tot"
  using progress_bytes [of entries rx lower tot]
  by (cases "rx_phase rx") (auto simp: phase_ok_def live_def staged_bytes_def)

lemma session_bytes:
  assumes "session_ok lower offer rx" and "live rx"
  shows "\<exists>n. manifest_total lower offer = Some n \<and> staged_bytes rx \<le> n"
proof -
  obtain entries tot where s: "offered_entries (fp_body offer) = Some entries" "validate_manifest lower entries = Inr tot"
    "phase_ok offer entries tot rx" using assms(1) by (auto simp: session_ok_def)
  then have "staged_bytes rx \<le> tot"
    using phase_bytes assms(2) by blast
  then show ?thesis using s(1,2) by (auto simp: manifest_total_iff)
qed

lemma phase_ok_fail: "phase_ok offer entries tot rx \<Longrightarrow> validate_manifest lower entries = Inr tot \<Longrightarrow> live rx \<Longrightarrow>
    phase_ok offer entries tot (rx_fail tid e rx s)"
  using phase_bytes [of offer entries tot rx lower] by (simp add: phase_ok_def rx_fail_def staged_bytes_def)


text \<open>What a poll of a task leaves of the service: its own transfer keeps its reservation while the task is live.\<close>

definition holds_on ::
  "u64 \<Rightarrow> uuid \<Rightarrow> u64 \<Rightarrow> rx_session \<Rightarrow> file_transfer_service \<Rightarrow> rx_session \<Rightarrow> file_transfer_service \<Rightarrow> bool" where
  "holds_on p0 tid n rx s rx' s' \<longleftrightarrow>
     jo_pending (fv_jobs s') = jo_pending (fv_jobs s) \<and>
     (jobs_ok p0 (fv_jobs s) \<and> (live rx \<longrightarrow> reserves (fv_jobs s) tid n) \<longrightarrow>
        jobs_ok p0 (fv_jobs s') \<and>
        (\<forall>k m. k \<noteq> tid \<longrightarrow> reserves (fv_jobs s) k m \<longrightarrow> reserves (fv_jobs s') k m) \<and>
        (live rx' \<longrightarrow> reserves (fv_jobs s') tid n))"

lemma holds_on_calm:
  assumes "jo_pending (fv_jobs s') = jo_pending (fv_jobs s)" and "live rx' \<longrightarrow> live rx"
    and "reserves (fv_jobs s) tid n \<or> \<not> live rx \<Longrightarrow> calm (\<lambda>p. p) p0 (fv_jobs s) (fv_jobs s')"
  shows "holds_on p0 tid n rx s rx' s'"
  using assms unfolding holds_on_def calm_def by blast

lemma holds_on_same: "live rx' \<longrightarrow> live rx \<Longrightarrow> holds_on p0 tid n rx s rx' s"
  by (simp add: holds_on_def)

lemma reserves_unique: "reserves js tid n \<Longrightarrow> hm_get (jo_active js) tid = Some job \<Longrightarrow>
    jb_reserved_bytes job = n \<and> sn_incoming (jb_snapshot job)"
  by (auto simp: reserves_def)

lemma update_fields [simp]:
  "fv_jobs (update_service tid f s) = update_job tid f (fv_jobs s)"
  "fv_jobs (finish_service tid status e s) = finish_job tid status e (fv_jobs s)"
  "jo_pending (update_job tid f js) = jo_pending js"
  by (simp_all add: update_service_def finish_service_def update_job_def split: option.split)

lemma finish_reserves:
  assumes "jobs_ok p0 js" and "reserves js k m" and "k \<noteq> tid"
  shows "reserves (finish_job tid status e js) k m"
proof -
  have "hm_wf (jo_active js)" "hm_wf (jo_reserved_by_peer js)" using assms(1) by (simp_all add: jobs_ok_def reserved_ok_def)
  then show ?thesis using assms(2,3) by (simp add: reserves_def finish_fields hm.get_del)
qed

lemma finish_pending: "jo_pending (finish_job tid status e js) = jo_pending js"
  by (auto simp: finish_job_def Let_def unreserve_def count_published_def split: option.split)

lemma holds_on_finish:
  assumes "calm (\<lambda>p. p) p0 (fv_jobs s) (fv_jobs s1)" and "jo_pending (fv_jobs s1) = jo_pending (fv_jobs s)"
    and "\<not> live rx'"
  shows "holds_on p0 tid n rx s rx' (finish_service tid status e s1)"
  using assms finish_ok finish_reserves unfolding holds_on_def calm_def by (simp add: finish_pending) blast

lemma plain_update_books:
  "same_books job (job\<lparr>jb_snapshot := (jb_snapshot job)\<lparr>sn_transferred_bytes := n\<rparr>\<rparr>)"
  "same_books job (job\<lparr>jb_snapshot := (jb_snapshot job)\<lparr>sn_destination := d\<rparr>\<rparr>)"
  by (simp_all add: same_books_def)

lemma take_packet_calm:
  assumes "take_packet tid s = (r, s')"
  shows "calm (\<lambda>p. p) p0 (fv_jobs s) (fv_jobs s')" and "jo_pending (fv_jobs s') = jo_pending (fv_jobs s)"
proof -
  have "calm (\<lambda>p. p) p0 (fv_jobs s) (fv_jobs s') \<and> jo_pending (fv_jobs s') = jo_pending (fv_jobs s)"
    using assms by (auto simp: take_packet_def intro!: calm_job split: option.splits prod.splits)
  then show "calm (\<lambda>p. p) p0 (fv_jobs s) (fv_jobs s')" "jo_pending (fv_jobs s') = jo_pending (fv_jobs s)" by blast+
qed

lemma rx_fail_live [simp]: "live (rx_fail tid e rx s)"
  by (simp add: live_def rx_fail_def)

lemma rx_resolve_holds:
  assumes "rx_resolve answer tid into_folder entries n rx s = (rx', s')" and "live rx"
  shows "holds_on p0 tid n rx s rx' s'"
proof -
  consider "s' = s"
    | "s' = update_service tid
         (\<lambda>sn. sn\<lparr>sn_entries := take 8 entries, sn_entry_count := length entries, sn_total_bytes := n,
            sn_status := Transferring\<rparr>) s"
    using assms(1) by (auto simp: rx_resolve_def split: session_answer.splits)
  then show ?thesis
  proof cases
    case 1
    then show ?thesis using assms(2) by (simp add: holds_on_same)
  next
    case 2
    then show ?thesis
      using assms(2) by (intro holds_on_calm) (auto intro!: calm_update simp: same_books_def dest: reserves_unique)
  qed
qed

lemma rx_next_holds:
  assumes "rx_next sha answer tid rx s = (rx', s')" and "live rx"
  shows "holds_on p0 tid n rx s rx' s'"
proof -
  obtain r s1 where r: "take_packet tid s = (r, s1)" by fastforce
  consider "s' = s" | "s' = s1"
    | m where "s' = update_service tid (\<lambda>sn. sn\<lparr>sn_transferred_bytes := sn_transferred_bytes sn + m\<rparr>) s1"
    using assms(1) r by (auto simp: rx_next_def split: option.splits sum.splits if_splits session_answer.splits)
  then show ?thesis
  proof cases
    case 1
    then show ?thesis using assms(2) by (simp add: holds_on_same)
  next
    case 2
    then show ?thesis using assms(2) take_packet_calm [OF r] by (intro holds_on_calm) auto
  next
    case 3
    then have "calm (\<lambda>p. p) p0 (fv_jobs s) (fv_jobs s')"
      using calm_trans [OF take_packet_calm(1) [OF r] calm_update] by (simp add: plain_update_books)
    then show ?thesis using assms(2) take_packet_calm(2) [OF r] 3 by (intro holds_on_calm) auto
  qed
qed

lemma name_destination_calm:
  "calm (\<lambda>p. p) p0 (fv_jobs s) (fv_jobs (name_destination tid destination s))"
  "jo_pending (fv_jobs (name_destination tid destination s)) = jo_pending (fv_jobs s)"
  by (auto intro!: calm_update simp: name_destination_def plain_update_books)

lemma rx_commit_holds:
  assumes "rx_commit answer tid destination rx s = (rx', s')" and "live rx"
  shows "holds_on p0 tid n rx s rx' s'"
proof -
  consider "s' = s" | "s' = name_destination tid destination s"
    using assms(1) by (auto simp: rx_commit_def split: option.splits if_splits session_answer.splits)
  then show ?thesis
    by cases (use assms(2) name_destination_calm in \<open>auto intro: holds_on_same holds_on_calm\<close>)
qed

lemma rx_publish_holds:
  assumes "rx_publish answer tid destination moved rx s = (os, rx', s')" and "live rx"
  shows "holds_on p0 tid n rx s rx' s'"
proof -
  consider "s' = s"
    | "s' = finish_service tid TransferCompleted None (name_destination tid destination s)" "rx' = rx\<lparr>rx_phase := RxCompleting\<rparr>"
    using assms(1) by (auto simp: rx_publish_def split: session_answer.splits)
  then show ?thesis
  proof cases
    case 1
    then show ?thesis using assms(2) by (simp add: holds_on_same)
  next
    case 2
    then show ?thesis using holds_on_finish [OF name_destination_calm] by (simp add: live_def)
  qed
qed

lemma rx_poll_holds:
  assumes "rx_poll lower sha reg answer tid peer destination moved rx s = (os, rx', s')"
    and "session_ok lower offer rx" and "manifest_total lower offer = Some n"
  shows "holds_on p0 tid n rx s rx' s'"
proof (cases "rx_phase rx")
  case (RxResolving f es tot)
  then have "tot = n" using assms(2,3) by (auto simp: session_ok_def phase_ok_def manifest_total_iff)
  then show ?thesis
    using RxResolving assms(1) rx_resolve_holds [of answer tid f es n rx s rx' s' p0] by (auto simp: rx_poll_def live_def)
next
  case RxWaiting
  then show ?thesis using assms(1) rx_next_holds [of sha answer tid rx s rx' s' p0 n] by (auto simp: rx_poll_def live_def)
next
  case RxCommitting
  then show ?thesis
    using assms(1) rx_commit_holds [of answer tid destination rx s rx' s' p0 n] by (auto simp: rx_poll_def live_def)
next
  case RxPublishing
  then show ?thesis
    using assms(1) rx_publish_holds [of answer tid destination moved rx s os rx' s' p0 n]
    by (auto simp: rx_poll_def live_def)
next
  case RxCompleting
  then show ?thesis using assms(1)
    by (auto simp: rx_poll_def live_def Let_def intro: holds_on_same holds_on_finish split: option.splits sum.splits)
next
  case (RxFailing e c)
  then show ?thesis using assms(1)
    by (auto simp: rx_poll_def live_def Let_def intro: holds_on_same holds_on_finish split: option.splits sum.splits)
qed (use assms(1) in \<open>auto simp: rx_poll_def live_def intro!: holds_on_same split: option.splits sum.splits\<close>)

text \<open>A poll keeps the session in step with its manifest; what it publishes was declared.\<close>

definition poll_obs :: "(ustring \<Rightarrow> ustring) \<Rightarrow> uuid \<Rightarrow> file_transfer_packet \<Rightarrow> rx_session \<Rightarrow> session_obs list \<Rightarrow> rx_session \<Rightarrow> bool" where
  "poll_obs lower tid offer rx os rx' \<longleftrightarrow>
     (offering rx' \<longrightarrow> offering rx) \<and>
     (os = [] \<or> (\<exists>peer p. os = [SentPacket peer p]) \<or>
      offering rx \<and> \<not> offering rx' \<and>
      (\<exists>files. declared lower offer files \<and>
         (os = [Published tid files] \<or> (\<exists>part. os = [PartlyPublished tid part] \<and> subseq part files))))"

lemma offering_simps [simp]:
  "\<not> offering (rx_fail tid e rx s)" "live rx \<Longrightarrow> rx_phase rx = p \<Longrightarrow> (\<And>e c. p \<noteq> RxFailing e c) \<Longrightarrow> offering rx"
  "\<not> live rx \<Longrightarrow> \<not> offering rx"
  by (auto simp: offering_def rx_fail_def split: rx_phase.split)

lemma session_fail: "session_ok lower offer rx \<Longrightarrow> live rx \<Longrightarrow> session_ok lower offer (rx_fail tid e rx s)"
  using phase_ok_fail unfolding session_ok_def by blast

lemma session_over: "session_ok lower offer rx \<Longrightarrow> session_ok lower offer (rx\<lparr>rx_phase := RxOver\<rparr>)"
  by (auto simp: session_ok_def phase_ok_def)

lemma session_acked:
  assumes "session_ok lower offer rx" and "rx_phase rx \<in> {RxAccepting, RxAcking}"
  shows "session_ok lower offer (rx_acked rx)"
  using assms by (auto simp: session_ok_def phase_ok_def rx_acked_def progress_def split: list.splits)

lemma session_start:
  assumes "session_ok lower offer rx" and "rx_phase rx = RxStart p"
  shows "session_ok lower offer (rx_start lower tid p rx s) \<and> live (rx_start lower tid p rx s)"
proof -
  obtain entries tot where s: "offered_entries (fp_body offer) = Some entries" "validate_manifest lower entries = Inr tot"
    "p = offer" "rx_staged rx = []" "rx_data rx = []" using assms by (auto simp: session_ok_def phase_ok_def)
  have live: "live rx" using assms(2) by (simp add: live_def)
  define rx' where "rx' = rx_start lower tid p rx s"
  consider e where "rx' = rx_fail tid e rx s"
    | "rx' = rx\<lparr>rx_phase := RxResolving (is_folder_offer (fp_body offer)) entries tot\<rparr>"
    using s(1-3) rx'_def by (auto simp: rx_start_def split: option.splits if_splits)
  then have "session_ok lower offer rx' \<and> live rx'"
  proof cases
    case 1
    then show ?thesis using session_fail [OF assms(1) live] by simp
  next
    case 2
    then show ?thesis using s by (auto simp: session_ok_def phase_ok_def live_def)
  qed
  then show ?thesis by (simp add: rx'_def)
qed

lemma session_resolve:
  assumes "session_ok lower offer rx" and "rx_phase rx = RxResolving f es tot"
    and "rx_resolve answer tid f es tot rx s = (rx', s')"
  shows "session_ok lower offer rx' \<and> live rx'"
proof -
  have s: "offered_entries (fp_body offer) = Some es" "validate_manifest lower es = Inr tot"
    "rx_staged rx = []" "rx_data rx = []" using assms(1,2) by (auto simp: session_ok_def phase_ok_def)
  have live: "live rx" using assms(2) by (simp add: live_def)
  consider "rx' = rx" | e where "rx' = rx_fail tid e rx s" | "rx' = rx_begin f es rx"
    using assms(3) by (auto simp: rx_resolve_def split: session_answer.splits)
  then show ?thesis
  proof cases
    case 1
    then show ?thesis using assms(1) live by simp
  next
    case 2
    then show ?thesis using session_fail [OF assms(1) live] by simp
  next
    case 3
    then show ?thesis
      using s by (auto simp: session_ok_def phase_ok_def rx_begin_def progress_def live_def split: list.split)
  qed
qed

lemma session_prepare:
  assumes "session_ok lower offer rx" and "rx_phase rx = RxPreparing"
  shows "session_ok lower offer (rx_prepare answer tid rx s) \<and> live (rx_prepare answer tid rx s)"
proof -
  have live: "live rx" using assms(2) by (simp add: live_def)
  have "session_ok lower offer (rx\<lparr>rx_phase := RxAccepting\<rparr>)"
    using assms by (auto simp: session_ok_def phase_ok_def progress_def split: list.splits)
  moreover have "live (rx\<lparr>rx_phase := RxAccepting\<rparr>)" by (simp add: live_def)
  ultimately show ?thesis
    using assms(1) live session_fail [OF assms(1) live]
    by (auto simp: rx_prepare_def split: option.split session_answer.split)
qed

lemma session_next:
  assumes "session_ok lower offer rx" and "rx_phase rx = RxWaiting" and "rx_next sha answer tid rx s = (rx', s')"
  shows "session_ok lower offer rx' \<and> live rx'"
proof -
  obtain entries tot where s: "offered_entries (fp_body offer) = Some entries" "validate_manifest lower entries = Inr tot"
    "progress entries rx" using assms(1,2) by (auto simp: session_ok_def phase_ok_def)
  have live: "live rx" using assms(2) by (simp add: live_def)
  consider "rx' = rx" | e s1 where "rx' = rx_fail tid e rx s1" | packet where "rx_packet sha packet rx = Inr rx'"
    using assms(3) by (auto simp: rx_next_def split: option.splits sum.splits prod.splits session_answer.splits)
  then show ?thesis
  proof cases
    case 1
    then show ?thesis using assms(1) live by simp
  next
    case 2
    then show ?thesis using session_fail [OF assms(1) live] by simp
  next
    case 3
    then show ?thesis using rx_packet_progress [OF s(3) 3] s(1,2)
      by (auto simp: session_ok_def phase_ok_def live_def)
  qed
qed

lemma session_commit:
  assumes "session_ok lower offer rx" and "rx_phase rx = RxCommitting"
    and "rx_commit answer tid destination rx s = (rx', s')"
  shows "session_ok lower offer rx'"
proof -
  have "session_ok lower offer (rx\<lparr>rx_phase := RxPublishing\<rparr>)"
    using assms(1,2) by (auto simp: session_ok_def phase_ok_def progress_def split: list.splits)
  moreover have "live rx" using assms(2) by (simp add: live_def)
  ultimately show ?thesis
    using assms(1,3) session_fail [OF assms(1)]
    by (auto simp: rx_commit_def split: option.splits if_splits session_answer.splits)
qed

lemma session_publish:
  assumes "session_ok lower offer rx" and "rx_phase rx = RxPublishing"
    and "rx_publish answer tid destination moved rx s = (os, rx', s')"
  shows "session_ok lower offer rx' \<and> poll_obs lower tid offer rx os rx'"
proof -
  obtain entries tot where s: "offered_entries (fp_body offer) = Some entries" "validate_manifest lower entries = Inr tot"
    "progress entries rx" "rx_files rx = []" using assms(1,2) by (auto simp: session_ok_def phase_ok_def)
  have live: "live rx" "offering rx" using assms(2) by (simp_all add: live_def offering_def)
  have "declared lower offer (rx_staged rx)" using s by (auto simp: declared_def manifest_total_def progress_def)
  moreover have "session_ok lower offer (rx\<lparr>rx_phase := RxCompleting\<rparr>)" using s by (auto simp: session_ok_def phase_ok_def)
  moreover have "\<not> offering (rx\<lparr>rx_phase := RxCompleting\<rparr>)" by (simp add: offering_def live_def)
  moreover have "subseq (moved_files moved (rx_staged rx)) (rx_staged rx)" by (simp add: moved_files_def)
  ultimately show ?thesis
    using assms(1,3) live session_fail [OF assms(1) live(1)]
    by (auto simp: rx_publish_def poll_obs_def split: if_splits session_answer.splits)
qed

lemma quiet_obs: "offering rx \<Longrightarrow> poll_obs lower tid offer rx [] rx'"
  by (simp add: poll_obs_def)

lemma rx_poll_session:
  assumes "session_ok lower offer rx" and "rx_poll lower sha reg answer tid peer destination moved rx s = (os, rx', s')"
  shows "session_ok lower offer rx' \<and> poll_obs lower tid offer rx os rx'"
proof (cases "rx_phase rx")
  case (RxStart p)
  moreover have "offering rx" using RxStart by (simp add: offering_def live_def)
  ultimately show ?thesis
    using assms(2) session_start [OF assms(1) RxStart, of tid s] quiet_obs by (auto simp: rx_poll_def)
next
  case (RxResolving f es tot)
  moreover have "offering rx" using RxResolving by (simp add: offering_def live_def)
  ultimately show ?thesis
    using assms(2) session_resolve [OF assms(1) RxResolving, of answer tid s rx' s'] quiet_obs by (auto simp: rx_poll_def)
next
  case RxPreparing
  moreover have "offering rx" using RxPreparing by (simp add: offering_def live_def)
  ultimately show ?thesis
    using assms(2) session_prepare [OF assms(1) RxPreparing, of answer tid s] quiet_obs by (auto simp: rx_poll_def)
next
  case RxWaiting
  moreover have "offering rx" using RxWaiting by (simp add: offering_def live_def)
  ultimately show ?thesis
    using assms session_next [of lower offer rx sha answer tid s rx' s'] quiet_obs by (auto simp: rx_poll_def)
next
  case RxCommitting
  moreover have "offering rx" using RxCommitting by (simp add: offering_def live_def)
  ultimately show ?thesis
    using assms session_commit [of lower offer rx answer tid destination s rx' s'] quiet_obs by (auto simp: rx_poll_def)
next
  case RxPublishing
  then show ?thesis
    using assms session_publish [of lower offer rx answer tid destination moved s os rx' s'] by (auto simp: rx_poll_def)
qed (use assms session_fail [OF assms(1)] session_acked [OF assms(1)] session_over [OF assms(1)] in
    \<open>auto simp: rx_poll_def poll_obs_def Let_def offering_def live_def rx_acked_def split: option.splits sum.splits\<close>)

section \<open>The machine keeps its promises\<close>

text \<open>The approvals whose transfer has not been published yet.\<close>

definition approvals :: "file_machine \<Rightarrow> (uuid \<times> file_transfer_packet) multiset" where
  "approvals m = mset (map (\<lambda>t. (rt_tid t, rt_offer t)) (filter (offering \<circ> rt_session) (fm_tasks m)))"

definition approved_ids :: "file_obs list \<Rightarrow> uuid list" where
  "approved_ids os = List.map_filter (\<lambda>ob. case ob of Approved tid _ \<Rightarrow> Some tid | _ \<Rightarrow> None) os"

lemma approved_ids_simps [simp]:
  "approved_ids [] = []" "approved_ids (Approved tid p # os) = tid # approved_ids os"
  "approved_ids (FromSession ob # os) = approved_ids os" "approved_ids (os @ os') = approved_ids os @ approved_ids os'"
  by (simp_all add: approved_ids_def List.map_filter_def)

definition file_rel :: "(ustring \<Rightarrow> ustring) \<Rightarrow> file_machine \<Rightarrow> file_obs list \<Rightarrow> file_machine \<Rightarrow> bool" where
  "file_rel lower m os m' \<longleftrightarrow>
     map rt_tid (fm_tasks m') = map rt_tid (fm_tasks m) @ approved_ids os \<and>
     ledger lower (approvals m) os (approvals m')"

text \<open>The books are right and every live task has its transfer, with the bytes of its manifest reserved.\<close>

definition task_held :: "(ustring \<Rightarrow> ustring) \<Rightarrow> file_jobs \<Rightarrow> receiver_task \<Rightarrow> bool" where
  "task_held lower js t \<longleftrightarrow>
     (live (rt_session t) \<longrightarrow> (\<exists>n. manifest_total lower (rt_offer t) = Some n \<and> reserves js (rt_tid t) n))"

definition tasks_held :: "(ustring \<Rightarrow> ustring) \<Rightarrow> u64 \<Rightarrow> file_machine \<Rightarrow> bool" where
  "tasks_held lower p0 m \<longleftrightarrow>
     jobs_ok p0 (fv_jobs (fm_service m)) \<and> (\<forall>t\<in>set (fm_tasks m). task_held lower (fv_jobs (fm_service m)) t)"

definition file_ok :: "(ustring \<Rightarrow> ustring) \<Rightarrow> u64 \<Rightarrow> file_machine \<Rightarrow> bool" where
  "file_ok lower p0 m \<longleftrightarrow>
     (\<forall>e\<in>set (jo_pending (fv_jobs (fm_service m))). offer_ok lower (snd e)) \<and>
     (\<forall>e\<in>set (fm_taken m). offer_ok lower (snd e)) \<and>
     (\<forall>t\<in>set (fm_tasks m). session_ok lower (rt_offer t) (rt_session t)) \<and>
     (distinct (map rt_tid (fm_tasks m)) \<longrightarrow> tasks_held lower p0 m)"

lemma rel_quiet: "fm_tasks m' = fm_tasks m \<Longrightarrow> file_rel lower m [] m'"
  by (simp add: file_rel_def approvals_def ledger_end)

text \<open>A call that ends no transfer and spawns no task.\<close>

lemma file_quiet_step:
  assumes "file_ok lower p0 m" and "fm_tasks m' = fm_tasks m"
    and "calm_service lower p0 (fm_service m) (fm_service m')"
    and "\<And>e. e \<in> set (fm_taken m') \<Longrightarrow> e \<in> set (fm_taken m) \<or> offer_ok lower (snd e)"
  shows "file_ok lower p0 m'"
proof -
  have "tasks_held lower p0 m'" if "tasks_held lower p0 m"
    using that assms(2,3) unfolding tasks_held_def task_held_def calm_def by metis
  then show ?thesis
    using assms unfolding file_ok_def calm_def offers_kept_def by metis
qed

lemma calm_finish_outgoing:
  assumes "hm_get (jo_active js) tid = Some job" and "\<not> sn_incoming (jb_snapshot job)"
  shows "calm lower p0 js (finish_job tid status e js)"
proof -
  have "reserves (finish_job tid status e js) k n" if "jobs_ok p0 js" "reserves js k n" for k n
    using that assms by (cases "k = tid") (auto intro: finish_reserves dest: reserves_unique)
  then show ?thesis using finish_ok by (simp add: calm_def offers_kept_def finish_pending)
qed

lemma calm_sender_update:
  assumes "is_outgoing tid m"
  shows "calm lower p0 (fv_jobs (fm_service m)) (update_job tid (apply_change c) (fv_jobs (fm_service m)))"
  using assms
  by (intro calm_update) (auto simp: is_outgoing_def same_books_def apply_change_def split: option.splits sender_change.split)

lemma sender_finish_calm:
  assumes "is_outgoing tid m"
  shows "calm lower p0 (fv_jobs (fm_service m)) (finish_job tid status e (fv_jobs (fm_service m)))"
  using assms calm_finish_outgoing by (auto simp: is_outgoing_def split: option.splits)

lemma with_jobs_simps [simp]:
  "fm_tasks (with_jobs f m) = fm_tasks m" "fm_taken (with_jobs f m) = fm_taken m"
  "fv_jobs (fm_service (with_jobs f m)) = f (fv_jobs (fm_service m))"
  by (simp_all add: with_jobs_def)

text \<open>An offer is taken: it stays valid.\<close>

lemma take_step:
  assumes "file_ok lower p0 m" and "approve_take now tid (fm_service m) = (r, s)"
  shows "calm_service lower p0 (fm_service m) s" and "r = Inr offer \<Longrightarrow> offer_ok lower offer"
proof -
  let ?js = "prune_pending now (fv_jobs (fm_service m))"
  have prune: "calm lower p0 (fv_jobs (fm_service m)) ?js" by (rule calm_prune)
  have "fv_jobs s = ?js \<or> fv_jobs s = ?js\<lparr>jo_pending := hm_del tid (jo_pending ?js)\<rparr>"
    using assms(2) by (auto simp: approve_take_def Let_def split: option.splits)
  then show "calm_service lower p0 (fm_service m) s" using prune calm_trans [OF prune calm_unqueue] by metis
  assume "r = Inr offer"
  then have "hm_get (jo_pending ?js) tid = Some offer"
    using assms(2) by (auto simp: approve_take_def Let_def split: option.splits)
  then have "(tid, offer) \<in> set (jo_pending ?js)" unfolding hm_get_def by (rule map_of_SomeD)
  then have "(tid, offer) \<in> set (jo_pending (fv_jobs (fm_service m)))" by (auto simp: prune_pending_def hm_retain_def)
  then show "offer_ok lower offer" using assms(1) by (force simp: file_ok_def)
qed

text \<open>A task is spawned.\<close>

lemma spawn_step:
  assumes "file_ok lower p0 m" and "offer_ok lower offer"
    and "register_job free tid (po_peer offer) True (sn_total_bytes (po_snapshot offer)) (fv_jobs (fm_service m)) = Inr js"
    and "fv_jobs (fm_service m') = js" and "set (fm_taken m') \<subseteq> set (fm_taken m)"
    and "fm_tasks m' = fm_tasks m @ [t]" and "rt_tid t = tid" and "rt_offer t = po_packet offer"
    and "rt_session t = rx_new (po_packet offer)"
  shows "file_ok lower p0 m' \<and> file_rel lower m [Approved tid (po_packet offer)] m'"
proof
  have total: "manifest_total lower (po_packet offer) = Some (sn_total_bytes (po_snapshot offer))"
    using assms(2) by (simp add: offer_ok_def)
  have reg: "calm lower p0 (fv_jobs (fm_service m)) js"
    "jobs_ok p0 (fv_jobs (fm_service m)) \<Longrightarrow> reserves js tid (sn_total_bytes (po_snapshot offer))"
    using calm_register(1,2) [OF assms(3)] by simp_all
  have new: "session_ok lower (rt_offer t) (rt_session t)" "live (rt_session t)" "offering (rt_session t)"
    using total
    by (auto simp: assms(8,9) session_ok_def manifest_total_iff phase_ok_def rx_new_def live_def offering_def)
  have "tasks_held lower p0 m'" if "distinct (map rt_tid (fm_tasks m'))"
  proof -
    have "tasks_held lower p0 m" using that assms(1,6) by (simp add: file_ok_def)
    then show ?thesis using reg total assms(4,6-8) by (auto simp: tasks_held_def task_held_def calm_def)
  qed
  then show "file_ok lower p0 m'"
    using assms(1,4-6) reg(1) new(1) unfolding file_ok_def calm_def offers_kept_def by auto
  show "file_rel lower m [Approved tid (po_packet offer)] m'"
    using new(3) by (simp add: file_rel_def approvals_def assms(6-8) ledger_approve ledger_end)
qed

text \<open>A task is polled.\<close>

lemma poll_ledger:
  assumes "poll_obs lower tid offer rx os rx'"
  shows "ledger lower ((if offering rx then {#(tid, offer)#} else {#}) + K) (map FromSession os)
    ((if offering rx' then {#(tid, offer)#} else {#}) + K)"
proof -
  have lapse: "ledger lower ((if offering rx then {#x#} else {#}) + K) [] ((if offering rx' then {#x#} else {#}) + K)"
    if "offering rx' \<longrightarrow> offering rx" for x
    using that by (auto intro: ledger.intros)
  consider "os = []" | peer p where "os = [SentPacket peer p]"
    | files where "os = [Published tid files]" "declared lower offer files" "offering rx" "\<not> offering rx'"
    | files part where "os = [PartlyPublished tid part]" "subseq part files" "declared lower offer files"
      "offering rx" "\<not> offering rx'"
    using assms by (auto simp: poll_obs_def)
  then show ?thesis
    using assms lapse
    by cases (auto simp: poll_obs_def intro!: ledger_sent ledger_publish ledger_end intro: ledger_part [OF _ _ ledger_end])
qed

lemma poll_step_ok:
  assumes "file_ok lower p0 m" and "poll_step lower sha reg answer destination moved i m = (os, m')"
  shows "file_ok lower p0 m' \<and> file_rel lower m os m'"
proof (cases "i < length (fm_tasks m)")
  case False
  then show ?thesis using assms by (auto simp: poll_step_def rel_quiet)
next
  case True
  define t where "t = fm_tasks m ! i"
  define xs where "xs = take i (fm_tasks m)"
  define ys where "ys = drop (Suc i) (fm_tasks m)"
  obtain os1 rx s where poll: "rx_poll lower sha reg answer (rt_tid t) (rt_peer t) destination moved (rt_session t) (fm_service m) =
      (os1, rx, s)" by (metis prod_cases3)
  let ?t = "t\<lparr>rt_session := rx\<rparr>" and ?js = "fv_jobs (fm_service m)"
  have tasks: "fm_tasks m = xs @ t # ys" using True by (simp add: t_def xs_def ys_def id_take_nth_drop)
  have m': "m' = m\<lparr>fm_service := s, fm_tasks := xs @ ?t # ys\<rparr>" and os: "os = map FromSession os1"
    using assms(2) True poll
    by (simp_all add: poll_step_def upd_conv_take_nth_drop xs_def ys_def flip: t_def)
  have ok: "session_ok lower (rt_offer t) (rt_session t)" using assms(1) by (simp add: file_ok_def tasks)
  then obtain n where n: "manifest_total lower (rt_offer t) = Some n"
    by (auto simp: session_ok_def manifest_total_iff)
  have new: "session_ok lower (rt_offer t) rx" "poll_obs lower (rt_tid t) (rt_offer t) (rt_session t) os1 rx"
    using rx_poll_session [OF ok poll] by blast+
  have held: "holds_on p0 (rt_tid t) n (rt_session t) (fm_service m) rx s" by (rule rx_poll_holds [OF poll ok n])
  have "tasks_held lower p0 m'" if "distinct (map rt_tid (fm_tasks m'))"
  proof -
    have ids: "distinct (map rt_tid (fm_tasks m))" "\<And>u. u \<in> set xs \<union> set ys \<Longrightarrow> rt_tid u \<noteq> rt_tid t"
      using that by (auto simp: m' tasks) (metis image_eqI)+
    then have before: "jobs_ok p0 ?js" "\<And>u. u \<in> set (fm_tasks m) \<Longrightarrow> task_held lower ?js u"
      using assms(1) by (auto simp: file_ok_def tasks_held_def)
    then have "live (rt_session t) \<longrightarrow> reserves ?js (rt_tid t) n" using n by (force simp: task_held_def tasks)
    then have after: "jobs_ok p0 (fv_jobs s)" "live rx \<longrightarrow> reserves (fv_jobs s) (rt_tid t) n"
      "\<And>k m. k \<noteq> rt_tid t \<Longrightarrow> reserves ?js k m \<Longrightarrow> reserves (fv_jobs s) k m"
      using held before(1) unfolding holds_on_def by blast+
    have "task_held lower (fv_jobs s) u" if "u \<in> set xs \<union> set ys" for u
      using that ids(2) before(2) [of u] after(3) unfolding task_held_def tasks by auto
    moreover have "task_held lower (fv_jobs s) ?t" using after(2) n by (simp add: task_held_def)
    ultimately show ?thesis using after(1) by (auto simp: tasks_held_def m')
  qed
  then have "file_ok lower p0 m'"
    using assms(1) new(1) held by (auto simp: file_ok_def m' tasks holds_on_def)
  moreover have "file_rel lower m os m'"
    using poll_ledger [OF new(2), of "approvals (m\<lparr>fm_tasks := xs @ ys\<rparr>)"]
    by (auto simp: file_rel_def os m' approvals_def tasks approved_ids_def List.map_filter_def filter_map comp_def)
  ultimately show ?thesis by blast
qed

lemma approve_step_ok:
  assumes "file_ok lower p0 m" and "approve_step i free m = (os, m')"
  shows "file_ok lower p0 m' \<and> file_rel lower m os m'"
proof (cases "i < length (fm_taken m)")
  case False
  then show ?thesis using assms by (auto simp: approve_step_def rel_quiet)
next
  case True
  obtain tid offer where e: "fm_taken m ! i = (tid, offer)" by fastforce
  then have "(tid, offer) \<in> set (fm_taken m)" using True nth_mem by fastforce
  then have offer: "offer_ok lower offer" using assms(1) by (force simp: file_ok_def)
  note fewer = set_remove_nth [of i "fm_taken m"]
  show ?thesis
  proof (cases "register_job free tid (po_peer offer) True (sn_total_bytes (po_snapshot offer)) (fv_jobs (fm_service m))")
    case (Inl reason)
    then have "fm_tasks m' = fm_tasks m" "os = []" "fv_jobs (fm_service m') = fv_jobs (fm_service m)"
      "set (fm_taken m') \<subseteq> set (fm_taken m)"
      using assms(2) True e fewer by (auto simp: approve_step_def approve_register_def)
    then show ?thesis using file_quiet_step [OF assms(1), of m'] rel_quiet [of m' m] by auto
  next
    case (Inr js)
    let ?t = "\<lparr>rt_tid = tid, rt_peer = po_peer offer, rt_offer = po_packet offer,
      rt_session = rx_new (po_packet offer)\<rparr>"
    have "os = [Approved tid (po_packet offer)]" "fv_jobs (fm_service m') = js" "fm_tasks m' = fm_tasks m @ [?t]"
      "set (fm_taken m') \<subseteq> set (fm_taken m)"
      using assms(2) True e fewer Inr by (auto simp: approve_step_def approve_register_def)
    then show ?thesis using spawn_step [OF assms(1) offer Inr, of m' ?t] by simp
  qed
qed

lemma quiet_service:
  assumes "file_ok lower p0 m" and "calm_service lower p0 (fm_service m) s"
  shows "file_ok lower p0 (m\<lparr>fm_service := s\<rparr>) \<and> file_rel lower m [] (m\<lparr>fm_service := s\<rparr>)"
  using file_quiet_step [OF assms(1), of "m\<lparr>fm_service := s\<rparr>"] assms(2) by (simp add: rel_quiet)

lemma quiet_jobs:
  assumes "file_ok lower p0 m" and "calm lower p0 (fv_jobs (fm_service m)) (f (fv_jobs (fm_service m)))"
  shows "file_ok lower p0 (with_jobs f m) \<and> file_rel lower m [] (with_jobs f m)"
  using file_quiet_step [OF assms(1), of "with_jobs f m"] assms(2) by (simp add: rel_quiet)

lemma file_step_ok:
  assumes "file_ok lower p0 m"
  shows "file_ok lower p0 (snd (file_step lower sha m c)) \<and>
    file_rel lower m (fst (file_step lower sha m c)) (snd (file_step lower sha m c))"
proof (cases c)
  case (SnapshotsCall now)
  then show ?thesis using quiet_jobs [OF assms] calm_prune by (simp add: file_step_def service_snapshots_def Let_def)
next
  case (DragFailureCall fresh_id peer e)
  then show ?thesis
    using quiet_jobs [OF assms] calm_history by (simp add: file_step_def record_folder_drag_failure_def)
next
  case (CancelCall now tid)
  then show ?thesis using quiet_service [OF assms calm_cancel_transfer] by (simp add: file_step_def)
next
  case (ApproveTakeCall now tid)
  obtain r s where take: "approve_take now tid (fm_service m) = (r, s)" by fastforce
  note calm = take_step(1) [OF assms take]
  show ?thesis
  proof (cases r)
    case (Inl e)
    then show ?thesis using ApproveTakeCall take quiet_service [OF assms calm] by (simp add: file_step_def)
  next
    case (Inr offer)
    let ?m = "m\<lparr>fm_service := s, fm_taken := (tid, offer) # fm_taken m\<rparr>"
    have "file_ok lower p0 ?m" using take_step(2) [OF assms take Inr] calm by (intro file_quiet_step [OF assms]) auto
    then show ?thesis using ApproveTakeCall take Inr by (simp add: file_step_def rel_quiet)
  qed
next
  case (ApproveRegisterCall i free)
  then show ?thesis using approve_step_ok [OF assms prod.collapse [symmetric]] by (simp add: file_step_def)
next
  case (ApproveRecordCall i)
  obtain offer e where refused: "fm_refused m ! i = (offer, e)" by fastforce
  let ?m = "m\<lparr>fm_service := approve_record offer e (fm_service m), fm_refused := remove_nth i (fm_refused m)\<rparr>"
  have "file_ok lower p0 ?m" by (rule file_quiet_step [OF assms]) (auto simp: approve_record_def calm_history)
  then show ?thesis using ApproveRecordCall assms refused by (simp add: file_step_def rel_quiet)
next
  case (DisconnectCall now peer generation)
  then show ?thesis using quiet_jobs [OF assms, of "service_disconnect now peer generation"] calm_disconnect by (simp add: file_step_def)
next
  case (SendCall reg fresh_id peer n to_folder)
  then show ?thesis using quiet_jobs [OF assms, of "\<lambda>js. snd (start_send reg fresh_id peer n to_folder js)"] calm_start_send
    by (simp add: file_step_def)
next
  case (ReceiveCall reg now peer generation packet)
  then show ?thesis using quiet_service [OF assms calm_receive] by (simp add: file_step_def)
next
  case (ReceiverPoll reg answer destination moved i)
  then show ?thesis using poll_step_ok [OF assms prod.collapse [symmetric]] by (simp add: file_step_def)
next
  case (SenderUpdate tid change)
  then show ?thesis using quiet_jobs [OF assms, of "update_job tid (apply_change change)"] calm_sender_update assms by (simp add: file_step_def rel_quiet)
next
  case (SenderTake tid)
  obtain r s where take: "take_packet tid (fm_service m) = (r, s)" by fastforce
  have "calm_service lower p0 (fm_service m) s"
    using take_packet_calm [OF take] unfolding calm_def offers_kept_def by simp
  then show ?thesis using SenderTake take assms quiet_service [OF assms] by (simp add: file_step_def rel_quiet)
next
  case (SenderFinish tid status e)
  then show ?thesis using quiet_jobs [OF assms, of "finish_job tid status e"] sender_finish_calm assms by (simp add: file_step_def rel_quiet)
qed

interpretation file_drops: emitting_machine "file_step lower sha" "file_ok lower p0" "\<lambda>_. True" "file_rel lower"
  for lower sha p0
proof unfold_locales
  fix m c
  assume "file_ok lower p0 m"
  then show "file_ok lower p0 (snd (file_step lower sha m c))"
    and "file_rel lower m (fst (file_step lower sha m c)) (snd (file_step lower sha m c))"
    using file_step_ok by blast+
next
  fix m show "file_rel lower m [] m" by (rule rel_quiet) simp
next
  fix m os m1 os' m2
  assume "file_rel lower m os m1" and "file_rel lower m1 os' m2"
  then show "file_rel lower m (os @ os') m2" by (auto simp: file_rel_def intro: ledger_append)
qed

section \<open>Properties\<close>

lemma new_machine_ok: "file_ok lower p0 (file_machine_new p0 r)"
  by (simp add: file_ok_def tasks_held_def file_machine_new_def service_new_def jobs_ok_def reserved_ok_def
      quotas_ok_def counts_ok_def weight_def amount_def)

lemma new_machine_rel:
  assumes "run (file_step lower sha) (file_machine_new p0 r) cs = (os, m)"
  shows "map rt_tid (fm_tasks m) = approved_ids os" and "ledger lower {#} os (approvals m)"
  using file_drops.run_rel [OF new_machine_ok [of lower p0 r], of cs sha] assms
  by (simp_all add: file_rel_def file_machine_new_def approvals_def)

text \<open>Distinct live transfers reserve no more than is reserved altogether.\<close>

lemma weight_subset:
  "hm_wf m \<Longrightarrow> distinct ks \<Longrightarrow> (\<forall>k\<in>set ks. hm_get m k \<noteq> None) \<Longrightarrow>
     sum_list (map (weight_at w m) ks) \<le> weight w m"
proof (induction ks arbitrary: m)
  case (Cons k ks)
  have "sum_list (map (weight_at w (hm_del k m)) ks) \<le> weight w (hm_del k m)"
    using Cons.prems by (intro Cons.IH) (auto simp: hm.get_del hm.wf_del)
  moreover have "map (weight_at w (hm_del k m)) ks = map (weight_at w m) ks"
    using Cons.prems by (auto simp: weight_at_def hm.get_del)
  ultimately show ?case using weight_del [OF Cons.prems(1), of w k] by simp
qed simp

definition staged_total :: "file_machine \<Rightarrow> nat" where
  "staged_total m = sum_list (map (staged_bytes \<circ> rt_session) (filter (live \<circ> rt_session) (fm_tasks m)))"

lemma staged_reserved:
  assumes "file_ok lower p0 m" and "distinct (map rt_tid (fm_tasks m))"
  shows "staged_total m \<le> jo_reserved_bytes (fv_jobs (fm_service m))"
proof -
  let ?js = "fv_jobs (fm_service m)" and ?live = "filter (live \<circ> rt_session) (fm_tasks m)"
  have held: "tasks_held lower p0 m" using assms by (simp add: file_ok_def)
  then have books: "hm_wf (jo_active ?js)" "jo_reserved_bytes ?js = weight jb_reserved_bytes (jo_active ?js)"
    by (simp_all add: tasks_held_def jobs_ok_def reserved_ok_def)
  have each: "staged_bytes (rt_session t) \<le> weight_at jb_reserved_bytes (jo_active ?js) (rt_tid t) \<and>
      hm_get (jo_active ?js) (rt_tid t) \<noteq> None" if "t \<in> set ?live" for t
  proof -
    have t: "t \<in> set (fm_tasks m)" "live (rt_session t)" using that by simp_all
    then obtain n where "manifest_total lower (rt_offer t) = Some n" "reserves ?js (rt_tid t) n"
      using held by (auto simp: tasks_held_def task_held_def)
    moreover have "session_ok lower (rt_offer t) (rt_session t)" "live (rt_session t)"
      using assms(1) t by (auto simp: file_ok_def)
    ultimately show ?thesis using session_bytes by (fastforce simp: reserves_def weight_at_def)
  qed
  have "staged_total m \<le> sum_list (map (\<lambda>t. weight_at jb_reserved_bytes (jo_active ?js) (rt_tid t)) ?live)"
    unfolding staged_total_def using each by (intro sum_list_mono) simp
  moreover have "distinct (map rt_tid ?live)" using assms(2) by (rule distinct_map_filter)
  ultimately show ?thesis
    using weight_subset [OF books(1), of "map rt_tid ?live" jb_reserved_bytes] each
    by (simp add: books(2) comp_def)
qed

lemma limits:
  "max_active = 4" "max_pending_offers = 32" "max_pending_offers_per_peer = 4" "history_limit = 64"
  "max_global_reserved_bytes = 8 * 1024 ^ 3" "max_peer_reserved_bytes = 4 * 1024 ^ 3"
  "max_published_bytes = 32 * 1024 ^ 3" "max_peer_published_bytes = 8 * 1024 ^ 3"
  by (simp_all add: limit_defs)


text \<open>What a ledger says of one publication.\<close>

lemma ledger_published:
  "ledger lower K os K' \<Longrightarrow> ob \<in> set os \<Longrightarrow>
     ob \<in> {FromSession (Published tid files), FromSession (PartlyPublished tid files)} \<Longrightarrow>
     \<exists>offer all. ((tid, offer) \<in># K \<or> Approved tid offer \<in> set os) \<and> declared lower offer all \<and> subseq files all"
proof (induction rule: ledger.induct)
  case (ledger_publish offer files' K os K' tid')
  show ?case
  proof (cases "files' = files \<and> tid' = tid")
    case True
    then show ?thesis using ledger_publish.hyps(1) by auto
  next
    case False
    then show ?thesis using ledger_publish.IH ledger_publish.prems by auto
  qed
next
  case (ledger_part offer files' part K os K' tid')
  show ?case
  proof (cases "part = files \<and> tid' = tid")
    case True
    then show ?thesis using ledger_part.hyps(1,2) by auto
  next
    case False
    then show ?thesis using ledger_part.IH ledger_part.prems by auto
  qed
qed auto

lemma subseq_files:
  "subseq part files \<Longrightarrow> sum_list (map (length \<circ> snd) part) \<le> sum_list (map (length \<circ> snd) files) \<and>
     set part \<subseteq> set files \<and> (distinct (map fst files) \<longrightarrow> distinct (map fst part))"
  by (induction rule: list_emb.induct) auto

lemma declared_files:
  assumes "declared lower offer files"
  shows "sum_list (map (length \<circ> snd) files) \<le> 10 * 1024 ^ 3"
    and "\<forall>f\<in>set files. sound_path (fst f)" and "distinct (map fst files)"
proof -
  obtain entries tot where e: "validate_manifest lower entries = Inr tot" "list_all2 same_file (files_of entries) files"
    using assms by (auto simp: declared_def manifest_total_def split: option.splits sum.splits)
  then have sound: "sound_manifest lower entries" using validate_manifest_iff by blast
  then show "sum_list (map (length \<circ> snd) files) \<le> 10 * 1024 ^ 3"
    using staged_sizes [OF e(2)] sum_files_of [of entries] by (simp add: sound_manifest_def)
  have paths: "map fst files = map (fe_path \<circ> snd) (files_of entries)"
    using e(2) by (induction rule: list_all2_induct) (auto simp: same_file_def)
  have entry: "snd ` set (files_of entries) \<subseteq> set entries" by (auto simp: files_of_def in_set_enumerate_eq)
  show "\<forall>f\<in>set files. sound_path (fst f)"
  proof
    fix f assume "f \<in> set files"
    then have "fst f \<in> set (map fst files)" by simp
    then obtain x where "x \<in> set (files_of entries)" "fst f = fe_path (snd x)" unfolding paths by auto
    then show "sound_path (fst f)" using entry sound by (auto simp: sound_manifest_def)
  qed
  have "distinct (map (lower \<circ> fe_path) entries)" using sound by (simp add: sound_manifest_def)
  then have "distinct (map fe_path entries)" by (metis distinct_map map_map)
  moreover have "map (fe_path \<circ> snd) (enumerate 0 entries) = map fe_path (map snd (enumerate 0 entries))"
    by (rule map_map [symmetric])
  ultimately have "distinct (map (fe_path \<circ> snd) (enumerate 0 entries))" by (simp only: map_snd_enumerate)
  then show "distinct (map fst files)"
    unfolding paths files_of_def by (rule distinct_map_filter)
qed

lemma sound_parts:
  assumes "sound_path path"
  shows "cp CHR 0x5C \<notin> set path \<and> cp CHR '':'' \<notin> set path \<and>
    (\<forall>part\<in>set (split_on (cp CHR ''/'') path). part \<notin> {[], ustr ''.'', ustr ''..''})"
proof -
  have "part \<notin> {[], ustr ''.'', ustr ''..''}" if "part \<in> set (split_on (cp CHR ''/'') path)" for part
  proof -
    have "\<not> unsafe_part part" using assms that by (simp add: sound_path_def)
    then show ?thesis by (simp add: unsafe_part_def)
  qed
  then show ?thesis using assms by (simp add: sound_path_def)
qed

text \<open>
  C23. Nothing is published that the user did not approve, and nothing outside the folder it is
  published into: whatever the peers send, a publication, also one that stops half way, follows an
  approval of its transfer, its paths differ, none has an empty part, a step in place or up, a
  backslash or a drive's colon, and its files have at most 10 GiB together.
\<close>

theorem published_paths_stay_inside:
  assumes "ob \<in> set (fst (run (file_step lower sha) (file_machine_new p0 r) cs))"
    and "ob \<in> {FromSession (Published tid files), FromSession (PartlyPublished tid files)}"
  shows "(\<exists>offer. Approved tid offer \<in> set (fst (run (file_step lower sha) (file_machine_new p0 r) cs))) \<and>
    distinct (map fst files) \<and> sum_list (map (length \<circ> snd) files) \<le> 10 * 1024 ^ 3 \<and>
    (\<forall>f\<in>set files. cp CHR 0x5C \<notin> set (fst f) \<and> cp CHR '':'' \<notin> set (fst f) \<and>
       (\<forall>part\<in>set (split_on (cp CHR ''/'') (fst f)). part \<notin> {[], ustr ''.'', ustr ''..''}))"
proof -
  obtain os m where run: "run (file_step lower sha) (file_machine_new p0 r) cs = (os, m)" by fastforce
  then obtain offer all where offer: "Approved tid offer \<in> set os" "declared lower offer all" "subseq files all"
    using ledger_published [OF new_machine_rel(2) [OF run] _ assms(2)] assms(1) by auto
  note part = subseq_files [OF offer(3)] and files = declared_files [OF offer(2)]
  have "\<forall>f\<in>set files. cp CHR 0x5C \<notin> set (fst f) \<and> cp CHR '':'' \<notin> set (fst f) \<and>
       (\<forall>part\<in>set (split_on (cp CHR ''/'') (fst f)). part \<notin> {[], ustr ''.'', ustr ''..''})"
    using files(2) part by (intro ballI sound_parts) blast
  moreover have "sum_list (map (length \<circ> snd) files) \<le> 10 * 1024 ^ 3" using part files(1) by linarith
  ultimately show ?thesis unfolding run fst_conv using offer(1) part files(3) by blast
qed

text \<open>
  C22. The service refines the ledger of approvals: in every trace of it, each publication uses up one
  earlier approval of that transfer, of an offer with a valid manifest, and consists of exactly the
  regular files of this manifest, in its order and each of the declared size (or, when renaming into a
  folder fails half way, of some of them). A peer can neither
  publish without the user's approval, nor twice for one, nor more or other files than were shown.
\<close>

theorem publications_are_approved:
  "\<exists>K. ledger lower {#} (fst (run (file_step lower sha) (file_machine_new p0 r) cs)) K"
  using new_machine_rel(2) [of lower sha p0 r cs] by (metis prod.collapse)

section \<open>A drop as the machine sees it\<close>

definition example_registry :: "peer_versions connection_registry" where
  "example_registry =
     [(1, (\<lparr>pa_peer_id = 1, pa_certificate_fingerprint = ''fp'', pa_control_connection_id = 2\<rparr>,
           \<lparr>pv_folder_drop = 0, pv_file_transfer = 1\<rparr>))]"

definition example_packet :: "nat \<Rightarrow> file_transfer_body \<Rightarrow> file_call" where
  "example_packet n body = ReceiveCall example_registry 0 1 2 \<lparr>fp_transfer_id = 7, fp_sequence = n, fp_body = body\<rparr>"

definition example_poll :: file_call where
  "example_poll = ReceiverPoll example_registry AnswerOk [] [] 0"

text \<open>An offer of one file of three bytes arrives, is approved, and its first two bytes are staged.\<close>

definition example_calls :: "file_call list" where
  "example_calls =
     [example_packet 0 (Offer [example_entry]), ApproveTakeCall 0 7, ApproveRegisterCall 0 (Some (1024 ^ 3)),
      example_poll, example_poll, example_poll, example_poll, example_packet 1 (Chunk 0 0 [1, 2]), example_poll]"

text \<open>The rest arrives, and the file is published; the hash is the identity here.\<close>

definition example_rest :: "file_call list" where
  "example_rest =
     [example_poll, example_packet 2 (Chunk 0 2 [3]), example_poll, example_poll,
      example_packet 3 (FileEnd 0 [1, 2, 3]), example_poll, example_poll, example_packet 4 Complete, example_poll,
      example_poll, example_poll, example_poll]"

lemmas example_eval = example_packet_def example_poll_def example_registry_def file_step_def receive_packet_def registry_peer_def hm_get_def hm_put_def
  hm_del_def hm_retain_def generation_of_peer_def peer_of_def offered_entries_def is_folder_offer_def receive_offer_def
  queue_pending_offer_def prune_pending_def new_snapshot_def pending_offer_ttl_def approve_take_def approve_step_def
  approve_register_def register_job_def reserve_bytes_def sat_add_def amount_def min_free_bytes_def limit_defs
  remove_nth_def poll_step_def rx_poll_def rx_new_def rx_start_def rx_resolve_def rx_prepare_def cancel_of_def rx_begin_def files_of_def
  update_service_def update_job_def session_write_def rx_acked_def mpsc_try_send_def mpsc_new_def mpsc_recv_def mpsc_capacity_def
  take_packet_def rx_next_def rx_packet_def chunk_size_def file_chunk_bytes_def Let_def

lemma example_fields:
  "fe_directory example_entry = False" "fe_size example_entry = 3" "fe_path example_entry = ustr ''a/b''"
  by (simp_all add: example_entry_def)

lemma file_example_run:
  "\<exists>os m. run (file_step id id) (file_machine_new 0 False) example_calls = (os, m) \<and> distinct (approved_ids os) \<and>
     staged_total m = 2 \<and> jo_reserved_bytes (fv_jobs (fm_service m)) = 3"
  by (simp add: example_calls_def file_machine_new_def service_new_def example_eval example_valid example_fields
      staged_total_def live_def staged_bytes_def)

lemma example_published:
  "FromSession (Published 7 [(ustr ''a/b'', [1, 2, 3])]) \<in>
     set (fst (run (file_step id id) (file_machine_new 0 False) (example_calls @ example_rest)))"
  by (simp add: example_calls_def example_rest_def file_machine_new_def service_new_def example_eval example_valid
      example_fields rx_commit_def rx_publish_def name_destination_def finish_service_def finish_job_def unreserve_def count_published_def push_history_def)


lemma published_paths_stay_inside_witness:
  "\<exists>offer. Approved 7 offer \<in>
     set (fst (run (file_step id id) (file_machine_new 0 False) (example_calls @ example_rest)))"
  using published_paths_stay_inside [OF example_published insertI1] by blast

end
