(* ===== verification/UsbTypes.thy ===== *)
theory UsbTypes
  imports FileTransfer "HOL-Library.Word"
begin

text \<open>
  What USB forwarding sends (\<open>crates/rshare-core/src/protocol/mod.rs\<close>), with the bytes and half words of
  a set-up packet as machine words, and the check every transfer passes before it reaches a device
  (\<open>validate_transfer\<close> in \<open>crates/rshare-platform/src/usb_forwarding.rs\<close>).
\<close>

unbundle bit_operations_syntax

section \<open>Set-up packets\<close>

record usb_control_setup_packet =
  us_request_type :: "8 word"
  us_request :: "8 word"
  us_value :: "16 word"
  us_index :: "16 word"
  us_length :: "16 word"

definition le16 :: "8 word \<Rightarrow> 8 word \<Rightarrow> 16 word" where
  "le16 low high = ucast low OR push_bit 8 (ucast high)"

definition low_byte :: "16 word \<Rightarrow> 8 word" where "low_byte w = ucast w"
definition high_byte :: "16 word \<Rightarrow> 8 word" where "high_byte w = ucast (drop_bit 8 w)"

text \<open>An array of eight bytes is a list of that length.\<close>

definition setup_from_raw :: "8 word list \<Rightarrow> usb_control_setup_packet" where
  "setup_from_raw b =
     \<lparr>us_request_type = b ! 0, us_request = b ! 1, us_value = le16 (b ! 2) (b ! 3),
      us_index = le16 (b ! 4) (b ! 5), us_length = le16 (b ! 6) (b ! 7)\<rparr>"

definition setup_to_raw :: "usb_control_setup_packet \<Rightarrow> 8 word list" where
  "setup_to_raw p =
     [us_request_type p, us_request p, low_byte (us_value p), high_byte (us_value p),
      low_byte (us_index p), high_byte (us_index p), low_byte (us_length p), high_byte (us_length p)]"

lemma le16_bytes: "le16 (low_byte w) (high_byte w) = w"
  by (rule bit_word_eqI) (auto simp: le16_def low_byte_def high_byte_def bit_simps)

lemma bytes_le16: "low_byte (le16 low high) = low" "high_byte (le16 low high) = high"
proof -
  have "\<not> bit low (8 + n)" for n using bit_imp_le_length [of low "8 + n"] by auto
  then show "low_byte (le16 low high) = low" "high_byte (le16 low high) = high"
    by (auto intro!: bit_word_eqI simp: le16_def low_byte_def high_byte_def bit_simps)
qed

section \<open>Transfers\<close>

datatype usb_transfer_kind = ControlTransfer | BulkTransfer | InterruptTransfer | IsochronousTransfer
datatype usb_transfer_direction = UsbIn | UsbOut
datatype usb_device_speed = SpeedUnknown | SpeedLow | SpeedFull | SpeedHigh | SpeedSuper | SpeedSuperPlus
datatype usb_transfer_flag = ShortNotOk | ZeroPacket | NoDataStage

record usb_endpoint_descriptor =
  ue_address :: "8 word"
  ue_interface_number :: u8
  ue_alternate_setting :: u8
  ue_transfer_kind :: usb_transfer_kind
  ue_direction :: usb_transfer_direction
  ue_max_packet_size :: u16
  ue_interval_ms :: "u8 option"
  ue_attributes :: u8
  ue_max_burst :: "u8 option"
  ue_max_streams :: "u16 option"

record usb_interface_descriptor =
  ui_interface_number :: u8
  ui_alternate_setting :: u8
  ui_class_code :: u8
  ui_subclass_code :: u8
  ui_protocol_code :: u8
  ui_description :: "ustring option"
  ui_endpoints :: "usb_endpoint_descriptor list"

record usb_configuration_descriptor =
  uc_configuration_value :: u8
  uc_description :: "ustring option"
  uc_attributes :: u8
  uc_max_power_ma :: u16
  uc_interfaces :: "usb_interface_descriptor list"

record usb_device_descriptor =
  ud_bus_id :: ustring
  ud_vendor_id :: u16
  ud_product_id :: u16
  ud_class_code :: u8
  ud_subclass_code :: u8
  ud_protocol_code :: u8
  ud_manufacturer :: "ustring option"
  ud_product :: "ustring option"
  ud_serial_number :: "ustring option"
  ud_usb_version_bcd :: u16
  ud_device_version_bcd :: u16
  ud_speed :: usb_device_speed
  ud_active_configuration :: "u8 option"
  ud_container_id :: "ustring option"
  ud_capture_exclusive_required :: bool
  ud_configurations :: "usb_configuration_descriptor list"
  ud_endpoints :: "usb_endpoint_descriptor list"

record usb_iso_packet_descriptor =
  up_offset :: u32
  up_length :: u32
  up_actual_length :: "u32 option"
  up_status :: "i32 option"

record usb_transfer_payload =
  ut_transfer_id :: u64
  ut_bus_id :: ustring
  ut_session_id :: "uuid option"
  ut_endpoint_address :: "8 word"
  ut_transfer_kind :: usb_transfer_kind
  ut_direction :: usb_transfer_direction
  ut_setup_packet :: "8 word list option"
  ut_control_setup :: "usb_control_setup_packet option"
  ut_stream_id :: "u16 option"
  ut_expected_length :: "u32 option"
  ut_flags :: "usb_transfer_flag list"
  ut_iso_packets :: "usb_iso_packet_descriptor list"
  ut_data :: "8 word list"
  ut_timeout_ms :: u32

datatype usb_transfer_status =
    UsbCompleted | UsbCancelled | UsbStall | UsbTimeout | UsbDeviceGone | UsbProtocolError | UsbUnsupported | UsbFailed

record usb_transfer_completion =
  uf_transfer_id :: u64
  uf_bus_id :: ustring
  uf_status :: i32
  uf_transfer_status :: usb_transfer_status
  uf_endpoint_address :: "8 word option"
  uf_transfer_kind :: "usb_transfer_kind option"
  uf_actual_length :: "u32 option"
  uf_data :: "8 word list"

definition control_setup_packet :: "usb_transfer_payload \<Rightarrow> usb_control_setup_packet option" where
  "control_setup_packet t =
     (case ut_control_setup t of
        Some p \<Rightarrow> Some p
      | None \<Rightarrow> map_option setup_from_raw (ut_setup_packet t))"

datatype usb_error =
    UsbUnsupportedFields | UsbInPayload | UsbNoSetup | UsbSetupMismatch | UsbControlProfile | UsbUnexpectedSetup
  | UsbUnknownEndpoint | UsbEndpointMismatch
  | UsbBadGrant | UsbGrantLimit | UsbNotAuthorized | UsbGrantExpired | UsbAlreadyLeased | UsbLeaseLimit
  | UsbNoLeaseId | UsbUnknownLease | UsbLeaseMismatch | UsbStaleTransfer
  | UsbUnknownDevice | UsbNotClaimable | UsbOutsideProfile | UsbExclusiveRequired | UsbNoSession
  | UsbDeviceRemoved | UsbNoReset | UsbNoCancel | UsbProvider string

definition validate_transfer ::
  "usb_transfer_payload \<Rightarrow> usb_endpoint_descriptor list \<Rightarrow> u32 \<Rightarrow> usb_error + unit" where
  "validate_transfer t endpoints limit =
     (let inp = (ut_direction t = UsbIn)
      in if limit < length (ut_data t) \<or> (case ut_expected_length t of Some n \<Rightarrow> limit < n | None \<Rightarrow> False) \<or>
            ut_timeout_ms t = 0 \<or> 30000 < ut_timeout_ms t \<or> ut_stream_id t \<noteq> None \<or> ut_flags t \<noteq> [] \<or>
            ut_iso_packets t \<noteq> []
         then Inl UsbUnsupportedFields
         else if inp \<and> ut_data t \<noteq> [] then Inl UsbInPayload
         else if ut_transfer_kind t = ControlTransfer then
           (case control_setup_packet t of
              None \<Rightarrow> Inl UsbNoSetup
            | Some setup \<Rightarrow>
                if (case ut_setup_packet t of Some raw \<Rightarrow> raw \<noteq> setup_to_raw setup | None \<Rightarrow> False) \<or>
                   ut_endpoint_address t \<noteq> 0 \<or>
                   (us_request_type setup AND 0x80 \<noteq> 0) \<noteq> inp \<or>
                   (case ut_expected_length t of Some n \<Rightarrow> n \<noteq> unat (us_length setup) | None \<Rightarrow> False) \<or>
                   \<not> inp \<and> length (ut_data t) \<noteq> unat (us_length setup)
                then Inl UsbSetupMismatch
                else if us_request_type setup \<noteq> 0x80 \<or> us_request setup \<noteq> 6 \<or>
                        drop_bit 8 (us_value setup) \<noteq> 1 \<or> us_index setup \<noteq> 0 \<or> 18 < us_length setup
                then Inl UsbControlProfile
                else Inr ())
         else if ut_setup_packet t \<noteq> None \<or> ut_control_setup t \<noteq> None then Inl UsbUnexpectedSetup
         else case find (\<lambda>e. ue_address e = ut_endpoint_address t) endpoints of
           None \<Rightarrow> Inl UsbUnknownEndpoint
         | Some endpoint \<Rightarrow>
             if \<not> (ut_transfer_kind t = BulkTransfer \<or> ut_transfer_kind t = InterruptTransfer) \<or>
                ue_transfer_kind endpoint \<noteq> ut_transfer_kind t \<or> ue_direction endpoint \<noteq> ut_direction t \<or>
                (ut_endpoint_address t AND 0x80 \<noteq> 0) \<noteq> inp \<or>
                inp \<and> ut_expected_length t = None \<or>
                \<not> inp \<and> (case ut_expected_length t of Some n \<Rightarrow> n \<noteq> length (ut_data t) | None \<Rightarrow> False)
             then Inl UsbEndpointMismatch
             else Inr ())"

section \<open>Properties\<close>

lemma setup_to_from:
  assumes "length b = 8"
  shows "setup_to_raw (setup_from_raw b) = b"
proof -
  have "length b = Suc (Suc (Suc (Suc (Suc (Suc (Suc (Suc 0)))))))" using assms by simp
  then obtain b0 b1 b2 b3 b4 b5 b6 b7 where "b = [b0, b1, b2, b3, b4, b5, b6, b7]"
    unfolding length_Suc_conv by auto
  then show ?thesis by (simp add: setup_from_raw_def setup_to_raw_def bytes_le16)
qed

text \<open>
  A set-up packet survives its encoding: decoding the eight bytes of a packet gives the packet back,
  and encoding what eight bytes decode to gives these bytes, so no two packets share an encoding.
\<close>

lemma setup_roundtrip:
  "setup_from_raw (setup_to_raw p) = p \<and> (length b = 8 \<longrightarrow> setup_to_raw (setup_from_raw b) = b)"
  by (simp add: setup_to_from) (simp add: setup_from_raw_def setup_to_raw_def le16_bytes)

text \<open>What a transfer that passes the check is: a read of the device descriptor, or data for one known pipe.\<close>

definition descriptor_read :: "usb_transfer_payload \<Rightarrow> bool" where
  "descriptor_read t \<longleftrightarrow>
     ut_transfer_kind t = ControlTransfer \<and> ut_direction t = UsbIn \<and> ut_endpoint_address t = 0 \<and>
     (\<exists>setup. control_setup_packet t = Some setup \<and>
        us_request_type setup = 0x80 \<and> us_request setup = 6 \<and> drop_bit 8 (us_value setup) = 1 \<and>
        us_index setup = 0 \<and> us_length setup \<le> 18)"

definition pipe_transfer :: "usb_transfer_payload \<Rightarrow> usb_endpoint_descriptor list \<Rightarrow> bool" where
  "pipe_transfer t endpoints \<longleftrightarrow>
     ut_transfer_kind t \<in> {BulkTransfer, InterruptTransfer} \<and> ut_setup_packet t = None \<and> ut_control_setup t = None \<and>
     (\<exists>e\<in>set endpoints. ue_address e = ut_endpoint_address t \<and> ue_transfer_kind e = ut_transfer_kind t \<and>
        ue_direction e = ut_direction t) \<and>
     (ut_endpoint_address t AND 0x80 \<noteq> 0 \<longleftrightarrow> ut_direction t = UsbIn) \<and>
     (ut_direction t = UsbIn \<longrightarrow> ut_expected_length t \<noteq> None)"

text \<open>
  C39. What the check lets through. A transfer that passes carries at most the negotiated bytes and asks
  for no more, writes only if it is an OUT transfer, has a deadline of at most thirty seconds, and is
  either the read of a device descriptor on the control endpoint or a bulk or interrupt transfer to
  an endpoint the device has, of its kind and direction. No other control request reaches a device.
\<close>

theorem validated_transfer_is_harmless:
  assumes "validate_transfer t endpoints limit = Inr ()"
  shows "length (ut_data t) \<le> limit \<and> (\<forall>n. ut_expected_length t = Some n \<longrightarrow> n \<le> limit) \<and>
    (ut_direction t = UsbIn \<longrightarrow> ut_data t = []) \<and> 0 < ut_timeout_ms t \<and> ut_timeout_ms t \<le> 30000 \<and>
    (descriptor_read t \<or> pipe_transfer t endpoints)"
proof -
  have plain: "length (ut_data t) \<le> limit" "\<forall>n. ut_expected_length t = Some n \<longrightarrow> n \<le> limit"
    "ut_direction t = UsbIn \<longrightarrow> ut_data t = []" "0 < ut_timeout_ms t" "ut_timeout_ms t \<le> 30000"
    using assms by (auto simp: validate_transfer_def Let_def split: if_splits option.splits)
  show ?thesis
  proof (cases "ut_transfer_kind t = ControlTransfer")
    case True
    then have "descriptor_read t"
      using assms
      by (auto simp: validate_transfer_def descriptor_read_def Let_def not_less split: if_splits option.splits)
    then show ?thesis using plain by blast
  next
    case False
    then have "pipe_transfer t endpoints"
      using assms
      by (auto simp: validate_transfer_def pipe_transfer_def Let_def split: if_splits option.splits dest!: find_SomeD)
    then show ?thesis using plain by blast
  qed
qed

definition usb_example_transfer :: usb_transfer_payload where
  "usb_example_transfer =
     \<lparr>ut_transfer_id = 1, ut_bus_id = ustr ''k'', ut_session_id = Some 5, ut_endpoint_address = 0,
      ut_transfer_kind = ControlTransfer, ut_direction = UsbIn, ut_setup_packet = Some [0x80, 6, 0, 1, 0, 0, 18, 0],
      ut_control_setup = None, ut_stream_id = None, ut_expected_length = Some 18, ut_flags = [],
      ut_iso_packets = [], ut_data = [], ut_timeout_ms = 1000\<rparr>"

lemma usb_example_transfer_valid: "validate_transfer usb_example_transfer [] 1024 = Inr ()"
  by (simp add: validate_transfer_def usb_example_transfer_def control_setup_packet_def setup_to_from
      setup_from_raw_def setup_to_raw_def le16_def low_byte_def high_byte_def)

lemma validated_transfer_is_harmless_witness:
  "descriptor_read usb_example_transfer \<or> pipe_transfer usb_example_transfer []"
  using validated_transfer_is_harmless [OF usb_example_transfer_valid] by blast

end
