(* ===== verification/UsbAuthority.thy ===== *)
theory UsbAuthority
  imports UsbTypes
begin

text \<open>
  Who may use which USB device: the grants of the local user and the leases of the connections
  (\<open>crates/rshare-core/src/usb_authority.rs\<close>), and the host runtime that puts them before the native
  provider (\<open>ExperimentalUsbHostRuntime\<close> in \<open>crates/rshare-platform/src/usb_forwarding.rs\<close>). The clock
  (read once in a call), fresh keys and the answers of the provider are arguments; what parses as a
  UUID is the predicate \<open>is_uuid\<close>.
\<close>

section \<open>Grants and leases\<close>

record usb_owner =
  uo_peer :: uuid
  uo_connection :: uuid

record usb_lease =
  ul_owner :: usb_owner
  ul_key :: ustring
  ul_expires :: nat
  ul_last_transfer :: "u64 option"

record usb_authority =
  ua_grants :: "(uuid \<times> ustring, nat) hash_map"
  ua_leases :: "(uuid, usb_lease) hash_map"

definition authority_new :: usb_authority where
  "authority_new = \<lparr>ua_grants = [], ua_leases = []\<rparr>"

definition visible :: "nat \<Rightarrow> uuid \<Rightarrow> ustring \<Rightarrow> usb_authority \<Rightarrow> bool" where
  "visible now peer key a = (case hm_get (ua_grants a) (peer, key) of Some expiry \<Rightarrow> now < expiry | None \<Rightarrow> False)"

definition grant ::
  "(ustring \<Rightarrow> bool) \<Rightarrow> nat \<Rightarrow> uuid \<Rightarrow> ustring \<Rightarrow> u32 \<Rightarrow> usb_authority \<Rightarrow> (usb_error + unit) \<times> usb_authority" where
  "grant is_uuid now peer key seconds a =
     (if 128 < utf8_len key \<or> \<not> is_uuid key \<or> \<not> (1 \<le> seconds \<and> seconds \<le> 3600) then (Inl UsbBadGrant, a)
      else
        let grants = hm_retain (\<lambda>_ expiry. now < expiry) (ua_grants a)
        in if 256 \<le> length grants then (Inl UsbGrantLimit, a\<lparr>ua_grants := grants\<rparr>)
           else (Inr (), a\<lparr>ua_grants := hm_put (peer, key) (now + seconds * 1000) grants\<rparr>))"

definition check_grant :: "nat \<Rightarrow> usb_owner \<Rightarrow> ustring \<Rightarrow> usb_authority \<Rightarrow> usb_error + nat" where
  "check_grant now owner key a =
     (case hm_get (ua_grants a) (uo_peer owner, key) of
        None \<Rightarrow> Inl UsbNotAuthorized
      | Some expiry \<Rightarrow>
          if expiry \<le> now then Inl UsbGrantExpired
          else if \<exists>e\<in>set (ua_leases a). ul_key (snd e) = key then Inl UsbAlreadyLeased
          else if 32 \<le> length (ua_leases a) then Inl UsbLeaseLimit
          else Inr expiry)"

definition attach :: "usb_owner \<Rightarrow> ustring \<Rightarrow> uuid \<Rightarrow> nat \<Rightarrow> usb_authority \<Rightarrow> usb_authority" where
  "attach owner key lease_id expires a =
     a\<lparr>ua_leases :=
       hm_put lease_id \<lparr>ul_owner = owner, ul_key = key, ul_expires = expires, ul_last_transfer = None\<rparr> (ua_leases a)\<rparr>"

definition check_lease :: "nat \<Rightarrow> usb_owner \<Rightarrow> uuid option \<Rightarrow> ustring \<Rightarrow> usb_authority \<Rightarrow> usb_error + uuid" where
  "check_lease now owner lease_id key a =
     (case lease_id of
        None \<Rightarrow> Inl UsbNoLeaseId
      | Some i \<Rightarrow>
          (case hm_get (ua_leases a) i of
             None \<Rightarrow> Inl UsbUnknownLease
           | Some lease \<Rightarrow>
               if ul_owner lease \<noteq> owner \<or> ul_key lease \<noteq> key \<or> ul_expires lease \<le> now then Inl UsbLeaseMismatch
               else Inr i))"

definition begin_transfer ::
  "nat \<Rightarrow> usb_owner \<Rightarrow> uuid option \<Rightarrow> ustring \<Rightarrow> u64 \<Rightarrow> usb_authority \<Rightarrow> (usb_error + uuid) \<times> usb_authority" where
  "begin_transfer now owner lease_id key transfer a =
     (case check_lease now owner lease_id key a of
        Inl e \<Rightarrow> (Inl e, a)
      | Inr i \<Rightarrow>
          (case hm_get (ua_leases a) i of
             None \<Rightarrow> (Inl UsbUnknownLease, a)
           | Some lease \<Rightarrow>
               if (case ul_last_transfer lease of Some l \<Rightarrow> transfer \<le> l | None \<Rightarrow> False)
               then (Inl UsbStaleTransfer, a)
               else (Inr i, a\<lparr>ua_leases := hm_put i (lease\<lparr>ul_last_transfer := Some transfer\<rparr>) (ua_leases a)\<rparr>)))"

definition remove_lease :: "uuid \<Rightarrow> usb_authority \<Rightarrow> usb_authority" where
  "remove_lease lease_id a = a\<lparr>ua_leases := hm_del lease_id (ua_leases a)\<rparr>"

text \<open>The leases a predicate picks are removed and named.\<close>

definition take_where :: "(usb_lease \<Rightarrow> bool) \<Rightarrow> usb_authority \<Rightarrow> uuid list \<times> usb_authority" where
  "take_where p a =
     (let ids = map fst (filter (\<lambda>e. p (snd e)) (ua_leases a))
      in (ids, fold remove_lease ids a))"

definition revoke :: "uuid \<Rightarrow> ustring \<Rightarrow> usb_authority \<Rightarrow> uuid list \<times> usb_authority" where
  "revoke peer key a =
     take_where (\<lambda>l. uo_peer (ul_owner l) = peer \<and> ul_key l = key)
       (a\<lparr>ua_grants := hm_del (peer, key) (ua_grants a)\<rparr>)"

definition disconnect_owner :: "usb_owner \<Rightarrow> usb_authority \<Rightarrow> uuid list \<times> usb_authority" where
  "disconnect_owner owner a =
     (let (ids, a) = take_where (\<lambda>l. ul_owner l = owner) a
      in (ids, if \<exists>e\<in>set (ua_leases a). uo_peer (ul_owner (snd e)) = uo_peer owner then a
               else a\<lparr>ua_grants := hm_retain (\<lambda>k _. fst k \<noteq> uo_peer owner) (ua_grants a)\<rparr>))"

definition expire_leases :: "nat \<Rightarrow> usb_authority \<Rightarrow> uuid list \<times> usb_authority" where
  "expire_leases now = take_where (\<lambda>l. ul_expires l \<le> now)"

definition device_gone :: "ustring \<Rightarrow> usb_authority \<Rightarrow> uuid list \<times> usb_authority" where
  "device_gone key a =
     take_where (\<lambda>l. ul_key l = key) (a\<lparr>ua_grants := hm_retain (\<lambda>k _. snd k \<noteq> key) (ua_grants a)\<rparr>)"

section \<open>The host runtime\<close>

record usb_claim_request =
  cr_request_id :: u64
  cr_bus_id :: ustring
  cr_exclusive :: bool
  cr_configuration_value :: "u8 option"
  cr_interface_numbers :: "u8 list"

record usb_claim_response =
  cs_request_id :: u64
  cs_bus_id :: ustring
  cs_accepted :: bool
  cs_session_id :: "uuid option"
  cs_granted_interfaces :: "u8 list"
  cs_message :: "usb_error option"

record usb_host =
  uh_authority :: usb_authority
  uh_catalog :: "(ustring, usb_device_descriptor) hash_map"

text \<open>
  What reaches the native provider, and what the local user decides. A \<open>NativeReleased\<close> is a lease that
  ends with the call that frees its device; the host ignores the answer of that call except when the
  owner asked for the release, where a failing call leaves the lease as it was and is not shown.
\<close>

datatype usb_obs =
    Granted uuid ustring
  | Revoked uuid ustring
  | Disconnected usb_owner
  | Claimed usb_owner ustring uuid
  | NativeClaim usb_owner ustring usb_claim_request
  | NativeReleased uuid
  | Submitted usb_owner ustring uuid usb_transfer_payload

definition host_new :: usb_host where
  "host_new = \<lparr>uh_authority = authority_new, uh_catalog = []\<rparr>"

definition host_releases :: "uuid list \<times> usb_authority \<Rightarrow> usb_host \<Rightarrow> usb_obs list \<times> usb_host" where
  "host_releases r h = (map NativeReleased (fst r), h\<lparr>uh_authority := snd r\<rparr>)"

fun forget_devices :: "ustring list \<Rightarrow> usb_host \<Rightarrow> usb_obs list \<times> usb_host" where
  "forget_devices [] h = ([], h)"
| "forget_devices (key # keys) h =
     (let (os, h) = host_releases (device_gone key (uh_authority h)) h;
          (os', h) = forget_devices keys (h\<lparr>uh_catalog := hm_del key (uh_catalog h)\<rparr>)
      in (os @ os', h))"

fun list_devices ::
  "(ustring \<times> usb_device_descriptor) list \<Rightarrow> (ustring, usb_device_descriptor) hash_map
     \<Rightarrow> (ustring, usb_device_descriptor) hash_map" where
  "list_devices [] catalog = catalog"
| "list_devices ((fresh_key, device) # devices) catalog =
     list_devices devices
       (if device \<notin> set (map snd catalog) \<and> length catalog < 256 then hm_put fresh_key device catalog else catalog)"

text \<open>The devices the provider finds now, each with the key that is drawn when it is new.\<close>

definition enumerate_devices ::
  "usb_error + (ustring \<times> usb_device_descriptor) list \<Rightarrow> usb_host
     \<Rightarrow> usb_obs list \<times> (usb_error + usb_device_descriptor list) \<times> usb_host" where
  "enumerate_devices found h =
     (case found of
        Inl e \<Rightarrow> ([], Inl e, h)
      | Inr devices \<Rightarrow>
          (let removed = map fst (filter (\<lambda>e. snd e \<notin> set (map snd devices)) (uh_catalog h));
               (os, h) = forget_devices removed h;
               catalog = list_devices devices (uh_catalog h)
           in (os,
               Inr (map (\<lambda>(key, device). device\<lparr>ud_bus_id := key, ud_serial_number := None, ud_container_id := None\<rparr>)
                      catalog),
               h\<lparr>uh_catalog := catalog\<rparr>)))"

definition devices_for_peer ::
  "usb_error + (ustring \<times> usb_device_descriptor) list \<Rightarrow> nat \<Rightarrow> uuid \<Rightarrow> usb_host
     \<Rightarrow> usb_obs list \<times> (usb_error + usb_device_descriptor list) \<times> usb_host" where
  "devices_for_peer found now peer h =
     (case enumerate_devices found h of
        (os, r, h) \<Rightarrow>
          (os, (case r of
                  Inl e \<Rightarrow> Inl e
                | Inr devices \<Rightarrow> Inr (filter (\<lambda>d. visible now peer (ud_bus_id d) (uh_authority h)) devices)), h))"

text \<open>The profile a device must have to be exported at all.\<close>

definition check_profile :: "usb_device_descriptor \<Rightarrow> usb_error + unit" where
  "check_profile device =
     (case ud_configurations device of
        [] \<Rightarrow> Inl UsbNotClaimable
      | config # others \<Rightarrow>
          if others \<noteq> [] \<or> ud_active_configuration device \<noteq> Some (uc_configuration_value config) then Inl UsbOutsideProfile
          else case uc_interfaces config of
            [interface] \<Rightarrow>
              if ui_alternate_setting interface \<noteq> 0 \<or> ui_class_code interface \<noteq> 0xFF \<or>
                 ud_class_code device \<notin> {0, 0xFF} \<or> 0x0300 \<le> ud_usb_version_bcd device \<or>
                 (\<exists>e\<in>set (ui_endpoints interface). ue_transfer_kind e \<notin> {BulkTransfer, InterruptTransfer})
              then Inl UsbOutsideProfile else Inr ()
          | _ \<Rightarrow> Inl UsbOutsideProfile)"

definition authorize_device ::
  "(ustring \<Rightarrow> bool) \<Rightarrow> usb_error + (ustring \<times> usb_device_descriptor) list \<Rightarrow> nat \<Rightarrow> uuid \<Rightarrow> ustring \<Rightarrow> u32
     \<Rightarrow> usb_host \<Rightarrow> usb_obs list \<times> (usb_error + unit) \<times> usb_host" where
  "authorize_device is_uuid found now peer key seconds h =
     (case enumerate_devices found h of
        (os, Inl e, h) \<Rightarrow> (os, Inl e, h)
      | (os, Inr _, h) \<Rightarrow>
          (case hm_get (uh_catalog h) key of
             None \<Rightarrow> (os, Inl UsbUnknownDevice, h)
           | Some device \<Rightarrow>
               (case check_profile device of
                  Inl e \<Rightarrow> (os, Inl e, h)
                | Inr _ \<Rightarrow>
                    (case grant is_uuid now peer key seconds (uh_authority h) of
                       (Inl e, a) \<Rightarrow> (os, Inl e, h\<lparr>uh_authority := a\<rparr>)
                     | (Inr _, a) \<Rightarrow> (os @ [Granted peer key], Inr (), h\<lparr>uh_authority := a\<rparr>)))))"

definition revoke_device :: "uuid \<Rightarrow> ustring \<Rightarrow> usb_host \<Rightarrow> usb_obs list \<times> usb_host" where
  "revoke_device peer key h =
     (case host_releases (revoke peer key (uh_authority h)) h of (os, h) \<Rightarrow> (os @ [Revoked peer key], h))"

definition host_disconnect :: "usb_owner \<Rightarrow> usb_host \<Rightarrow> usb_obs list \<times> usb_host" where
  "host_disconnect owner h =
     (case host_releases (disconnect_owner owner (uh_authority h)) h of (os, h) \<Rightarrow> (os @ [Disconnected owner], h))"

definition host_expire :: "nat \<Rightarrow> usb_host \<Rightarrow> usb_obs list \<times> usb_host" where
  "host_expire now h = host_releases (expire_leases now (uh_authority h)) h"

text \<open>A claim; \<open>answer\<close> is what the provider says to the native request.\<close>

definition claim_refused :: "usb_claim_request \<Rightarrow> usb_error \<Rightarrow> usb_claim_response" where
  "claim_refused request e =
     \<lparr>cs_request_id = cr_request_id request, cs_bus_id = cr_bus_id request, cs_accepted = False,
      cs_session_id = None, cs_granted_interfaces = [], cs_message = Some e\<rparr>"

definition claim_device ::
  "nat \<Rightarrow> usb_owner \<Rightarrow> usb_claim_request \<Rightarrow> usb_claim_response \<Rightarrow> usb_host
     \<Rightarrow> usb_obs list \<times> usb_claim_response \<times> usb_host" where
  "claim_device now owner request answer h =
     (let (os, h) = host_expire now h; key = cr_bus_id request
      in case check_grant now owner key (uh_authority h) of
           Inl e \<Rightarrow> (os, claim_refused request e, h)
         | Inr expires \<Rightarrow>
             (case hm_get (uh_catalog h) key of
                None \<Rightarrow> (os, claim_refused request UsbUnknownDevice, h)
              | Some device \<Rightarrow>
                  if \<not> cr_exclusive request \<or>
                     (case cr_configuration_value request of
                        Some v \<Rightarrow> Some v \<noteq> ud_active_configuration device
                      | None \<Rightarrow> False)
                  then (os, claim_refused request UsbExclusiveRequired, h)
                  else
                    let os = os @ [NativeClaim owner key (request\<lparr>cr_bus_id := ud_bus_id device\<rparr>)];
                        response = answer\<lparr>cs_bus_id := key\<rparr>
                    in if \<not> cs_accepted response then (os, response, h)
                       else case cs_session_id response of
                         None \<Rightarrow> (os, claim_refused request UsbNoSession, h)
                       | Some i \<Rightarrow>
                           (os @ [Claimed owner key i], response,
                            h\<lparr>uh_authority := attach owner key i expires (uh_authority h)\<rparr>)))"

definition submit_transfer ::
  "u32 \<Rightarrow> nat \<Rightarrow> usb_owner \<Rightarrow> usb_transfer_payload \<Rightarrow> usb_error + usb_transfer_completion \<Rightarrow> usb_host
     \<Rightarrow> usb_obs list \<times> (usb_error + usb_transfer_completion) \<times> usb_host" where
  "submit_transfer limit now owner t answer h =
     (case begin_transfer now owner (ut_session_id t) (ut_bus_id t) (ut_transfer_id t) (uh_authority h) of
        (Inl e, a) \<Rightarrow> ([], Inl e, h\<lparr>uh_authority := a\<rparr>)
      | (Inr i, a) \<Rightarrow>
          (let h = h\<lparr>uh_authority := a\<rparr>
           in case hm_get (uh_catalog h) (ut_bus_id t) of
                None \<Rightarrow> ([], Inl UsbDeviceRemoved, h)
              | Some device \<Rightarrow>
                  (case validate_transfer t (ud_endpoints device) limit of
                     Inl e \<Rightarrow> ([], Inl e, h)
                   | Inr _ \<Rightarrow>
                       ([Submitted owner (ut_bus_id t) i (t\<lparr>ut_bus_id := ud_bus_id device\<rparr>)],
                        (case answer of
                           Inl e \<Rightarrow> Inl e
                         | Inr completion \<Rightarrow> Inr (completion\<lparr>uf_bus_id := ut_bus_id t\<rparr>)), h))))"

definition host_release ::
  "nat \<Rightarrow> usb_owner \<Rightarrow> uuid \<Rightarrow> ustring \<Rightarrow> usb_error + unit \<Rightarrow> usb_host
     \<Rightarrow> usb_obs list \<times> (usb_error + unit) \<times> usb_host" where
  "host_release now owner lease_id key answer h =
     (case check_lease now owner (Some lease_id) key (uh_authority h) of
        Inl e \<Rightarrow> ([], Inl e, h)
      | Inr _ \<Rightarrow>
          (case answer of
             Inl e \<Rightarrow> ([], Inl e, h)
           | Inr _ \<Rightarrow> ([NativeReleased lease_id], Inr (), h\<lparr>uh_authority := remove_lease lease_id (uh_authority h)\<rparr>)))"

definition reset_device :: "nat \<Rightarrow> usb_owner \<Rightarrow> uuid option \<Rightarrow> ustring \<Rightarrow> usb_host \<Rightarrow> usb_error + unit" where
  "reset_device now owner lease_id key h =
     (case check_lease now owner lease_id key (uh_authority h) of Inl e \<Rightarrow> Inl e | Inr _ \<Rightarrow> Inl UsbNoReset)"

definition cancel_usb_transfer :: "usb_error + unit" where
  "cancel_usb_transfer = Inl UsbNoCancel"

end
