(* ===== verification/UsbSpec.thy ===== *)
theory UsbSpec
  imports UsbAuthority
begin

text \<open>
  What the USB host promises against any peer: a transfer reaches a device only for the connection that
  holds its lease, under a grant of the local user, with a new number, and never after the lease ended.
\<close>

datatype usb_call =
    UsbEnumerate "usb_error + (ustring \<times> usb_device_descriptor) list"
  | UsbAuthorize "usb_error + (ustring \<times> usb_device_descriptor) list" nat uuid ustring u32
  | UsbRevoke uuid ustring
  | UsbDisconnect usb_owner
  | UsbExpire nat
  | UsbClaim nat usb_owner usb_claim_request usb_claim_response
  | UsbSubmit u32 nat usb_owner usb_transfer_payload "usb_error + usb_transfer_completion"
  | UsbRelease nat usb_owner uuid ustring "usb_error + unit"

definition usb_step :: "(ustring \<Rightarrow> bool) \<Rightarrow> usb_host \<Rightarrow> usb_call \<Rightarrow> usb_obs list \<times> usb_host" where
  "usb_step is_uuid h c =
     (case c of
        UsbEnumerate found \<Rightarrow> (case enumerate_devices found h of (os, _, h) \<Rightarrow> (os, h))
      | UsbAuthorize found now peer key seconds \<Rightarrow>
          (case authorize_device is_uuid found now peer key seconds h of (os, _, h) \<Rightarrow> (os, h))
      | UsbRevoke peer key \<Rightarrow> revoke_device peer key h
      | UsbDisconnect owner \<Rightarrow> host_disconnect owner h
      | UsbExpire now \<Rightarrow> host_expire now h
      | UsbClaim now owner request answer \<Rightarrow> (case claim_device now owner request answer h of (os, _, h) \<Rightarrow> (os, h))
      | UsbSubmit limit now owner t answer \<Rightarrow>
          (case submit_transfer limit now owner t answer h of (os, _, h) \<Rightarrow> (os, h))
      | UsbRelease now owner i key answer \<Rightarrow> (case host_release now owner i key answer h of (os, _, h) \<Rightarrow> (os, h)))"

section \<open>The abstract host\<close>

text \<open>The grants in force and, for each lease, its owner, its device and the last transfer number.\<close>

type_synonym usb_grants = "(uuid \<times> ustring) set"
type_synonym usb_holds = "uuid \<Rightarrow> (usb_owner \<times> ustring \<times> u64 option) option"

definition later_number :: "u64 option \<Rightarrow> u64 option \<Rightarrow> bool" where
  "later_number n m \<longleftrightarrow> (case n of None \<Rightarrow> True | Some a \<Rightarrow> (case m of None \<Rightarrow> False | Some b \<Rightarrow> a \<le> b))"

text \<open>The same leases, with numbers at least as high.\<close>

definition hold_le :: "(usb_owner \<times> ustring \<times> u64 option) option \<Rightarrow> (usb_owner \<times> ustring \<times> u64 option) option \<Rightarrow> bool" where
  "hold_le x y \<longleftrightarrow>
     (case x of
        None \<Rightarrow> y = None
      | Some (o', k, n) \<Rightarrow> (\<exists>m. y = Some (o', k, m) \<and> later_number n m))"

definition holds_le :: "usb_holds \<Rightarrow> usb_holds \<Rightarrow> bool" where
  "holds_le L M \<longleftrightarrow> (\<forall>i. hold_le (L i) (M i))"

definition leased :: "usb_holds \<Rightarrow> ustring \<Rightarrow> bool" where
  "leased L k \<longleftrightarrow> (\<exists>i o' n. L i = Some (o', k, n))"

inductive usb_spec :: "usb_grants \<Rightarrow> usb_holds \<Rightarrow> usb_obs list \<Rightarrow> usb_grants \<Rightarrow> usb_holds \<Rightarrow> bool" where
  spec_end: "G' \<subseteq> G \<Longrightarrow> holds_le L L' \<Longrightarrow> usb_spec G L [] G' L'"
| spec_grant: "usb_spec (insert (p, k) G) L os G' L' \<Longrightarrow> usb_spec G L (Granted p k # os) G' L'"
| spec_revoke: "(\<forall>i o' n. L i = Some (o', k, n) \<longrightarrow> uo_peer o' \<noteq> p) \<Longrightarrow> usb_spec (G - {(p, k)}) L os G' L' \<Longrightarrow>
    usb_spec G L (Revoked p k # os) G' L'"
| spec_disconnect: "(\<forall>i k n. L i \<noteq> Some (o', k, n)) \<Longrightarrow> usb_spec G L os G' L' \<Longrightarrow>
    usb_spec G L (Disconnected o' # os) G' L'"
| spec_native_claim: "(uo_peer o', k) \<in> G \<Longrightarrow> \<not> leased L k \<Longrightarrow> usb_spec G L os G' L' \<Longrightarrow>
    usb_spec G L (NativeClaim o' k r # os) G' L'"
| spec_claim: "(uo_peer o', k) \<in> G \<Longrightarrow> \<not> leased L k \<Longrightarrow> usb_spec G (L(i \<mapsto> (o', k, None))) os G' L' \<Longrightarrow>
    usb_spec G L (Claimed o' k i # os) G' L'"
| spec_release: "usb_spec G (L(i := None)) os G' L' \<Longrightarrow> usb_spec G L (NativeReleased i # os) G' L'"
| spec_submit: "L i = Some (o', k, n) \<Longrightarrow> (\<forall>m. n = Some m \<longrightarrow> m < ut_transfer_id t) \<Longrightarrow>
    usb_spec G (L(i \<mapsto> (o', k, Some (ut_transfer_id t)))) os G' L' \<Longrightarrow>
    usb_spec G L (Submitted o' k i t # os) G' L'"

lemma later_number_refl [simp]: "later_number n n"
  by (simp add: later_number_def split: option.split)

lemma later_number_trans: "later_number a b \<Longrightarrow> later_number b c \<Longrightarrow> later_number a c"
  by (auto simp: later_number_def split: option.splits)

lemma hold_le_refl [simp]: "hold_le x x"
  by (auto simp: hold_le_def split: option.split)

lemma hold_le_trans: "hold_le x y \<Longrightarrow> hold_le y z \<Longrightarrow> hold_le x z"
  by (auto simp: hold_le_def intro: later_number_trans split: option.splits)

lemma holds_le_refl [simp]: "holds_le L L"
  by (simp add: holds_le_def)

lemma holds_le_trans: "holds_le L M \<Longrightarrow> holds_le M N \<Longrightarrow> holds_le L N"
  using hold_le_trans unfolding holds_le_def by blast

lemma holds_le_upd: "holds_le L M \<Longrightarrow> holds_le (L(i := x)) (M(i := x))"
  by (simp add: holds_le_def)

lemma holds_le_Some: "holds_le L M \<Longrightarrow> L i = Some (o', k, n) \<Longrightarrow> \<exists>m. M i = Some (o', k, m) \<and> later_number n m"
  unfolding holds_le_def by (drule spec [of _ i]) (simp add: hold_le_def)

lemma holds_le_back: "holds_le L M \<Longrightarrow> M i = Some (o', k, m) \<Longrightarrow> \<exists>n. L i = Some (o', k, n) \<and> later_number n m"
  unfolding holds_le_def by (drule spec [of _ i]) (auto simp: hold_le_def split: option.splits)

lemma holds_le_leased: "holds_le L M \<Longrightarrow> leased M k = leased L k"
  unfolding leased_def by (meson holds_le_Some holds_le_back)

text \<open>More grants and lower numbers allow at least as much.\<close>

lemma usb_spec_mono:
  "usb_spec G L os G' L' \<Longrightarrow> G \<subseteq> G1 \<Longrightarrow> holds_le L1 L \<Longrightarrow> usb_spec G1 L1 os G' L'"
proof (induction arbitrary: G1 L1 rule: usb_spec.induct)
  case (spec_end G' G L L')
  then show ?case using holds_le_trans usb_spec.spec_end by blast
next
  case (spec_grant p k G L os G' L')
  then show ?case by (intro usb_spec.spec_grant) (auto intro: spec_grant.IH)
next
  case (spec_revoke L k p G os G' L')
  have "\<forall>i o' n. L1 i = Some (o', k, n) \<longrightarrow> uo_peer o' \<noteq> p"
    using spec_revoke.hyps(1) holds_le_Some [OF spec_revoke.prems(2)] by blast
  then show ?case using spec_revoke by (intro usb_spec.spec_revoke) (auto intro: spec_revoke.IH)
next
  case (spec_disconnect L o' G os G' L')
  have "\<forall>i k n. L1 i \<noteq> Some (o', k, n)"
    using spec_disconnect.hyps(1) holds_le_Some [OF spec_disconnect.prems(2)] by blast
  then show ?case using spec_disconnect by (intro usb_spec.spec_disconnect) auto
next
  case (spec_native_claim o' k G L os G' L' r)
  have "\<not> leased L1 k" using spec_native_claim.hyps(2) holds_le_leased [OF spec_native_claim.prems(2)] by simp
  moreover have "(uo_peer o', k) \<in> G1" using spec_native_claim.hyps(1) spec_native_claim.prems(1) by blast
  ultimately show ?case using spec_native_claim.IH spec_native_claim.prems by (intro usb_spec.spec_native_claim)
next
  case (spec_claim o' k G L i os G' L')
  have "\<not> leased L1 k" using spec_claim.hyps(2) holds_le_leased [OF spec_claim.prems(2)] by simp
  moreover have "(uo_peer o', k) \<in> G1" using spec_claim.hyps(1) spec_claim.prems(1) by blast
  moreover have "usb_spec G1 (L1(i \<mapsto> (o', k, None))) os G' L'"
    by (rule spec_claim.IH [OF spec_claim.prems(1) holds_le_upd [OF spec_claim.prems(2)]])
  ultimately show ?case by (intro usb_spec.spec_claim)
next
  case (spec_release G L i os G' L')
  show ?case
    by (rule usb_spec.spec_release [OF spec_release.IH [OF spec_release.prems(1) holds_le_upd [OF spec_release.prems(2)]]])
next
  case (spec_submit L i o' k n t G os G' L')
  obtain m where m: "L1 i = Some (o', k, m)" "later_number m n"
    using holds_le_back [OF spec_submit.prems(2) spec_submit.hyps(1)] by blast
  then have "\<forall>x. m = Some x \<longrightarrow> x < ut_transfer_id t"
    using spec_submit.hyps(2) by (auto simp: later_number_def split: option.splits)
  from usb_spec.spec_submit [OF m(1) this spec_submit.IH [OF spec_submit.prems(1) holds_le_upd [OF spec_submit.prems(2)]]]
  show ?case .
qed

lemma usb_spec_append:
  "usb_spec G L os G1 L1 \<Longrightarrow> usb_spec G1 L1 os' G2 L2 \<Longrightarrow> usb_spec G L (os @ os') G2 L2"
proof (induction rule: usb_spec.induct)
  case (spec_end G' G L L')
  then show ?case using usb_spec_mono [of G' L' os' G2 L2 G L] by simp
next
  case (spec_revoke L k p G os G' L')
  then show ?case using usb_spec.spec_revoke [of L k p G "os @ os'" G2 L2] by simp
next
  case (spec_disconnect L o' G os G' L')
  then show ?case using usb_spec.spec_disconnect [of L o' G "os @ os'" G2 L2] by simp
qed (simp_all add: usb_spec.intros)

lemma usb_spec_refl: "usb_spec G L [] G L"
  by (simp add: spec_end)

section \<open>What the authority does to its leases\<close>

definition grants_of :: "usb_authority \<Rightarrow> usb_grants" where
  "grants_of a = {k. hm_get (ua_grants a) k \<noteq> None}"

definition holds_of :: "usb_authority \<Rightarrow> usb_holds" where
  "holds_of a i = map_option (\<lambda>l. (ul_owner l, ul_key l, ul_last_transfer l)) (hm_get (ua_leases a) i)"

definition authority_ok :: "usb_authority \<Rightarrow> bool" where
  "authority_ok a \<longleftrightarrow>
     hm_wf (ua_grants a) \<and> hm_wf (ua_leases a) \<and> length (ua_grants a) \<le> 256 \<and> length (ua_leases a) \<le> 32 \<and>
     distinct (map (ul_key \<circ> snd) (ua_leases a))"

text \<open>A step on the authority: what it shows is allowed, and it keeps the invariant.\<close>

definition usb_rel :: "usb_authority \<Rightarrow> usb_obs list \<Rightarrow> usb_authority \<Rightarrow> bool" where
  "usb_rel a os a' \<longleftrightarrow>
     authority_ok a' \<and> usb_spec (grants_of a) (holds_of a) os (grants_of a') (holds_of a')"

lemma usb_rel_refl: "authority_ok a \<Longrightarrow> usb_rel a [] a"
  by (simp add: usb_rel_def usb_spec_refl)

lemma usb_rel_comp: "usb_rel a os a1 \<Longrightarrow> usb_rel a1 os' a2 \<Longrightarrow> usb_rel a (os @ os') a2"
  unfolding usb_rel_def using usb_spec_append by blast

lemma remove_leases:
  "ua_leases (fold remove_lease ids a) = filter (\<lambda>e. fst e \<notin> set ids) (ua_leases a) \<and>
   ua_grants (fold remove_lease ids a) = ua_grants a"
  by (induction ids arbitrary: a) (auto simp: remove_lease_def hm_del_def intro: filter_cong)

lemma picked_keys:
  assumes "hm_wf m"
  shows "filter (\<lambda>e. fst e \<notin> set (map fst (filter (\<lambda>e. p (snd e)) m))) m = filter (\<lambda>e. \<not> p (snd e)) m"
proof (rule filter_cong [OF refl])
  fix e assume e: "e \<in> set m"
  have "e = e'" if "e' \<in> set m" "fst e = fst e'" for e'
    using assms e that by (meson distinct_map hm_wf_def inj_on_def)
  then show "(fst e \<notin> set (map fst (filter (\<lambda>e. p (snd e)) m))) = (\<not> p (snd e))" using e by force
qed

lemma take_where_fields:
  assumes "hm_wf (ua_leases a)" and "take_where p a = (ids, a')"
  shows "ids = map fst (filter (\<lambda>e. p (snd e)) (ua_leases a))"
    and "ua_leases a' = filter (\<lambda>e. \<not> p (snd e)) (ua_leases a)"
    and "ua_grants a' = ua_grants a"
proof -
  have ids: "map fst (filter (\<lambda>e. p (snd e)) (ua_leases a)) = ids" and a': "fold remove_lease ids a = a'"
    using assms(2) unfolding take_where_def Let_def by auto
  show "ids = map fst (filter (\<lambda>e. p (snd e)) (ua_leases a))" using ids by (rule sym)
  show "ua_leases a' = filter (\<lambda>e. \<not> p (snd e)) (ua_leases a)"
    using remove_leases [of ids a] picked_keys [OF assms(1), of p] unfolding a' ids by simp
  show "ua_grants a' = ua_grants a" using remove_leases [of ids a] unfolding a' by blast
qed

lemma fewer_leases:
  assumes "authority_ok a" and "ua_leases a' = filter q (ua_leases a)" and "ua_grants a' = filter r (ua_grants a)"
  shows "authority_ok a'"
proof -
  have "distinct (map (ul_key \<circ> snd) (filter q (ua_leases a)))"
    using assms(1) unfolding authority_ok_def by (intro distinct_map_filter) blast
  moreover have "length (filter q (ua_leases a)) \<le> 32" "length (filter r (ua_grants a)) \<le> 256"
    using assms(1) length_filter_le order_trans unfolding authority_ok_def by blast+
  ultimately show ?thesis
    using assms by (simp add: authority_ok_def hm_wf_def distinct_map_filter_fst)
qed

lemma spec_releases:
  "G' \<subseteq> G \<Longrightarrow> usb_spec G L (map NativeReleased ids) G' (\<lambda>i. if i \<in> set ids then None else L i)"
proof (induction ids arbitrary: L)
  case Nil
  then show ?case by (simp add: spec_end)
next
  case (Cons i ids)
  have "(\<lambda>j. if j \<in> set (i # ids) then None else L j) = (\<lambda>j. if j \<in> set ids then None else (L(i := None)) j)" by auto
  moreover have "usb_spec G L (NativeReleased i # map NativeReleased ids) G'
      (\<lambda>j. if j \<in> set ids then None else (L(i := None)) j)"
    by (rule spec_release [OF Cons.IH [OF Cons.prems, of "L(i := None)"]])
  ultimately show ?case by (simp only: list.map)
qed

text \<open>Leases that are taken out, while grants may go too.\<close>

lemma take_where_rel:
  assumes "authority_ok a" and "ua_leases a1 = ua_leases a" and "ua_grants a1 = filter r (ua_grants a)"
    and "take_where p a1 = (ids, a')"
  shows "usb_rel a (map NativeReleased ids) a'"
    and "ua_leases a' = filter (\<lambda>e. \<not> p (snd e)) (ua_leases a)" and "ua_grants a' = ua_grants a1"
proof -
  have wfa: "hm_wf (ua_leases a)" using assms(1) by (simp add: authority_ok_def)
  have "hm_wf (ua_leases a1)" using wfa assms(2) by simp
  note fields = take_where_fields [OF this assms(4)]
  have ids: "ids = map fst (filter (\<lambda>e. p (snd e)) (ua_leases a))" using fields(1) assms(2) by simp
  show leases: "ua_leases a' = filter (\<lambda>e. \<not> p (snd e)) (ua_leases a)" using fields(2) assms(2) by simp
  show grants: "ua_grants a' = ua_grants a1" by (rule fields(3))
  have "holds_of a' i = (if i \<in> set ids then None else holds_of a i)" for i
  proof (cases "hm_get (ua_leases a) i")
    case None
    then have "i \<notin> fst ` set (ua_leases a)" by (simp add: hm_get_def map_of_eq_None_iff)
    then have "hm_get (ua_leases a') i = None" by (auto simp: leases hm_get_def map_of_eq_None_iff)
    then show ?thesis using None by (simp add: holds_of_def)
  next
    case (Some l)
    have "hm_get (ua_leases a') i = (if p l then None else Some l)"
      using hm_get_retain [OF wfa, of "\<lambda>_ l. \<not> p l" i] Some by (simp add: leases hm_retain_def)
    moreover have "i \<in> set ids \<longleftrightarrow> p l"
    proof -
      have "(i, l) \<in> set (ua_leases a)" using Some hm.get_entries [OF wfa] by simp
      moreover have "l' = l" if "(i, l') \<in> set (ua_leases a)" for l'
        using Some hm.get_entries [OF wfa, of i l'] that by simp
      moreover have "i \<in> set ids \<longleftrightarrow> (\<exists>l'. (i, l') \<in> set (ua_leases a) \<and> p l')" by (auto simp: ids image_iff)
      ultimately show ?thesis by blast
    qed
    ultimately show ?thesis using Some by (simp add: holds_of_def)
  qed
  then have holds: "holds_of a' = (\<lambda>i. if i \<in> set ids then None else holds_of a i)" by (rule ext)
  have "grants_of a' \<subseteq> grants_of a"
    by (auto simp: grants_of_def grants assms(3) hm_get_def map_of_eq_None_iff)
  then have "usb_spec (grants_of a) (holds_of a) (map NativeReleased ids) (grants_of a') (holds_of a')"
    unfolding holds by (rule spec_releases)
  moreover have "authority_ok a'" by (rule fewer_leases [OF assms(1) leases grants [unfolded assms(3)]])
  ultimately show "usb_rel a (map NativeReleased ids) a'" unfolding usb_rel_def by (rule conjI [rotated])
qed

lemma fewer_grants_rel:
  assumes "authority_ok a" and "ua_leases a' = ua_leases a" and "ua_grants a' = filter r (ua_grants a)"
  shows "usb_rel a [] a'"
proof -
  have "authority_ok a'"
    by (rule fewer_leases [OF assms(1) _ assms(3), of "\<lambda>_. True"]) (simp add: assms(2))
  moreover have "grants_of a' \<subseteq> grants_of a"
    by (auto simp: grants_of_def assms(3) hm_get_def map_of_eq_None_iff)
  moreover have "holds_of a' = holds_of a" by (rule ext) (simp add: holds_of_def assms(2))
  ultimately show ?thesis by (simp add: usb_rel_def spec_end)
qed

lemma held_lease: "holds_of a i = Some (o', k, n) \<Longrightarrow>
    \<exists>l. (i, l) \<in> set (ua_leases a) \<and> ul_owner l = o' \<and> ul_key l = k \<and> ul_last_transfer l = n"
  by (auto simp: holds_of_def hm_get_def dest: map_of_SomeD)

lemma leased_iff: "hm_wf (ua_leases a) \<Longrightarrow> leased (holds_of a) k \<longleftrightarrow> (\<exists>e\<in>set (ua_leases a). ul_key (snd e) = k)"
  unfolding leased_def
proof
  assume "\<exists>i o' n. holds_of a i = Some (o', k, n)"
  then obtain i o' n where "holds_of a i = Some (o', k, n)" by blast
  from held_lease [OF this] obtain l where l: "(i, l) \<in> set (ua_leases a)" "ul_key l = k" by blast
  show "\<exists>e\<in>set (ua_leases a). ul_key (snd e) = k" by (rule bexI [OF _ l(1)]) (simp add: l(2))
next
  assume wf: "hm_wf (ua_leases a)" and "\<exists>e\<in>set (ua_leases a). ul_key (snd e) = k"
  then obtain i l where "hm_get (ua_leases a) i = Some l" "ul_key l = k" using hm.get_entries [OF wf] by fastforce
  then show "\<exists>i o' n. holds_of a i = Some (o', k, n)" unfolding holds_of_def by fastforce
qed

text \<open>Every operation of the table.\<close>

lemma revoke_rel:
  assumes "authority_ok a" and "revoke peer key a = (ids, a')"
  shows "usb_rel a (map NativeReleased ids @ [Revoked peer key]) a'"
proof -
  note taken = take_where_rel [OF assms(1) _ _ assms(2) [unfolded revoke_def], of "\<lambda>e. fst e \<noteq> (peer, key)", simplified]
  have "(peer, key) \<notin> grants_of a'"
    using taken(3) by (auto simp: grants_of_def hm_get_def hm_del_def map_of_eq_None_iff)
  moreover have "uo_peer o' \<noteq> peer" if "holds_of a' i = Some (o', key, n)" for i o' n
    using held_lease [OF that] taken(2) by (auto simp: hm_del_def)
  ultimately have "usb_spec (grants_of a') (holds_of a') [Revoked peer key] (grants_of a') (holds_of a')"
    by (intro spec_revoke spec_end) auto
  moreover have "usb_rel a (map NativeReleased ids) a'" using taken(1) by (simp add: hm_del_def)
  ultimately show ?thesis unfolding usb_rel_def using usb_spec_append by blast
qed

lemma expire_rel:
  assumes "authority_ok a" and "expire_leases now a = (ids, a')"
  shows "usb_rel a (map NativeReleased ids) a'"
  by (rule take_where_rel(1) [OF assms(1) refl _ assms(2) [unfolded expire_leases_def], of "\<lambda>_. True"]) simp

lemma device_gone_rel:
  assumes "authority_ok a" and "device_gone key a = (ids, a')"
  shows "usb_rel a (map NativeReleased ids) a'"
  by (rule take_where_rel(1) [OF assms(1) _ _ assms(2) [unfolded device_gone_def]]) (simp_all add: hm_retain_def)

lemma disconnect_rel:
  assumes "authority_ok a" and "disconnect_owner owner a = (ids, a')"
  shows "usb_rel a (map NativeReleased ids @ [Disconnected owner]) a'"
proof -
  obtain a1 where taken: "take_where (\<lambda>l. ul_owner l = owner) a = (ids, a1)"
    and a': "a' = a1 \<or> a' = a1\<lparr>ua_grants := hm_retain (\<lambda>k _. fst k \<noteq> uo_peer owner) (ua_grants a1)\<rparr>"
    using assms(2) by (auto simp: disconnect_owner_def Let_def split: prod.splits if_splits)
  have rel: "usb_rel a (map NativeReleased ids) a1" and leases: "ua_leases a1 = filter (\<lambda>e. ul_owner (snd e) \<noteq> owner) (ua_leases a)"
    by (rule take_where_rel(1,2) [OF assms(1) refl _ taken, of "\<lambda>_. True"], simp)+
  then have ok: "authority_ok a1" by (simp add: usb_rel_def)
  have "o' \<noteq> owner" if "holds_of a1 i = Some (o', k, n)" for i o' k n
    using held_lease [OF that] leases by auto
  then have "usb_spec (grants_of a1) (holds_of a1) [Disconnected owner] (grants_of a1) (holds_of a1)"
    by (intro spec_disconnect spec_end) auto
  then have "usb_rel a (map NativeReleased ids @ [Disconnected owner]) a1"
    using rel unfolding usb_rel_def using usb_spec_append by blast
  moreover have "usb_rel a1 [] a'"
    using a' usb_rel_refl [OF ok] fewer_grants_rel [OF ok] by (auto simp: hm_retain_def)
  ultimately show ?thesis using usb_rel_comp by fastforce
qed

lemma grant_rel:
  assumes "authority_ok a" and "grant is_uuid now peer key seconds a = (r, a')"
  shows "usb_rel a (case r of Inl _ \<Rightarrow> [] | Inr _ \<Rightarrow> [Granted peer key]) a'"
proof -
  let ?gs = "hm_retain (\<lambda>_ expiry. now < expiry) (ua_grants a)" let ?a = "a\<lparr>ua_grants := ?gs\<rparr>"
  have pruned: "usb_rel a [] ?a" by (rule fewer_grants_rel [OF assms(1)]) (simp_all add: hm_retain_def)
  then have ok: "authority_ok ?a" by (simp add: usb_rel_def)
  consider "r = Inl UsbBadGrant" "a' = a" | "r = Inl UsbGrantLimit" "a' = ?a"
    | "r = Inr ()" "length ?gs < 256" "a' = ?a\<lparr>ua_grants := hm_put (peer, key) (now + seconds * 1000) ?gs\<rparr>"
  proof -
    have "r = Inl UsbBadGrant \<and> a' = a" if "128 < utf8_len key \<or> \<not> is_uuid key \<or> \<not> (1 \<le> seconds \<and> seconds \<le> 3600)"
      using assms(2) that unfolding grant_def by (simp only: if_True prod.inject)
    moreover have "if 256 \<le> length ?gs then r = Inl UsbGrantLimit \<and> a' = ?a
        else r = Inr () \<and> a' = ?a\<lparr>ua_grants := hm_put (peer, key) (now + seconds * 1000) ?gs\<rparr>"
      if "\<not> (128 < utf8_len key \<or> \<not> is_uuid key \<or> \<not> (1 \<le> seconds \<and> seconds \<le> 3600))"
      using assms(2) unfolding grant_def Let_def if_not_P [OF that] by (simp split: if_splits)
    ultimately show thesis using that by (meson not_le)
  qed
  then show ?thesis
  proof cases
    case 1
    then show ?thesis using usb_rel_refl [OF assms(1)] by simp
  next
    case 2
    then show ?thesis using pruned by simp
  next
    case 3
    have wf: "hm_wf ?gs" using ok by (simp add: authority_ok_def)
    have "authority_ok a'"
      using ok 3(2) hm.length_put [OF wf, of "(peer, key)" "now + seconds * 1000"]
      by (simp add: 3(3) authority_ok_def hm.wf_put)
    moreover have "grants_of a' \<subseteq> insert (peer, key) (grants_of ?a)"
      using wf by (auto simp: 3(3) grants_of_def hm.get_put split: if_splits)
    moreover have "holds_of a' = holds_of ?a" by (rule ext) (simp add: 3(3) holds_of_def)
    ultimately have "usb_rel ?a [Granted peer key] a'" by (simp add: usb_rel_def spec_grant spec_end)
    then show ?thesis using usb_rel_comp [OF pruned] 3(1) by simp
  qed
qed

lemma check_grant_Inr:
  assumes "check_grant now owner key a = Inr expires" and "authority_ok a"
  shows "(uo_peer owner, key) \<in> grants_of a" and "\<not> leased (holds_of a) key" and "length (ua_leases a) < 32"
  using assms by (auto simp: check_grant_def grants_of_def authority_ok_def leased_iff split: option.splits if_splits)

lemma native_claim_rel:
  assumes "check_grant now owner key a = Inr expires" and "authority_ok a"
  shows "usb_rel a [NativeClaim owner key r] a"
  using check_grant_Inr [OF assms] assms(2) by (simp add: usb_rel_def spec_native_claim usb_spec_refl)

lemma attach_rel:
  assumes "check_grant now owner key a = Inr expires" and "authority_ok a"
  shows "usb_rel a [Claimed owner key i] (attach owner key i e a)"
proof -
  note held = check_grant_Inr [OF assms]
  have wf: "hm_wf (ua_leases a)" using assms(2) by (simp add: authority_ok_def)
  have "holds_of (attach owner key i e a) = (holds_of a)(i \<mapsto> (owner, key, None))"
    by (rule ext) (simp add: attach_def holds_of_def hm.get_put [OF wf])
  moreover have "grants_of (attach owner key i e a) = grants_of a" by (simp add: attach_def grants_of_def)
  moreover have "authority_ok (attach owner key i e a)"
  proof -
    have "key \<notin> (ul_key \<circ> snd) ` set (ua_leases a)" using held(2) leased_iff [OF wf] by auto
    then have "key \<notin> (ul_key \<circ> snd) ` set (hm_del i (ua_leases a))" by (auto simp: hm_del_def)
    moreover have "distinct (map (ul_key \<circ> snd) (hm_del i (ua_leases a)))"
      using assms(2) by (simp add: authority_ok_def hm_del_def distinct_map_filter)
    ultimately have "distinct (map (ul_key \<circ> snd) (ua_leases (attach owner key i e a)))"
      by (simp add: attach_def hm_put_def)
    moreover have "length (ua_leases (attach owner key i e a)) \<le> 32"
      using held(3) hm.length_put [OF wf, of i] by (simp add: attach_def)
    ultimately show ?thesis using assms(2) by (simp add: authority_ok_def) (simp add: attach_def hm.wf_put)
  qed
  ultimately show ?thesis using held(1,2) by (simp add: usb_rel_def spec_claim usb_spec_refl)
qed

lemma begin_rel:
  assumes "begin_transfer now owner lid key n a = (Inr i, a')" and "authority_ok a"
  shows "usb_rel a [] a'" and "ut_transfer_id t = n \<Longrightarrow> usb_rel a [Submitted owner key i t] a'"
proof -
  obtain l where l: "hm_get (ua_leases a) i = Some l" "ul_owner l = owner" "ul_key l = key"
      "\<forall>m. ul_last_transfer l = Some m \<longrightarrow> m < n"
    and a': "a' = a\<lparr>ua_leases := hm_put i (l\<lparr>ul_last_transfer := Some n\<rparr>) (ua_leases a)\<rparr>"
    using assms(1) by (fastforce simp: begin_transfer_def check_lease_def split: option.splits if_splits sum.splits)
  have wf: "hm_wf (ua_leases a)" using assms(2) by (simp add: authority_ok_def)
  have held: "holds_of a i = Some (owner, key, ul_last_transfer l)" by (simp add: holds_of_def l(1-3))
  have holds: "holds_of a' = (holds_of a)(i \<mapsto> (owner, key, Some n))"
    by (rule ext) (simp add: a' holds_of_def hm.get_put [OF wf] l(2,3))
  have grants: "grants_of a' = grants_of a" by (simp add: a' grants_of_def)
  have in_leases: "(i, l) \<in> set (ua_leases a)" using l(1) hm.get_entries [OF wf] by simp
  have ok: "authority_ok a'"
  proof -
    have "key \<notin> (ul_key \<circ> snd) ` set (hm_del i (ua_leases a))"
    proof
      assume "key \<in> (ul_key \<circ> snd) ` set (hm_del i (ua_leases a))"
      then obtain e where "e \<in> set (ua_leases a)" "fst e \<noteq> i" "ul_key (snd e) = key" by (auto simp: hm_del_def)
      moreover have "inj_on (ul_key \<circ> snd) (set (ua_leases a))"
        using assms(2) by (simp add: authority_ok_def distinct_map)
      ultimately show False using in_leases l(3) by (metis comp_apply fst_conv inj_onD snd_conv)
    qed
    moreover have "distinct (map (ul_key \<circ> snd) (hm_del i (ua_leases a)))"
      using assms(2) by (simp add: authority_ok_def hm_del_def distinct_map_filter)
    ultimately have "distinct (map (ul_key \<circ> snd) (ua_leases a'))" by (simp add: a' hm_put_def l(3))
    moreover have "length (ua_leases a') = length (ua_leases a)"
      using hm.length_put [OF wf, of i] l(1) by (simp add: a')
    ultimately show ?thesis using assms(2) by (simp add: authority_ok_def) (simp add: a' hm.wf_put)
  qed
  have "holds_le (holds_of a) (holds_of a')"
    using held l(4) by (auto simp: holds_le_def holds hold_le_def later_number_def split: option.split)
  then show "usb_rel a [] a'" using ok by (simp add: usb_rel_def grants spec_end)
  show "usb_rel a [Submitted owner key i t] a'" if "ut_transfer_id t = n"
    using spec_submit [of "holds_of a" i owner key "ul_last_transfer l" t "grants_of a" "[]" "grants_of a" "holds_of a'"]
      held l(4) ok that
    by (simp add: usb_rel_def grants holds usb_spec_refl)
qed

lemma remove_rel:
  assumes "authority_ok a"
  shows "usb_rel a [NativeReleased i] (remove_lease i a)"
proof -
  have wf: "hm_wf (ua_leases a)" using assms by (simp add: authority_ok_def)
  have "holds_of (remove_lease i a) = (holds_of a)(i := None)"
    by (rule ext) (simp add: holds_of_def remove_lease_def hm.get_del [OF wf])
  moreover have "authority_ok (remove_lease i a)"
    by (rule fewer_leases [OF assms, of _ "\<lambda>e. fst e \<noteq> i" "\<lambda>_. True"]) (simp_all add: remove_lease_def hm_del_def)
  ultimately show ?thesis by (simp add: usb_rel_def grants_of_def remove_lease_def spec_release usb_spec_refl)
qed

section \<open>The host\<close>

definition catalog_ok :: "usb_host \<Rightarrow> bool" where
  "catalog_ok h \<longleftrightarrow> hm_wf (uh_catalog h) \<and> length (uh_catalog h) \<le> 256"

definition host_ok :: "usb_host \<Rightarrow> bool" where
  "host_ok h \<longleftrightarrow> authority_ok (uh_authority h) \<and> catalog_ok h"

definition host_rel :: "usb_host \<Rightarrow> usb_obs list \<Rightarrow> usb_host \<Rightarrow> bool" where
  "host_rel h os h' \<longleftrightarrow>
     usb_spec (grants_of (uh_authority h)) (holds_of (uh_authority h)) os
       (grants_of (uh_authority h')) (holds_of (uh_authority h'))"

definition good_step :: "usb_host \<Rightarrow> usb_obs list \<Rightarrow> usb_host \<Rightarrow> bool" where
  "good_step h os h' \<longleftrightarrow> (host_ok h \<longrightarrow> host_ok h' \<and> host_rel h os h')"

lemma host_rel_comp: "host_rel h os h1 \<Longrightarrow> host_rel h1 os' h2 \<Longrightarrow> host_rel h (os @ os') h2"
  unfolding host_rel_def by (rule usb_spec_append)

lemma good_refl [simp]: "good_step h [] h"
  by (simp add: good_step_def host_rel_def usb_spec_refl)

lemma good_comp: "good_step h os h1 \<Longrightarrow> good_step h1 os' h2 \<Longrightarrow> good_step h (os @ os') h2"
  unfolding good_step_def using host_rel_comp by blast

lemma good_authority:
  assumes "authority_ok (uh_authority h) \<Longrightarrow> usb_rel (uh_authority h) os a"
  shows "good_step h os (h\<lparr>uh_authority := a\<rparr>)"
  using assms by (auto simp: good_step_def host_ok_def catalog_ok_def host_rel_def usb_rel_def)

lemma good_catalog:
  "(catalog_ok h \<Longrightarrow> hm_wf c \<and> length c \<le> 256) \<Longrightarrow> good_step h [] (h\<lparr>uh_catalog := c\<rparr>)"
  by (simp add: good_step_def host_ok_def catalog_ok_def host_rel_def usb_spec_refl)

lemma good_releases:
  assumes "host_releases r h = (os, h')" and "authority_ok (uh_authority h) \<Longrightarrow> usb_rel (uh_authority h) (map NativeReleased (fst r)) (snd r)"
  shows "good_step h os h'"
  using assms(1) good_authority [OF assms(2)] by (auto simp: host_releases_def)

lemma good_forget: "forget_devices keys h = (os, h') \<Longrightarrow> good_step h os h'"
proof (induction keys arbitrary: h os h')
  case (Cons key keys)
  obtain os1 h1 where h1: "host_releases (device_gone key (uh_authority h)) h = (os1, h1)" by fastforce
  obtain os2 h2 where h2: "forget_devices keys (h1\<lparr>uh_catalog := hm_del key (uh_catalog h1)\<rparr>) = (os2, h2)" by fastforce
  have "good_step h os1 h1"
    using good_releases [OF h1] device_gone_rel [OF _ prod.collapse [symmetric]] by blast
  moreover have "good_step h1 [] (h1\<lparr>uh_catalog := hm_del key (uh_catalog h1)\<rparr>)"
    by (rule good_catalog)
      (simp add: catalog_ok_def hm.wf_del, simp add: hm_del_def, meson length_filter_le order_trans)
  ultimately have "good_step h (os1 @ [] @ os2) h2" using Cons.IH [OF h2] good_comp by blast
  then show ?case using Cons.prems h1 h2 by simp
qed simp

lemma list_devices_ok:
  "hm_wf c \<Longrightarrow> length c \<le> 256 \<Longrightarrow> hm_wf (list_devices ds c) \<and> length (list_devices ds c) \<le> 256"
proof (induction ds c rule: list_devices.induct)
  case (2 key device devices catalog)
  then show ?case using hm.length_put [OF 2(2), of key device] by (simp add: hm.wf_put)
qed simp

lemma good_enumerate:
  assumes "enumerate_devices found h = (os, r, h')"
  shows "good_step h os h'"
proof (cases found)
  case (Inl e)
  then show ?thesis using assms by (auto simp: enumerate_devices_def)
next
  case (Inr devices)
  let ?removed = "map fst (filter (\<lambda>e. snd e \<notin> set (map snd devices)) (uh_catalog h))"
  obtain os1 h1 where h1: "forget_devices ?removed h = (os1, h1)" by fastforce
  have h': "os = os1" "h' = h1\<lparr>uh_catalog := list_devices devices (uh_catalog h1)\<rparr>"
    using assms unfolding enumerate_devices_def Inr sum.case Let_def h1 by simp_all
  have "good_step h1 [] h'"
    unfolding h' by (rule good_catalog) (simp add: catalog_ok_def list_devices_ok)
  then have "good_step h (os1 @ []) h'" using good_forget [OF h1] good_comp by blast
  then show ?thesis by (simp add: h')
qed

lemma good_authorize:
  assumes "authorize_device is_uuid found now peer key seconds h = (os, r, h')"
  shows "good_step h os h'"
proof -
  obtain os1 r1 h1 where h1: "enumerate_devices found h = (os1, r1, h1)" by (metis prod_cases3)
  note listed = good_enumerate [OF h1]
  obtain r2 a where g: "grant is_uuid now peer key seconds (uh_authority h1) = (r2, a)" by fastforce
  consider "os = os1" "h' = h1" | "os = os1 @ (case r2 of Inl _ \<Rightarrow> [] | Inr _ \<Rightarrow> [Granted peer key])" "h' = h1\<lparr>uh_authority := a\<rparr>"
    using assms by (auto simp: authorize_device_def h1 g split: sum.splits option.splits)
  then show ?thesis
  proof cases
    case 1
    then show ?thesis using listed by simp
  next
    case 2
    have "good_step h1 (case r2 of Inl _ \<Rightarrow> [] | Inr _ \<Rightarrow> [Granted peer key]) h'"
      unfolding 2 using good_authority grant_rel [OF _ g] by blast
    then show ?thesis unfolding 2(1) by (rule good_comp [OF listed])
  qed
qed

lemma good_revoke: "revoke_device peer key h = (os, h') \<Longrightarrow> good_step h os h'"
  using good_authority [of h _ "snd (revoke peer key (uh_authority h))"]
    revoke_rel [OF _ prod.collapse [symmetric], of "uh_authority h" peer key]
  by (auto simp: revoke_device_def host_releases_def)

lemma good_disconnect: "host_disconnect owner h = (os, h') \<Longrightarrow> good_step h os h'"
  using good_authority [of h _ "snd (disconnect_owner owner (uh_authority h))"]
    disconnect_rel [OF _ prod.collapse [symmetric], of "uh_authority h" owner]
  by (auto simp: host_disconnect_def host_releases_def)

lemma good_expire: "host_expire now h = (os, h') \<Longrightarrow> good_step h os h'"
  using good_releases expire_rel [OF _ prod.collapse [symmetric]] unfolding host_expire_def by blast

lemma good_claim:
  assumes "claim_device now owner request answer h = (os, r, h')"
  shows "good_step h os h'"
proof -
  let ?key = "cr_bus_id request"
  obtain os1 h1 where h1: "host_expire now h = (os1, h1)" by fastforce
  note expired = good_expire [OF h1]
  show ?thesis
  proof (cases "check_grant now owner ?key (uh_authority h1)")
    case (Inl e)
    then show ?thesis using assms expired by (simp add: claim_device_def h1)
  next
    case (Inr expires)
    have native: "good_step h (os1 @ [NativeClaim owner ?key r]) h1" for r
      using good_authority [of h1 _ "uh_authority h1"] native_claim_rel [OF Inr] by (intro good_comp [OF expired]) simp
    have attached: "good_step h (os1 @ [NativeClaim owner ?key r, Claimed owner ?key i])
        (h1\<lparr>uh_authority := attach owner ?key i expires (uh_authority h1)\<rparr>)" for r i
      using good_comp [OF native good_authority [OF attach_rel [OF Inr]], of r i] by simp
    show ?thesis
      using assms expired native attached unfolding claim_device_def h1 Let_def prod.case Inr sum.case
      by (cases "hm_get (uh_catalog h1) ?key"; cases "cs_session_id answer") (auto split: if_splits)
  qed
qed

lemma good_submit:
  assumes "submit_transfer limit now owner t answer h = (os, r, h')"
  shows "good_step h os h'"
proof -
  obtain r1 a where b: "begin_transfer now owner (ut_session_id t) (ut_bus_id t) (ut_transfer_id t) (uh_authority h) = (r1, a)"
    by fastforce
  show ?thesis
  proof (cases r1)
    case (Inl e)
    then have "a = uh_authority h" using b by (auto simp: begin_transfer_def split: sum.splits option.splits if_splits)
    then show ?thesis using assms Inl b by (auto simp: submit_transfer_def)
  next
    case (Inr i)
    note begun = begin_rel [OF b [unfolded Inr]]
    have "good_step h [] (h\<lparr>uh_authority := a\<rparr>)" using good_authority begun(1) by blast
    moreover have "good_step h [Submitted owner (ut_bus_id t) i (t\<lparr>ut_bus_id := ud_bus_id device\<rparr>)] (h\<lparr>uh_authority := a\<rparr>)" for device
      by (rule good_authority) (simp add: begun(2))
    ultimately show ?thesis
      using assms by (auto simp: submit_transfer_def b Inr Let_def split: option.splits sum.splits)
  qed
qed

lemma good_release:
  assumes "host_release now owner i key answer h = (os, r, h')"
  shows "good_step h os h'"
proof -
  have "good_step h [NativeReleased i] (h\<lparr>uh_authority := remove_lease i (uh_authority h)\<rparr>)"
    using good_authority remove_rel by blast
  then show ?thesis using assms by (auto simp: host_release_def split: sum.splits)
qed

lemma usb_step_good: "usb_step is_uuid h c = (os, h') \<Longrightarrow> good_step h os h'"
  by (cases c)
    (auto simp: usb_step_def split: prod.splits
      intro: good_enumerate good_authorize good_revoke good_disconnect good_expire good_claim good_submit good_release)

interpretation usb: emitting_machine "usb_step is_uuid" host_ok "\<lambda>_. True" host_rel for is_uuid
proof unfold_locales
  fix h c assume "host_ok h"
  then show "host_ok (snd (usb_step is_uuid h c))"
    and "host_rel h (fst (usb_step is_uuid h c)) (snd (usb_step is_uuid h c))"
    using usb_step_good [OF prod.collapse [symmetric]] unfolding good_step_def by blast+
next
  fix h show "host_rel h [] h" by (simp add: host_rel_def usb_spec_refl)
qed (rule host_rel_comp)

section \<open>Properties\<close>

text \<open>What may happen while a lease waits for the transfer numbered \<open>n\<close>.\<close>

definition keeps_lease :: "usb_owner \<Rightarrow> ustring \<Rightarrow> uuid \<Rightarrow> u64 \<Rightarrow> usb_obs \<Rightarrow> bool" where
  "keeps_lease owner key i n x \<longleftrightarrow>
     (case x of
        Granted _ _ \<Rightarrow> True
      | Revoked p k \<Rightarrow> (p, k) \<noteq> (uo_peer owner, key)
      | Disconnected o' \<Rightarrow> o' \<noteq> owner
      | NativeClaim _ k _ \<Rightarrow> k \<noteq> key
      | Claimed _ k j \<Rightarrow> k \<noteq> key \<and> j \<noteq> i
      | NativeReleased j \<Rightarrow> j \<noteq> i
      | Submitted o' k j t \<Rightarrow> j = i \<longrightarrow> o' = owner \<and> k = key \<and> ut_transfer_id t < n)"

definition still_granted :: "uuid \<Rightarrow> ustring \<Rightarrow> usb_obs list \<Rightarrow> bool" where
  "still_granted peer key os \<longleftrightarrow> (\<exists>b1 b2. os = b1 @ Granted peer key # b2 \<and> Revoked peer key \<notin> set b2)"

lemma still_granted_Cons: "still_granted p k os \<Longrightarrow> still_granted p k (x # os)"
  unfolding still_granted_def by (metis append_Cons)

text \<open>The transfer has its lease at the start of the trace, or claims it on the way.\<close>

definition held_from_start :: "usb_holds \<Rightarrow> usb_owner \<Rightarrow> ustring \<Rightarrow> uuid \<Rightarrow> u64 \<Rightarrow> usb_obs list \<Rightarrow> bool" where
  "held_from_start L owner key i n os \<longleftrightarrow>
     (\<exists>l. L i = Some (owner, key, l) \<and> (\<forall>m. l = Some m \<longrightarrow> m < n)) \<and> list_all (keeps_lease owner key i n) os"

definition claimed_within :: "usb_grants \<Rightarrow> usb_owner \<Rightarrow> ustring \<Rightarrow> uuid \<Rightarrow> u64 \<Rightarrow> usb_obs list \<Rightarrow> bool" where
  "claimed_within G owner key i n os \<longleftrightarrow>
     (\<exists>b ys. os = b @ Claimed owner key i # ys \<and> list_all (keeps_lease owner key i n) ys \<and>
        ((uo_peer owner, key) \<in> G \<and> Revoked (uo_peer owner) key \<notin> set b \<or> still_granted (uo_peer owner) key b))"

lemma claimed_Cons:
  assumes "claimed_within G' owner key i n os"
    and "(uo_peer owner, key) \<in> G' \<Longrightarrow>
      (uo_peer owner, key) \<in> G \<and> x \<noteq> Revoked (uo_peer owner) key \<or> x = Granted (uo_peer owner) key"
  shows "claimed_within G owner key i n (x # os)"
proof -
  obtain b ys where b: "os = b @ Claimed owner key i # ys" "list_all (keeps_lease owner key i n) ys"
      "(uo_peer owner, key) \<in> G' \<and> Revoked (uo_peer owner) key \<notin> set b \<or> still_granted (uo_peer owner) key b"
    using assms(1) unfolding claimed_within_def by blast
  then have "(uo_peer owner, key) \<in> G \<and> Revoked (uo_peer owner) key \<notin> set (x # b) \<or>
      still_granted (uo_peer owner) key (x # b)"
    using assms(2) still_granted_Cons unfolding still_granted_def by (metis append_Nil set_ConsD)
  moreover have "x # os = (x # b) @ Claimed owner key i # ys" using b(1) by simp
  ultimately show ?thesis using b(2) unfolding claimed_within_def by blast
qed

lemma held_Cons:
  "held_from_start L1 owner key i n os \<Longrightarrow> L1 i = L i \<Longrightarrow> (\<And>l. L i = Some (owner, key, l) \<Longrightarrow> keeps_lease owner key i n x) \<Longrightarrow>
     held_from_start L owner key i n (x # os)"
  by (auto simp: held_from_start_def)

lemma spec_transfer_needs_claim:
  assumes "usb_spec G L os G' L'" and "os = os1 @ Submitted owner key i t # os2"
  shows "held_from_start L owner key i (ut_transfer_id t) os1 \<or> claimed_within G owner key i (ut_transfer_id t) os1"
  using assms
proof (induction arbitrary: os1 rule: usb_spec.induct)
  case (spec_end G' G L L')
  then show ?case by simp
next
  case (spec_grant p k G L os G' L')
  then obtain o1 where o1: "os1 = Granted p k # o1" "os = o1 @ Submitted owner key i t # os2" by (cases os1) auto
  show ?case using spec_grant.IH [OF o1(2)] unfolding o1(1)
    by (auto simp: keeps_lease_def intro: held_Cons claimed_Cons)
next
  case (spec_revoke L k p G os G' L')
  then obtain o1 where o1: "os1 = Revoked p k # o1" "os = o1 @ Submitted owner key i t # os2" by (cases os1) auto
  have "held_from_start L owner key i (ut_transfer_id t) os1" if "held_from_start L owner key i (ut_transfer_id t) o1"
    unfolding o1(1) using spec_revoke.hyps(1) by (intro held_Cons [OF that]) (auto simp: keeps_lease_def)
  then show ?case using spec_revoke.IH [OF o1(2)] unfolding o1(1) by (auto intro: claimed_Cons)
next
  case (spec_disconnect L o' G os G' L')
  then obtain o1 where o1: "os1 = Disconnected o' # o1" "os = o1 @ Submitted owner key i t # os2" by (cases os1) auto
  have "held_from_start L owner key i (ut_transfer_id t) os1" if "held_from_start L owner key i (ut_transfer_id t) o1"
    unfolding o1(1) using spec_disconnect.hyps(1) by (intro held_Cons [OF that]) (auto simp: keeps_lease_def)
  then show ?case using spec_disconnect.IH [OF o1(2)] unfolding o1(1) by (auto intro: claimed_Cons)
next
  case (spec_native_claim o' k G L os G' L' r)
  then obtain o1 where o1: "os1 = NativeClaim o' k r # o1" "os = o1 @ Submitted owner key i t # os2" by (cases os1) auto
  have "held_from_start L owner key i (ut_transfer_id t) os1" if "held_from_start L owner key i (ut_transfer_id t) o1"
    unfolding o1(1) using spec_native_claim.hyps(2) by (intro held_Cons [OF that]) (auto simp: keeps_lease_def leased_def)
  then show ?case using spec_native_claim.IH [OF o1(2)] unfolding o1(1) by (auto intro: claimed_Cons)
next
  case (spec_claim o' k G L j os G' L')
  then obtain o1 where o1: "os1 = Claimed o' k j # o1" "os = o1 @ Submitted owner key i t # os2" by (cases os1) auto
  show ?case using spec_claim.IH [OF o1(2)]
  proof
    assume held: "held_from_start (L(j \<mapsto> (o', k, None))) owner key i (ut_transfer_id t) o1"
    show ?thesis
    proof (cases "j = i")
      case True
      then have "o' = owner" "k = key" "list_all (keeps_lease owner key i (ut_transfer_id t)) o1"
        using held by (auto simp: held_from_start_def)
      then have "claimed_within G owner key i (ut_transfer_id t) os1"
        using spec_claim.hyps(1) True unfolding claimed_within_def o1(1) by fastforce
      then show ?thesis ..
    next
      case False
      then have "held_from_start L owner key i (ut_transfer_id t) os1"
        unfolding o1(1) using spec_claim.hyps(2) by (intro held_Cons [OF held]) (auto simp: keeps_lease_def leased_def)
      then show ?thesis ..
    qed
  next
    assume "claimed_within G owner key i (ut_transfer_id t) o1"
    then show ?thesis unfolding o1(1) by (auto intro: claimed_Cons)
  qed
next
  case (spec_release G L j os G' L')
  then obtain o1 where o1: "os1 = NativeReleased j # o1" "os = o1 @ Submitted owner key i t # os2" by (cases os1) auto
  show ?case using spec_release.IH [OF o1(2)]
  proof
    assume held: "held_from_start (L(j := None)) owner key i (ut_transfer_id t) o1"
    then have "j \<noteq> i" by (auto simp: held_from_start_def)
    then show ?thesis using held_Cons [OF held, of L] by (simp add: o1(1) keeps_lease_def)
  next
    assume "claimed_within G owner key i (ut_transfer_id t) o1"
    then show ?thesis unfolding o1(1) by (auto intro: claimed_Cons)
  qed
next
  case (spec_submit L j o' k n u G os G' L')
  show ?case
  proof (cases os1)
    case Nil
    then show ?thesis using spec_submit.hyps(1,2) spec_submit.prems by (auto simp: held_from_start_def)
  next
    case (Cons x o1)
    then have o1: "os1 = Submitted o' k j u # o1" "os = o1 @ Submitted owner key i t # os2"
      using spec_submit.prems by auto
    show ?thesis using spec_submit.IH [OF o1(2)]
    proof
      assume held: "held_from_start (L(j \<mapsto> (o', k, Some (ut_transfer_id u)))) owner key i (ut_transfer_id t) o1"
      then have "held_from_start L owner key i (ut_transfer_id t) os1"
        using spec_submit.hyps(1,2) by (cases "j = i") (auto simp: o1(1) held_from_start_def keeps_lease_def)
      then show ?thesis ..
    next
      assume "claimed_within G owner key i (ut_transfer_id t) o1"
      then show ?thesis unfolding o1(1) by (auto intro: claimed_Cons)
    qed
  qed
qed

lemma host_new_ok: "host_ok host_new"
  by (simp add: host_ok_def host_new_def authority_ok_def authority_new_def catalog_ok_def)

lemma host_trace:
  assumes "run (usb_step is_uuid) host_new cs = (os, h)"
  shows "usb_spec {} (\<lambda>_. None) os (grants_of (uh_authority h)) (holds_of (uh_authority h))"
proof -
  have "grants_of (uh_authority host_new) = {}" and "holds_of (uh_authority host_new) = (\<lambda>_. None)"
    by (auto simp: grants_of_def holds_of_def host_new_def authority_new_def)
  then show ?thesis using usb.run_rel [OF host_new_ok, of cs is_uuid] assms by (simp add: host_rel_def)
qed

text \<open>
  C37. Every transfer that reaches a device has a claim behind it. However the host is driven, a submitted
  transfer of a connection, device and lease comes after the claim that gave this connection this lease
  of this device, and the claim after a grant of the local user to the peer that was not revoked in
  between. Since the claim the lease was not released, the grant not revoked and the connection not
  ended; no other claim of the device went out or was accepted; and every transfer on the lease was of
  the same connection and device, with a lower number.
\<close>

theorem usb_transfer_needs_claim:
  assumes "run (usb_step is_uuid) host_new cs = (os @ Submitted owner key i t # os', h)"
  shows "\<exists>b ys. os = b @ Claimed owner key i # ys \<and>
    list_all (keeps_lease owner key i (ut_transfer_id t)) ys \<and> still_granted (uo_peer owner) key b"
  using spec_transfer_needs_claim [OF host_trace [OF assms] refl]
  by (auto simp: held_from_start_def claimed_within_def)

definition usb_example_device :: usb_device_descriptor where
  "usb_example_device =
     \<lparr>ud_bus_id = ustr ''1-1'', ud_vendor_id = 1, ud_product_id = 2, ud_class_code = 0xFF, ud_subclass_code = 0,
      ud_protocol_code = 0, ud_manufacturer = None, ud_product = None, ud_serial_number = None,
      ud_usb_version_bcd = 0x0200, ud_device_version_bcd = 0, ud_speed = SpeedHigh, ud_active_configuration = Some 1,
      ud_container_id = None, ud_capture_exclusive_required = True,
      ud_configurations =
        [\<lparr>uc_configuration_value = 1, uc_description = None, uc_attributes = 0, uc_max_power_ma = 100,
          uc_interfaces =
            [\<lparr>ui_interface_number = 0, ui_alternate_setting = 0, ui_class_code = 0xFF, ui_subclass_code = 0,
              ui_protocol_code = 0, ui_description = None, ui_endpoints = []\<rparr>]\<rparr>],
      ud_endpoints = []\<rparr>"

definition usb_example_owner :: usb_owner where
  "usb_example_owner = \<lparr>uo_peer = 3, uo_connection = 4\<rparr>"

definition usb_example_claim :: usb_claim_request where
  "usb_example_claim =
     \<lparr>cr_request_id = 1, cr_bus_id = ustr ''k'', cr_exclusive = True, cr_configuration_value = Some 1,
      cr_interface_numbers = [0]\<rparr>"

definition usb_example_answer :: usb_claim_response where
  "usb_example_answer =
     \<lparr>cs_request_id = 1, cs_bus_id = ustr ''1-1'', cs_accepted = True, cs_session_id = Some 5,
      cs_granted_interfaces = [0], cs_message = None\<rparr>"

definition usb_example_calls :: "usb_call list" where
  "usb_example_calls =
     [UsbAuthorize (Inr [(ustr ''k'', usb_example_device)]) 0 3 (ustr ''k'') 60,
      UsbClaim 1 usb_example_owner usb_example_claim usb_example_answer,
      UsbSubmit 1024 2 usb_example_owner usb_example_transfer (Inl (UsbProvider []))]"

lemma usb_example_run:
  "fst (run (usb_step (\<lambda>_. True)) host_new usb_example_calls) =
     [Granted 3 (ustr ''k''), NativeClaim usb_example_owner (ustr ''k'') (usb_example_claim\<lparr>cr_bus_id := ustr ''1-1''\<rparr>),
      Claimed usb_example_owner (ustr ''k'') 5] @
     Submitted usb_example_owner (ustr ''k'') 5 (usb_example_transfer\<lparr>ut_bus_id := ustr ''1-1''\<rparr>) # []"
  by (simp add: usb_example_calls_def usb_step_def host_new_def authority_new_def authorize_device_def enumerate_devices_def
      check_profile_def grant_def claim_device_def host_expire_def expire_leases_def take_where_def host_releases_def
      check_grant_def attach_def submit_transfer_def begin_transfer_def check_lease_def Let_def hm_get_def hm_put_def
      hm_del_def hm_retain_def utf8_len_def utf8_width_def ustr_def usb_example_device_def usb_example_owner_def
      usb_example_claim_def usb_example_answer_def validate_transfer_def usb_example_transfer_def control_setup_packet_def
      setup_to_from setup_from_raw_def setup_to_raw_def le16_def low_byte_def high_byte_def)

lemma usb_transfer_needs_claim_witness:
  "\<exists>b ys. [Granted 3 (ustr ''k''), NativeClaim usb_example_owner (ustr ''k'') (usb_example_claim\<lparr>cr_bus_id := ustr ''1-1''\<rparr>),
       Claimed usb_example_owner (ustr ''k'') 5] = b @ Claimed usb_example_owner (ustr ''k'') 5 # ys \<and>
     still_granted (uo_peer usb_example_owner) (ustr ''k'') b"
proof -
  obtain h where "run (usb_step (\<lambda>_. True)) host_new usb_example_calls =
      (fst (run (usb_step (\<lambda>_. True)) host_new usb_example_calls), h)"
    by (metis prod.collapse)
  from usb_transfer_needs_claim [OF this [unfolded usb_example_run]] show ?thesis by blast
qed

text \<open>
  C38. The tables of the USB host are bounded and devices are leased exclusively: in every state it reaches
  there are at most 256 grants, 256 listed devices and 32 leases, and no two leases are of one device.
\<close>

theorem usb_leases_exclusive:
  "case run (usb_step is_uuid) host_new cs of
     (_, h) \<Rightarrow> length (ua_grants (uh_authority h)) \<le> 256 \<and> length (uh_catalog h) \<le> 256 \<and>
       length (ua_leases (uh_authority h)) \<le> 32 \<and> distinct (map (ul_key \<circ> snd) (ua_leases (uh_authority h)))"
  using usb.run_inv [OF host_new_ok, of cs is_uuid]
  by (cases "run (usb_step is_uuid) host_new cs") (simp add: host_ok_def authority_ok_def catalog_ok_def)

end
