(* ===== verification/UsbBudget.thy ===== *)
theory UsbBudget
  imports UsbAuthority
begin

text \<open>
  The memory that USB requests may hold (\<open>crates/rshare-core/src/usb_budget.rs\<close>): one reservation per
  request, counted against the host, the peer and the lease, and given back when its guard is dropped.
  A count that would go below zero and a missing entry, which panic, are the value None.
\<close>

record usb_usage =
  uu_requests :: nat
  uu_bytes :: nat

record usb_counts =
  uc_total :: usb_usage
  uc_peers :: "(uuid, usb_usage) hash_map"
  uc_leases :: "(usb_owner \<times> uuid, usb_usage) hash_map"

record usb_reservation =
  ur_owner :: usb_owner
  ur_lease :: uuid
  ur_bytes :: nat

datatype usb_budget_error = SingleRequestExhausted | BudgetExhausted

definition no_usage :: usb_usage where
  "no_usage = \<lparr>uu_requests = 0, uu_bytes = 0\<rparr>"

definition counts_new :: usb_counts where
  "counts_new = \<lparr>uc_total = no_usage, uc_peers = [], uc_leases = []\<rparr>"

definition add_usage :: "nat \<Rightarrow> usb_usage \<Rightarrow> usb_usage" where
  "add_usage n u = \<lparr>uu_requests = uu_requests u + 1, uu_bytes = uu_bytes u + n\<rparr>"

definition subtract_usage :: "nat \<Rightarrow> usb_usage \<Rightarrow> usb_usage option" where
  "subtract_usage n u =
     (if uu_requests u < 1 \<or> uu_bytes u < n then None
      else Some \<lparr>uu_requests = uu_requests u - 1, uu_bytes = uu_bytes u - n\<rparr>)"

definition usage_at :: "('k, usb_usage) hash_map \<Rightarrow> 'k \<Rightarrow> usb_usage" where
  "usage_at m k = (case hm_get m k of Some u \<Rightarrow> u | None \<Rightarrow> no_usage)"

definition reserve_usb ::
  "usb_owner \<Rightarrow> uuid \<Rightarrow> nat \<Rightarrow> usb_counts \<Rightarrow> (usb_budget_error + usb_reservation) \<times> usb_counts" where
  "reserve_usb owner lease capacity c =
     (if 1024 * 1024 < capacity then (Inl SingleRequestExhausted, c)
      else
        let n = capacity * 3 + 1024;
            peer = usage_at (uc_peers c) (uo_peer owner);
            leased = usage_at (uc_leases c) (owner, lease)
        in if 64 * 1024 * 1024 < uu_bytes (uc_total c) + n \<or> 512 \<le> uu_requests (uc_total c) \<or>
              16 * 1024 * 1024 < uu_bytes peer + n \<or> 128 \<le> uu_requests peer \<or>
              4 * 1024 * 1024 < uu_bytes leased + n \<or> 32 \<le> uu_requests leased
           then (Inl BudgetExhausted, c)
           else (Inr \<lparr>ur_owner = owner, ur_lease = lease, ur_bytes = n\<rparr>,
                 c\<lparr>uc_total := add_usage n (uc_total c),
                   uc_peers := hm_put (uo_peer owner) (add_usage n peer) (uc_peers c),
                   uc_leases := hm_put (owner, lease) (add_usage n leased) (uc_leases c)\<rparr>))"

definition refund :: "'k \<Rightarrow> nat \<Rightarrow> ('k, usb_usage) hash_map \<Rightarrow> ('k, usb_usage) hash_map option" where
  "refund k n m =
     (case hm_get m k of
        None \<Rightarrow> None
      | Some u \<Rightarrow>
          (case subtract_usage n u of
             None \<Rightarrow> None
           | Some u \<Rightarrow> Some (if uu_requests u = 0 then hm_del k m else hm_put k u m)))"

definition drop_reservation :: "usb_reservation \<Rightarrow> usb_counts \<Rightarrow> usb_counts option" where
  "drop_reservation r c =
     (case subtract_usage (ur_bytes r) (uc_total c) of
        None \<Rightarrow> None
      | Some all \<Rightarrow>
          (case refund (uo_peer (ur_owner r)) (ur_bytes r) (uc_peers c) of
             None \<Rightarrow> None
           | Some peers \<Rightarrow>
               (case refund (ur_owner r, ur_lease r) (ur_bytes r) (uc_leases c) of
                  None \<Rightarrow> None
                | Some leases \<Rightarrow> Some \<lparr>uc_total = all, uc_peers = peers, uc_leases = leases\<rparr>)))"

section \<open>Runs\<close>

text \<open>Requests reserve and, in any order, the guards they hold are dropped.\<close>

datatype usb_budget_call = ReserveUsb usb_owner uuid nat | DropGuard nat

fun budget_run :: "usb_counts \<Rightarrow> usb_reservation list \<Rightarrow> usb_budget_call list \<Rightarrow> (usb_counts \<times> usb_reservation list) option" where
  "budget_run c held [] = Some (c, held)"
| "budget_run c held (ReserveUsb owner lease n # cs) =
     (case reserve_usb owner lease n c of
        (Inl _, c) \<Rightarrow> budget_run c held cs
      | (Inr r, c) \<Rightarrow> budget_run c (r # held) cs)"
| "budget_run c held (DropGuard i # cs) =
     (if i < length held then
        (case drop_reservation (held ! i) c of
           None \<Rightarrow> None
         | Some c \<Rightarrow> budget_run c (remove_nth i held) cs)
      else budget_run c held cs)"

section \<open>The books\<close>

text \<open>What a list of reservations comes to, and what one key of a table has of it.\<close>

definition usage_of :: "usb_reservation list \<Rightarrow> usb_usage" where
  "usage_of rs = \<lparr>uu_requests = length rs, uu_bytes = sum_list (map ur_bytes rs)\<rparr>"

definition tallied :: "(usb_reservation \<Rightarrow> 'k) \<Rightarrow> ('k, usb_usage) hash_map \<Rightarrow> usb_reservation list \<Rightarrow> bool" where
  "tallied f m held \<longleftrightarrow>
     hm_wf m \<and>
     (\<forall>k. hm_get m k =
        (let rs = filter (\<lambda>r. f r = k) held in if rs = [] then None else Some (usage_of rs)))"

lemma usage_of_Nil: "usage_of [] = no_usage"
  by (simp add: usage_of_def no_usage_def)

lemma add_usage_of: "add_usage (ur_bytes r) (usage_of rs) = usage_of (r # rs)"
  by (simp add: add_usage_def usage_of_def)

lemma subtract_usage_of: "subtract_usage (ur_bytes r) (usage_of (xs @ r # ys)) = Some (usage_of (xs @ ys))"
  by (simp add: subtract_usage_def usage_of_def)

lemma tallied_usage: "tallied f m held \<Longrightarrow> usage_at m k = usage_of (filter (\<lambda>r. f r = k) held)"
  by (simp add: tallied_def usage_at_def Let_def usage_of_Nil split: if_split)

lemma tallied_add:
  assumes "tallied f m held"
  shows "tallied f (hm_put (f r) (add_usage (ur_bytes r) (usage_at m (f r))) m) (r # held)"
  using assms by (auto simp: tallied_def hm.wf_put hm.get_put Let_def tallied_usage [OF assms] add_usage_of)

lemma tallied_refund:
  assumes "tallied f m (xs @ r # ys)"
  shows "\<exists>m'. refund (f r) (ur_bytes r) m = Some m' \<and> tallied f m' (xs @ ys)"
proof -
  let ?of = "\<lambda>k rs. filter (\<lambda>r. f r = k) rs"
  have wf: "hm_wf m" and "hm_get m (f r) = Some (usage_of (?of (f r) xs @ r # ?of (f r) ys))"
    using assms by (simp_all add: tallied_def)
  then have step: "refund (f r) (ur_bytes r) m =
      Some (if ?of (f r) (xs @ ys) = [] then hm_del (f r) m else hm_put (f r) (usage_of (?of (f r) (xs @ ys))) m)"
    by (simp add: refund_def subtract_usage_of) (simp add: usage_of_def)
  have others: "hm_get m k = (let rs = ?of k (xs @ ys) in if rs = [] then None else Some (usage_of rs))" if "k \<noteq> f r" for k
    using assms that by (simp add: tallied_def)
  have "tallied f (if ?of (f r) (xs @ ys) = [] then hm_del (f r) m else hm_put (f r) (usage_of (?of (f r) (xs @ ys))) m) (xs @ ys)"
    using others unfolding tallied_def by (simp add: hm.wf_del [OF wf] hm.wf_put [OF wf] hm.get_del [OF wf] hm.get_put [OF wf] Let_def)
  then show ?thesis using step by blast
qed

definition usage_within :: "nat \<Rightarrow> nat \<Rightarrow> ('k, usb_usage) hash_map \<Rightarrow> bool" where
  "usage_within b n m \<longleftrightarrow> (\<forall>k. uu_bytes (usage_at m k) \<le> b \<and> uu_requests (usage_at m k) \<le> n)"

definition within_budget :: "usb_counts \<Rightarrow> bool" where
  "within_budget c \<longleftrightarrow>
     uu_bytes (uc_total c) \<le> 64 * 1024 * 1024 \<and> uu_requests (uc_total c) \<le> 512 \<and>
     usage_within (16 * 1024 * 1024) 128 (uc_peers c) \<and> usage_within (4 * 1024 * 1024) 32 (uc_leases c)"

definition books_ok :: "usb_counts \<Rightarrow> usb_reservation list \<Rightarrow> bool" where
  "books_ok c held \<longleftrightarrow>
     uc_total c = usage_of held \<and> tallied (\<lambda>r. uo_peer (ur_owner r)) (uc_peers c) held \<and>
     tallied (\<lambda>r. (ur_owner r, ur_lease r)) (uc_leases c) held"

lemma within_add:
  "usage_within b n m \<Longrightarrow> hm_wf m \<Longrightarrow> uu_bytes (usage_at m k) + x \<le> b \<Longrightarrow> uu_requests (usage_at m k) < n \<Longrightarrow>
   usage_within b n (hm_put k (add_usage x (usage_at m k)) m)"
  by (simp add: usage_within_def usage_at_def [of "hm_put k _ m"] hm.get_put add_usage_def) (simp add: usage_at_def)

lemma reserve_ok:
  assumes "reserve_usb owner lease capacity c = (Inr r, c')" and "books_ok c held" and "within_budget c"
  shows "books_ok c' (r # held)" and "within_budget c'"
proof -
  let ?n = "capacity * 3 + 1024"
  have r: "r = \<lparr>ur_owner = owner, ur_lease = lease, ur_bytes = ?n\<rparr>"
    and c': "c' = c\<lparr>uc_total := add_usage ?n (uc_total c),
        uc_peers := hm_put (uo_peer owner) (add_usage ?n (usage_at (uc_peers c) (uo_peer owner))) (uc_peers c),
        uc_leases := hm_put (owner, lease) (add_usage ?n (usage_at (uc_leases c) (owner, lease))) (uc_leases c)\<rparr>"
    and fits: "uu_bytes (uc_total c) + ?n \<le> 64 * 1024 * 1024" "uu_requests (uc_total c) < 512"
      "uu_bytes (usage_at (uc_peers c) (uo_peer owner)) + ?n \<le> 16 * 1024 * 1024"
      "uu_requests (usage_at (uc_peers c) (uo_peer owner)) < 128"
      "uu_bytes (usage_at (uc_leases c) (owner, lease)) + ?n \<le> 4 * 1024 * 1024"
      "uu_requests (usage_at (uc_leases c) (owner, lease)) < 32"
    using assms(1) unfolding reserve_usb_def Let_def by (simp_all split: if_split_asm)
  note books = assms(2) [unfolded books_ok_def]
  show "books_ok c' (r # held)"
    using books add_usage_of [of r held] tallied_add [of "\<lambda>r. uo_peer (ur_owner r)" "uc_peers c" held r]
      tallied_add [of "\<lambda>r. (ur_owner r, ur_lease r)" "uc_leases c" held r]
    by (simp add: books_ok_def c' r)
  have wf: "hm_wf (uc_peers c)" "hm_wf (uc_leases c)" using books by (simp_all add: tallied_def)
  have within: "usage_within (16 * 1024 * 1024) 128 (uc_peers c)" "usage_within (4 * 1024 * 1024) 32 (uc_leases c)"
    using assms(3) unfolding within_budget_def by blast+
  show "within_budget c'"
    using fits(1,2) within_add [OF within(1) wf(1) fits(3,4)] within_add [OF within(2) wf(2) fits(5,6)]
    by (simp add: within_budget_def c') (simp add: add_usage_def)
qed

lemma usage_of_fewer:
  "uu_bytes (usage_of (filter p (xs @ ys))) \<le> uu_bytes (usage_of (filter p (xs @ r # ys)))"
  "uu_requests (usage_of (filter p (xs @ ys))) \<le> uu_requests (usage_of (filter p (xs @ r # ys)))"
  by (simp_all add: usage_of_def)

lemma within_fewer:
  assumes "usage_within b n m" and "tallied f m (xs @ r # ys)" and "tallied f m' (xs @ ys)"
  shows "usage_within b n m'"
  using assms(1) usage_of_fewer [of _ xs ys r] unfolding usage_within_def tallied_usage [OF assms(2)] tallied_usage [OF assms(3)]
  by (meson order_trans)

lemma drop_ok:
  assumes "books_ok c (xs @ r # ys)" and "within_budget c"
  shows "\<exists>c'. drop_reservation r c = Some c' \<and> books_ok c' (xs @ ys) \<and> within_budget c'"
proof -
  note books = assms(1) [unfolded books_ok_def]
  obtain peers where peers: "refund (uo_peer (ur_owner r)) (ur_bytes r) (uc_peers c) = Some peers"
      "tallied (\<lambda>r. uo_peer (ur_owner r)) peers (xs @ ys)"
    using tallied_refund [OF conjunct1 [OF conjunct2 [OF books]]] by blast
  obtain leases where leases: "refund (ur_owner r, ur_lease r) (ur_bytes r) (uc_leases c) = Some leases"
      "tallied (\<lambda>r. (ur_owner r, ur_lease r)) leases (xs @ ys)"
    using tallied_refund [OF conjunct2 [OF conjunct2 [OF books]]] by blast
  let ?c = "\<lparr>uc_total = usage_of (xs @ ys), uc_peers = peers, uc_leases = leases\<rparr>"
  have "drop_reservation r c = Some ?c"
    using books peers(1) leases(1) by (simp add: drop_reservation_def subtract_usage_of)
  moreover have "books_ok ?c (xs @ ys)" using peers(2) leases(2) by (simp add: books_ok_def)
  moreover have "within_budget ?c"
    using assms(2) books within_fewer [OF _ conjunct1 [OF conjunct2 [OF books]] peers(2)]
      within_fewer [OF _ conjunct2 [OF conjunct2 [OF books]] leases(2)]
    by (simp add: within_budget_def usage_of_def)
  ultimately show ?thesis by blast
qed

lemma budget_run_ok:
  "books_ok c held \<Longrightarrow> within_budget c \<Longrightarrow>
     \<exists>c' held'. budget_run c held cs = Some (c', held') \<and> books_ok c' held' \<and> within_budget c'"
proof (induction c held cs rule: budget_run.induct)
  case (1 c held)
  then show ?case by simp
next
  case (2 c held owner lease n cs)
  obtain r c' where r: "reserve_usb owner lease n c = (r, c')" by fastforce
  show ?case
  proof (cases r)
    case (Inl e)
    then have "c' = c" using r by (auto simp: reserve_usb_def Let_def split: if_splits)
    then show ?thesis using 2 r Inl by simp
  next
    case (Inr x)
    then show ?thesis using 2 r reserve_ok [of owner lease n c x c' held] by simp
  qed
next
  case (3 c held i cs)
  show ?case
  proof (cases "i < length held")
    case True
    then have "books_ok c (take i held @ held ! i # drop (Suc i) held)" using 3(3) by (simp add: id_take_nth_drop [symmetric])
    from drop_ok [OF this 3(4)] obtain c' where "drop_reservation (held ! i) c = Some c'"
        "books_ok c' (remove_nth i held)" "within_budget c'"
      by (auto simp: remove_nth_def)
    then show ?thesis using 3(1) True by simp
  qed (use 3 in simp)
qed

lemma counts_new_ok: "books_ok counts_new []" and counts_new_within: "within_budget counts_new"
  by (simp_all add: books_ok_def counts_new_def tallied_def usage_of_Nil within_budget_def usage_within_def usage_at_def no_usage_def)

text \<open>
  C40. The USB budget is never exceeded and never wrong. Whatever requests reserve and in whatever order
  their guards are dropped, no drop panics, the counts are exactly the sums over the guards still held
  (in all, per peer and per lease, so nothing remains charged when all are dropped), and they stay
  usage_within 64 MiB and 512 requests, 16 MiB and 128 requests of a peer, 4 MiB and 32 requests of a lease.
\<close>

theorem usb_budget_balanced:
  "\<exists>c held. budget_run counts_new [] cs = Some (c, held) \<and> uc_total c = usage_of held \<and>
     (\<forall>p. usage_at (uc_peers c) p = usage_of (filter (\<lambda>r. uo_peer (ur_owner r) = p) held)) \<and>
     (\<forall>l. usage_at (uc_leases c) l = usage_of (filter (\<lambda>r. (ur_owner r, ur_lease r) = l) held)) \<and>
     within_budget c"
proof -
  obtain c held where run: "budget_run counts_new [] cs = Some (c, held)" and books: "books_ok c held" and "within_budget c"
    using budget_run_ok [OF counts_new_ok counts_new_within] by blast
  moreover have "uc_total c = usage_of held" "usage_at (uc_peers c) p = usage_of (filter (\<lambda>r. uo_peer (ur_owner r) = p) held)"
    "usage_at (uc_leases c) l = usage_of (filter (\<lambda>r. (ur_owner r, ur_lease r) = l) held)" for p l
    using books by (simp_all add: books_ok_def tallied_usage)
  ultimately show ?thesis by blast
qed

end
