(* ===== verification/Spec2Isabelle.thy ===== *)
theory Spec2Isabelle
  imports Common Maps Session Geometry Layout Repair Routes InputProtocol Router RouterProofs
    RouterSpec IngressSpec     FileTransfer InjectionMachine InjectionTiming NetCodec QosSpec FileExchange FileSpec UsbSpec UsbBudget
begin
text \<open>
  R-ShareMouse shares one mouse and keyboard between computers. On the machine the user sits at, a
  platform capture produces input events (\<open>rshare-input/src/events.rs\<close>) that go through a bounded
  ingress (\<open>ingress.rs\<close>) to the daemon. Its input router (\<open>rshare-core/src/input_router.rs\<close>) knows
  the layout of all screens (\<open>layout.rs\<close>) and the state of the capture session (\<open>session.rs\<close>); when
  the pointer crosses an edge that leads to a peer it forwards the input as frames
  (\<open>rshare-core/src/input.rs\<close>), and it remembers every key and button it has sent down, so that it can
  release them when it leaves. The transport (\<open>rshare-net/src/qos.rs\<close>, \<open>codec.rs\<close>) sends pointer motion
  as datagrams that may be lost and keys, buttons and wheel on a reliable stream. The peer admits the
  frames of one owner at a time and injects them (\<open>rshare-input/src/injection_actor.rs\<close>). Beside the
  input run file drops (\<open>rshare-core/src/file_transfer.rs\<close>, \<open>rshare-net/src/file_transfer.rs\<close>) and the
  forwarding of USB devices (\<open>rshare-core/src/usb_authority.rs\<close>, \<open>usb_budget.rs\<close>,
  \<open>rshare-platform/src/usb_forwarding.rs\<close>). This development models these parts and proves what makes
  each of them correct. Paths below are under \<open>src/crates/\<close>.

  How the model reads. A struct is a record whose fields carry a prefix, an enum a datatype, a
  \<open>Result\<close> a value of \<open>error + 'a\<close> with the code's reasons, a method a function from the state to its
  result and the state after it. \<open>Prelude\<close> has the integer types (unsigned integers that are only counted
  or compared are \<open>nat\<close>, signed ones \<open>int\<close>, with every saturating, checked or wrapping operation named;
  the bytes of a set-up packet and the identifiers are words), the list updates the code uses, and two
  contracts as locales: \<open>machine\<close>, a step with an invariant, and \<open>emitting_machine\<close>, which also keeps a
  composable relation between the states and what was emitted. Their facts about whole runs are proved
  once and each component interprets them on its own step function. \<open>Maps\<close> has the contract \<open>key_map\<close>
  and its two instances, \<open>HashMap\<close> (an order without meaning) and \<open>BTreeMap\<close> (ascending keys).
  \<open>Common\<close> has the vocabulary of \<open>rshare-common\<close>, \<open>perf.rs\<close>, \<open>runtime.rs\<close> and \<open>input_mode.rs\<close>. Instants
  and durations are milliseconds or nanoseconds as \<open>nat\<close>, as the code has them.

  Atomicity. Code under a mutex is one step; a task goes from one \<open>await\<close> to the next, and each such
  poll is one step; what the code awaits (the clock, a file system, a QUIC stream, a native device) is an
  argument of the step that uses the answer. A run is a list of calls and polls in any order, so the
  properties hold for every interleaving of producers, tasks and peers. A method that locks twice is
  two steps: approving a file is three (take the offer, register the transfer, record a refusal). The
  worker of the injection actor takes an item and applies it in two steps.

  The sending side.
  \<open>Session\<close> (\<open>rshare-core/src/session.rs\<close>): the capture session and the states it can reach.
  \<open>Geometry\<close>, \<open>Layout\<close>, \<open>Repair\<close>, \<open>Routes\<close> (\<open>layout.rs\<close>): rectangles and projections; the graph of
  devices and links; the collision repair, which ends (the termination of \<open>settle\<close>), separates every
  movable device and moves displays of one device together; discovery merges; the route cache, which agrees
  with the query it caches.
  \<open>InputProtocol\<close> (\<open>input.rs\<close>): epochs and frames; the receiver's gate, which never accepts a frame
  twice or out of order; the ledger of held controls, its release batches and their confirmation, which
  clears exactly what was held when the batch was made and was not pressed again.
  \<open>Router\<close>, \<open>RouterProofs\<close>, \<open>RouterSpec\<close> (\<open>input_router.rs\<close>): every command of the router, its invariant
  \<open>router_ok\<close> and its relation \<open>router_rel\<close>, and the properties of the routers that occur: input goes to the
  active device only, sequence numbers increase, the pointer it tracks is on the active display, it
  enters a peer exactly by a move to a routed edge and returns exactly at the edge it came by, every device
  it leaves is sent a release of all that is held, and an observer of its outputs knows its state.
  \<open>KeyCodes\<close>, \<open>InputEvents\<close> (\<open>events.rs\<close>, with the structs of \<open>rshare-platform\<close>): the wire numbers of keys,
  which decode and encode inversely, the native tables, and the conversion of captured events.
  \<open>Ingress\<close>, \<open>IngressSpec\<close> (\<open>ingress.rs\<close>): the queue keeps discrete events in order and relative motion
  as a sum, stays bounded, and when closed is read to its end.
  \<open>NetCodec\<close> (\<open>codec.rs\<close>): the binary format of realtime input, a bijection between frames and accepted
  datagrams; the framing of the other messages; the streaming decoder, which does not depend on how the
  stream is cut.
  \<open>QosSender\<close>, \<open>QosEmitter\<close>, \<open>QosSpec\<close> (\<open>qos.rs\<close>): the admission of frames, the epochs it retires, the
  writers and the publisher of terminal releases, from await to await. Nothing of a retired epoch is
  written or admitted; every retired epoch is released on the wire or to the consumer; the reliable
  stream carries admitted frames in order and at most once; the consumer sees increasing epochs.

  The receiving side.
  \<open>InjectionQueue\<close>, \<open>InjectionWorker\<close>, \<open>InjectionProofs\<close>, \<open>InjectionSpec\<close>, \<open>InjectionMachine\<close>,
  \<open>InjectionTiming\<close> (\<open>injection_actor.rs\<close>): admission of sessions and frames, the choice of the next work item, what the
  worker does with it, its ledgers and the timing ring. No run panics; the queues are bounded; the gate
  of the worker accepts all that the admission let in; reliable frames keep their order and no motion
  overtakes a button; relative motion is neither lost nor invented; the end of a session releases every
  held control; a caller that waits for the timing of a recorded frame is answered.

  File drops.
  \<open>FileTransfer\<close> (\<open>rshare-core/src/file_transfer.rs\<close>): the manifest check, which accepts exactly the sound
  manifests, and the drop receipts. \<open>FileService\<close>, \<open>FileSession\<close>, \<open>FileExchange\<close>
  (\<open>rshare-net/src/file_transfer.rs\<close>): the service, the receiver as phases between awaits, the sender as straight
  code over an exchange of packets, and both put together: a drop over a working link publishes
  exactly the files sent. \<open>FileQuota\<close>, \<open>FileMachine\<close>, \<open>FileSpec\<close>: the service as a machine of its calls
  and of the polls of its tasks; its traces are traces of a ledger in which a publication uses up one
  approval and holds exactly the approved manifest; paths stay inside; the quotas hold. The quota property assumes
  that no identifier is approved twice: a receive that has completed calls \<open>finish\<close> once more when its last
  acknowledgement is written, and would end a later transfer of the same identifier.

  USB forwarding.
  \<open>UsbTypes\<close> (\<open>protocol/mod.rs\<close>, \<open>validate_transfer\<close>): set-up packets, which decode and encode inversely, and
  the check of a transfer, which lets through bounded descriptor reads and transfers to matching
  endpoints only. \<open>UsbAuthority\<close> (\<open>usb_authority.rs\<close>, \<open>ExperimentalUsbHostRuntime\<close>): grants, leases and
  every method of the host. \<open>UsbSpec\<close>: the abstract host \<open>usb_spec\<close>, which every run refines, and what
  follows: a transfer reaches a device only under a claim of its connection and a grant of the
  local user, with a new number, and devices are leased exclusively. \<open>UsbBudget\<close> (\<open>usb_budget.rs\<close>): the
  books of the reservations are exact and stay within their limits, and dropping a guard never panics.

  Bounds. The limits are the code's constants under the code's names (\<open>limit_defs\<close> in \<open>FileService\<close>, the
  capacities of the queues in \<open>InjectionQueue\<close> and \<open>QosSender\<close>). One function takes fuel: \<open>drain\<close> of
  \<open>IngressSpec\<close>, the consumer's loop, and its property shows that one more than the capacity is enough.
  The link of \<open>FileExchange\<close> polls the receiver four times for each packet, and the property shows that the
  receiver then always waits for the next one. All other loops recurse on data or on a proved measure.

  Arguments that stand for code outside the repository: SHA-256, lower casing, the UUID parser, \<open>bincode\<close> and
  \<open>serde_json\<close>, the answers of QUIC, of the file system, of the native USB provider and of the injection
  backend, fresh identifiers and clocks. A property that relies on one of them says so as a hypothesis.

  Not modelled. The network back ends of \<open>rshare-net\<close> (\<open>connection.rs\<close>, \<open>transport.rs\<close>, discovery, the handshake but
  for its negotiated versions), the platform back ends of \<open>rshare-platform\<close> and the listeners and emulators of
  \<open>rshare-input\<close>: input and output against operating systems and libraries. Audio: floating point
  signal code over device streams. The daemon, the command line and the desktop applications: wiring of
  the components above to tasks and IPC. Configuration, device registry and UI state: serialised structs.
  Of \<open>qos.rs\<close> the awaited control and bulk lanes and the message classifier; of the file sessions the
  collection of sources, the naming of copies and the measuring of directories. Serde encodings and
  wake-ups of waiting tasks are the libraries' and the runtime's.
\<close>
end
